(* ===== verification/Prelude.thy ===== *)
theory Prelude
  imports Complex_Main "HOL-Library.AList"
begin

text \<open>
  What every component of the development shares: the exception classes of Python and of
  \<^verbatim>\<open>errors.py\<close> with the subclass relation an \<^verbatim>\<open>except\<close> clause tests,
  computations that read and write a state and may raise, the loops of the hosts as iteration
  of a turn, dictionaries with Python's insertion order, and a few lemmas on them.
\<close>

named_theorems eff_defs \<open>definitions of the effect combinators\<close>
named_theorems keeps_intros \<open>rules that show that a computation keeps an invariant\<close>
named_theorems triple_intros \<open>rules that show a pre/postcondition of a computation\<close>

section \<open>Exceptions\<close>

text \<open>
  The classes of exceptions the package raises or tests for. \<open>UserError n c\<close> is a class
  named \<open>n\<close> that a consumer derives from \<open>c\<close>.
\<close>

datatype exc_class =
    BaseException | KeyboardInterrupt | Exception
  | ValueError | UnicodeDecodeError | JSONDecodeError | TypeError | LookupError | KeyError | IndexError
  | RuntimeError | AssertionError | ArithmeticError | OverflowError | ZeroDivisionError
  | OSError | FileNotFoundError | FileExistsError | PermissionError | IsADirectoryError
  | NotADirectoryError | TimeoutError | ImportError | AttributeError
  | DatasourceKitError | InventoryError | ProfileError | ProviderError | RegistryError
  | RuntimeStepError | SourceError | TransportError | ValidationError
  | ProcessTombstoneError | SupervisorLockError
  | UserError string exc_class

text \<open>\<open>supers c\<close> lists \<open>c\<close> and every class above it.\<close>

fun supers :: "exc_class \<Rightarrow> exc_class list" where
  "supers BaseException = [BaseException]"
| "supers KeyboardInterrupt = [KeyboardInterrupt, BaseException]"
| "supers Exception = [Exception, BaseException]"
| "supers UnicodeDecodeError = [UnicodeDecodeError, ValueError, Exception, BaseException]"
| "supers JSONDecodeError = [JSONDecodeError, ValueError, Exception, BaseException]"
| "supers KeyError = [KeyError, LookupError, Exception, BaseException]"
| "supers IndexError = [IndexError, LookupError, Exception, BaseException]"
| "supers OverflowError = [OverflowError, ArithmeticError, Exception, BaseException]"
| "supers ZeroDivisionError = [ZeroDivisionError, ArithmeticError, Exception, BaseException]"
| "supers FileNotFoundError = [FileNotFoundError, OSError, Exception, BaseException]"
| "supers FileExistsError = [FileExistsError, OSError, Exception, BaseException]"
| "supers PermissionError = [PermissionError, OSError, Exception, BaseException]"
| "supers IsADirectoryError = [IsADirectoryError, OSError, Exception, BaseException]"
| "supers NotADirectoryError = [NotADirectoryError, OSError, Exception, BaseException]"
| "supers TimeoutError = [TimeoutError, OSError, Exception, BaseException]"
| "supers InventoryError = [InventoryError, DatasourceKitError, Exception, BaseException]"
| "supers ProfileError = [ProfileError, DatasourceKitError, Exception, BaseException]"
| "supers ProviderError = [ProviderError, DatasourceKitError, Exception, BaseException]"
| "supers RegistryError = [RegistryError, DatasourceKitError, Exception, BaseException]"
| "supers RuntimeStepError = [RuntimeStepError, DatasourceKitError, Exception, BaseException]"
| "supers SourceError = [SourceError, DatasourceKitError, Exception, BaseException]"
| "supers TransportError =
     [TransportError, SourceError, DatasourceKitError, Exception, BaseException]"
| "supers ValidationError = [ValidationError, DatasourceKitError, Exception, BaseException]"
| "supers ProcessTombstoneError =
     [ProcessTombstoneError, RuntimeError, Exception, BaseException]"
| "supers SupervisorLockError =
     [SupervisorLockError, RuntimeError, Exception, BaseException]"
| "supers (UserError n c) = UserError n c # supers c"
| "supers c = [c, Exception, BaseException]"

definition subclass_of :: "exc_class \<Rightarrow> exc_class \<Rightarrow> bool" where
  "subclass_of c d \<longleftrightarrow> d \<in> set (supers c)"

lemma subclass_of_refl [simp]: "subclass_of c c"
  by (cases c) (simp_all add: subclass_of_def)

lemma subclass_of_base [simp]: "subclass_of c BaseException"
  by (induction c) (simp_all add: subclass_of_def)

lemma subclass_of_user [simp]:
  "subclass_of (UserError n c) d \<longleftrightarrow> d = UserError n c \<or> subclass_of c d"
  by (auto simp: subclass_of_def)

lemma subclass_of_trans: "subclass_of c d \<Longrightarrow> subclass_of d e \<Longrightarrow> subclass_of c e"
  by (induction c) (auto simp: subclass_of_def)

text \<open>An exception value: its class and its message.\<close>

datatype exc = Exc (exc_cls: exc_class) (exc_msg: string)

definition instance_of :: "exc \<Rightarrow> exc_class \<Rightarrow> bool" where
  "instance_of x c = subclass_of (exc_cls x) c"

lemma instance_of_Exc [simp]: "instance_of (Exc c m) d = subclass_of c d"
  by (simp add: instance_of_def)

text \<open>An \<^verbatim>\<open>except (A, B)\<close> clause catches the instances of one of its classes.\<close>

definition caught_by :: "exc \<Rightarrow> exc_class list \<Rightarrow> bool" where
  "caught_by x cs \<longleftrightarrow> (\<exists>c \<in> set cs. instance_of x c)"

lemma caught_by_simps [simp]:
  "\<not> caught_by x []" "caught_by x (c # cs) \<longleftrightarrow> instance_of x c \<or> caught_by x cs"
  by (auto simp: caught_by_def)

section \<open>Computations with a state that may raise\<close>

type_synonym ('s, 'a) eff = "'s \<Rightarrow> (exc + 'a) \<times> 's"

definition eret :: "'a \<Rightarrow> ('s, 'a) eff" where
  [eff_defs]: "eret x s = (Inr x, s)"

definition eraise :: "exc \<Rightarrow> ('s, 'a) eff" where
  [eff_defs]: "eraise x s = (Inl x, s)"

definition ebind :: "('s, 'a) eff \<Rightarrow> ('a \<Rightarrow> ('s, 'b) eff) \<Rightarrow> ('s, 'b) eff" where
  [eff_defs]: "ebind m f s = (case m s of (Inl x, s') \<Rightarrow> (Inl x, s') | (Inr a, s') \<Rightarrow> f a s')"

definition eget :: "('s \<Rightarrow> 'a) \<Rightarrow> ('s, 'a) eff" where
  [eff_defs]: "eget f s = (Inr (f s), s)"

definition emod :: "('s \<Rightarrow> 's) \<Rightarrow> ('s, unit) eff" where
  [eff_defs]: "emod f s = (Inr (), f s)"

text \<open>\<^verbatim>\<open>try: m except E as x: h x\<close>, with the clause's test \<open>p\<close>.\<close>

definition etry :: "(exc \<Rightarrow> bool) \<Rightarrow> ('s, 'a) eff \<Rightarrow> (exc \<Rightarrow> ('s, 'a) eff) \<Rightarrow> ('s, 'a) eff" where
  [eff_defs]: "etry p m h s =
     (case m s of (Inl x, s') \<Rightarrow> if p x then h x s' else (Inl x, s') | (Inr a, s') \<Rightarrow> (Inr a, s'))"

text \<open>\<^verbatim>\<open>try: m finally: c\<close>: an exception of \<open>c\<close> replaces the outcome of \<open>m\<close>.\<close>

definition efinally :: "('s, 'a) eff \<Rightarrow> ('s, unit) eff \<Rightarrow> ('s, 'a) eff" where
  [eff_defs]: "efinally m c s =
     (case m s of (r, s') \<Rightarrow> (case c s' of (Inl x, s'') \<Rightarrow> (Inl x, s'') | (Inr _, s'') \<Rightarrow> (r, s'')))"

definition ewhen :: "bool \<Rightarrow> ('s, unit) eff \<Rightarrow> ('s, unit) eff" where
  [eff_defs]: "ewhen b m = (if b then m else eret ())"

text \<open>A computed sum as a computation that leaves the state alone.\<close>

definition elift :: "exc + 'a \<Rightarrow> ('s, 'a) eff" where
  [eff_defs]: "elift r s = (r, s)"

fun emap :: "('a \<Rightarrow> ('s, 'b) eff) \<Rightarrow> 'a list \<Rightarrow> ('s, 'b list) eff" where
  "emap f [] = eret []"
| "emap f (x # xs) = ebind (f x) (\<lambda>y. ebind (emap f xs) (\<lambda>ys. eret (y # ys)))"

lemma ebind_eret [simp]: "ebind (eret x) f = f x"
  by (simp add: eff_defs fun_eq_iff)

lemma ebind_eraise [simp]: "ebind (eraise x) f = eraise x"
  by (simp add: eff_defs fun_eq_iff)

lemma ebind_assoc: "ebind (ebind m f) g = ebind m (\<lambda>x. ebind (f x) g)"
  by (auto simp: eff_defs fun_eq_iff split: prod.splits sum.splits)

lemma eff_apply:
  "eret x s = (Inr x, s)" "eraise y s = (Inl y, s)" "eget f s = (Inr (f s), s)"
  "emod g s = (Inr (), g s)" "elift r s = (r, s)"
  by (simp_all add: eff_defs)

text \<open>
  The first step of a computation decides how the rest runs. These rules run a computation
  forwards on a state whose first step is known.
\<close>

lemma ebind_Inr: "m s = (Inr a, s') \<Longrightarrow> ebind m f s = f a s'"
  and ebind_Inl: "m s = (Inl x, s') \<Longrightarrow> ebind m f s = (Inl x, s')"
  by (simp_all add: eff_defs)

text \<open>And backwards from an outcome that is known.\<close>

lemma ebind_InrE:
  assumes "ebind m f s = (Inr b, s')"
  obtains a s1 where "m s = (Inr a, s1)" "f a s1 = (Inr b, s')"
  using assms by (auto simp: ebind_def split: prod.splits sum.splits)

lemma ebind_cases:
  assumes "ebind m f s = (r, s')"
  obtains (raised) x where "m s = (Inl x, s')" "r = Inl x"
  | (went_on) a s1 where "m s = (Inr a, s1)" "f a s1 = (r, s')"
  using assms by (auto simp: ebind_def split: prod.splits sum.splits)

lemma elift_Inr: "elift r s = (Inr a, s') \<longleftrightarrow> r = Inr a \<and> s' = s"
  and eget_Inr: "eget g s = (Inr a, s') \<longleftrightarrow> a = g s \<and> s' = s"
  and emod_Inr: "emod h s = (Inr u, s') \<longleftrightarrow> s' = h s"
  and eret_Inr: "eret v s = (Inr a, s') \<longleftrightarrow> a = v \<and> s' = s"
  and eraise_Inr: "eraise x s = (Inr a, s') \<longleftrightarrow> False"
  by (auto simp: eff_defs)

lemmas run_Inr = elift_Inr eget_Inr emod_Inr eret_Inr eraise_Inr

section \<open>Pure computations that may raise\<close>

definition sbind :: "exc + 'a \<Rightarrow> ('a \<Rightarrow> exc + 'b) \<Rightarrow> exc + 'b" where
  "sbind r f = (case r of Inl x \<Rightarrow> Inl x | Inr a \<Rightarrow> f a)"

lemma sbind_simps [simp]: "sbind (Inl x) f = Inl x" "sbind (Inr a) f = f a"
  by (simp_all add: sbind_def)

lemma sbind_Inr: "sbind r f = Inr b \<longleftrightarrow> (\<exists>a. r = Inr a \<and> f a = Inr b)"
  and sbind_Inl: "sbind r f = Inl x \<longleftrightarrow> r = Inl x \<or> (\<exists>a. r = Inr a \<and> f a = Inl x)"
  by (auto simp: sbind_def split: sum.splits)

lemma sbind_cong [fundef_cong]: "r = r' \<Longrightarrow> (\<And>a. r' = Inr a \<Longrightarrow> f a = g a) \<Longrightarrow> sbind r f = sbind r' g"
  by (auto simp: sbind_def split: sum.splits)

text \<open>A list of checks in order: the first exception wins.\<close>

fun smap :: "('a \<Rightarrow> exc + 'b) \<Rightarrow> 'a list \<Rightarrow> exc + 'b list" where
  "smap f [] = Inr []"
| "smap f (x # xs) = sbind (f x) (\<lambda>y. sbind (smap f xs) (\<lambda>ys. Inr (y # ys)))"

lemma smap_Inr: "smap f xs = Inr ys \<longleftrightarrow> list_all2 (\<lambda>x y. f x = Inr y) xs ys"
  by (induction xs arbitrary: ys) (auto simp: sbind_Inr list_all2_Cons1)

section \<open>Invariants and triples of computations\<close>

text \<open>\<open>keeps I m\<close>: whatever \<open>m\<close> does, raising included, the invariant survives.\<close>

definition keeps :: "('s \<Rightarrow> bool) \<Rightarrow> ('s, 'a) eff \<Rightarrow> bool" where
  "keeps I m \<longleftrightarrow> (\<forall>s. I s \<longrightarrow> I (snd (m s)))"

lemma keepsD: "keeps I m \<Longrightarrow> I s \<Longrightarrow> I (snd (m s))"
  by (simp add: keeps_def)

lemma keepsI: "(\<And>s. I s \<Longrightarrow> I (snd (m s))) \<Longrightarrow> keeps I m"
  by (simp add: keeps_def)

lemma keeps_runI: "(\<And>s r s'. m s = (r, s') \<Longrightarrow> I s \<Longrightarrow> I s') \<Longrightarrow> keeps I m"
  by (metis keepsI prod.collapse)

lemma keeps_run: "keeps I m \<Longrightarrow> m s = (r, s') \<Longrightarrow> I s \<Longrightarrow> I s'"
  by (metis keepsD snd_conv)

lemma keeps_pure [keeps_intros]:
  "keeps I (eret x)" "keeps I (eraise y)" "keeps I (eget f)" "keeps I (elift r)"
  by (simp_all add: keeps_def eff_defs)

lemma keeps_emod [keeps_intros]: "(\<And>s. I s \<Longrightarrow> I (f s)) \<Longrightarrow> keeps I (emod f)"
  by (simp add: keeps_def eff_defs)

lemma keeps_ebind [keeps_intros]: "keeps I m \<Longrightarrow> (\<And>x. keeps I (f x)) \<Longrightarrow> keeps I (ebind m f)"
  unfolding keeps_def eff_defs by (auto split: prod.splits sum.splits)

lemma keeps_etry [keeps_intros]: "keeps I m \<Longrightarrow> (\<And>x. keeps I (h x)) \<Longrightarrow> keeps I (etry p m h)"
  unfolding keeps_def eff_defs by (auto split: prod.splits sum.splits)

lemma keeps_efinally [keeps_intros]: "keeps I m \<Longrightarrow> keeps I c \<Longrightarrow> keeps I (efinally m c)"
  unfolding keeps_def eff_defs by (auto split: prod.splits sum.splits)

lemma keeps_ewhen [keeps_intros]: "(b \<Longrightarrow> keeps I m) \<Longrightarrow> keeps I (ewhen b m)"
  by (simp add: ewhen_def keeps_pure)

lemma keeps_if [keeps_intros]:
  "(b \<Longrightarrow> keeps I m) \<Longrightarrow> (\<not> b \<Longrightarrow> keeps I n) \<Longrightarrow> keeps I (if b then m else n)"
  by simp

lemma keeps_emap [keeps_intros]: "(\<And>x. x \<in> set xs \<Longrightarrow> keeps I (f x)) \<Longrightarrow> keeps I (emap f xs)"
  by (induction xs) (auto intro!: keeps_intros)

text \<open>
  \<open>triple P m Q E\<close>: from a state with \<open>P\<close>, \<open>m\<close> returns a value and a state with \<open>Q\<close>, or
  raises an exception and leaves a state with \<open>E\<close>.
\<close>

definition triple ::
  "('s \<Rightarrow> bool) \<Rightarrow> ('s, 'a) eff \<Rightarrow> ('a \<Rightarrow> 's \<Rightarrow> bool) \<Rightarrow> (exc \<Rightarrow> 's \<Rightarrow> bool) \<Rightarrow> bool" where
  "triple P m Q E \<longleftrightarrow>
     (\<forall>s r s'. P s \<longrightarrow> m s = (r, s') \<longrightarrow>
        (\<forall>a. r = Inr a \<longrightarrow> Q a s') \<and> (\<forall>x. r = Inl x \<longrightarrow> E x s'))"

lemma triple_Inr: "triple P m Q E \<Longrightarrow> P s \<Longrightarrow> m s = (Inr a, s') \<Longrightarrow> Q a s'"
  and triple_Inl: "triple P m Q E \<Longrightarrow> P s \<Longrightarrow> m s = (Inl x, s') \<Longrightarrow> E x s'"
  by (auto simp: triple_def)

lemma triple_ebind [triple_intros]:
  assumes m: "triple P m R E" and f: "\<And>a. triple (R a) (f a) Q E"
  shows "triple P (ebind m f) Q E"
  unfolding triple_def
proof (intro allI impI)
  fix s r s' assume "P s" and run: "ebind m f s = (r, s')"
  obtain r1 s1 where ms: "m s = (r1, s1)" by (cases "m s")
  show "(\<forall>a. r = Inr a \<longrightarrow> Q a s') \<and> (\<forall>x. r = Inl x \<longrightarrow> E x s')"
  proof (cases r1)
    case (Inl x)
    with ms run triple_Inl [OF m \<open>P s\<close>] show ?thesis by (auto simp: ebind_def)
  next
    case (Inr a)
    with ms run have run': "f a s1 = (r, s')" by (simp add: ebind_def)
    from Inr ms have "R a s1" using triple_Inr [OF m \<open>P s\<close>] by simp
    with f [of a] run' show ?thesis by (auto simp: triple_def)
  qed
qed

lemma triple_etry [triple_intros]:
  assumes m: "triple P m Q R" and h: "\<And>x. p x \<Longrightarrow> triple (R x) (h x) Q E"
    and n: "\<And>x s. \<not> p x \<Longrightarrow> R x s \<Longrightarrow> E x s"
  shows "triple P (etry p m h) Q E"
  unfolding triple_def
proof (intro allI impI)
  fix s r s' assume "P s" and run: "etry p m h s = (r, s')"
  obtain r1 s1 where ms: "m s = (r1, s1)" by (cases "m s")
  show "(\<forall>a. r = Inr a \<longrightarrow> Q a s') \<and> (\<forall>x. r = Inl x \<longrightarrow> E x s')"
  proof (cases r1)
    case (Inl x)
    with ms have R: "R x s1" using triple_Inl [OF m \<open>P s\<close>] by simp
    show ?thesis
    proof (cases "p x")
      case True
      with Inl ms run have "h x s1 = (r, s')" by (simp add: etry_def)
      with h [OF True] R show ?thesis by (auto simp: triple_def)
    next
      case False
      with Inl ms run n [OF False R] show ?thesis by (auto simp: etry_def)
    qed
  next
    case (Inr a)
    with ms run triple_Inr [OF m \<open>P s\<close>] show ?thesis by (auto simp: etry_def)
  qed
qed

lemma triple_eret [triple_intros]: "(\<And>s. P s \<Longrightarrow> Q x s) \<Longrightarrow> triple P (eret x) Q E"
  and triple_eraise [triple_intros]: "(\<And>s. P s \<Longrightarrow> E y s) \<Longrightarrow> triple P (eraise y) Q E"
  and triple_eget [triple_intros]: "(\<And>s. P s \<Longrightarrow> Q (f s) s) \<Longrightarrow> triple P (eget f) Q E"
  by (auto simp: triple_def eff_defs)

lemma triple_emod [triple_intros]: "(\<And>s. P s \<Longrightarrow> Q () (g s)) \<Longrightarrow> triple P (emod g) Q E"
  by (auto simp: triple_def eff_defs)

lemma triple_elift:
  "(\<And>a s. r = Inr a \<Longrightarrow> P s \<Longrightarrow> Q a s) \<Longrightarrow> (\<And>x s. P s \<Longrightarrow> E x s) \<Longrightarrow> triple P (elift r) Q E"
  by (auto simp: triple_def eff_defs)

lemma triple_efinally [triple_intros]:
  assumes m: "triple P m R F" and c: "\<And>a. triple (R a) c (\<lambda>_. Q a) E" "\<And>x. triple (F x) c (\<lambda>_. E x) E"
  shows "triple P (efinally m c) Q E"
  unfolding triple_def
proof (intro allI impI)
  fix s r s' assume "P s" and run: "efinally m c s = (r, s')"
  obtain r1 s1 where ms: "m s = (r1, s1)" by (cases "m s")
  obtain r2 s2 where cs: "c s1 = (r2, s2)" by (cases "c s1")
  show "(\<forall>a. r = Inr a \<longrightarrow> Q a s') \<and> (\<forall>x. r = Inl x \<longrightarrow> E x s')"
  proof (cases r1)
    case (Inl x)
    with ms have F: "F x s1" using triple_Inl [OF m \<open>P s\<close>] by simp
    from run ms cs Inl triple_Inr [OF c(2), of x s1 _ s2] triple_Inl [OF c(2), of x s1 _ s2] F
    show ?thesis by (cases r2) (auto simp: efinally_def)
  next
    case (Inr a)
    with ms have R: "R a s1" using triple_Inr [OF m \<open>P s\<close>] by simp
    from run ms cs Inr triple_Inr [OF c(1), of a s1 _ s2] triple_Inl [OF c(1), of a s1 _ s2] R
    show ?thesis by (cases r2) (auto simp: efinally_def)
  qed
qed

lemma keeps_triple: "keeps I m \<Longrightarrow> triple I m (\<lambda>_. I) (\<lambda>_. I)"
  unfolding triple_def by (auto dest: keeps_run)

lemma keeps_triple_weaken:
  "keeps I m \<Longrightarrow> (\<And>a s. I s \<Longrightarrow> Q a s) \<Longrightarrow> (\<And>x s. I s \<Longrightarrow> E x s) \<Longrightarrow> triple I m Q E"
  unfolding triple_def by (auto dest: keeps_run)

lemma triple_keeps:
  assumes t: "triple I m (\<lambda>_. I) (\<lambda>_. I)"
  shows "keeps I m"
proof (rule keepsI)
  fix s assume "I s"
  obtain r s' where "m s = (r, s')" by (cases "m s")
  with triple_Inr [OF t \<open>I s\<close>] triple_Inl [OF t \<open>I s\<close>] show "I (snd (m s))" by (cases r) auto
qed

lemma triple_keeps_conj:
  "triple P m Q E \<Longrightarrow> keeps I m \<Longrightarrow>
   triple (\<lambda>s. P s \<and> I s) m (\<lambda>a s. Q a s \<and> I s) (\<lambda>x s. E x s \<and> I s)"
  unfolding triple_def by (auto dest: keeps_run)

lemma triple_pre: "triple P m Q E \<Longrightarrow> (\<And>s. P' s \<Longrightarrow> P s) \<Longrightarrow> triple P' m Q E"
  unfolding triple_def by blast

lemma triple_conseq:
  "triple P m Q E \<Longrightarrow> (\<And>s. P' s \<Longrightarrow> P s) \<Longrightarrow> (\<And>a s. Q a s \<Longrightarrow> Q' a s) \<Longrightarrow>
   (\<And>x s. E x s \<Longrightarrow> E' x s) \<Longrightarrow> triple P' m Q' E'"
  unfolding triple_def by blast

text \<open>\<open>quietly m\<close>: \<open>m\<close> never raises.\<close>

definition quietly :: "('s, 'a) eff \<Rightarrow> bool" where
  "quietly m \<longleftrightarrow> (\<forall>s. \<not> isl (fst (m s)))"

lemma quietly_run: "quietly m \<Longrightarrow> m s \<noteq> (Inl x, s')"
  unfolding quietly_def by (metis fst_conv isl_def)

lemma quietlyI: "(\<And>s x s'. m s \<noteq> (Inl x, s')) \<Longrightarrow> quietly m"
  unfolding quietly_def by (metis isl_def surjective_pairing)

lemma quietly_pure: "quietly (eret v)" "quietly (eget f)" "quietly (emod g)" "quietly (elift r) = (\<not> isl r)"
  by (simp_all add: quietly_def eff_defs)

lemma quietly_ebind: "quietly m \<Longrightarrow> (\<And>a. quietly (f a)) \<Longrightarrow> quietly (ebind m f)"
  unfolding quietly_def ebind_def by (auto split: prod.splits sum.splits) (metis fst_conv isl_def)

lemma quietly_etry_all: "(\<And>x. p x \<Longrightarrow> quietly (h x)) \<Longrightarrow>
    (\<And>s x s'. m s = (Inl x, s') \<Longrightarrow> p x) \<Longrightarrow> quietly (etry p m h)"
  unfolding quietly_def etry_def by (auto split: prod.splits sum.splits)

lemma quietly_efinally: "quietly m \<Longrightarrow> quietly c \<Longrightarrow> quietly (efinally m c)"
  unfolding quietly_def efinally_def by (auto split: prod.splits sum.splits) (metis fst_conv isl_def)+

lemma quietly_ewhen: "quietly m \<Longrightarrow> quietly (ewhen b m)"
  by (simp add: ewhen_def quietly_pure)

section \<open>Loops\<close>

text \<open>
  A \<^verbatim>\<open>while\<close> loop of the code is the iteration of one turn: \<open>Inl s'\<close> goes round again,
  \<open>Inr r\<close> leaves the loop. A loop that never leaves has the value \<open>None\<close>.
\<close>

partial_function (option) iterate :: "('s \<Rightarrow> 's + 'r) \<Rightarrow> 's \<Rightarrow> 'r option" where
  "iterate turn s = (case turn s of Inl s' \<Rightarrow> iterate turn s' | Inr r \<Rightarrow> Some r)"

declare iterate.simps [code]

lemma iterate_Inl: "turn s = Inl s' \<Longrightarrow> iterate turn s = iterate turn s'"
  and iterate_Inr: "turn s = Inr r \<Longrightarrow> iterate turn s = Some r"
  by (simp_all add: iterate.simps)

text \<open>Partial correctness: an invariant of the turn holds when the loop leaves.\<close>

lemma iterate_rule:
  assumes ret: "iterate turn s = Some r" and start: "I s"
    and step: "\<And>s s'. I s \<Longrightarrow> turn s = Inl s' \<Longrightarrow> I s'"
    and stop: "\<And>s r. I s \<Longrightarrow> turn s = Inr r \<Longrightarrow> Q r"
  shows "Q r"
proof -
  have "turn = turn \<longrightarrow> I s \<longrightarrow> Q r"
  proof (rule iterate.raw_induct [where P = "\<lambda>t s r. t = turn \<longrightarrow> I s \<longrightarrow> Q r", OF _ ret],
      intro impI)
    fix it t s r
    assume IH: "\<And>t s r. it t s = Some r \<Longrightarrow> t = turn \<longrightarrow> I s \<longrightarrow> Q r"
      and eq: "(case t s of Inl s' \<Rightarrow> it t s' | Inr r \<Rightarrow> Some r) = Some r"
      and t: "t = turn" and I: "I s"
    show "Q r"
    proof (cases "t s")
      case (Inl s')
      with eq have "it t s' = Some r" by simp
      from IH [OF this] Inl t I step show ?thesis by blast
    next
      case (Inr q)
      with eq t I stop show ?thesis by auto
    qed
  qed
  with start show ?thesis by simp
qed

text \<open>Termination: under an invariant, a measure that every further turn decreases.\<close>

lemma iterate_terminates:
  assumes "I s"
    and step: "\<And>s s'. I s \<Longrightarrow> turn s = Inl s' \<Longrightarrow> I s' \<and> \<mu> s' < (\<mu> s :: nat)"
  shows "\<exists>r. iterate turn s = Some r"
  using assms(1)
proof (induction "\<mu> s" arbitrary: s rule: less_induct)
  case less
  show ?case
  proof (cases "turn s")
    case (Inl s')
    with step less.prems have "I s'" "\<mu> s' < \<mu> s" by blast+
    with less.hyps have "\<exists>r. iterate turn s' = Some r" by blast
    with Inl show ?thesis by (simp add: iterate_Inl)
  qed (simp add: iterate_Inr)
qed

section \<open>Dictionaries\<close>

text \<open>
  A Python dictionary keeps the order in which its keys were first set: an association list,
  with \<open>AList.update\<close> for \<^verbatim>\<open>d[k] = v\<close> (in place, or appended when the key is new),
  \<open>AList.delete\<close> for \<^verbatim>\<open>d.pop(k, None)\<close> and \<open>map_of\<close> for \<^verbatim>\<open>d.get(k)\<close>.
\<close>

type_synonym ('k, 'v) dict = "('k \<times> 'v) list"

definition dict_keys :: "('k, 'v) dict \<Rightarrow> 'k list" where
  "dict_keys d = List.map fst d"

definition dict_wf :: "('k, 'v) dict \<Rightarrow> bool" where
  "dict_wf d = distinct (dict_keys d)"

text \<open>\<^verbatim>\<open>d.update(e)\<close>\<close>

fun dict_update :: "('k, 'v) dict \<Rightarrow> ('k, 'v) dict \<Rightarrow> ('k, 'v) dict" where
  "dict_update d [] = d"
| "dict_update d ((k, v) # e) = dict_update (AList.update k v d) e"

lemma map_of_dict_set [simp]: "map_of (AList.update k v d) = (map_of d)(k \<mapsto> v)"
  by (rule update_conv')

lemma dict_wf_set [simp]: "dict_wf d \<Longrightarrow> dict_wf (AList.update k v d)"
  unfolding dict_wf_def dict_keys_def by (rule distinct_update)

lemma set_keys_dict_set [simp]:
  "set (dict_keys (AList.update k v d)) = insert k (set (dict_keys d))"
  by (auto simp: dict_keys_def update_conv' dom_update)

lemma dict_keys_set:
  "dict_keys (AList.update k v d) = (if k \<in> set (dict_keys d) then dict_keys d else dict_keys d @ [k])"
  by (induction d) (auto simp: dict_keys_def)

lemma map_of_None_keys [simp]: "map_of d k = None \<longleftrightarrow> k \<notin> set (dict_keys d)"
  by (induction d) (auto simp: dict_keys_def)

lemma dict_wf_update: "dict_wf d \<Longrightarrow> dict_wf (dict_update d e)"
  by (induction d e rule: dict_update.induct) auto

lemma map_of_dict_update_notin:
  "k \<notin> set (dict_keys e) \<Longrightarrow> map_of (dict_update d e) k = map_of d k"
  by (induction d e rule: dict_update.induct) (auto simp: dict_keys_def)

lemma map_of_dict_update:
  "dict_wf e \<Longrightarrow> map_of (dict_update d e) = map_of d ++ map_of e"
proof (induction d e rule: dict_update.induct)
  case (2 d k v e)
  then have "k \<notin> fst ` set e" "dict_wf e" by (auto simp: dict_wf_def dict_keys_def)
  then have "k \<notin> dom (map_of e)" by (simp add: dom_map_of_conv_image_fst)
  with "2.IH" \<open>dict_wf e\<close> show ?case by (simp add: map_add_upd_left del: fun_upd_apply)
qed simp

section \<open>Small facts on lists\<close>

lemma sorted_list_of_set_mem [simp]: "finite A \<Longrightarrow> set (sorted_list_of_set A) = A"
  by simp

lemma append_snocE: "xs @ [x] = ys @ z # zs \<Longrightarrow>
  (zs = [] \<Longrightarrow> ys = xs \<Longrightarrow> z = x \<Longrightarrow> P) \<Longrightarrow>
  (\<And>zs'. zs = zs' @ [x] \<Longrightarrow> xs = ys @ z # zs' \<Longrightarrow> P) \<Longrightarrow> P"
  by (cases zs rule: rev_cases) auto

end
