(* ===== verification/PyValues.thy ===== *)
theory PyValues
  imports Prelude
begin

text \<open>
  The values the package reads from JSON documents and the built-in functions it applies to
  them: \<^verbatim>\<open>str.strip\<close>, \<^verbatim>\<open>int\<close>, \<^verbatim>\<open>bool\<close>, \<^verbatim>\<open>str\<close>, \<^verbatim>\<open>repr\<close> and \<^verbatim>\<open>isinstance(x, int)\<close>. A character is a
  code point below 256. Python floats are exact rationals: rounding, infinities and NaN are
  not modelled, and the text Python prints for a float is a parameter \<open>fr\<close>.
\<close>

section \<open>Strings\<close>

definition char_code :: "char \<Rightarrow> nat" where
  "char_code c = of_char c"

text \<open>\<^verbatim>\<open>str.isspace\<close> on one character below 256\<close>

definition py_isspace :: "char \<Rightarrow> bool" where
  "py_isspace c = (let n = char_code c in
     9 \<le> n \<and> n \<le> 13 \<or> 28 \<le> n \<and> n \<le> 32 \<or> n = 133 \<or> n = 160)"

definition py_strip :: "string \<Rightarrow> string" where
  "py_strip s = rev (dropWhile py_isspace (rev (dropWhile py_isspace s)))"

definition blank :: "string \<Rightarrow> bool" where
  "blank s \<longleftrightarrow> py_strip s = []"

lemma blank_iff: "blank s \<longleftrightarrow> list_all py_isspace s"
proof -
  have "list_all py_isspace (dropWhile py_isspace s) \<longleftrightarrow> list_all py_isspace s"
    by (induction s) auto
  then show ?thesis
    by (simp add: blank_def py_strip_def list_all_iff)
qed

lemma blank_Nil [simp]: "blank []"
  and blank_Cons [simp]: "blank (c # s) \<longleftrightarrow> py_isspace c \<and> blank s"
  by (simp_all add: blank_iff)

fun join :: "string \<Rightarrow> string list \<Rightarrow> string" where
  "join sep [] = []"
| "join sep [x] = x"
| "join sep (x # y # xs) = x @ sep @ join sep (y # xs)"

section \<open>Decimal integers\<close>

definition digit_char :: "nat \<Rightarrow> char" where
  "digit_char d = char_of (48 + d)"

definition is_digit :: "char \<Rightarrow> bool" where
  "is_digit c \<longleftrightarrow> 48 \<le> char_code c \<and> char_code c \<le> 57"

definition digit_val :: "char \<Rightarrow> nat" where
  "digit_val c = char_code c - 48"

fun nat_str :: "nat \<Rightarrow> string" where
  "nat_str n = (if n < 10 then [digit_char n] else nat_str (n div 10) @ [digit_char (n mod 10)])"

declare nat_str.simps [simp del]

definition int_str :: "int \<Rightarrow> string" where
  "int_str i = (if i < 0 then CHR ''-'' # nat_str (nat (- i)) else nat_str (nat i))"

text \<open>The digits of an integer literal, with single underscores between digits.\<close>

fun digits_val :: "nat \<Rightarrow> string \<Rightarrow> nat option" where
  "digits_val acc [] = Some acc"
| "digits_val acc (c # cs) =
     (if is_digit c then digits_val (acc * 10 + digit_val c) cs
      else if c = CHR ''_'' \<and> cs \<noteq> [] \<and> is_digit (hd cs) then digits_val acc cs
      else None)"

definition parse_nat :: "string \<Rightarrow> nat option" where
  "parse_nat s = (if s \<noteq> [] \<and> is_digit (hd s) then digits_val 0 s else None)"

definition parse_int :: "string \<Rightarrow> int option" where
  "parse_int s = (case py_strip s of
     [] \<Rightarrow> None
   | c # cs \<Rightarrow>
       if c = CHR ''-'' then map_option (\<lambda>n. - int n) (parse_nat cs)
       else if c = CHR ''+'' then map_option int (parse_nat cs)
       else map_option int (parse_nat (c # cs)))"

lemma digit_char_props [simp]:
  "d < 10 \<Longrightarrow> is_digit (digit_char d)" "d < 10 \<Longrightarrow> digit_val (digit_char d) = d"
  by (simp_all add: is_digit_def digit_val_def digit_char_def char_code_def)

lemma is_digit_not_space: "is_digit c \<Longrightarrow> \<not> py_isspace c"
  by (auto simp: is_digit_def py_isspace_def Let_def)

lemma is_digit_not_sign: "is_digit c \<Longrightarrow> c \<noteq> CHR ''-'' \<and> c \<noteq> CHR ''+''"
  by (auto simp: is_digit_def char_code_def)

lemma digits_val_append:
  "list_all is_digit xs \<Longrightarrow> digits_val acc (xs @ ys) = digits_val (the (digits_val acc xs)) ys"
  by (induction xs arbitrary: acc) auto

lemma nat_str_digits: "list_all is_digit (nat_str n)"
proof (induction n rule: nat_str.induct)
  case (1 n)
  then show ?case by (subst nat_str.simps) auto
qed

lemma nat_str_nonempty [simp]: "nat_str n \<noteq> []"
  by (subst nat_str.simps) simp

lemma digits_val_nat_str: "digits_val 0 (nat_str n) = Some n"
proof (induction n rule: nat_str.induct)
  case (1 n)
  show ?case
  proof (cases "n < 10")
    case True
    then show ?thesis by (subst nat_str.simps) simp
  next
    case False
    with "1.IH" show ?thesis
      by (subst nat_str.simps) (simp add: digits_val_append nat_str_digits)
  qed
qed

lemma strip_nonspace_ends:
  assumes "s \<noteq> []" "\<not> py_isspace (hd s)" "\<not> py_isspace (last s)"
  shows "py_strip s = s"
proof -
  from assms have "dropWhile py_isspace s = s" by (cases s) auto
  moreover from assms have "dropWhile py_isspace (rev s) = rev s"
    by (cases s rule: rev_cases) auto
  ultimately show ?thesis by (simp add: py_strip_def)
qed

lemma nat_str_hd_last: "is_digit (hd (nat_str n))" "is_digit (last (nat_str n))"
  using nat_str_digits [of n] nat_str_nonempty [of n]
  by (simp_all add: list_all_iff)

lemma parse_nat_str: "parse_nat (nat_str n) = Some n"
  by (simp add: parse_nat_def nat_str_hd_last digits_val_nat_str)

lemma parse_int_str: "parse_int (int_str i) = Some i"
proof (cases "i < 0")
  case True
  have "\<not> py_isspace (CHR ''-'')" by code_simp
  with True have "py_strip (int_str i) = int_str i"
    by (intro strip_nonspace_ends)
      (auto simp: int_str_def nat_str_hd_last is_digit_not_space)
  with True show ?thesis by (simp add: parse_int_def int_str_def parse_nat_str)
next
  case False
  then have "py_strip (int_str i) = nat_str (nat i)"
    by (subst strip_nonspace_ends)
      (auto simp: int_str_def nat_str_hd_last is_digit_not_space)
  moreover obtain c cs where c: "nat_str (nat i) = c # cs"
    by (cases "nat_str (nat i)") auto
  with nat_str_hd_last(1) [of "nat i"] have "is_digit c" by simp
  ultimately show ?thesis
    using False parse_nat_str [of "nat i"] c by (auto simp: parse_int_def dest: is_digit_not_sign)
qed

section \<open>JSON values\<close>

datatype json =
    JNull | JBool bool | JInt int | JFloat rat | JStr string
  | JList "json list" | JObj "(string \<times> json) list"

text \<open>\<^verbatim>\<open>bool(x)\<close>\<close>

fun truthy :: "json \<Rightarrow> bool" where
  "truthy JNull = False"
| "truthy (JBool b) = b"
| "truthy (JInt i) = (i \<noteq> 0)"
| "truthy (JFloat q) = (q \<noteq> 0)"
| "truthy (JStr s) = (s \<noteq> [])"
| "truthy (JList xs) = (xs \<noteq> [])"
| "truthy (JObj d) = (d \<noteq> [])"

text \<open>\<^verbatim>\<open>isinstance(x, int)\<close>, with the integer \<open>x\<close> then is: \<^verbatim>\<open>bool\<close> is a subclass of \<^verbatim>\<open>int\<close>.\<close>

fun as_int :: "json \<Rightarrow> int option" where
  "as_int (JInt i) = Some i"
| "as_int (JBool b) = Some (of_bool b)"
| "as_int _ = None"

fun as_str :: "json \<Rightarrow> string option" where
  "as_str (JStr s) = Some s"
| "as_str _ = None"

lemma as_str_Some: "as_str v = Some s \<longleftrightarrow> v = JStr s"
  by (cases v) auto

definition rat_trunc :: "rat \<Rightarrow> int" where
  "rat_trunc q = (if q < 0 then ceiling q else floor q)"

text \<open>\<^verbatim>\<open>int(x)\<close>\<close>

fun py_int :: "json \<Rightarrow> exc + int" where
  "py_int (JInt i) = Inr i"
| "py_int (JBool b) = Inr (of_bool b)"
| "py_int (JFloat q) = Inr (rat_trunc q)"
| "py_int (JStr s) = (case parse_int s of
     Some i \<Rightarrow> Inr i | None \<Rightarrow> Inl (Exc ValueError ''invalid literal for int() with base 10''))"
| "py_int _ = Inl (Exc TypeError ''int() argument must be a string or a real number'')"

lemma as_int_py_int: "as_int v = Some i \<Longrightarrow> py_int v = Inr i"
  by (cases v) auto

text \<open>The number a value is, and \<^verbatim>\<open>==\<close>: numbers compare across types, dictionaries without their order.\<close>

fun py_number :: "json \<Rightarrow> rat option" where
  "py_number (JInt i) = Some (of_int i)"
| "py_number (JBool b) = Some (of_bool b)"
| "py_number (JFloat q) = Some q"
| "py_number _ = None"

fun py_eq :: "json \<Rightarrow> json \<Rightarrow> bool" where
  "py_eq (JList xs) (JList ys) = list_all2 py_eq xs ys"
| "py_eq (JObj d) (JObj e) \<longleftrightarrow> length d = length e \<and>
     list_all (\<lambda>(k, v). case map_of e k of None \<Rightarrow> False | Some w \<Rightarrow> py_eq v w) d"
| "py_eq JNull JNull = True"
| "py_eq (JStr s) (JStr t) = (s = t)"
| "py_eq v w = (py_number v \<noteq> None \<and> py_number v = py_number w)"

text \<open>\<^verbatim>\<open>repr\<close> of a string: the quote it chooses and the escapes of the characters below 256\<close>

definition hex_digit :: "nat \<Rightarrow> char" where
  "hex_digit n = (if n < 10 then char_of (48 + n) else char_of (87 + n))"

definition repr_char :: "char \<Rightarrow> char \<Rightarrow> string" where
  "repr_char q c = (let n = char_code c in
     if c = q \<or> n = 92 then [char_of (92 :: nat), c]
     else if n = 9 then [char_of (92 :: nat), CHR ''t'']
     else if n = 10 then [char_of (92 :: nat), CHR ''n'']
     else if n = 13 then [char_of (92 :: nat), CHR ''r'']
     else if n < 32 \<or> 127 \<le> n \<and> n \<le> 160 \<or> n = 173
       then [char_of (92 :: nat), CHR ''x'', hex_digit (n div 16), hex_digit (n mod 16)]
     else [c])"

definition repr_str :: "string \<Rightarrow> string" where
  "repr_str s = (let q = (if CHR 0x27 \<in> set s \<and> CHR 0x22 \<notin> set s then CHR 0x22 else CHR 0x27)
     in q # concat (List.map (repr_char q) s) @ [q])"

fun py_repr :: "(rat \<Rightarrow> string) \<Rightarrow> json \<Rightarrow> string" where
  "py_repr fr JNull = ''None''"
| "py_repr fr (JBool b) = (if b then ''True'' else ''False'')"
| "py_repr fr (JInt i) = int_str i"
| "py_repr fr (JFloat q) = fr q"
| "py_repr fr (JStr s) = repr_str s"
| "py_repr fr (JList xs) = ''['' @ join '', '' (List.map (py_repr fr) xs) @ '']''"
| "py_repr fr (JObj d) =
     CHR 0x7B # join '', '' (List.map (\<lambda>(k, v). repr_str k @ '': '' @ py_repr fr v) d) @ [CHR 0x7D]"

text \<open>\<^verbatim>\<open>str(x)\<close>\<close>

definition py_str :: "(rat \<Rightarrow> string) \<Rightarrow> json \<Rightarrow> string" where
  "py_str fr v = (case v of JStr s \<Rightarrow> s | _ \<Rightarrow> py_repr fr v)"

lemma py_str_simps [simp]:
  "py_str fr (JStr s) = s" "py_str fr (JInt i) = int_str i" "py_str fr JNull = ''None''"
  by (simp_all add: py_str_def)

text \<open>A dictionary's \<^verbatim>\<open>get(k, default)\<close>\<close>

definition dict_get :: "('k, 'v) dict \<Rightarrow> 'k \<Rightarrow> 'v \<Rightarrow> 'v" where
  "dict_get d k x = (case map_of d k of None \<Rightarrow> x | Some v \<Rightarrow> v)"

lemma dict_get_set [simp]:
  "dict_get (AList.update k v d) k x = v"
  "k \<noteq> k' \<Longrightarrow> dict_get (AList.update k v d) k' x = dict_get d k' x"
  by (simp_all add: dict_get_def)

text \<open>\<^verbatim>\<open>d[k]\<close>\<close>

definition dict_item :: "(string, 'v) dict \<Rightarrow> string \<Rightarrow> exc + 'v" where
  "dict_item d k = (case map_of d k of None \<Rightarrow> Inl (Exc KeyError (repr_str k)) | Some v \<Rightarrow> Inr v)"

section \<open>Floats that overflow\<close>

text \<open>
  The power of two floats raises \<^verbatim>\<open>OverflowError\<close> when the result rounds above the largest
  double.
\<close>

definition float_limit :: rat where
  "float_limit = 2 ^ 1024 - 2 ^ 970"

definition float_pow :: "rat \<Rightarrow> nat \<Rightarrow> exc + rat" where
  "float_pow b n =
     (if float_limit \<le> b ^ n then Inl (Exc OverflowError ''Result too large'') else Inr (b ^ n))"

text \<open>A float times an integer converts the integer, which must not round above the largest double.\<close>

definition float_times_int :: "rat \<Rightarrow> nat \<Rightarrow> exc + rat" where
  "float_times_int x n =
     (if float_limit \<le> of_nat n then Inl (Exc OverflowError ''int too large to convert to float'')
      else Inr (x * of_nat n))"

end
