(* ===== verification/AtomicFile.thy ===== *)
theory AtomicFile
  imports PyValues
begin

text \<open>
  The three routines of the package that replace a file through a temporary name:
  \<^verbatim>\<open>write_json_atomic\<close> (fleet/process.py), \<^verbatim>\<open>FileCheckpointStore.save\<close> (worker.py) and
  \<^verbatim>\<open>DiscoveryLedgerStore._atomic_write\<close> (ledger.py), on a model of one directory of a POSIX file
  system in which data and directory entries reach the disk only with \<^verbatim>\<open>fsync\<close>. Every system
  call may fail, and the state \<open>seen\<close> keeps every disk the run went through, so that a power
  loss can be placed anywhere.
\<close>

section \<open>Disks\<close>

text \<open>\<open>Whole c\<close> is the complete document \<open>c\<close>; \<open>Torn\<close> is any other file content.\<close>

datatype 'd content = Whole 'd | Torn

record 'd disk =
  entries :: "string \<Rightarrow> nat option"
  entries_synced :: "string \<Rightarrow> nat option"
  data :: "nat \<Rightarrow> 'd content"
  data_synced :: "nat \<Rightarrow> bool"
  next_ino :: nat

record 'd fsys =
  disk :: "'d disk"
  faults :: "bool list"
  seen :: "'d disk list"

definition visible :: "'d disk \<Rightarrow> string \<Rightarrow> 'd content option" where
  "visible d n = map_option (data d) (entries d n)"

text \<open>
  What a name may hold after a power loss: its entry is the current one or the last one synced,
  and a file that was not synced since its last change may hold anything.
\<close>

fun entry_survives :: "'d disk \<Rightarrow> nat option \<Rightarrow> 'd content option \<Rightarrow> bool" where
  "entry_survives d None c = (c = None)"
| "entry_survives d (Some i) c = (c \<noteq> None \<and> (data_synced d i \<longrightarrow> c = Some (data d i)))"

definition may_survive :: "'d disk \<Rightarrow> string \<Rightarrow> 'd content option \<Rightarrow> bool" where
  "may_survive d n c \<longleftrightarrow> entry_survives d (entries d n) c \<or> entry_survives d (entries_synced d n) c"

lemma entry_survives_cong:
  "(\<And>i. e = Some i \<Longrightarrow> data d' i = data d i \<and> data_synced d' i = data_synced d i) \<Longrightarrow>
   entry_survives d' e c = entry_survives d e c"
  by (cases e) auto

section \<open>System calls\<close>

definition io_error :: exc where
  "io_error = Exc OSError ''Input/output error''"

definition syscall :: "('d disk \<Rightarrow> exc + 'a \<times> 'd disk) \<Rightarrow> ('d fsys, 'a) eff" where
  "syscall f s = (let s1 = s\<lparr>faults := tl (faults s)\<rparr> in
     if faults s \<noteq> [] \<and> hd (faults s) then (Inl io_error, s1)
     else (case f (disk s) of Inl x \<Rightarrow> (Inl x, s1)
           | Inr (a, d) \<Rightarrow> (Inr a, s1\<lparr>disk := d, seen := d # seen s\<rparr>)))"

definition fresh_file :: "string \<Rightarrow> 'd disk \<Rightarrow> nat \<times> 'd disk" where
  "fresh_file n d = (next_ino d, d\<lparr>entries := (entries d)(n := Some (next_ino d)),
     data := (data d)(next_ino d := Torn), data_synced := (data_synced d)(next_ino d := False),
     next_ino := next_ino d + 1\<rparr>)"

text \<open>\<^verbatim>\<open>os.open(n, O_WRONLY | O_CREAT | O_EXCL)\<close> and \<^verbatim>\<open>open(n, "w")\<close>\<close>

fun d_create_excl :: "string \<Rightarrow> 'd disk \<Rightarrow> exc + nat \<times> 'd disk" where
  "d_create_excl n d = (if entries d n \<noteq> None then Inl (Exc FileExistsError n) else Inr (fresh_file n d))"

fun d_open_write :: "string \<Rightarrow> 'd disk \<Rightarrow> exc + nat \<times> 'd disk" where
  "d_open_write n d = (case entries d n of
     None \<Rightarrow> Inr (fresh_file n d)
   | Some i \<Rightarrow> Inr (i, d\<lparr>data := (data d)(i := Torn), data_synced := (data_synced d)(i := False)\<rparr>))"

fun d_set :: "nat \<Rightarrow> 'd content \<Rightarrow> 'd disk \<Rightarrow> exc + unit \<times> 'd disk" where
  "d_set i c d = Inr ((), d\<lparr>data := (data d)(i := c), data_synced := (data_synced d)(i := False)\<rparr>)"

fun d_fsync :: "nat \<Rightarrow> 'd disk \<Rightarrow> exc + unit \<times> 'd disk" where
  "d_fsync i d = Inr ((), d\<lparr>data_synced := (data_synced d)(i := True)\<rparr>)"

fun d_replace :: "string \<Rightarrow> string \<Rightarrow> 'd disk \<Rightarrow> exc + unit \<times> 'd disk" where
  "d_replace a b d = (case entries d a of
     None \<Rightarrow> Inl (Exc FileNotFoundError a)
   | Some i \<Rightarrow> Inr ((), d\<lparr>entries := (entries d)(b := Some i, a := None)\<rparr>))"

fun d_fsync_dir :: "'d disk \<Rightarrow> exc + unit \<times> 'd disk" where
  "d_fsync_dir d = Inr ((), d\<lparr>entries_synced := entries d\<rparr>)"

fun d_unlink :: "string \<Rightarrow> 'd disk \<Rightarrow> exc + unit \<times> 'd disk" where
  "d_unlink n d = (case entries d n of
     None \<Rightarrow> Inl (Exc FileNotFoundError n)
   | Some i \<Rightarrow> Inr ((), d\<lparr>entries := (entries d)(n := None)\<rparr>))"

text \<open>A call with no effect on the files of this directory: \<^verbatim>\<open>mkdir\<close>, opening the directory.\<close>

fun d_nothing :: "'d disk \<Rightarrow> exc + unit \<times> 'd disk" where
  "d_nothing d = Inr ((), d)"

text \<open>Writing a document passes through an incomplete file.\<close>

definition write_all :: "nat \<Rightarrow> 'd \<Rightarrow> ('d fsys, unit) eff" where
  "write_all i c = ebind (syscall (d_set i Torn)) (\<lambda>_. syscall (d_set i (Whole c)))"

definition unlink_if_there :: "string \<Rightarrow> ('d fsys, unit) eff" where
  "unlink_if_there n =
     etry (\<lambda>x. instance_of x FileNotFoundError) (syscall (d_unlink n)) (\<lambda>_. eret ())"

section \<open>The three writers\<close>

definition write_json_atomic :: "string \<Rightarrow> string \<Rightarrow> 'd \<Rightarrow> ('d fsys, unit) eff" where
  "write_json_atomic tmp target c =
     ebind (syscall d_nothing) (\<lambda>_.
     ebind (syscall (d_create_excl tmp)) (\<lambda>fd.
     efinally
       (ebind (write_all fd c) (\<lambda>_.
        ebind (syscall (d_fsync fd)) (\<lambda>_.
        ebind (syscall (d_replace tmp target)) (\<lambda>_.
        ebind (syscall d_nothing) (\<lambda>_. syscall d_fsync_dir)))))
       (unlink_if_there tmp)))"

definition checkpoint_save :: "string \<Rightarrow> string \<Rightarrow> 'd \<Rightarrow> ('d fsys, unit) eff" where
  "checkpoint_save tmp target c =
     ebind (syscall d_nothing) (\<lambda>_.
     efinally
       (ebind (syscall (d_open_write tmp)) (\<lambda>fd.
        ebind (write_all fd c) (\<lambda>_.
        ebind (syscall (d_fsync fd)) (\<lambda>_.
        syscall (d_replace tmp target)))))
       (unlink_if_there tmp))"

definition ledger_atomic_write :: "string \<Rightarrow> string \<Rightarrow> 'd \<Rightarrow> ('d fsys, unit) eff" where
  "ledger_atomic_write tmp target c =
     efinally
       (ebind (syscall (d_open_write tmp)) (\<lambda>fd.
        ebind (write_all fd c) (\<lambda>_.
        ebind (syscall (d_fsync fd)) (\<lambda>_.
        syscall (d_replace tmp target)))))
       (ebind (eget (\<lambda>s. entries (disk s) tmp \<noteq> None)) (\<lambda>there.
        ewhen there (syscall (d_unlink tmp))))"

section \<open>Atomicity\<close>

text \<open>
  Relative to the disk \<open>d0\<close> before the call: the target shows its old content or the whole new
  document, a power loss leaves one of the contents it could have left before or the whole new
  document, and the temporary name never leads to the file of the target.
\<close>

definition disk_wf :: "'d disk \<Rightarrow> bool" where
  "disk_wf d \<longleftrightarrow> (\<forall>n i. entries d n = Some i \<longrightarrow> i < next_ino d) \<and>
     (\<forall>n i. entries_synced d n = Some i \<longrightarrow> i < next_ino d)"

definition ready :: "string \<Rightarrow> string \<Rightarrow> 'd disk \<Rightarrow> bool" where
  "ready tmp t d \<longleftrightarrow> disk_wf d \<and> tmp \<noteq> t \<and>
     (\<forall>i. entries d tmp = Some i \<longrightarrow> entries d t \<noteq> Some i \<and> entries_synced d t \<noteq> Some i)"

definition target_safe :: "string \<Rightarrow> string \<Rightarrow> 'd disk \<Rightarrow> 'd \<Rightarrow> 'd disk \<Rightarrow> bool" where
  "target_safe tmp t d0 c d \<longleftrightarrow> ready tmp t d \<and>
     (visible d t = visible d0 t \<or> visible d t = Some (Whole c)) \<and>
     (\<forall>x. may_survive d t x \<longrightarrow> may_survive d0 t x \<or> x = Some (Whole c))"

definition all_safe :: "string \<Rightarrow> string \<Rightarrow> 'd disk \<Rightarrow> 'd \<Rightarrow> 'd disk list \<Rightarrow> 'd fsys \<Rightarrow> bool" where
  "all_safe tmp t d0 c ds0 s \<longleftrightarrow> target_safe tmp t d0 c (disk s) \<and>
     (\<exists>ds. seen s = ds @ ds0 \<and> (\<forall>d \<in> set ds. target_safe tmp t d0 c d))"

text \<open>A system call that keeps a property of every disk the run goes through.\<close>

definition on_disks :: "('d disk \<Rightarrow> bool) \<Rightarrow> 'd disk list \<Rightarrow> 'd fsys \<Rightarrow> bool" where
  "on_disks G ds0 s \<longleftrightarrow> G (disk s) \<and> (\<exists>ds. seen s = ds @ ds0 \<and> (\<forall>d \<in> set ds. G d))"

lemma triple_disks:
  assumes "\<And>d a d'. P d \<Longrightarrow> G d \<Longrightarrow> f d = Inr (a, d') \<Longrightarrow> G d' \<and> Q a d'"
  shows "triple (\<lambda>s. on_disks G ds0 s \<and> P (disk s)) (syscall f)
     (\<lambda>a s. on_disks G ds0 s \<and> Q a (disk s)) (\<lambda>_. on_disks G ds0)"
  unfolding triple_def
proof (intro allI impI)
  fix s r s'
  assume safe: "on_disks G ds0 s \<and> P (disk s)" and run: "syscall f s = (r, s')"
  show "(\<forall>a. r = Inr a \<longrightarrow> on_disks G ds0 s' \<and> Q a (disk s')) \<and> (\<forall>x. r = Inl x \<longrightarrow> on_disks G ds0 s')"
  proof (cases "faults s \<noteq> [] \<and> hd (faults s)")
    case True
    with run safe show ?thesis by (auto simp: syscall_def Let_def on_disks_def)
  next
    case False
    show ?thesis
    proof (cases "f (disk s)")
      case (Inl x)
      with run safe False show ?thesis by (auto simp: syscall_def Let_def on_disks_def)
    next
      case (Inr b)
      obtain a d' where b: "b = (a, d')" by (cases b)
      from assms [of "disk s" a d'] safe Inr b have new: "G d' \<and> Q a d'"
        by (simp add: on_disks_def)
      from safe obtain ds where ds: "seen s = ds @ ds0" "\<forall>d \<in> set ds. G d"
        by (auto simp: on_disks_def)
      from run Inr b False have "r = Inr a" "s' = s\<lparr>faults := tl (faults s), disk := d', seen := d' # seen s\<rparr>"
        by (auto simp: syscall_def Let_def)
      moreover from ds new have "\<exists>ds'. d' # seen s = ds' @ ds0 \<and> (\<forall>d \<in> set ds'. G d)"
        by (intro exI [of _ "d' # ds"]) simp
      ultimately show ?thesis using new by (simp add: on_disks_def)
    qed
  qed
qed

lemma all_safe_on: "all_safe tmp t d0 c ds0 = on_disks (target_safe tmp t d0 c) ds0"
  by (simp add: fun_eq_iff all_safe_def on_disks_def)

lemma triple_syscall:
  assumes "\<And>d a d'. P d \<Longrightarrow> target_safe tmp t d0 c d \<Longrightarrow> f d = Inr (a, d') \<Longrightarrow>
      target_safe tmp t d0 c d' \<and> Q a d'"
  shows "triple (\<lambda>s. all_safe tmp t d0 c ds0 s \<and> P (disk s)) (syscall f)
     (\<lambda>a s. all_safe tmp t d0 c ds0 s \<and> Q a (disk s)) (\<lambda>_. all_safe tmp t d0 c ds0)"
  unfolding all_safe_on by (rule triple_disks) (rule assms)

text \<open>The file the temporary name leads to, and how far its content has come.\<close>

definition holds_tmp :: "string \<Rightarrow> nat \<Rightarrow> 'd disk \<Rightarrow> bool" where
  "holds_tmp tmp i d \<longleftrightarrow> entries d tmp = Some i"

lemma safe_frame:
  assumes "target_safe tmp t d0 c d" "ready tmp t d'"
    "entries d' t = entries d t" "entries_synced d' t = entries_synced d t"
    "\<And>i. entries d t = Some i \<or> entries_synced d t = Some i \<Longrightarrow>
       data d' i = data d i \<and> data_synced d' i = data_synced d i"
  shows "target_safe tmp t d0 c d'"
proof -
  have "visible d' t = visible d t"
    using assms(3,5) by (cases "entries d t") (auto simp: visible_def)
  moreover have "may_survive d' t x = may_survive d t x" for x
    unfolding may_survive_def assms(3,4)
    using assms(5) entry_survives_cong [of "entries d t" d' d x]
      entry_survives_cong [of "entries_synced d t" d' d x] by auto
  ultimately show ?thesis using assms(1,2) by (auto simp: target_safe_def)
qed

lemma safe_ready: "target_safe tmp t d0 c d \<Longrightarrow> ready tmp t d"
  by (simp add: target_safe_def)

lemma fresh_safe:
  assumes "target_safe tmp t d0 c d" "entries d tmp = None" "fresh_file tmp d = (i, d')"
  shows "target_safe tmp t d0 c d' \<and> holds_tmp tmp i d'"
proof -
  have rd: "ready tmp t d" by (rule safe_ready [OF assms(1)])
  have d': "d' = snd (fresh_file tmp d)" and i: "i = next_ino d"
    using assms(3) by (auto simp: fresh_file_def)
  have wf: "disk_wf d" and ne: "tmp \<noteq> t" using rd by (auto simp: ready_def)
  have old: "entries d n \<noteq> Some (next_ino d)" "entries_synced d n \<noteq> Some (next_ino d)" for n
    using wf by (auto simp: disk_wf_def)
  have "disk_wf d'" unfolding d' disk_wf_def fresh_file_def
    using wf by (auto simp: disk_wf_def less_Suc_eq)
  with old ne have "ready tmp t d'"
    by (auto simp: ready_def d' fresh_file_def)
  then have "target_safe tmp t d0 c d'"
    by (rule safe_frame [OF assms(1)]) (use old ne in \<open>auto simp: d' fresh_file_def\<close>)
  with assms(3) show ?thesis by (auto simp: holds_tmp_def fresh_file_def)
qed

lemma set_safe:
  assumes "target_safe tmp t d0 c d" "holds_tmp tmp i d"
  shows "target_safe tmp t d0 c (d\<lparr>data := (data d)(i := x), data_synced := (data_synced d)(i := b)\<rparr>)"
  by (rule safe_frame [OF assms(1)])
    (use safe_ready [OF assms(1)] assms(2) in \<open>auto simp: ready_def disk_wf_def holds_tmp_def\<close>)

lemma create_excl_safe: "triple (\<lambda>s. all_safe tmp t d0 c ds0 s \<and> True) (syscall (d_create_excl tmp))
    (\<lambda>fd s. all_safe tmp t d0 c ds0 s \<and> holds_tmp tmp fd (disk s)) (\<lambda>_. all_safe tmp t d0 c ds0)"
  by (rule triple_syscall) (auto split: if_splits dest: fresh_safe)

lemma open_write_safe: "triple (\<lambda>s. all_safe tmp t d0 c ds0 s \<and> True) (syscall (d_open_write tmp))
    (\<lambda>fd s. all_safe tmp t d0 c ds0 s \<and> holds_tmp tmp fd (disk s)) (\<lambda>_. all_safe tmp t d0 c ds0)"
  by (rule triple_syscall)
    (auto split: option.splits dest: fresh_safe intro!: set_safe simp: holds_tmp_def)

definition written :: "string \<Rightarrow> nat \<Rightarrow> 'd \<Rightarrow> bool \<Rightarrow> 'd disk \<Rightarrow> bool" where
  "written tmp i c synced d \<longleftrightarrow> holds_tmp tmp i d \<and> data d i = Whole c \<and> (synced \<longrightarrow> data_synced d i)"

lemma write_all_safe: "triple (\<lambda>s. all_safe tmp t d0 c ds0 s \<and> holds_tmp tmp i (disk s)) (write_all i c)
    (\<lambda>_ s. all_safe tmp t d0 c ds0 s \<and> written tmp i c False (disk s)) (\<lambda>_. all_safe tmp t d0 c ds0)"
  unfolding write_all_def
proof (rule triple_ebind)
  show "triple (\<lambda>s. all_safe tmp t d0 c ds0 s \<and> holds_tmp tmp i (disk s)) (syscall (d_set i Torn))
      (\<lambda>_ s. all_safe tmp t d0 c ds0 s \<and> holds_tmp tmp i (disk s)) (\<lambda>_. all_safe tmp t d0 c ds0)"
    by (rule triple_syscall) (auto intro!: set_safe simp: holds_tmp_def)
  show "triple (\<lambda>s. all_safe tmp t d0 c ds0 s \<and> holds_tmp tmp i (disk s)) (syscall (d_set i (Whole c)))
      (\<lambda>_ s. all_safe tmp t d0 c ds0 s \<and> written tmp i c False (disk s)) (\<lambda>_. all_safe tmp t d0 c ds0)"
    for a :: unit
    by (rule triple_syscall) (auto intro!: set_safe simp: holds_tmp_def written_def)
qed

lemma fsync_safe: "triple (\<lambda>s. all_safe tmp t d0 c ds0 s \<and> written tmp i c False (disk s)) (syscall (d_fsync i))
    (\<lambda>_ s. all_safe tmp t d0 c ds0 s \<and> written tmp i c True (disk s)) (\<lambda>_. all_safe tmp t d0 c ds0)"
proof (rule triple_syscall)
  fix d d' :: "'a disk" and a :: unit
  assume w: "written tmp i c False d" and s: "target_safe tmp t d0 c d" and "d_fsync i d = Inr (a, d')"
  then have d': "d' = d\<lparr>data := (data d)(i := Whole c), data_synced := (data_synced d)(i := True)\<rparr>"
    by (cases d) (auto simp: written_def fun_upd_idem)
  from w have "holds_tmp tmp i d" by (simp add: written_def)
  from set_safe [OF s this] w show "target_safe tmp t d0 c d' \<and> written tmp i c True d'"
    by (auto simp: d' written_def holds_tmp_def)
qed

definition installed :: "string \<Rightarrow> string \<Rightarrow> 'd \<Rightarrow> bool \<Rightarrow> 'd disk \<Rightarrow> bool" where
  "installed tmp t c durable d \<longleftrightarrow> entries d tmp = None \<and> visible d t = Some (Whole c) \<and>
     (\<forall>i. entries d t = Some i \<longrightarrow> data_synced d i) \<and>
     (durable \<longrightarrow> (\<forall>x. may_survive d t x \<longrightarrow> x = Some (Whole c)))"

lemma replace_safe: "triple (\<lambda>s. all_safe tmp t d0 c ds0 s \<and> written tmp i c True (disk s))
    (syscall (d_replace tmp t))
    (\<lambda>_ s. all_safe tmp t d0 c ds0 s \<and> installed tmp t c False (disk s)) (\<lambda>_. all_safe tmp t d0 c ds0)"
proof (rule triple_syscall)
  fix d d' :: "'a disk" and a :: unit
  assume w: "written tmp i c True d" and s: "target_safe tmp t d0 c d" and r: "d_replace tmp t d = Inr (a, d')"
  from w r have d': "d' = d\<lparr>entries := (entries d)(t := Some i, tmp := None)\<rparr>"
    by (auto simp: written_def holds_tmp_def)
  from s have rd: "ready tmp t d" by (rule safe_ready)
  with w have ready': "ready tmp t d'"
    by (auto simp: d' ready_def disk_wf_def written_def holds_tmp_def)
  have vis: "visible d' t = Some (Whole c)"
    using w rd by (auto simp: d' visible_def written_def ready_def)
  have "entry_survives d' e x = entry_survives d e x" for e x
    by (rule entry_survives_cong) (simp add: d')
  with w rd have "may_survive d' t x \<Longrightarrow> may_survive d t x \<or> x = Some (Whole c)" for x
    by (auto simp: d' may_survive_def written_def ready_def)
  with s ready' vis have "target_safe tmp t d0 c d'" by (auto simp: target_safe_def)
  with vis w rd show "target_safe tmp t d0 c d' \<and> installed tmp t c False d'"
    by (auto simp: installed_def d' written_def ready_def)
qed

lemma nothing_safe: "triple (\<lambda>s. all_safe tmp t d0 c ds0 s \<and> P (disk s)) (syscall d_nothing)
    (\<lambda>_ s. all_safe tmp t d0 c ds0 s \<and> P (disk s)) (\<lambda>_. all_safe tmp t d0 c ds0)"
  by (rule triple_syscall) auto

lemma fsync_dir_safe: "triple (\<lambda>s. all_safe tmp t d0 c ds0 s \<and> installed tmp t c False (disk s))
    (syscall d_fsync_dir)
    (\<lambda>_ s. all_safe tmp t d0 c ds0 s \<and> installed tmp t c True (disk s)) (\<lambda>_. all_safe tmp t d0 c ds0)"
proof (rule triple_syscall)
  fix d d' :: "'a disk" and a :: unit
  assume i: "installed tmp t c False d" and s: "target_safe tmp t d0 c d" and "d_fsync_dir d = Inr (a, d')"
  then have d': "d' = d\<lparr>entries_synced := entries d\<rparr>" by simp
  from i have sv: "may_survive d' t x \<Longrightarrow> x = Some (Whole c)" for x
    by (auto simp: d' may_survive_def installed_def visible_def)
  from s have "ready tmp t d'" by (auto simp: d' target_safe_def ready_def disk_wf_def)
  with i sv have "target_safe tmp t d0 c d'"
    by (auto simp: target_safe_def d' visible_def installed_def)
  with i sv show "target_safe tmp t d0 c d' \<and> installed tmp t c True d'"
    by (auto simp: installed_def d' visible_def)
qed

definition gone :: "string \<Rightarrow> 'd disk \<Rightarrow> 'd disk" where
  "gone tmp d = d\<lparr>entries := (entries d)(tmp := None)\<rparr>"

lemma gone_safe: "target_safe tmp t d0 c d \<Longrightarrow> target_safe tmp t d0 c (gone tmp d)"
  by (rule safe_frame) (auto simp: gone_def target_safe_def ready_def disk_wf_def)

lemma gone_installed:
  assumes "tmp \<noteq> t" "installed tmp t c b d"
  shows "installed tmp t c b (gone tmp d)"
proof -
  from assms(2) have "gone tmp d = d" by (cases d) (auto simp: gone_def installed_def fun_upd_idem)
  with assms(2) show ?thesis by simp
qed

text \<open>Removing the temporary name, by either routine, changes nothing for the target.\<close>

lemma d_unlink_cases: "d_unlink n d = Inr (a, d') \<Longrightarrow> d' = gone n d"
  by (auto simp: gone_def split: option.splits)

lemma unlink_safe:
  assumes "\<And>d. P d \<Longrightarrow> tmp \<noteq> t \<Longrightarrow> P (gone tmp d)"
  shows "triple (\<lambda>s. all_safe tmp t d0 c ds0 s \<and> P (disk s)) (syscall (d_unlink tmp))
     (\<lambda>_ s. all_safe tmp t d0 c ds0 s \<and> P (disk s)) (\<lambda>_ s. all_safe tmp t d0 c ds0 s)"
  by (rule triple_syscall)
    (use assms in \<open>auto dest!: d_unlink_cases simp del: d_unlink.simps
       intro: gone_safe dest: safe_ready simp: ready_def\<close>)

lemma unlink_if_there_safe:
  assumes "\<And>d. P d \<Longrightarrow> tmp \<noteq> t \<Longrightarrow> P (gone tmp d)"
  shows "triple (\<lambda>s. all_safe tmp t d0 c ds0 s \<and> P (disk s)) (unlink_if_there tmp)
     (\<lambda>_ s. all_safe tmp t d0 c ds0 s \<and> P (disk s)) (\<lambda>_ s. all_safe tmp t d0 c ds0 s)"
  unfolding triple_def
proof (intro allI impI)
  fix s r s'
  assume pre: "all_safe tmp t d0 c ds0 s \<and> P (disk s)" and run: "unlink_if_there tmp s = (r, s')"
  obtain r1 s1 where u: "syscall (d_unlink tmp) s = (r1, s1)" by (cases "syscall (d_unlink tmp) s")
  note U = unlink_safe [of P tmp t d0 c ds0, OF assms]
  have safe: "all_safe tmp t d0 c ds0 s1"
    using triple_Inr [OF U pre] triple_Inl [OF U pre] u by (cases r1) auto
  have same: "r1 = Inl x \<Longrightarrow> disk s1 = disk s" for x
    using u by (auto simp: syscall_def Let_def split: if_splits sum.splits)
  show "(\<forall>a. r = Inr a \<longrightarrow> all_safe tmp t d0 c ds0 s' \<and> P (disk s')) \<and>
      (\<forall>x. r = Inl x \<longrightarrow> all_safe tmp t d0 c ds0 s')"
  proof (cases r1)
    case (Inl x)
    with run u same [OF Inl] safe pre show ?thesis
      by (auto simp: unlink_if_there_def etry_def eret_def split: if_splits)
  next
    case (Inr a)
    with run u have "r = Inr a" "s' = s1" by (auto simp: unlink_if_there_def etry_def)
    with Inr triple_Inr [OF U pre] u safe show ?thesis by auto
  qed
qed

section \<open>The contract of the writers\<close>

text \<open>
  What callers may rely on: every disk of a write is safe for the target, and a write that
  returns has installed the document and removed the temporary name; a \<open>durable\<close> writer's
  document is then the only one a power loss can leave.
\<close>

locale atomic_writer =
  fixes wr :: "string \<Rightarrow> string \<Rightarrow> 'd \<Rightarrow> ('d fsys, unit) eff" and durable :: bool
  assumes writes: "triple (all_safe tmp t d0 c ds0) (wr tmp t c)
     (\<lambda>_ s. all_safe tmp t d0 c ds0 s \<and> installed tmp t c durable (disk s))
     (\<lambda>_. all_safe tmp t d0 c ds0)"
begin

lemma all_safe_start: "ready tmp t (disk s) \<Longrightarrow> all_safe tmp t (disk s) c (seen s) s"
  by (simp add: all_safe_def target_safe_def)

lemma run_safe:
  assumes "ready tmp t (disk s)" "wr tmp t c s = (r, s')"
  shows "all_safe tmp t (disk s) c (seen s) s'"
  using triple_Inr [OF writes all_safe_start [OF assms(1)]]
    triple_Inl [OF writes all_safe_start [OF assms(1)]] assms(2) by (cases r) auto

lemma crash_atomic:
  assumes "ready tmp t (disk s)" "wr tmp t c s = (r, s')" "seen s = []" "d \<in> set (seen s')"
  shows "(visible d t = visible (disk s) t \<or> visible d t = Some (Whole c)) \<and>
    (\<forall>x. may_survive d t x \<longrightarrow> may_survive (disk s) t x \<or> x = Some (Whole c))"
  using run_safe [OF assms(1,2)] assms(3,4) by (auto simp: all_safe_def target_safe_def)

lemma returns_installed:
  assumes "ready tmp t (disk s)" "wr tmp t c s = (Inr u, s')"
  shows "installed tmp t c durable (disk s')"
  using triple_Inr [OF writes all_safe_start [OF assms(1)] assms(2)] by simp

lemma failure_keeps:
  assumes "ready tmp t (disk s)" "wr tmp t c s = (Inl x, s')"
  shows "ready tmp t (disk s') \<and>
    (visible (disk s') t = visible (disk s) t \<or> visible (disk s') t = Some (Whole c))"
  using run_safe [OF assms] by (simp add: all_safe_def target_safe_def)

end

lemma finish_write:
  "triple (\<lambda>s. all_safe tmp t d0 c ds0 s \<and> holds_tmp tmp fd (disk s))
     (ebind (write_all fd c) (\<lambda>_. ebind (syscall (d_fsync fd)) (\<lambda>_. syscall (d_replace tmp t))))
     (\<lambda>_ s. all_safe tmp t d0 c ds0 s \<and> installed tmp t c False (disk s)) (\<lambda>_. all_safe tmp t d0 c ds0)"
  by (rule triple_ebind [OF write_all_safe triple_ebind [OF fsync_safe replace_safe]])

interpretation process_json: atomic_writer write_json_atomic True
proof
  fix tmp t :: string and d0 :: "'d disk" and c ds0
  let ?A = "all_safe tmp t d0 c ds0"
  have body: "triple (\<lambda>s. ?A s \<and> holds_tmp tmp fd (disk s))
      (ebind (write_all fd c) (\<lambda>_. ebind (syscall (d_fsync fd)) (\<lambda>_. ebind (syscall (d_replace tmp t))
         (\<lambda>_. ebind (syscall d_nothing) (\<lambda>_. syscall d_fsync_dir)))))
      (\<lambda>_ s. ?A s \<and> installed tmp t c True (disk s)) (\<lambda>_. ?A)" for fd
    by (rule triple_ebind [OF write_all_safe triple_ebind [OF fsync_safe
          triple_ebind [OF replace_safe triple_ebind [OF nothing_safe fsync_dir_safe]]]])
  have fin: "triple (\<lambda>s. ?A s \<and> holds_tmp tmp fd (disk s))
      (efinally (ebind (write_all fd c) (\<lambda>_. ebind (syscall (d_fsync fd))
         (\<lambda>_. ebind (syscall (d_replace tmp t))
         (\<lambda>_. ebind (syscall d_nothing) (\<lambda>_. syscall d_fsync_dir))))) (unlink_if_there tmp))
      (\<lambda>_ s. ?A s \<and> installed tmp t c True (disk s)) (\<lambda>_. ?A)" for fd
  proof (rule triple_efinally [OF body])
    show "triple (\<lambda>s. ?A s \<and> installed tmp t c True (disk s)) (unlink_if_there tmp)
        (\<lambda>_ s. ?A s \<and> installed tmp t c True (disk s)) (\<lambda>_. ?A)"
      by (rule unlink_if_there_safe) (rule gone_installed)
    show "triple ?A (unlink_if_there tmp) (\<lambda>_. ?A) (\<lambda>_. ?A)"
      using unlink_if_there_safe [of "\<lambda>_. True"] by (rule triple_conseq) simp_all
  qed
  show "triple ?A (write_json_atomic tmp t c)
      (\<lambda>_ s. ?A s \<and> installed tmp t c True (disk s)) (\<lambda>_. ?A)"
    unfolding write_json_atomic_def
    by (rule triple_pre, rule triple_ebind [OF nothing_safe triple_ebind [OF create_excl_safe fin]]) simp
qed

text \<open>The two writers that open the temporary name with \<^verbatim>\<open>open("w")\<close> differ in their clean-up.\<close>

lemma open_write_writer:
  assumes "\<And>P. (\<And>d. P d \<Longrightarrow> tmp \<noteq> t \<Longrightarrow> P (gone tmp d)) \<Longrightarrow>
      triple (\<lambda>s. all_safe tmp t d0 c ds0 s \<and> P (disk s)) clean
        (\<lambda>_ s. all_safe tmp t d0 c ds0 s \<and> P (disk s)) (\<lambda>_. all_safe tmp t d0 c ds0)"
  shows "triple (all_safe tmp t d0 c ds0)
     (efinally (ebind (syscall (d_open_write tmp)) (\<lambda>fd. ebind (write_all fd c)
        (\<lambda>_. ebind (syscall (d_fsync fd)) (\<lambda>_. syscall (d_replace tmp t))))) clean)
     (\<lambda>_ s. all_safe tmp t d0 c ds0 s \<and> installed tmp t c False (disk s)) (\<lambda>_. all_safe tmp t d0 c ds0)"
proof (rule triple_efinally)
  show "triple (all_safe tmp t d0 c ds0) (ebind (syscall (d_open_write tmp)) (\<lambda>fd. ebind (write_all fd c)
      (\<lambda>_. ebind (syscall (d_fsync fd)) (\<lambda>_. syscall (d_replace tmp t)))))
      (\<lambda>_ s. all_safe tmp t d0 c ds0 s \<and> installed tmp t c False (disk s)) (\<lambda>_. all_safe tmp t d0 c ds0)"
    by (rule triple_pre, rule triple_ebind [OF open_write_safe finish_write]) simp
  show "triple (\<lambda>s. all_safe tmp t d0 c ds0 s \<and> installed tmp t c False (disk s)) clean
      (\<lambda>_ s. all_safe tmp t d0 c ds0 s \<and> installed tmp t c False (disk s)) (\<lambda>_. all_safe tmp t d0 c ds0)"
    by (rule assms) (rule gone_installed)
  show "triple (all_safe tmp t d0 c ds0) clean (\<lambda>_. all_safe tmp t d0 c ds0) (\<lambda>_. all_safe tmp t d0 c ds0)"
    using assms [of "\<lambda>_. True"] by (rule triple_conseq) simp_all
qed

interpretation checkpoint_file: atomic_writer checkpoint_save False
proof
  fix tmp t :: string and d0 :: "'d disk" and c ds0
  let ?A = "all_safe tmp t d0 c ds0"
  have n: "triple ?A (syscall d_nothing) (\<lambda>_. ?A) (\<lambda>_. ?A)"
    using nothing_safe [of _ _ _ _ _ "\<lambda>_. True"] by (rule triple_conseq) simp_all
  show "triple ?A (checkpoint_save tmp t c)
      (\<lambda>_ s. ?A s \<and> installed tmp t c False (disk s)) (\<lambda>_. ?A)"
    unfolding checkpoint_save_def
    by (rule triple_ebind [OF n open_write_writer [OF unlink_if_there_safe]])
qed

interpretation ledger_file: atomic_writer ledger_atomic_write False
proof
  fix tmp t :: string and d0 :: "'d disk" and c ds0
  let ?A = "all_safe tmp t d0 c ds0"
  have clean: "triple (\<lambda>s. ?A s \<and> P (disk s))
      (ebind (eget (\<lambda>s. entries (disk s) tmp \<noteq> None)) (\<lambda>there. ewhen there (syscall (d_unlink tmp))))
      (\<lambda>_ s. ?A s \<and> P (disk s)) (\<lambda>_. ?A)"
    if P: "\<And>d. P d \<Longrightarrow> tmp \<noteq> t \<Longrightarrow> P (gone tmp d)" for P
  proof (rule triple_ebind)
    show "triple (\<lambda>s. ?A s \<and> P (disk s)) (eget (\<lambda>s. entries (disk s) tmp \<noteq> None))
        (\<lambda>_ s. ?A s \<and> P (disk s)) (\<lambda>_. ?A)"
      by (rule triple_eget)
    show "triple (\<lambda>s. ?A s \<and> P (disk s)) (ewhen there (syscall (d_unlink tmp)))
        (\<lambda>_ s. ?A s \<and> P (disk s)) (\<lambda>_. ?A)" for there
      using unlink_safe [of P tmp t d0 c ds0, OF P] by (cases there) (auto simp: ewhen_def intro!: triple_eret)
  qed
  show "triple ?A (ledger_atomic_write tmp t c)
      (\<lambda>_ s. ?A s \<and> installed tmp t c False (disk s)) (\<lambda>_. ?A)"
    unfolding ledger_atomic_write_def by (rule open_write_writer [OF clean])
qed

section \<open>Properties of the writers\<close>

text \<open>
  C24. Crash atomicity of the fleet's JSON documents: whatever system call fails, a reader sees
  the old document or the whole new one in every state of \<^verbatim>\<open>write_json_atomic\<close>, and a power loss
  in any of them leaves one of the contents it could have left before or the whole new one.
\<close>

theorem write_json_crash_atomic:
  assumes "ready tmp t (disk s)" "write_json_atomic tmp t c s = (r, s')" "seen s = []"
    and "d \<in> set (seen s')"
  shows "(visible d t = visible (disk s) t \<or> visible d t = Some (Whole c)) \<and>
    (\<forall>x. may_survive d t x \<longrightarrow> may_survive (disk s) t x \<or> x = Some (Whole c))"
  using assms by (rule process_json.crash_atomic)

text \<open>
  C13. Durability: when \<^verbatim>\<open>write_json_atomic\<close> returns, the document is in place, the temporary name is
  gone, and the new document is the only content a power loss can leave.
\<close>

theorem write_json_durable:
  assumes "ready tmp t (disk s)" "write_json_atomic tmp t c s = (Inr u, s')"
  shows "visible (disk s') t = Some (Whole c) \<and> entries (disk s') tmp = None \<and>
    (\<forall>x. may_survive (disk s') t x \<longrightarrow> x = Some (Whole c))"
  using process_json.returns_installed [OF assms] by (simp add: installed_def)

text \<open>
  The checkpoint file is never torn: after \<^verbatim>\<open>FileCheckpointStore.save\<close> the file holds the new
  checkpoint, or, when \<^verbatim>\<open>save\<close> raised, the previous one or the new one; a power loss at any point
  leaves one of the contents it could have left before or the new checkpoint.
\<close>

theorem checkpoint_save_atomic:
  assumes "ready tmp t (disk s)" "checkpoint_save tmp t c s = (r, s')" "seen s = []"
  shows "(visible (disk s') t = Some (Whole c) \<or> (isl r \<and> visible (disk s') t = visible (disk s) t)) \<and>
    (\<forall>d \<in> set (seen s'). \<forall>x. may_survive d t x \<longrightarrow> may_survive (disk s) t x \<or> x = Some (Whole c))"
proof
  show "visible (disk s') t = Some (Whole c) \<or> (isl r \<and> visible (disk s') t = visible (disk s) t)"
  proof (cases r)
    case (Inl x)
    with checkpoint_file.failure_keeps [OF assms(1)] assms(2) show ?thesis by auto
  next
    case (Inr u)
    with checkpoint_file.returns_installed [OF assms(1)] assms(2) show ?thesis
      by (auto simp: installed_def)
  qed
  show "\<forall>d \<in> set (seen s'). \<forall>x. may_survive d t x \<longrightarrow> may_survive (disk s) t x \<or> x = Some (Whole c)"
    using checkpoint_file.crash_atomic [OF assms] by blast
qed

text \<open>The same of the discovery ledger's \<^verbatim>\<open>_atomic_write\<close>.\<close>

theorem ledger_write_atomic:
  assumes "ready tmp t (disk s)" "ledger_atomic_write tmp t c s = (r, s')" "seen s = []"
    and "d \<in> set (seen s')"
  shows "(visible d t = visible (disk s) t \<or> visible d t = Some (Whole c)) \<and>
    (\<forall>x. may_survive d t x \<longrightarrow> may_survive (disk s) t x \<or> x = Some (Whole c))"
  using assms by (rule ledger_file.crash_atomic)

text \<open>A directory with the document 1 durably in place, and writes of the document 2.\<close>

definition demo_fsys :: "bool list \<Rightarrow> nat fsys" where
  "demo_fsys fs = \<lparr>disk = \<lparr>entries = [''doc'' \<mapsto> 0], entries_synced = [''doc'' \<mapsto> 0],
     data = (\<lambda>_. Whole 1), data_synced = (\<lambda>_. True), next_ino = 1\<rparr>, faults = fs, seen = []\<rparr>"

lemma demo_fsys_ready: "ready ''tmp'' ''doc'' (disk (demo_fsys fs))" "seen (demo_fsys fs) = []"
  by (simp_all add: ready_def disk_wf_def demo_fsys_def)

lemma demo_write_json: "(case write_json_atomic ''tmp'' ''doc'' 2 (demo_fsys fs) of (r, s) \<Rightarrow>
     (isl r, visible (disk s) ''doc'', length (seen s))) =
   (if fs = [] then (False, Some (Whole 2), 8) else (True, Some (Whole 1), 5))"
  if "fs = [] \<or> fs = replicate 4 False @ [True]"
  using that by (elim disjE; simp only:; code_simp)

lemma demo_ledger_write: "(case ledger_atomic_write ''tmp'' ''doc'' 2 (demo_fsys [False, False, True]) of
   (r, s) \<Rightarrow> (isl r, map (\<lambda>d. visible d ''doc'') (seen s))) = (True, [Some (Whole 1), Some (Whole 1), Some (Whole 1)])"
  by code_simp

lemma demo_checkpoint_save: "(case checkpoint_save ''tmp'' ''doc'' 2 (demo_fsys [False, False, False, False, True]) of
   (r, s) \<Rightarrow> (isl r, visible (disk s) ''doc'')) = (True, Some (Whole 1))"
  by code_simp

theorem write_json_crash_atomic_witness:
  "\<exists>r s. write_json_atomic ''tmp'' ''doc'' 2 (demo_fsys (replicate 4 False @ [True])) = (r, s) \<and>
     length (seen s) = 5 \<and> (\<forall>d \<in> set (seen s). visible d ''doc'' \<noteq> Some Torn)"
proof -
  let ?s = "demo_fsys (replicate 4 False @ [True])"
  obtain r s where run: "write_json_atomic ''tmp'' ''doc'' 2 ?s = (r, s)"
    by (cases "write_json_atomic ''tmp'' ''doc'' 2 ?s")
  with demo_write_json [of "replicate 4 False @ [True]"] have "length (seen s) = 5" by simp
  moreover have "visible (disk ?s) ''doc'' = Some (Whole 1)" by (simp add: demo_fsys_def visible_def)
  moreover note write_json_crash_atomic [OF demo_fsys_ready(1) run demo_fsys_ready(2)]
  ultimately have "length (seen s) = 5 \<and> (\<forall>d \<in> set (seen s). visible d ''doc'' \<noteq> Some Torn)"
    by fastforce
  with run show ?thesis by blast
qed

theorem write_json_durable_witness:
  "\<exists>s. write_json_atomic ''tmp'' ''doc'' 2 (demo_fsys []) = (Inr (), s) \<and>
     (\<forall>x. may_survive (disk s) ''doc'' x \<longrightarrow> x = Some (Whole 2))"
proof -
  obtain r s where run: "write_json_atomic ''tmp'' ''doc'' 2 (demo_fsys []) = (r, s)"
    by (cases "write_json_atomic ''tmp'' ''doc'' 2 (demo_fsys [])")
  with demo_write_json [of "[]"] have "r = Inr ()" by (cases r) auto
  with run write_json_durable [OF demo_fsys_ready(1), of 2 "[]" "()" s] show ?thesis by auto
qed

theorem checkpoint_save_atomic_witness:
  "\<exists>r s. checkpoint_save ''tmp'' ''doc'' 2 (demo_fsys [False, False, False, False, True]) = (r, s) \<and>
     isl r \<and> visible (disk s) ''doc'' = visible (disk (demo_fsys [])) ''doc''"
proof -
  let ?s = "demo_fsys [False, False, False, False, True]"
  obtain r s where run: "checkpoint_save ''tmp'' ''doc'' 2 ?s = (r, s)"
    by (cases "checkpoint_save ''tmp'' ''doc'' 2 ?s")
  with demo_checkpoint_save have "isl r" "visible (disk s) ''doc'' = Some (Whole 1)" by auto
  moreover have "visible (disk ?s) ''doc'' = visible (disk (demo_fsys [])) ''doc''"
    by (simp add: demo_fsys_def visible_def)
  ultimately show ?thesis
    using run checkpoint_save_atomic [OF demo_fsys_ready(1) run demo_fsys_ready(2)] by auto
qed

theorem ledger_write_atomic_witness:
  "\<exists>r s. ledger_atomic_write ''tmp'' ''doc'' 2 (demo_fsys [False, False, True]) = (r, s) \<and>
     length (seen s) = 3 \<and> (\<forall>d \<in> set (seen s). visible d ''doc'' \<noteq> Some Torn)"
proof -
  let ?s = "demo_fsys [False, False, True]"
  obtain r s where run: "ledger_atomic_write ''tmp'' ''doc'' 2 ?s = (r, s)"
    by (cases "ledger_atomic_write ''tmp'' ''doc'' 2 ?s")
  with demo_ledger_write have "map (\<lambda>d. visible d ''doc'') (seen s) = replicate 3 (Some (Whole 1))"
    by (simp add: numeral_3_eq_3)
  then have "length (seen s) = 3" by (metis length_map length_replicate)
  moreover have "visible (disk ?s) ''doc'' = Some (Whole 1)" by (simp add: demo_fsys_def visible_def)
  moreover note ledger_write_atomic [OF demo_fsys_ready(1) run demo_fsys_ready(2)]
  ultimately have "length (seen s) = 3 \<and> (\<forall>d \<in> set (seen s). visible d ''doc'' \<noteq> Some Torn)"
    by fastforce
  with run show ?thesis by blast
qed

end
