(* ===== verification/HostBase.thy ===== *)
theory HostBase
  imports PyValues
begin

text \<open>
  What the two in-process hosts, \<^verbatim>\<open>WorkerHost\<close> and \<^verbatim>\<open>ContinuousWorkerHost\<close>, share: the stop
  event and the run lock a host object owns, the cooperative wait, and the call of a consumer
  callback with a record of it in the host's log.

  An \<open>env\<close> is what outlives one \<^verbatim>\<open>run()\<close>: the two threading objects of the host and the world of
  the consumer. A callback is a computation on it, so a callback may call \<^verbatim>\<open>request_stop()\<close> or
  read the host's objects. Other threads act through \<open>others\<close>, which is applied before each
  read of the stop event, the only place where the host looks at what they did.
\<close>

record 'u env =
  stop_flag :: bool
  run_locked :: bool
  user :: 'u

text \<open>A value the code tests with \<^verbatim>\<open>isinstance\<close>: of the expected type, or not.\<close>

datatype 'a dyn = Typed 'a | Untyped

text \<open>\<^verbatim>\<open>self._sleep is time.sleep\<close>, or a sleep the embedding code injected\<close>

datatype 'u sleeper = TimeSleep | Injected "rat \<Rightarrow> ('u env, unit) eff"

record 'u timing =
  sleeper :: "'u sleeper"
  event_wait :: "rat \<Rightarrow> 'u env \<Rightarrow> 'u env"
  others :: "'u env \<Rightarrow> 'u env"

definition request_stop :: "'u env \<Rightarrow> 'u env" where
  "request_stop e = e\<lparr>stop_flag := True\<rparr>"

text \<open>\<^verbatim>\<open>self._stop.is_set()\<close>\<close>

definition stop_is_set :: "'u timing \<Rightarrow> ('u env, bool) eff" where
  "stop_is_set t e = (let e' = others t e in (Inr (stop_flag e'), e'))"

text \<open>\<^verbatim>\<open>_wait\<close> of both hosts\<close>

definition host_wait :: "'u timing \<Rightarrow> rat \<Rightarrow> ('u env, unit) eff" where
  "host_wait t secs = (case sleeper t of
     TimeSleep \<Rightarrow> emod (event_wait t secs)
   | Injected f \<Rightarrow> ebind (stop_is_set t) (\<lambda>stopped. ewhen (\<not> stopped) (f secs)))"

text \<open>
  Neither \<^verbatim>\<open>Event\<close> is ever cleared by the package. \<open>latched t\<close> says so of the environment: other
  threads and the clock never clear a stop request.
\<close>

definition latched :: "'u timing \<Rightarrow> bool" where
  "latched t \<longleftrightarrow> (\<forall>e. stop_flag e \<longrightarrow> stop_flag (others t e)) \<and>
     (\<forall>d e. stop_flag e \<longrightarrow> stop_flag (event_wait t d e))"

text \<open>\<^verbatim>\<open>run\<close> starts when its bound is not negative and no other run holds the lock.\<close>

definition startable :: "int option \<Rightarrow> 'u env \<Rightarrow> bool" where
  "startable mi e \<longleftrightarrow> \<not> run_locked e \<and> (\<forall>m. mi = Some m \<longrightarrow> 0 \<le> m)"

lemma request_stop_set [simp]: "stop_flag (request_stop e)"
  by (simp add: request_stop_def)

lemma host_wait_stopped:
  assumes "latched t" "stop_flag e"
  shows "\<exists>e'. host_wait t d e = (Inr (), e') \<and> stop_flag e'"
  using assms by (cases "sleeper t") (auto simp: host_wait_def latched_def eff_defs stop_is_set_def)

text \<open>Running a computation of the environment inside a larger state, by a getter and a setter.\<close>

definition zoom :: "('s \<Rightarrow> 'e) \<Rightarrow> ('e \<Rightarrow> 's \<Rightarrow> 's) \<Rightarrow> ('e, 'a) eff \<Rightarrow> ('s, 'a) eff" where
  "zoom g p m s = (case m (g s) of (r, e) \<Rightarrow> (r, p e s))"

lemma zoom_outcome: "zoom g p m s = (r, s') \<Longrightarrow> \<exists>e. m (g s) = (r, e) \<and> s' = p e s"
  by (auto simp: zoom_def split: prod.splits)

end
