(* ===== verification/Worker.thy ===== *)
theory Worker
  imports HostBase
begin

text \<open>
  \<^verbatim>\<open>worker.py\<close>: the lifecycle host of an autonomous source. The consumer's intent, its checkpoint
  store and its heartbeat callback are computations on \<open>'u env\<close>. Plans, payloads and results are
  opaque objects \<open>'o\<close>, checkpoints are \<open>'c option\<close> with \<open>None\<close> for Python's \<^verbatim>\<open>None\<close>. The local
  variables of \<^verbatim>\<open>run\<close> are the fields of \<open>wstate\<close>; its field \<open>calls\<close> is the history of the calls
  the host made, the most recent first, each with whether it returned.
\<close>

section \<open>Data\<close>

datatype work_directive = CONTINUE | IDLE | STOP

datatype ('o, 'c) planned =
    PlannedNone
  | WorkerStep 'o "'c option"
  | StepDecision "work_directive dyn" 'o
  | PlannedOther

record ('o, 'c) source_output =
  so_result :: "'o dyn"
  so_checkpoint :: "'c option"
  so_directive :: "work_directive dyn"

record backoff_policy =
  initial_seconds :: rat
  maximum_seconds :: rat
  multiplier :: rat
  idle_seconds :: rat
  max_consecutive_failures :: "int option"

record 'c worker_heartbeat =
  hb_state :: string
  hb_timestamp :: string
  hb_checkpoint :: "'c option"
  hb_completed :: nat
  hb_failures :: nat
  hb_consecutive :: nat
  hb_error :: string
  hb_retry_in :: "rat option"

record 'c worker_run =
  wr_checkpoint :: "'c option"
  wr_completed :: nat
  wr_failures :: nat
  wr_iterations :: nat

section \<open>Backoff\<close>

text \<open>\<^verbatim>\<open>BackoffPolicy.__post_init__\<close>\<close>

definition make_backoff ::
  "rat \<Rightarrow> rat \<Rightarrow> rat \<Rightarrow> rat \<Rightarrow> int option \<Rightarrow> exc + backoff_policy" where
  "make_backoff ini mx mult idl fails =
     (if ini < 0 \<or> mx < 0 \<or> idl < 0
        then Inl (Exc ValueError ''backoff delays must be >= 0'')
      else if mx < ini
        then Inl (Exc ValueError ''maximum_seconds must be >= initial_seconds'')
      else if mult < 1 then Inl (Exc ValueError ''multiplier must be >= 1'')
      else if (case fails of None \<Rightarrow> False | Some l \<Rightarrow> l < 1)
        then Inl (Exc ValueError ''max_consecutive_failures must be >= 1'')
      else Inr \<lparr>initial_seconds = ini, maximum_seconds = mx, multiplier = mult,
                idle_seconds = idl, max_consecutive_failures = fails\<rparr>)"

definition backoff_delay :: "backoff_policy \<Rightarrow> int \<Rightarrow> exc + rat" where
  "backoff_delay p n =
     (if n < 1 then Inl (Exc ValueError ''consecutive_failures must be >= 1'')
      else let d = (case float_pow (multiplier p) (nat (n - 1)) of
                      Inl _ \<Rightarrow> maximum_seconds p
                    | Inr m \<Rightarrow> initial_seconds p * m)
           in Inr (min d (maximum_seconds p)))"

section \<open>The host\<close>

datatype ('o, 'c) call =
    CLoad | CPlan "'c option" | CFetch 'o | CTransform 'o 'o | COutput 'o 'o
  | CPersist 'o 'o | CCheckpoint 'o 'o | CSave "'c option" | CBeat string | CWait rat

record ('o, 'c, 'u) worker_host =
  i_plan :: "'c option \<Rightarrow> ('u env, ('o, 'c) planned) eff"
  i_fetch :: "'o \<Rightarrow> ('u env, 'o) eff"
  i_transform :: "'o \<Rightarrow> 'o \<Rightarrow> ('u env, 'o) eff"
  i_output :: "('o \<Rightarrow> 'o \<Rightarrow> ('u env, ('o, 'c) source_output dyn) eff) option"
  i_persist :: "'o \<Rightarrow> 'o \<Rightarrow> ('u env, unit) eff"
  i_checkpoint :: "('o \<Rightarrow> 'o \<Rightarrow> ('u env, 'c option) eff) option"
  cp_load :: "('u env, 'c option) eff"
  cp_save :: "'c option \<Rightarrow> ('u env, unit) eff"
  backoff :: backoff_policy
  heartbeat :: "('c worker_heartbeat \<Rightarrow> ('u env, unit) eff) option"
  timing :: "'u timing"
  now :: "('u env, string) eff"
  type_name :: "exc \<Rightarrow> string"

record ('o, 'c, 'u) wstate =
  checkpoint :: "'c option"
  completed :: nat
  failures :: nat
  consecutive :: nat
  iterations :: nat
  calls :: "(('o, 'c) call \<times> bool) list"
  wenv :: "'u env"

type_synonym ('o, 'c, 'u, 'a) weff = "(('o, 'c, 'u) wstate, 'a) eff"

definition in_env :: "('u env, 'a) eff \<Rightarrow> ('o, 'c, 'u, 'a) weff" where
  "in_env = zoom wenv (\<lambda>e s. s\<lparr>wenv := e\<rparr>)"

text \<open>One call of the host, with its record in the history.\<close>

definition wcall :: "('o, 'c) call \<Rightarrow> ('u env, 'a) eff \<Rightarrow> ('o, 'c, 'u, 'a) weff" where
  "wcall c m s = (case in_env m s of (r, s') \<Rightarrow> (r, s'\<lparr>calls := (c, \<not> isl r) # calls s'\<rparr>))"

definition worker_emit ::
  "('o, 'c, 'u) worker_host \<Rightarrow> string \<Rightarrow> exc option \<Rightarrow> rat option \<Rightarrow> ('o, 'c, 'u, unit) weff" where
  "worker_emit h st err retry_in = (case heartbeat h of
     None \<Rightarrow> eret ()
   | Some f \<Rightarrow>
       ebind (in_env (now h)) (\<lambda>ts.
       ebind (eget (\<lambda>s. \<lparr>hb_state = st, hb_timestamp = ts, hb_checkpoint = checkpoint s,
            hb_completed = completed s, hb_failures = failures s, hb_consecutive = consecutive s,
            hb_error = (case err of None \<Rightarrow> '''' | Some x \<Rightarrow> type_name h x @ '': '' @ exc_msg x),
            hb_retry_in = retry_in\<rparr>)) (\<lambda>event.
       etry (\<lambda>x. instance_of x Exception) (wcall (CBeat st) (f event)) (\<lambda>_. eret ()))))"

definition worker_wait :: "('o, 'c, 'u) worker_host \<Rightarrow> rat \<Rightarrow> ('o, 'c, 'u, unit) weff" where
  "worker_wait h d = wcall (CWait d) (host_wait (timing h) d)"

text \<open>
  The first part of the loop body: what the planner's answer means. \<open>DWork p legacy\<close> carries
  the checkpoint of a legacy step, \<open>None\<close> for \<^verbatim>\<open>_MISSING\<close>.
\<close>

datatype ('o, 'c) decision = DStop | DIdle | DWork 'o "'c option option"

fun decide :: "('o, 'c) planned \<Rightarrow> exc + ('o, 'c) decision" where
  "decide PlannedNone = Inr DIdle"
| "decide (WorkerStep p c) = Inr (DWork p (Some c))"
| "decide (StepDecision Untyped w) =
     Inl (Exc TypeError ''StepDecision.directive must be a WorkDirective'')"
| "decide (StepDecision (Typed STOP) w) = Inr DStop"
| "decide (StepDecision (Typed IDLE) w) = Inr DIdle"
| "decide (StepDecision (Typed CONTINUE) w) = Inr (DWork w None)"
| "decide PlannedOther =
     Inl (Exc TypeError ''intent.plan() must return StepDecision, WorkerStep, or None'')"

fun check_output ::
  "('o, 'c) source_output dyn \<Rightarrow> exc + 'o \<times> 'c option \<times> work_directive" where
  "check_output Untyped = Inl (Exc TypeError ''intent.output() must return SourceOutput'')"
| "check_output (Typed out) = (case so_result out of
     Untyped \<Rightarrow> Inl (Exc TypeError ''SourceOutput.result must be a mapping'')
   | Typed res \<Rightarrow> (case so_directive out of
       Untyped \<Rightarrow> Inl (Exc TypeError ''SourceOutput.directive must be a WorkDirective'')
     | Typed d \<Rightarrow> Inr (res, so_checkpoint out, d)))"

text \<open>Persist the outcome and compute the next checkpoint, for both kinds of intent.\<close>

definition deliver ::
  "('o, 'c, 'u) worker_host \<Rightarrow> 'o \<Rightarrow> 'c option option \<Rightarrow> 'o \<Rightarrow>
   ('o, 'c, 'u, 'c option \<times> work_directive) weff" where
  "deliver h plan legacy transformed = (case i_output h of
     Some output_method \<Rightarrow>
       ebind (wcall (COutput transformed plan) (output_method transformed plan)) (\<lambda>out.
       ebind (elift (check_output out)) (\<lambda>(res, cp, d).
       ebind (wcall (CPersist res plan) (i_persist h res plan)) (\<lambda>_. eret (cp, d))))
   | None \<Rightarrow>
       ebind (wcall (CPersist transformed plan) (i_persist h transformed plan)) (\<lambda>_.
       (case i_checkpoint h of
          Some checkpoint_method \<Rightarrow>
            ebind (wcall (CCheckpoint transformed plan) (checkpoint_method transformed plan))
              (\<lambda>cp. eret (cp, CONTINUE))
        | None \<Rightarrow> (case legacy of
            Some cp \<Rightarrow> eret (cp, CONTINUE)
          | None \<Rightarrow> eraise (Exc TypeError
              ''intent.checkpoint() is required for a CONTINUE decision'')))))"

datatype flow = GoOn | Leave

definition worker_idle :: "('o, 'c, 'u) worker_host \<Rightarrow> ('o, 'c, 'u, flow) weff" where
  "worker_idle h =
     ebind (worker_emit h ''idle'' None None) (\<lambda>_.
     ebind (worker_wait h (idle_seconds (backoff h))) (\<lambda>_. eret GoOn))"

definition do_work ::
  "('o, 'c, 'u) worker_host \<Rightarrow> 'o \<Rightarrow> 'c option option \<Rightarrow> ('o, 'c, 'u, flow) weff" where
  "do_work h plan legacy =
     ebind (worker_emit h ''working'' None None) (\<lambda>_.
     ebind (wcall (CFetch plan) (i_fetch h plan)) (\<lambda>payload.
     ebind (wcall (CTransform payload plan) (i_transform h payload plan)) (\<lambda>transformed.
     ebind (deliver h plan legacy transformed) (\<lambda>(next_checkpoint, output_directive).
     ebind (wcall (CSave next_checkpoint) (cp_save h next_checkpoint)) (\<lambda>_.
     ebind (emod (\<lambda>s. s\<lparr>checkpoint := next_checkpoint, completed := completed s + 1,
                        consecutive := 0\<rparr>)) (\<lambda>_.
     ebind (worker_emit h ''checkpointed'' None None) (\<lambda>_.
     (case output_directive of
        STOP \<Rightarrow> eret Leave
      | IDLE \<Rightarrow> worker_idle h
      | CONTINUE \<Rightarrow> eret GoOn))))))))"

text \<open>The \<^verbatim>\<open>try\<close> block of the loop body\<close>

definition worker_attempt :: "('o, 'c, 'u) worker_host \<Rightarrow> ('o, 'c, 'u, flow) weff" where
  "worker_attempt h =
     ebind (eget checkpoint) (\<lambda>cp.
     ebind (wcall (CPlan cp) (i_plan h cp)) (\<lambda>planned.
     ebind (elift (decide planned)) (\<lambda>d.
     (case d of
        DStop \<Rightarrow> ebind (emod (\<lambda>s. s\<lparr>consecutive := 0\<rparr>)) (\<lambda>_. eret Leave)
      | DIdle \<Rightarrow> ebind (emod (\<lambda>s. s\<lparr>consecutive := 0\<rparr>)) (\<lambda>_. worker_idle h)
      | DWork plan legacy \<Rightarrow> do_work h plan legacy))))"

text \<open>Its \<^verbatim>\<open>except Exception\<close> clause\<close>

definition worker_backoff :: "('o, 'c, 'u) worker_host \<Rightarrow> exc \<Rightarrow> ('o, 'c, 'u, flow) weff" where
  "worker_backoff h x =
     ebind (eget consecutive) (\<lambda>n.
     if (case max_consecutive_failures (backoff h) of None \<Rightarrow> False | Some l \<Rightarrow> l \<le> int n)
     then ebind (worker_emit h ''failed'' (Some x) None) (\<lambda>_. eraise x)
     else ebind (elift (backoff_delay (backoff h) (int n))) (\<lambda>d.
          ebind (worker_emit h ''backoff'' (Some x) (Some d)) (\<lambda>_.
          ebind (worker_wait h d) (\<lambda>_. eret GoOn))))"

definition worker_recover :: "('o, 'c, 'u) worker_host \<Rightarrow> exc \<Rightarrow> ('o, 'c, 'u, flow) weff" where
  "worker_recover h x =
     ebind (emod (\<lambda>s. s\<lparr>failures := failures s + 1, consecutive := consecutive s + 1\<rparr>)) (\<lambda>_.
     worker_backoff h x)"

definition worker_iteration :: "('o, 'c, 'u) worker_host \<Rightarrow> ('o, 'c, 'u, flow) weff" where
  "worker_iteration h =
     ebind (emod (\<lambda>s. s\<lparr>iterations := iterations s + 1\<rparr>)) (\<lambda>_.
     etry (\<lambda>x. instance_of x Exception) (worker_attempt h) (worker_recover h))"

definition may_iterate :: "int option \<Rightarrow> nat \<Rightarrow> bool" where
  "may_iterate max_iterations n = (case max_iterations of None \<Rightarrow> True | Some m \<Rightarrow> int n < m)"

text \<open>One turn of the \<^verbatim>\<open>while\<close> loop: its test, then its body.\<close>

definition worker_turn ::
  "('o, 'c, 'u) worker_host \<Rightarrow> int option \<Rightarrow> ('o, 'c, 'u) wstate \<Rightarrow>
   ('o, 'c, 'u) wstate + ((exc + unit) \<times> ('o, 'c, 'u) wstate)" where
  "worker_turn h max_iterations s =
     (case in_env (stop_is_set (timing h)) s of
        (Inl x, s1) \<Rightarrow> Inr (Inl x, s1)
      | (Inr stopped, s1) \<Rightarrow>
          if stopped \<or> \<not> may_iterate max_iterations (iterations s1) then Inr (Inr (), s1)
          else (case worker_iteration h s1 of
              (Inl x, s2) \<Rightarrow> Inr (Inl x, s2)
            | (Inr Leave, s2) \<Rightarrow> Inr (Inr (), s2)
            | (Inr GoOn, s2) \<Rightarrow> Inl s2))"

definition worker_start :: "('o, 'c, 'u) worker_host \<Rightarrow> ('o, 'c, 'u, unit) weff" where
  "worker_start h =
     ebind (wcall CLoad (cp_load h)) (\<lambda>cp.
     ebind (emod (\<lambda>s. s\<lparr>checkpoint := cp\<rparr>)) (\<lambda>_. worker_emit h ''starting'' None None))"

definition worker_release :: "('o, 'c, 'u) worker_host \<Rightarrow> ('o, 'c, 'u, unit) weff" where
  "worker_release h =
     ebind (worker_emit h ''stopped'' None None) (\<lambda>_.
     emod (\<lambda>s. s\<lparr>wenv := (wenv s)\<lparr>run_locked := False\<rparr>\<rparr>))"

definition worker_init :: "'u env \<Rightarrow> ('o, 'c, 'u) wstate" where
  "worker_init e = \<lparr>checkpoint = None, completed = 0, failures = 0, consecutive = 0,
     iterations = 0, calls = [], wenv = e\<lparr>run_locked := True\<rparr>\<rparr>"

definition run_summary :: "('o, 'c, 'u) wstate \<Rightarrow> 'c worker_run" where
  "run_summary s = \<lparr>wr_checkpoint = checkpoint s, wr_completed = completed s,
     wr_failures = failures s, wr_iterations = iterations s\<rparr>"

text \<open>The body of \<^verbatim>\<open>try ... finally\<close>; \<open>None\<close> when the loop never ends.\<close>

definition worker_body ::
  "('o, 'c, 'u) worker_host \<Rightarrow> int option \<Rightarrow> ('o, 'c, 'u) wstate \<Rightarrow>
   ((exc + unit) \<times> ('o, 'c, 'u) wstate) option" where
  "worker_body h max_iterations s =
     (case worker_start h s of
        (Inl x, s1) \<Rightarrow> Some (Inl x, s1)
      | (Inr _, s1) \<Rightarrow> iterate (worker_turn h max_iterations) s1)"

definition worker_run ::
  "('o, 'c, 'u) worker_host \<Rightarrow> int option \<Rightarrow> 'u env \<Rightarrow>
   ((exc + 'c worker_run) \<times> ('o, 'c, 'u) wstate) option" where
  "worker_run h max_iterations e =
     (if (case max_iterations of None \<Rightarrow> False | Some m \<Rightarrow> m < 0)
        then Some (Inl (Exc ValueError ''max_iterations must be >= 0''), (worker_init e)\<lparr>wenv := e\<rparr>)
      else if run_locked e
        then Some (Inl (Exc RuntimeError ''worker host is already running''),
                   (worker_init e)\<lparr>wenv := e\<rparr>)
      else map_option
        (\<lambda>(r, s). efinally (\<lambda>s. (case r of Inl x \<Rightarrow> Inl x | Inr _ \<Rightarrow> Inr (run_summary s), s))
                     (worker_release h) s)
        (worker_body h max_iterations (worker_init e)))"

end
