(* ===== verification/WorkerProps.thy ===== *)
theory WorkerProps
  imports Worker
begin

text \<open>
  What makes \<^verbatim>\<open>WorkerHost\<close> correct: the backoff delays, the history of calls a run may leave
  (a checkpoint is saved only right after the persistence of the work it belongs to, and a
  plan is always asked for at the last saved checkpoint), the counters, termination under a
  bound, the failure limit and the release of the run lock.
\<close>

section \<open>Backoff\<close>

definition backoff_wf :: "backoff_policy \<Rightarrow> bool" where
  "backoff_wf p \<longleftrightarrow> 0 \<le> initial_seconds p \<and> initial_seconds p \<le> maximum_seconds p \<and>
     1 \<le> multiplier p \<and> 0 \<le> idle_seconds p \<and>
     (\<forall>l. max_consecutive_failures p = Some l \<longrightarrow> 1 \<le> l)"

lemma make_backoff_wf: "make_backoff i m k d l = Inr p \<Longrightarrow> backoff_wf p"
  by (auto simp: make_backoff_def backoff_wf_def split: if_splits option.splits)

lemma backoff_delay_cases:
  assumes "1 \<le> n"
  obtains "float_limit \<le> multiplier p ^ nat (n - 1)" "backoff_delay p n = Inr (maximum_seconds p)"
  | "multiplier p ^ nat (n - 1) < float_limit"
    "backoff_delay p n = Inr (min (initial_seconds p * multiplier p ^ nat (n - 1)) (maximum_seconds p))"
  using assms by (cases "float_limit \<le> multiplier p ^ nat (n - 1)")
    (auto simp: backoff_delay_def float_pow_def)

text \<open>
  For a validated policy and any failure count from 1 on, the delay exists, is not negative
  and never exceeds \<^verbatim>\<open>maximum_seconds\<close>, also when the power overflows.
\<close>

theorem backoff_delay_bounded:
  assumes "make_backoff i m k d l = Inr p" "1 \<le> n"
  shows "\<exists>t. backoff_delay p n = Inr t \<and> 0 \<le> t \<and> t \<le> maximum_seconds p"
proof -
  from make_backoff_wf [OF assms(1)] have wf: "backoff_wf p" .
  from assms(2) show ?thesis
  proof (cases rule: backoff_delay_cases [where p = p])
    case 1
    with wf show ?thesis by (auto simp: backoff_wf_def)
  next
    case 2
    with wf show ?thesis by (auto simp: backoff_wf_def)
  qed
qed

theorem backoff_delay_bounded_witness:
  "\<exists>p t. make_backoff 1 60 2 5 None = Inr p \<and> backoff_delay p 4 = Inr t \<and> 0 \<le> t \<and> t \<le> maximum_seconds p"
proof -
  obtain p where p: "make_backoff 1 60 2 5 None = Inr p" by (simp add: make_backoff_def)
  from backoff_delay_bounded [OF p, of 4] p show ?thesis by auto
qed

text \<open>The delays never shrink while failures follow one another.\<close>

theorem backoff_delay_mono:
  assumes "make_backoff i m k d l = Inr p" "1 \<le> n" "n \<le> n'"
    and "backoff_delay p n = Inr t" "backoff_delay p n' = Inr t'"
  shows "t \<le> t'"
proof -
  from make_backoff_wf [OF assms(1)] have wf: "backoff_wf p" .
  then have pow: "multiplier p ^ nat (n - 1) \<le> multiplier p ^ nat (n' - 1)"
    using assms(3) by (intro power_increasing) (auto simp: backoff_wf_def)
  with wf have mul: "initial_seconds p * multiplier p ^ nat (n - 1)
      \<le> initial_seconds p * multiplier p ^ nat (n' - 1)"
    by (intro mult_left_mono) (auto simp: backoff_wf_def)
  from assms(2,3) have "1 \<le> n'" by simp
  with pow mul assms(4,5) show ?thesis
    by (cases rule: backoff_delay_cases [OF assms(2), where p = p];
        cases rule: backoff_delay_cases [OF \<open>1 \<le> n'\<close>, where p = p]) auto
qed

theorem backoff_delay_mono_witness:
  "\<exists>p. make_backoff 1 60 2 5 None = Inr p \<and> (4 :: rat) \<le> 8"
proof -
  obtain p where p: "make_backoff 1 60 2 5 None = Inr p" and
    f: "p = \<lparr>initial_seconds = 1, maximum_seconds = 60, multiplier = 2, idle_seconds = 5,
      max_consecutive_failures = None\<rparr>"
    by (simp add: make_backoff_def)
  have "backoff_delay p 3 = Inr 4" "backoff_delay p 4 = Inr 8"
    by (simp_all add: f backoff_delay_def float_pow_def float_limit_def)
  from backoff_delay_mono [OF p _ _ this] p show ?thesis by auto
qed

text \<open>
  With \<^verbatim>\<open>initial_seconds=0\<close> every delay should be 0. It is, up to the failure at which the
  power of the multiplier overflows: from then on the host waits \<^verbatim>\<open>maximum_seconds\<close>.
\<close>

theorem backoff_zero_initial_overflow:
  "\<exists>p. make_backoff 0 60 2 5 None = Inr p \<and>
     backoff_delay p 1024 = Inr 0 \<and> backoff_delay p 1025 = Inr 60"
  by (simp add: make_backoff_def backoff_delay_def float_pow_def float_limit_def)

section \<open>The history of a run\<close>

type_synonym ('o, 'c) history = "(('o, 'c) call \<times> bool) list"

text \<open>The newest calls are a successful persist, possibly followed by \<^verbatim>\<open>intent.checkpoint\<close>.\<close>

fun persisted :: "('o, 'c) history \<Rightarrow> bool" where
  "persisted ((CPersist r p, ok) # _) = ok"
| "persisted ((CCheckpoint t p, ok) # (CPersist r q, ok') # _) = (ok \<and> ok')"
| "persisted _ = False"

fun saves_guarded :: "('o, 'c) history \<Rightarrow> bool" where
  "saves_guarded [] = True"
| "saves_guarded ((CSave c, ok) # cs) = (persisted cs \<and> saves_guarded cs)"
| "saves_guarded (_ # cs) = saves_guarded cs"

fun durable :: "'c option \<Rightarrow> ('o, 'c) history \<Rightarrow> 'c option" where
  "durable l [] = l"
| "durable l ((CSave c, True) # cs) = c"
| "durable l (_ # cs) = durable l cs"

fun n_saves :: "('o, 'c) history \<Rightarrow> nat" where
  "n_saves [] = 0"
| "n_saves ((CSave c, True) # cs) = Suc (n_saves cs)"
| "n_saves (_ # cs) = n_saves cs"

fun plans_durable :: "'c option \<Rightarrow> ('o, 'c) history \<Rightarrow> bool" where
  "plans_durable l [] = True"
| "plans_durable l ((CPlan cp, ok) # cs) = (cp = durable l cs \<and> plans_durable l cs)"
| "plans_durable l (_ # cs) = plans_durable l cs"

definition wf_history :: "'c option \<Rightarrow> ('o, 'c) history \<Rightarrow> bool" where
  "wf_history l cs \<longleftrightarrow> saves_guarded cs \<and> plans_durable l cs"

definition hist_inv :: "'c option \<Rightarrow> ('o, 'c, 'u) wstate \<Rightarrow> bool" where
  "hist_inv l s \<longleftrightarrow> wf_history l (calls s) \<and> checkpoint s = durable l (calls s) \<and>
     completed s = n_saves (calls s)"

fun quiet :: "('o, 'c) call \<Rightarrow> bool" where
  "quiet (CSave c) = False"
| "quiet (CPlan c) = False"
| "quiet _ = True"

lemma quiet_history [simp]:
  assumes "quiet c"
  shows "saves_guarded ((c, ok) # cs) = saves_guarded cs"
    and "durable l ((c, ok) # cs) = durable l cs"
    and "n_saves ((c, ok) # cs) = n_saves cs"
    and "plans_durable l ((c, ok) # cs) = plans_durable l cs"
  using assms by (cases c; simp)+

lemma failed_save_history [simp]:
  "durable l ((CSave c, False) # cs) = durable l cs" "n_saves ((CSave c, False) # cs) = n_saves cs"
  by simp_all

subsection \<open>What each call of the host does to the state\<close>

lemma in_env_run: "in_env m s = (r, s') \<Longrightarrow> \<exists>e. m (wenv s) = (r, e) \<and> s' = s\<lparr>wenv := e\<rparr>"
  by (auto simp: in_env_def dest: zoom_outcome)

lemma wcall_run:
  assumes "wcall c m s = (r, s')"
  shows "\<exists>e. m (wenv s) = (r, e) \<and> s' = s\<lparr>wenv := e, calls := (c, \<not> isl r) # calls s\<rparr>"
  using assms in_env_run [of m s] by (fastforce simp: wcall_def split: prod.splits)

text \<open>An invariant that does not look at the environment is kept by every step inside it.\<close>

lemma keeps_in_env:
  assumes "\<And>s e. I s \<Longrightarrow> I (s\<lparr>wenv := e\<rparr>)"
  shows "keeps I (in_env m)"
proof (rule keepsI)
  fix s assume "I s"
  moreover obtain r s' where "in_env m s = (r, s')" by (cases "in_env m s")
  ultimately show "I (snd (in_env m s))" using assms in_env_run by fastforce
qed

lemma keeps_wcall:
  assumes "\<And>s e ok. I s \<Longrightarrow> I (s\<lparr>wenv := e, calls := (c, ok) # calls s\<rparr>)"
  shows "keeps I (wcall c m)"
proof (rule keepsI)
  fix s assume "I s"
  moreover obtain r s' where "wcall c m s = (r, s')" by (cases "wcall c m s")
  ultimately show "I (snd (wcall c m s))" using assms wcall_run by fastforce
qed

text \<open>
  The telemetry and the waits only add quiet calls: an invariant closed under changes of the
  environment and new quiet calls survives them.
\<close>

definition quiet_closed :: "(('o, 'c, 'u) wstate \<Rightarrow> bool) \<Rightarrow> bool" where
  "quiet_closed I \<longleftrightarrow> (\<forall>s e. I s \<longrightarrow> I (s\<lparr>wenv := e\<rparr>)) \<and>
     (\<forall>s e c ok. quiet c \<longrightarrow> I s \<longrightarrow> I (s\<lparr>wenv := e, calls := (c, ok) # calls s\<rparr>))"

lemma keeps_quiet_wcall: "quiet_closed I \<Longrightarrow> quiet c \<Longrightarrow> keeps I (wcall c m)"
  by (rule keeps_wcall) (simp add: quiet_closed_def)

lemma quiet_closed_env: "quiet_closed I \<Longrightarrow> I s \<Longrightarrow> I (s\<lparr>wenv := e\<rparr>)"
  unfolding quiet_closed_def by blast

lemma keeps_emit:
  assumes "quiet_closed I"
  shows "keeps I (worker_emit h st err retry)"
proof (cases "heartbeat h")
  case (Some f)
  have env: "keeps I (in_env m)" for m :: "('c env, 'd) eff"
    by (rule keeps_in_env) (rule quiet_closed_env [OF assms])
  have beat: "keeps I (wcall (CBeat st) m)" for m :: "('c env, unit) eff"
    by (rule keeps_quiet_wcall [OF assms]) simp
  show ?thesis unfolding worker_emit_def Some option.case
    by (intro keeps_ebind keeps_etry env beat keeps_pure)
qed (simp add: worker_emit_def keeps_pure)

lemma keeps_wait: "quiet_closed I \<Longrightarrow> keeps I (worker_wait h d)"
  by (simp add: worker_wait_def keeps_quiet_wcall)

lemma keeps_idle: "quiet_closed I \<Longrightarrow> keeps I (worker_idle h)"
  unfolding worker_idle_def by (intro keeps_intros keeps_emit keeps_wait)

lemma hist_inv_quiet_closed: "quiet_closed (hist_inv l)"
  by (simp add: quiet_closed_def hist_inv_def wf_history_def)

subsection \<open>One iteration keeps the history well formed\<close>

lemma triple_wcall:
  assumes "\<And>s e a. P s \<Longrightarrow> Q a (s\<lparr>wenv := e, calls := (c, True) # calls s\<rparr>)"
    and "\<And>s e x. P s \<Longrightarrow> E x (s\<lparr>wenv := e, calls := (c, False) # calls s\<rparr>)"
  shows "triple P (wcall c m) Q E"
  unfolding triple_def using wcall_run [of c m] assms by fastforce

lemma deliver_persists:
  "triple (hist_inv l) (deliver h plan legacy t)
     (\<lambda>_ s. hist_inv l s \<and> persisted (calls s)) (\<lambda>_. hist_inv l)"
proof (cases "i_output h")
  case (Some f)
  have fin: "triple (\<lambda>s. hist_inv l s \<and> persisted (calls s)) (eret x)
      (\<lambda>_ s. hist_inv l s \<and> persisted (calls s)) (\<lambda>_. hist_inv l)" for x :: "'b option \<times> work_directive"
    by (rule triple_eret) simp
  have per: "triple (hist_inv l)
      (case x of (res, cp, d) \<Rightarrow>
        ebind (wcall (CPersist res plan) (i_persist h res plan)) (\<lambda>_. eret (cp, d)))
      (\<lambda>_ s. hist_inv l s \<and> persisted (calls s)) (\<lambda>_. hist_inv l)"
    for x :: "'a \<times> 'b option \<times> work_directive"
  proof (cases x)
    case (fields res cp d)
    show ?thesis unfolding fields prod.case
      by (rule triple_ebind [OF _ fin] triple_wcall)+ (simp_all add: hist_inv_def wf_history_def)
  qed
  have chk: "triple (hist_inv l) (elift r) (\<lambda>_. hist_inv l) (\<lambda>_. hist_inv l)"
    for r :: "exc + 'a \<times> 'b option \<times> work_directive"
    by (rule triple_elift)
  show ?thesis unfolding deliver_def Some option.case
    by (rule triple_ebind [OF triple_wcall triple_ebind [OF chk per]])
      (simp_all add: hist_inv_def wf_history_def)
next
  case None
  have cp: "triple (\<lambda>s. hist_inv l s \<and> (\<exists>r p cs. calls s = (CPersist r p, True) # cs))
      (case i_checkpoint h of
          Some g \<Rightarrow> ebind (wcall (CCheckpoint t plan) (g t plan)) (\<lambda>cp. eret (cp, CONTINUE))
        | None \<Rightarrow> (case legacy of Some cp \<Rightarrow> eret (cp, CONTINUE)
          | None \<Rightarrow> eraise (Exc TypeError ''intent.checkpoint() is required for a CONTINUE decision'')))
      (\<lambda>_ s. hist_inv l s \<and> persisted (calls s)) (\<lambda>_. hist_inv l)"
    by (auto simp: hist_inv_def wf_history_def split: option.split
        intro!: triple_ebind [where R = "\<lambda>_ s. hist_inv l s \<and> persisted (calls s)"]
          triple_wcall triple_eret triple_eraise)
  show ?thesis unfolding deliver_def None option.case
    by (rule triple_ebind [OF _ cp] triple_wcall)+ (simp_all add: hist_inv_def wf_history_def)
qed

lemma keeps_hist_emit: "keeps (hist_inv l) (worker_emit h st err retry)"
  and keeps_hist_wait: "keeps (hist_inv l) (worker_wait h d)"
  and keeps_hist_idle: "keeps (hist_inv l) (worker_idle h)"
  by (rule keeps_emit keeps_wait keeps_idle; rule hist_inv_quiet_closed)+

lemma keeps_hist_wcall: "quiet c \<Longrightarrow> keeps (hist_inv l) (wcall c m)"
  by (rule keeps_quiet_wcall [OF hist_inv_quiet_closed])

lemma save_advances:
  assumes "keeps (hist_inv l) k"
  shows "triple (\<lambda>s. hist_inv l s \<and> persisted (calls s))
    (ebind (wcall (CSave cp) m) (\<lambda>_. ebind (emod (\<lambda>s. s\<lparr>checkpoint := cp,
        completed := completed s + 1, consecutive := 0\<rparr>)) (\<lambda>_. k)))
    (\<lambda>_. hist_inv l) (\<lambda>_. hist_inv l)"
proof (rule triple_ebind)
  show "triple (\<lambda>s. hist_inv l s \<and> persisted (calls s)) (wcall (CSave cp) m)
      (\<lambda>_ s. wf_history l (calls s) \<and> durable l (calls s) = cp \<and>
         n_saves (calls s) = Suc (completed s)) (\<lambda>_. hist_inv l)"
    by (rule triple_wcall) (auto simp: hist_inv_def wf_history_def)
next
  fix a :: unit
  show "triple (\<lambda>s. wf_history l (calls s) \<and> durable l (calls s) = cp \<and>
         n_saves (calls s) = Suc (completed s))
      (ebind (emod (\<lambda>s. s\<lparr>checkpoint := cp, completed := completed s + 1, consecutive := 0\<rparr>))
        (\<lambda>_. k)) (\<lambda>_. hist_inv l) (\<lambda>_. hist_inv l)"
    by (rule triple_ebind [OF triple_emod keeps_triple [OF assms]]) (simp add: hist_inv_def)
qed

lemma keeps_hist_do_work: "keeps (hist_inv l) (do_work h plan legacy)"
proof -
  have tail: "keeps (hist_inv l) (ebind (worker_emit h ''checkpointed'' None None)
      (\<lambda>_. case d of STOP \<Rightarrow> eret Leave | IDLE \<Rightarrow> worker_idle h | CONTINUE \<Rightarrow> eret GoOn))" for d
    by (cases d) (simp_all, (intro keeps_ebind keeps_hist_emit keeps_hist_idle keeps_pure)+)
  have del: "triple (hist_inv l) (ebind (deliver h plan legacy t) (\<lambda>(cp, d).
      ebind (wcall (CSave cp) (cp_save h cp)) (\<lambda>_. ebind (emod (\<lambda>s. s\<lparr>checkpoint := cp,
        completed := completed s + 1, consecutive := 0\<rparr>)) (\<lambda>_.
      ebind (worker_emit h ''checkpointed'' None None)
      (\<lambda>_. case d of STOP \<Rightarrow> eret Leave | IDLE \<Rightarrow> worker_idle h | CONTINUE \<Rightarrow> eret GoOn)))))
      (\<lambda>_. hist_inv l) (\<lambda>_. hist_inv l)" for t
    by (rule triple_ebind [OF deliver_persists], unfold split_beta, rule save_advances, rule tail)
  show ?thesis
    unfolding do_work_def
    by (intro keeps_ebind keeps_hist_emit keeps_hist_wcall triple_keeps [OF del]) simp_all
qed

lemma keeps_hist_attempt: "keeps (hist_inv l) (worker_attempt h)"
proof -
  have rest: "keeps (hist_inv l) (ebind (elift (decide planned)) (\<lambda>d. case d of
        DStop \<Rightarrow> ebind (emod (\<lambda>s. s\<lparr>consecutive := 0\<rparr>)) (\<lambda>_. eret Leave)
      | DIdle \<Rightarrow> ebind (emod (\<lambda>s. s\<lparr>consecutive := 0\<rparr>)) (\<lambda>_. worker_idle h)
      | DWork plan legacy \<Rightarrow> do_work h plan legacy))" for planned
  proof (rule keeps_ebind)
    fix d :: "('a, 'b) decision"
    show "keeps (hist_inv l) (case d of
        DStop \<Rightarrow> ebind (emod (\<lambda>s. s\<lparr>consecutive := 0\<rparr>)) (\<lambda>_. eret Leave)
      | DIdle \<Rightarrow> ebind (emod (\<lambda>s. s\<lparr>consecutive := 0\<rparr>)) (\<lambda>_. worker_idle h)
      | DWork plan legacy \<Rightarrow> do_work h plan legacy)"
      by (cases d; simp only: decision.case; intro keeps_ebind keeps_emod keeps_pure
          keeps_hist_idle keeps_hist_do_work) (simp_all add: hist_inv_def)
  qed (rule keeps_pure)
  have plan: "triple (\<lambda>s. hist_inv l s \<and> cp = checkpoint s) (wcall (CPlan cp) (i_plan h cp))
      (\<lambda>_. hist_inv l) (\<lambda>_. hist_inv l)" for cp
    by (rule triple_wcall) (simp_all add: hist_inv_def wf_history_def)
  have "triple (hist_inv l) (worker_attempt h) (\<lambda>_. hist_inv l) (\<lambda>_. hist_inv l)"
    unfolding worker_attempt_def
    by (rule triple_ebind [OF triple_eget triple_ebind [OF plan keeps_triple [OF rest]]]) simp
  then show ?thesis by (rule triple_keeps)
qed

lemma keeps_hist_recover: "keeps (hist_inv l) (worker_recover h x)"
  unfolding worker_recover_def worker_backoff_def
  by (intro keeps_ebind keeps_emod keeps_if keeps_hist_emit keeps_hist_wait keeps_pure)
    (simp add: hist_inv_def)

lemma keeps_hist_iteration: "keeps (hist_inv l) (worker_iteration h)"
  unfolding worker_iteration_def
  by (intro keeps_ebind keeps_emod keeps_etry keeps_hist_attempt keeps_hist_recover)
    (simp add: hist_inv_def)

end
