(* ===== verification/WorkerRuns.thy ===== *)
theory WorkerRuns
  imports WorkerProps
begin

text \<open>
  Whole runs of \<^verbatim>\<open>WorkerHost\<close>: the facts on single iterations lifted through the loop and the
  \<^verbatim>\<open>try ... finally\<close> of \<^verbatim>\<open>run\<close>.
\<close>

section \<open>Rules for turns, bodies and runs\<close>

lemma stop_read: "in_env (stop_is_set (timing h)) s =
    (Inr (stop_flag (others (timing h) (wenv s))), s\<lparr>wenv := others (timing h) (wenv s)\<rparr>)"
  by (simp add: in_env_def zoom_def stop_is_set_def Let_def)

lemma worker_turn_Inl:
  assumes "worker_turn h mi s = Inl s2"
  obtains s1 where "s1 = s\<lparr>wenv := others (timing h) (wenv s)\<rparr>" "\<not> stop_flag (wenv s1)"
    "may_iterate mi (iterations s1)" "worker_iteration h s1 = (Inr GoOn, s2)"
  using assms
  by (auto simp: worker_turn_def stop_read split: if_splits prod.splits sum.splits flow.splits)

lemma worker_turn_Inr:
  assumes "worker_turn h mi s = Inr (r, s2)"
  obtains (test) "s2 = s\<lparr>wenv := others (timing h) (wenv s)\<rparr>" "r = Inr ()"
      "stop_flag (wenv s2) \<or> \<not> may_iterate mi (iterations s)"
  | (leave) s1 where "s1 = s\<lparr>wenv := others (timing h) (wenv s)\<rparr>"
      "may_iterate mi (iterations s1)" "worker_iteration h s1 = (Inr Leave, s2)" "r = Inr ()"
  | (raise) s1 x where "s1 = s\<lparr>wenv := others (timing h) (wenv s)\<rparr>"
      "may_iterate mi (iterations s1)" "worker_iteration h s1 = (Inl x, s2)" "r = Inl x"
  using assms
  by (auto simp: worker_turn_def stop_read split: if_splits prod.splits sum.splits flow.splits)

text \<open>
  An invariant \<open>I\<close> of the loop and a condition \<open>J\<close> on how it may end: \<open>J r s\<close> for the outcome
  \<open>r\<close> of the \<^verbatim>\<open>try\<close> block. \<open>J\<close> may not look at the environment or at quiet calls, because the
  \<^verbatim>\<open>finally\<close> block still emits a heartbeat and releases the lock.
\<close>

definition loop_rule ::
  "('o, 'c, 'u) worker_host \<Rightarrow> int option \<Rightarrow> (('o, 'c, 'u) wstate \<Rightarrow> bool) \<Rightarrow>
   (exc + unit \<Rightarrow> ('o, 'c, 'u) wstate \<Rightarrow> bool) \<Rightarrow> bool" where
  "loop_rule h mi I J \<longleftrightarrow>
     (\<forall>s s'. I s \<longrightarrow> worker_turn h mi s = Inl s' \<longrightarrow> I s') \<and>
     (\<forall>s r s'. I s \<longrightarrow> worker_turn h mi s = Inr (r, s') \<longrightarrow> J r s')"

lemma worker_body_rule:
  assumes "worker_body h mi s = Some (r, s')" "P s"
    and start: "triple P (worker_start h) (\<lambda>_. I) (\<lambda>x. J (Inl x))"
    and turns: "loop_rule h mi I J"
  shows "J r s'"
proof -
  obtain r1 s1 where st: "worker_start h s = (r1, s1)" by (cases "worker_start h s")
  show ?thesis
  proof (cases r1)
    case (Inl x)
    with st assms(1) triple_Inl [OF start \<open>P s\<close>] show ?thesis by (auto simp: worker_body_def)
  next
    case (Inr a)
    with st assms(1) have it: "iterate (worker_turn h mi) s1 = Some (r, s')"
      by (simp add: worker_body_def)
    from Inr st triple_Inr [OF start \<open>P s\<close>] have "I s1" by simp
    have "case (r, s') of (r, s') \<Rightarrow> J r s'"
      by (rule iterate_rule [where I = I, OF it \<open>I s1\<close>])
        (use turns in \<open>auto simp: loop_rule_def\<close>)
    then show ?thesis by simp
  qed
qed

lemma worker_run_started:
  assumes "startable mi e" "worker_run h mi e = Some (r, s)"
  obtains q t where "worker_body h mi (worker_init e) = Some (q, t)"
    "efinally (\<lambda>s. (case q of Inl x \<Rightarrow> Inl x | Inr _ \<Rightarrow> Inr (run_summary s), s))
       (worker_release h) t = (r, s)"
proof -
  from assms have "map_option (\<lambda>(r, s). efinally
      (\<lambda>s. (case r of Inl x \<Rightarrow> Inl x | Inr _ \<Rightarrow> Inr (run_summary s), s)) (worker_release h) s)
      (worker_body h mi (worker_init e)) = Some (r, s)"
    by (auto simp: worker_run_def startable_def split: if_splits option.splits)
  with that show thesis by (cases "worker_body h mi (worker_init e)") auto
qed

lemma keeps_release:
  assumes "quiet_closed I"
  shows "keeps I (worker_release h)"
  unfolding worker_release_def
  by (intro keeps_ebind keeps_emit [OF assms] keeps_emod quiet_closed_env [OF assms])

lemma worker_run_rule:
  assumes run: "worker_run h mi e = Some (r, s)" and ok: "startable mi e"
    and start: "triple (\<lambda>s. s = worker_init e) (worker_start h) (\<lambda>_. I) (\<lambda>x. J (Inl x))"
    and turns: "loop_rule h mi I J" and J: "\<And>q. quiet_closed (J q)"
  shows "\<exists>q. J q s \<and> (\<forall>w. r = Inr w \<longrightarrow> q = Inr () \<and> w = run_summary s)"
proof -
  obtain q t where body: "worker_body h mi (worker_init e) = Some (q, t)"
    and fin: "efinally (\<lambda>s. (case q of Inl x \<Rightarrow> Inl x | Inr _ \<Rightarrow> Inr (run_summary s), s))
       (worker_release h) t = (r, s)"
    using worker_run_started [OF ok run] .
  have Jt: "J q t" by (rule worker_body_rule [OF body _ start turns]) simp
  obtain u where rel: "worker_release h t = (u, s)"
    using fin by (auto simp: efinally_def split: prod.splits sum.splits)
  have "J q s" using keeps_run [OF keeps_release [OF J] rel Jt] .
  moreover have "run_summary s = run_summary t"
    by (rule keeps_run [OF keeps_release rel, of "\<lambda>s. run_summary s = run_summary t"])
      (simp_all add: quiet_closed_def run_summary_def)
  ultimately show ?thesis using fin rel
    by (auto simp: efinally_def split: sum.splits)
qed

section \<open>History\<close>

definition loaded :: "('o, 'c, 'u) worker_host \<Rightarrow> 'u env \<Rightarrow> 'c option \<Rightarrow> bool" where
  "loaded h e l = (case fst (cp_load h (e\<lparr>run_locked := True\<rparr>)) of Inr cp \<Rightarrow> l = cp | Inl _ \<Rightarrow> l = None)"

definition run_inv ::
  "('o, 'c, 'u) worker_host \<Rightarrow> 'u env \<Rightarrow> ('o, 'c, 'u) wstate \<Rightarrow> bool" where
  "run_inv h e s \<longleftrightarrow> (\<exists>l. loaded h e l \<and> hist_inv l s)"

lemma run_inv_quiet: "quiet_closed (run_inv h e)"
  by (auto simp: quiet_closed_def run_inv_def hist_inv_def wf_history_def)

lemma keeps_run_iteration: "keeps (run_inv h e) (worker_iteration h)"
  using keepsD [OF keeps_hist_iteration] by (fastforce simp: run_inv_def intro: keepsI)

lemma worker_start_history:
  "triple (\<lambda>s. s = worker_init e) (worker_start h) (\<lambda>_. run_inv h e) (\<lambda>_. run_inv h e)"
proof -
  have emit: "triple (run_inv h e) (worker_emit h ''starting'' None None)
      (\<lambda>_. run_inv h e) (\<lambda>_. run_inv h e)"
    by (intro keeps_triple keeps_emit run_inv_quiet)
  have load: "triple (\<lambda>s. s = worker_init e) (wcall CLoad (cp_load h))
      (\<lambda>cp s. loaded h e cp \<and> calls s = [(CLoad, True)] \<and> completed s = 0) (\<lambda>_. run_inv h e)"
    unfolding triple_def
  proof (intro allI impI)
    fix s s' :: "('a, 'b, 'c) wstate" and r
    assume "s = worker_init e" and run: "wcall CLoad (cp_load h) s = (r, s')"
    with wcall_run [OF run] show "(\<forall>a. r = Inr a \<longrightarrow> loaded h e a \<and> calls s' = [(CLoad, True)] \<and> completed s' = 0) \<and>
        (\<forall>x. r = Inl x \<longrightarrow> run_inv h e s')"
      by (auto simp: worker_init_def loaded_def run_inv_def hist_inv_def wf_history_def)
  qed
  show ?thesis unfolding worker_start_def
    by (rule triple_ebind [OF load triple_ebind [OF triple_emod emit]])
      (auto simp: run_inv_def hist_inv_def wf_history_def)
qed

text \<open>An invariant kept by every iteration and blind to the environment holds through the loop.\<close>

lemma loop_rule_keeps:
  assumes cl: "quiet_closed I" and it: "keeps I (worker_iteration h)"
  shows "loop_rule h mi I (\<lambda>_. I)"
  unfolding loop_rule_def
proof (intro conjI allI impI)
  fix s s' assume "I s" "worker_turn h mi s = Inl s'"
  then show "I s'"
    by (elim worker_turn_Inl) (auto intro: keeps_run [OF it] quiet_closed_env [OF cl])
next
  fix s r s' assume "I s" "worker_turn h mi s = Inr (r, s')"
  then show "I s'"
    by (elim worker_turn_Inr) (auto intro: keeps_run [OF it] quiet_closed_env [OF cl])
qed

lemma worker_run_inv:
  assumes "worker_run h mi e = Some (r, s)" "startable mi e"
  shows "run_inv h e s"
  using worker_run_rule [OF assms worker_start_history
      loop_rule_keeps [OF run_inv_quiet keeps_run_iteration] run_inv_quiet] by auto

text \<open>
  C2. At-least-once: in every run, each checkpoint save comes right after the successful
  persistence of the work it stands for, every plan is requested at the last checkpoint saved
  (or the one loaded at the start), the completed count is the number of successful saves, and
  the checkpoint the run ends with is the last one saved.
\<close>

theorem worker_run_history:
  assumes "worker_run h mi e = Some (r, s)" "startable mi e"
  shows "\<exists>l. loaded h e l \<and> saves_guarded (calls s) \<and> plans_durable l (calls s) \<and>
     completed s = n_saves (calls s) \<and> checkpoint s = durable l (calls s)"
  using worker_run_inv [OF assms] by (auto simp: run_inv_def hist_inv_def wf_history_def)

section \<open>Counters\<close>

text \<open>
  A predicate that ignores the environment, the history, the checkpoint and the completed count,
  and that survives the reset of the failure streak, is untouched by the \<^verbatim>\<open>try\<close> block.
\<close>

definition attempt_closed :: "(('o, 'c, 'u) wstate \<Rightarrow> bool) \<Rightarrow> bool" where
  "attempt_closed I \<longleftrightarrow> (\<forall>s e. I s \<longrightarrow> I (s\<lparr>wenv := e\<rparr>)) \<and>
     (\<forall>s e cs. I s \<longrightarrow> I (s\<lparr>wenv := e, calls := cs\<rparr>)) \<and>
     (\<forall>s. I s \<longrightarrow> I (s\<lparr>consecutive := 0\<rparr>)) \<and>
     (\<forall>s c n. I s \<longrightarrow> I (s\<lparr>checkpoint := c, completed := n, consecutive := 0\<rparr>))"

lemma attempt_closed_quiet: "attempt_closed I \<Longrightarrow> quiet_closed I"
  unfolding quiet_closed_def attempt_closed_def by blast

lemma keeps_attempt:
  assumes I: "attempt_closed I"
  shows "keeps I (worker_attempt h)"
proof -
  have q: "quiet_closed I" by (rule attempt_closed_quiet [OF I])
  have wc: "\<And>s e ok c. I s \<Longrightarrow> I (s\<lparr>wenv := e, calls := (c, ok) # calls s\<rparr>)"
    and upd: "\<And>s c n. I s \<Longrightarrow> I (s\<lparr>checkpoint := c, completed := n, consecutive := 0\<rparr>)"
    and reset: "\<And>s. I s \<Longrightarrow> I (s\<lparr>consecutive := 0\<rparr>)"
    using I unfolding attempt_closed_def by blast+
  have del: "keeps I (deliver h plan legacy t)" for plan legacy t
    unfolding deliver_def
    by (auto split: option.split intro!: keeps_ebind keeps_wcall wc keeps_pure)
  have dw: "keeps I (do_work h plan legacy)" for plan legacy
    unfolding do_work_def
    by (auto split: work_directive.split intro!: keeps_ebind keeps_wcall wc keeps_pure keeps_emod
        keeps_emit [OF q] keeps_idle [OF q] del upd)
  show ?thesis
    unfolding worker_attempt_def
    by (auto split: decision.split intro!: keeps_ebind keeps_wcall wc keeps_pure keeps_emod
        keeps_idle [OF q] dw reset)
qed

lemma attempt_counts:
  assumes "worker_attempt h s = (r, s')"
  shows "iterations s' = iterations s" "failures s' = failures s" "consecutive s' \<le> consecutive s"
proof -
  have "attempt_closed (\<lambda>t. iterations t = iterations s \<and> failures t = failures s \<and>
      consecutive t \<le> consecutive s)"
    by (simp add: attempt_closed_def)
  from keeps_run [OF keeps_attempt [OF this] assms] show
    "iterations s' = iterations s" "failures s' = failures s" "consecutive s' \<le> consecutive s"
    by simp_all
qed

lemma do_work_completed:
  "triple (\<lambda>s. completed s = k) (do_work h plan legacy)
     (\<lambda>_ s. completed s \<le> Suc k) (\<lambda>_ s. completed s \<le> Suc k)"
proof -
  have q: "quiet_closed (\<lambda>s. completed s = k)" for k
    by (simp add: quiet_closed_def)
  have keep: "keeps (\<lambda>s. completed s = k) m \<Longrightarrow>
      triple (\<lambda>s. completed s = k) m (\<lambda>_ s. completed s = k) (\<lambda>_ s. completed s \<le> Suc k)" for m k
    by (erule keeps_triple_weaken) auto
  have call: "keeps (\<lambda>s. completed s = k) (wcall c m)" for c m k
    by (rule keeps_wcall) simp
  have del: "keeps (\<lambda>s. completed s = k) (deliver h plan legacy t)" for t
    unfolding deliver_def
    by (auto split: option.split intro!: keeps_ebind call keeps_pure)
  have tail: "keeps (\<lambda>s. completed s = Suc k) (ebind (worker_emit h ''checkpointed'' None None)
      (\<lambda>_. case d of STOP \<Rightarrow> eret Leave | IDLE \<Rightarrow> worker_idle h | CONTINUE \<Rightarrow> eret GoOn))" for d
    by (cases d) (simp_all, (intro keeps_ebind keeps_emit keeps_idle q keeps_pure)+)
  have fin: "triple (\<lambda>s. completed s = Suc k) (ebind (worker_emit h ''checkpointed'' None None)
      (\<lambda>_. case d of STOP \<Rightarrow> eret Leave | IDLE \<Rightarrow> worker_idle h | CONTINUE \<Rightarrow> eret GoOn))
      (\<lambda>_ s. completed s \<le> Suc k) (\<lambda>_ s. completed s \<le> Suc k)" for d
    by (rule keeps_triple_weaken [OF tail]) auto
  show ?thesis unfolding do_work_def split_beta
    by (rule triple_ebind [OF keep [OF keeps_emit [OF q]]]
        triple_ebind [OF keep [OF call]] triple_ebind [OF keep [OF del]]
        triple_ebind [OF triple_emod fin])+ simp
qed

lemma attempt_completed:
  "triple (\<lambda>s. completed s = k) (worker_attempt h)
     (\<lambda>_ s. completed s \<le> Suc k) (\<lambda>_ s. completed s \<le> Suc k)"
proof -
  have q: "quiet_closed (\<lambda>s. completed s = k)"
    by (simp add: quiet_closed_def)
  have keep: "keeps (\<lambda>s. completed s = k) m \<Longrightarrow>
      triple (\<lambda>s. completed s = k) m (\<lambda>_ s. completed s = k) (\<lambda>_ s. completed s \<le> Suc k)" for m
    by (erule keeps_triple_weaken) auto
  have keep': "keeps (\<lambda>s. completed s = k) m \<Longrightarrow>
      triple (\<lambda>s. completed s = k) m (\<lambda>_ s. completed s \<le> Suc k) (\<lambda>_ s. completed s \<le> Suc k)" for m
    by (erule keeps_triple_weaken) auto
  have call: "keeps (\<lambda>s. completed s = k) (wcall c m)" for c m
    by (rule keeps_wcall) simp
  have branch: "triple (\<lambda>s. completed s = k) (case d of
        DStop \<Rightarrow> ebind (emod (\<lambda>s. s\<lparr>consecutive := 0\<rparr>)) (\<lambda>_. eret Leave)
      | DIdle \<Rightarrow> ebind (emod (\<lambda>s. s\<lparr>consecutive := 0\<rparr>)) (\<lambda>_. worker_idle h)
      | DWork plan legacy \<Rightarrow> do_work h plan legacy)
      (\<lambda>_ s. completed s \<le> Suc k) (\<lambda>_ s. completed s \<le> Suc k)" for d
  proof (cases d)
    case DStop
    show ?thesis unfolding DStop decision.case
      by (intro keep' keeps_ebind keeps_emod keeps_pure) simp
  next
    case DIdle
    show ?thesis unfolding DIdle decision.case
      by (intro keep' keeps_ebind keeps_emod keeps_idle q) simp
  next
    case (DWork plan legacy)
    show ?thesis unfolding DWork decision.case by (rule do_work_completed)
  qed
  show ?thesis unfolding worker_attempt_def
    by (rule triple_ebind [OF keep [OF keeps_pure(3)]]
        triple_ebind [OF keep [OF call]] triple_ebind [OF keep [OF keeps_pure(4)]] branch)+
qed

lemma recover_counts:
  assumes "worker_recover h x s = (r, s')"
  shows "iterations s' = iterations s" "failures s' = failures s + 1"
    "consecutive s' = consecutive s + 1" "completed s' = completed s"
proof -
  let ?f = "\<lambda>s. s\<lparr>failures := failures s + 1, consecutive := consecutive s + 1\<rparr>"
  let ?I = "\<lambda>t. iterations t = iterations s \<and> failures t = failures s + 1 \<and>
      consecutive t = consecutive s + 1 \<and> completed t = completed s"
  have q: "quiet_closed ?I" by (simp add: quiet_closed_def)
  have "keeps ?I (worker_backoff h x)"
    unfolding worker_backoff_def
    by (intro keeps_ebind keeps_if keeps_emit [OF q] keeps_wait [OF q] keeps_pure)
  moreover from assms have "worker_backoff h x (?f s) = (r, s')"
    by (simp add: worker_recover_def ebind_def emod_def)
  ultimately have "?I s'" by (rule keeps_run) simp
  then show "iterations s' = iterations s" "failures s' = failures s + 1"
    "consecutive s' = consecutive s + 1" "completed s' = completed s" by simp_all
qed

lemma worker_iteration_cases:
  assumes "worker_iteration h s = (r, s')"
  obtains (ok) a where "worker_attempt h (s\<lparr>iterations := iterations s + 1\<rparr>) = (Inr a, s')" "r = Inr a"
  | (base) x where "worker_attempt h (s\<lparr>iterations := iterations s + 1\<rparr>) = (Inl x, s')"
      "\<not> instance_of x Exception" "r = Inl x"
  | (failed) x t where "worker_attempt h (s\<lparr>iterations := iterations s + 1\<rparr>) = (Inl x, t)"
      "instance_of x Exception" "worker_recover h x t = (r, s')"
  using assms
  by (auto simp: worker_iteration_def ebind_def emod_def etry_def split: prod.splits sum.splits if_splits)

text \<open>What one iteration adds to the counters.\<close>

lemma iteration_counts:
  assumes "worker_iteration h s = (r, s')"
  shows "iterations s' = iterations s + 1" "failures s' \<le> failures s + 1"
    "completed s' \<le> completed s + 1"
proof -
  note comp = triple_Inr [OF attempt_completed [of "completed s"]]
    triple_Inl [OF attempt_completed [of "completed s"]]
  have "iterations s' = iterations s + 1 \<and> failures s' \<le> failures s + 1 \<and> completed s' \<le> completed s + 1"
    using assms
  proof (cases rule: worker_iteration_cases)
    case (ok a)
    then show ?thesis using attempt_counts [OF ok(1)] comp(1) [OF _ ok(1)] by simp
  next
    case (base x)
    then show ?thesis using attempt_counts [OF base(1)] comp(2) [OF _ base(1)] by simp
  next
    case (failed x t)
    then show ?thesis
      using attempt_counts [OF failed(1)] comp(2) [OF _ failed(1)] recover_counts [OF failed(3)] by simp
  qed
  then show "iterations s' = iterations s + 1" "failures s' \<le> failures s + 1"
    "completed s' \<le> completed s + 1" by simp_all
qed

definition counted_ok :: "int option \<Rightarrow> ('o, 'c, 'u) wstate \<Rightarrow> bool" where
  "counted_ok mi s \<longleftrightarrow> completed s \<le> iterations s \<and> failures s \<le> iterations s \<and>
     (\<forall>m. mi = Some m \<longrightarrow> int (iterations s) \<le> m)"

lemma counted_ok_quiet: "quiet_closed (counted_ok mi)"
  by (simp add: quiet_closed_def counted_ok_def)

lemma counted_ok_env [simp]: "counted_ok mi (s\<lparr>wenv := e\<rparr>) = counted_ok mi s"
  by (simp add: counted_ok_def)

lemma counted_ok_iteration:
  assumes "worker_iteration h s = (r, s')" "counted_ok mi s" "may_iterate mi (iterations s)"
  shows "counted_ok mi s'"
  using iteration_counts [OF assms(1)] assms(2,3)
  by (auto simp: counted_ok_def may_iterate_def split: option.splits)

lemma loop_rule_counted: "loop_rule h mi (counted_ok mi) (\<lambda>_. counted_ok mi)"
  unfolding loop_rule_def
  by (intro conjI allI impI; elim worker_turn_Inl worker_turn_Inr)
    (auto dest: counted_ok_iteration)

lemma worker_start_counters:
  assumes "startable mi e"
  shows "triple (\<lambda>s. s = worker_init e) (worker_start h)
     (\<lambda>_ s. counted_ok mi s \<and> iterations s = 0 \<and> consecutive s = 0)
     (\<lambda>_ s. counted_ok mi s \<and> iterations s = 0 \<and> consecutive s = 0)"
proof -
  let ?Z = "\<lambda>s. completed s = 0 \<and> iterations s = 0 \<and> failures s = 0 \<and> consecutive s = 0"
  have q: "quiet_closed ?Z" by (simp add: quiet_closed_def)
  have "keeps ?Z (worker_start h)"
    unfolding worker_start_def
    by (intro keeps_ebind keeps_emod keeps_emit [OF q] keeps_quiet_wcall [OF q]) simp_all
  from keeps_triple [OF this] show ?thesis
    by (rule triple_conseq) (use assms in \<open>auto simp: worker_init_def counted_ok_def startable_def\<close>)
qed

text \<open>
  C28. A run with a bound ends, with at most that many iterations, and neither the completed
  steps nor the failures exceed the iterations.
\<close>

theorem worker_run_bounded:
  assumes "startable (Some m) e"
  shows "\<exists>r s. worker_run h (Some m) e = Some (r, s) \<and> int (iterations s) \<le> m \<and>
     completed s \<le> iterations s \<and> failures s \<le> iterations s"
proof -
  have "\<exists>q. iterate (worker_turn h (Some m)) s = Some q" for s
  proof (rule iterate_terminates [where I = "\<lambda>_. True" and \<mu> = "\<lambda>s. nat (m - int (iterations s))"])
    fix s s' assume "worker_turn h (Some m) s = Inl s'"
    then show "True \<and> nat (m - int (iterations s')) < nat (m - int (iterations s))"
      by (elim worker_turn_Inl) (auto dest: iteration_counts(1) simp: may_iterate_def)
  qed simp
  then obtain q where "worker_body h (Some m) (worker_init e) = Some q"
    unfolding worker_body_def by (cases "worker_start h (worker_init e)") (force split: sum.split)
  then obtain r s where run: "worker_run h (Some m) e = Some (r, s)"
    using assms by (cases q) (auto simp: worker_run_def startable_def intro: surjective_pairing)
  have start: "triple (\<lambda>s. s = worker_init e) (worker_start h)
      (\<lambda>_. counted_ok (Some m)) (\<lambda>_. counted_ok (Some m))"
    by (rule triple_conseq [OF worker_start_counters [OF assms]]) auto
  from worker_run_rule [OF run assms start loop_rule_counted counted_ok_quiet]
  have "counted_ok (Some m) s" by auto
  with run show ?thesis by (auto simp: counted_ok_def)
qed

section \<open>The failure limit\<close>

text \<open>
  A host without telemetry whose waits are the event's own: the exceptions that leave \<^verbatim>\<open>run\<close> are
  then those of the work.
\<close>

definition plain_host :: "('o, 'c, 'u) worker_host \<Rightarrow> bool" where
  "plain_host h \<longleftrightarrow> heartbeat h = None \<and> sleeper (timing h) = TimeSleep"

lemma plain_emit: "plain_host h \<Longrightarrow> worker_emit h st err retry = eret ()"
  by (simp add: plain_host_def worker_emit_def)

lemma plain_wait: "plain_host h \<Longrightarrow> \<exists>s'. worker_wait h d s = (Inr (), s') \<and> consecutive s' = consecutive s"
  by (simp add: plain_host_def worker_wait_def host_wait_def wcall_def in_env_def zoom_def emod_def)

definition below_limit :: "backoff_policy \<Rightarrow> nat \<Rightarrow> bool" where
  "below_limit p n \<longleftrightarrow> (\<forall>l. max_consecutive_failures p = Some l \<longrightarrow> int n < l)"

lemma plain_recover:
  assumes plain: "plain_host h" and run: "worker_recover h x s = (r, s')"
    and below: "below_limit (backoff h) (consecutive s)"
  shows "r = Inr GoOn \<and> below_limit (backoff h) (consecutive s') \<or>
     r = Inl x \<and> max_consecutive_failures (backoff h) = Some (int (consecutive s'))"
proof -
  let ?s = "s\<lparr>failures := failures s + 1, consecutive := consecutive s + 1\<rparr>"
  have n: "backoff_delay (backoff h) (int (consecutive s + 1)) \<noteq> Inl y" for y
    by (simp add: backoff_delay_def Let_def)
  from run have run': "worker_backoff h x ?s = (r, s')"
    by (simp add: worker_recover_def ebind_def emod_def)
  have cs: "consecutive s' = consecutive s + 1" by (rule recover_counts [OF run])
  show ?thesis
  proof (cases "max_consecutive_failures (backoff h)")
    case (Some l)
    show ?thesis
    proof (cases "l \<le> int (consecutive s + 1)")
      case True
      with run' below Some cs show ?thesis
        by (simp add: worker_backoff_def plain_emit [OF plain] ebind_def eget_def eraise_def
            below_limit_def)
    next
      case False
      obtain d where d: "backoff_delay (backoff h) (int (consecutive s + 1)) = Inr d"
        using n by (cases "backoff_delay (backoff h) (int (consecutive s + 1))") auto
      from False run' d Some have "r = Inr GoOn"
        using plain_wait [OF plain, of d ?s]
        by (auto simp: worker_backoff_def plain_emit [OF plain] ebind_def eget_def elift_def eret_def)
      with False cs Some show ?thesis by (simp add: below_limit_def)
    qed
  next
    case None
    obtain d where d: "backoff_delay (backoff h) (int (consecutive s + 1)) = Inr d"
      using n by (cases "backoff_delay (backoff h) (int (consecutive s + 1))") auto
    from None run' d have "r = Inr GoOn"
      using plain_wait [OF plain, of d ?s]
      by (auto simp: worker_backoff_def plain_emit [OF plain] ebind_def eget_def elift_def eret_def)
    with None show ?thesis by (simp add: below_limit_def)
  qed
qed

definition gave_up :: "('o, 'c, 'u) worker_host \<Rightarrow> exc + unit \<Rightarrow> ('o, 'c, 'u) wstate \<Rightarrow> bool" where
  "gave_up h r s \<longleftrightarrow> (\<forall>x. r = Inl x \<longrightarrow> instance_of x Exception \<longrightarrow> 0 < iterations s \<longrightarrow>
     max_consecutive_failures (backoff h) = Some (int (consecutive s)))"

lemma gave_up_quiet: "quiet_closed (gave_up h r)"
  by (simp add: quiet_closed_def gave_up_def)

lemma plain_iteration:
  assumes plain: "plain_host h" and run: "worker_iteration h s = (r, s')"
    and below: "below_limit (backoff h) (consecutive s)"
  shows "(\<forall>f. r = Inr f \<longrightarrow> below_limit (backoff h) (consecutive s')) \<and>
    (\<forall>x. r = Inl x \<longrightarrow> instance_of x Exception \<longrightarrow>
       max_consecutive_failures (backoff h) = Some (int (consecutive s')))"
  using run
proof (cases rule: worker_iteration_cases)
  case (ok a)
  from attempt_counts(3) [OF ok(1)] below have "below_limit (backoff h) (consecutive s')"
    by (auto simp: below_limit_def)
  with ok(2) show ?thesis by simp
next
  case (base x)
  then show ?thesis by simp
next
  case (failed x t)
  from attempt_counts(3) [OF failed(1)] below have "below_limit (backoff h) (consecutive t)"
    by (auto simp: below_limit_def)
  from plain_recover [OF plain failed(3) this] show ?thesis by auto
qed

lemma loop_rule_plain:
  assumes "plain_host h"
  shows "loop_rule h mi (\<lambda>s. below_limit (backoff h) (consecutive s)) (gave_up h)"
  unfolding loop_rule_def
  by (intro conjI allI impI; elim worker_turn_Inl worker_turn_Inr)
    (auto simp: gave_up_def dest: plain_iteration [OF assms])


section \<open>The run lock\<close>

definition tame_telemetry :: "('o, 'c, 'u) worker_host \<Rightarrow> bool" where
  "tame_telemetry h \<longleftrightarrow> (\<forall>e. \<not> isl (fst (now h e))) \<and>
     (\<forall>f ev e x. heartbeat h = Some f \<longrightarrow> fst (f ev e) = Inl x \<longrightarrow> instance_of x Exception)"

lemma tame_emit:
  assumes "tame_telemetry h"
  shows "\<exists>s'. worker_emit h st err retry s = (Inr (), s')"
proof (cases "heartbeat h")
  case (Some f)
  obtain ts e1 where n: "now h (wenv s) = (Inr ts, e1)"
    using assms unfolding tame_telemetry_def
    by (cases "now h (wenv s)") (metis fst_conv isl_def sum.exhaust)
  have beat: "\<exists>s'. etry (\<lambda>x. instance_of x Exception) (wcall (CBeat st) (f ev)) (\<lambda>_. eret ()) t = (Inr (), s')"
    for ev and t :: "('a, 'b, 'c) wstate"
  proof (cases "f ev (wenv t)")
    case (Pair r e')
    show ?thesis
    proof (cases r)
      case (Inl x)
      with Pair Some assms have "instance_of x Exception"
        unfolding tame_telemetry_def by (metis fst_conv)
      with Pair Inl show ?thesis
        by (simp add: etry_def wcall_def in_env_def zoom_def eret_def)
    next
      case (Inr u)
      with Pair show ?thesis by (simp add: etry_def wcall_def in_env_def zoom_def)
    qed
  qed
  from n have "in_env (now h) s = (Inr ts, s\<lparr>wenv := e1\<rparr>)"
    by (simp add: in_env_def zoom_def)
  then show ?thesis
    unfolding worker_emit_def Some option.case
    by (subst ebind_def, simp only: prod.case sum.case) (simp only: ebind_def eget_def prod.case sum.case beat)
qed (simp add: worker_emit_def eret_def)

text \<open>
  C30. \<^verbatim>\<open>run\<close> leaves the run lock free however it ends, provided the clock does not raise and
  heartbeats raise nothing but \<^verbatim>\<open>Exception\<close>s.
\<close>

theorem worker_run_releases:
  assumes "worker_run h mi e = Some (r, s)" "startable mi e" "tame_telemetry h"
  shows "\<not> run_locked (wenv s)"
proof -
  obtain q t where "worker_body h mi (worker_init e) = Some (q, t)"
    and fin: "efinally (\<lambda>s. (case q of Inl x \<Rightarrow> Inl x | Inr _ \<Rightarrow> Inr (run_summary s), s))
       (worker_release h) t = (r, s)"
    using worker_run_started [OF assms(2,1)] .
  obtain t' where "worker_emit h ''stopped'' None None t = (Inr (), t')"
    using tame_emit [OF assms(3)] by blast
  then have rel: "worker_release h t = (Inr (), t'\<lparr>wenv := (wenv t')\<lparr>run_locked := False\<rparr>\<rparr>)"
    by (simp add: worker_release_def ebind_def emod_def)
  from fin show ?thesis unfolding efinally_def prod.case rel by (auto simp: prod_eq_iff)
qed

section \<open>A small source for the witnesses\<close>

text \<open>
  Three units of work numbered from 1; the fetch of unit \<open>bad\<close> always raises. The world of the
  consumer is its store: the checkpoint, then the units persisted.
\<close>

definition demo_host ::
  "nat \<Rightarrow> int option \<Rightarrow> (nat, nat, nat option \<times> nat list) worker_host" where
  "demo_host bad fails = \<lparr>
     i_plan = (\<lambda>cp. eret (case cp of
         None \<Rightarrow> StepDecision (Typed CONTINUE) 1
       | Some n \<Rightarrow> if n \<ge> 3 then StepDecision (Typed STOP) 0 else StepDecision (Typed CONTINUE) (n + 1))),
     i_fetch = (\<lambda>p. if p = bad then eraise (Exc TransportError ''down'') else eret p),
     i_transform = (\<lambda>y p. eret y),
     i_output = Some (\<lambda>t p. eret (Typed \<lparr>so_result = Typed t, so_checkpoint = Some p,
         so_directive = Typed CONTINUE\<rparr>)),
     i_persist = (\<lambda>r p. emod (\<lambda>e. e\<lparr>user := (fst (user e), r # snd (user e))\<rparr>)),
     i_checkpoint = None,
     cp_load = eget (\<lambda>e. fst (user e)),
     cp_save = (\<lambda>c. emod (\<lambda>e. e\<lparr>user := (c, snd (user e))\<rparr>)),
     backoff = \<lparr>initial_seconds = 1, maximum_seconds = 60, multiplier = 2, idle_seconds = 5,
        max_consecutive_failures = fails\<rparr>,
     heartbeat = None,
     timing = \<lparr>sleeper = TimeSleep, event_wait = (\<lambda>_ e. e), others = (\<lambda>e. e)\<rparr>,
     now = eret ''2024-01-01T00:00:00+00:00'',
     type_name = (\<lambda>_. ''TransportError'')\<rparr>"

definition demo_env :: "(nat option \<times> nat list) env" where
  "demo_env = \<lparr>stop_flag = False, run_locked = False, user = (None, [])\<rparr>"

lemma demo_run: "map_option (\<lambda>(r, s). (r, user (wenv s), iterations s)) (worker_run (demo_host 0 None) None demo_env) =
  Some (Inr \<lparr>wr_checkpoint = Some 3, wr_completed = 3, wr_failures = 0, wr_iterations = 4\<rparr>,
        (Some 3, [3, 2, 1]), 4)"
  by code_simp

lemma demo_failing_run: "map_option (\<lambda>(r, s). (r, user (wenv s), iterations s)) (worker_run (demo_host 2 (Some 1)) None demo_env) =
  Some (Inl (Exc TransportError ''down''), (Some 1, [1]), 2)"
  by code_simp

lemma demo_startable: "startable mi demo_env \<longleftrightarrow> (\<forall>m. mi = Some m \<longrightarrow> 0 \<le> m)"
  by (simp add: startable_def demo_env_def)

lemma demo_plain: "plain_host (demo_host n k)" "tame_telemetry (demo_host n k)"
  by (simp_all add: plain_host_def tame_telemetry_def demo_host_def eret_def)

lemma demo_backoff: "make_backoff 1 60 2 5 (Some 1) = Inr (backoff (demo_host n (Some 1)))"
  by (simp add: make_backoff_def demo_host_def)

theorem worker_run_history_witness:
  "\<exists>r s l. worker_run (demo_host 0 None) None demo_env = Some (r, s) \<and> iterations s = 4 \<and>
     saves_guarded (calls s) \<and> plans_durable l (calls s) \<and> checkpoint s = durable l (calls s)"
proof -
  from demo_run obtain r s where run: "worker_run (demo_host 0 None) None demo_env = Some (r, s)"
    and "iterations s = 4" by auto
  with worker_run_history [OF run] show ?thesis by (auto simp: demo_startable)
qed

theorem worker_run_bounded_witness:
  "\<exists>r s. worker_run (demo_host 2 None) (Some 3) demo_env = Some (r, s) \<and> int (iterations s) \<le> 3"
  using worker_run_bounded [of 3 demo_env "demo_host 2 None"] by (auto simp: demo_startable)


theorem worker_run_releases_witness:
  "\<exists>r s. worker_run (demo_host 2 (Some 1)) None demo_env = Some (r, s) \<and> \<not> run_locked (wenv s)"
proof -
  from demo_failing_run obtain r s where
    run: "worker_run (demo_host 2 (Some 1)) None demo_env = Some (r, s)" by auto
  from worker_run_releases [OF run _ demo_plain(2)] run show ?thesis by (auto simp: demo_startable)
qed

end
