(* ===== verification/WorkerKeeps.thy ===== *)
theory WorkerKeeps
  imports WorkerRuns
begin

text \<open>
  The invariant rule of \<^verbatim>\<open>WorkerHost\<close> runs: what every call of the host keeps, the environment
  included, a whole run keeps.
\<close>

section \<open>An invariant of every call is an invariant of the run\<close>

text \<open>
  \<open>host_keeps I h\<close>: every call the host makes keeps \<open>I\<close>, and so do the host's own assignments.
\<close>

definition host_keeps ::
  "(('o, 'c, 'u) wstate \<Rightarrow> bool) \<Rightarrow> ('o, 'c, 'u) worker_host \<Rightarrow> bool" where
  "host_keeps I h \<longleftrightarrow>
     keeps I (in_env (now h)) \<and> keeps I (in_env (stop_is_set (timing h))) \<and>
     (\<forall>f st ev. heartbeat h = Some f \<longrightarrow> keeps I (wcall (CBeat st) (f ev))) \<and>
     (\<forall>d. keeps I (worker_wait h d)) \<and> keeps I (wcall CLoad (cp_load h)) \<and>
     (\<forall>c. keeps I (wcall (CPlan c) (i_plan h c))) \<and>
     (\<forall>p. keeps I (wcall (CFetch p) (i_fetch h p))) \<and>
     (\<forall>y p. keeps I (wcall (CTransform y p) (i_transform h y p))) \<and>
     (\<forall>f t p. i_output h = Some f \<longrightarrow> keeps I (wcall (COutput t p) (f t p))) \<and>
     (\<forall>y p. keeps I (wcall (CPersist y p) (i_persist h y p))) \<and>
     (\<forall>f t p. i_checkpoint h = Some f \<longrightarrow> keeps I (wcall (CCheckpoint t p) (f t p))) \<and>
     (\<forall>c. keeps I (wcall (CSave c) (cp_save h c))) \<and>
     (\<forall>s c n f k i. I s \<longrightarrow> I (s\<lparr>checkpoint := c, completed := n, failures := f,
        consecutive := k, iterations := i\<rparr>)) \<and>
     (\<forall>s. I s \<longrightarrow> I (s\<lparr>wenv := (wenv s)\<lparr>run_locked := False\<rparr>\<rparr>))"

lemma hk_calls:
  assumes "host_keeps I h"
  shows "keeps I (in_env (now h))" "keeps I (in_env (stop_is_set (timing h)))"
    "keeps I (worker_wait h d)" "keeps I (wcall CLoad (cp_load h))"
    "keeps I (wcall (CPlan c) (i_plan h c))" "keeps I (wcall (CFetch p) (i_fetch h p))"
    "keeps I (wcall (CTransform y p) (i_transform h y p))"
    "keeps I (wcall (CPersist y p) (i_persist h y p))"
    "keeps I (wcall (CSave c) (cp_save h c))"
  using assms by (simp_all add: host_keeps_def)

lemma hk_optional:
  assumes "host_keeps I h"
  shows "heartbeat h = Some f \<Longrightarrow> keeps I (wcall (CBeat st) (f ev))"
    "i_output h = Some g \<Longrightarrow> keeps I (wcall (COutput t p) (g t p))"
    "i_checkpoint h = Some k \<Longrightarrow> keeps I (wcall (CCheckpoint t p) (k t p))"
  using assms by (simp_all add: host_keeps_def)

lemma hk_assign:
  assumes "host_keeps I h" "I s"
  shows "I (s\<lparr>checkpoint := c\<rparr>)" "I (s\<lparr>consecutive := k\<rparr>)" "I (s\<lparr>iterations := i\<rparr>)"
    "I (s\<lparr>failures := f, consecutive := k\<rparr>)"
    "I (s\<lparr>checkpoint := c, completed := n, consecutive := k\<rparr>)"
    "I (s\<lparr>wenv := (wenv s)\<lparr>run_locked := False\<rparr>\<rparr>)"
proof -
  have a: "I (s\<lparr>checkpoint := c, completed := n, failures := f, consecutive := k, iterations := i\<rparr>)"
    for c n f k i
    using assms unfolding host_keeps_def by blast
  show "I (s\<lparr>checkpoint := c\<rparr>)"
    using a [where c = c and n = "completed s" and f = "failures s" and k = "consecutive s" and i = "iterations s"] by simp
  show "I (s\<lparr>consecutive := k\<rparr>)"
    using a [where c = "checkpoint s" and n = "completed s" and f = "failures s" and k = k and i = "iterations s"] by simp
  show "I (s\<lparr>iterations := i\<rparr>)"
    using a [where c = "checkpoint s" and n = "completed s" and f = "failures s" and k = "consecutive s" and i = i] by simp
  show "I (s\<lparr>failures := f, consecutive := k\<rparr>)"
    using a [where c = "checkpoint s" and n = "completed s" and f = f and k = k and i = "iterations s"] by simp
  show "I (s\<lparr>checkpoint := c, completed := n, consecutive := k\<rparr>)"
    using a [where c = c and n = n and f = "failures s" and k = k and i = "iterations s"] by simp
  show "I (s\<lparr>wenv := (wenv s)\<lparr>run_locked := False\<rparr>\<rparr>)"
    using assms unfolding host_keeps_def by blast
qed

lemma hk_emit:
  assumes "host_keeps I h"
  shows "keeps I (worker_emit h st err retry)"
  unfolding worker_emit_def
  by (auto split: option.split intro!: keeps_ebind keeps_etry keeps_pure hk_calls(1) [OF assms]
      hk_optional(1) [OF assms])

lemma hk_idle:
  assumes "host_keeps I h"
  shows "keeps I (worker_idle h)"
  unfolding worker_idle_def
  by (intro keeps_ebind keeps_pure hk_emit [OF assms] hk_calls(3) [OF assms])

lemma hk_do_work:
  assumes hk: "host_keeps I h"
  shows "keeps I (do_work h plan legacy)"
proof -
  have del: "keeps I (deliver h plan legacy t)" for t
    unfolding deliver_def
    by (auto split: option.split
        intro!: keeps_ebind keeps_pure hk_calls(8) [OF hk] hk_optional(2,3) [OF hk])
  show ?thesis unfolding do_work_def
    by (auto split: work_directive.split intro!: keeps_ebind keeps_emod keeps_pure
        hk_emit [OF hk] hk_idle [OF hk] hk_calls(6,7,9) [OF hk] del hk_assign(5) [OF hk])
qed

lemma hk_iteration:
  assumes hk: "host_keeps I h"
  shows "keeps I (worker_iteration h)"
proof -
  have att: "keeps I (worker_attempt h)" unfolding worker_attempt_def
    by (auto split: decision.split intro!: keeps_ebind keeps_emod keeps_pure hk_calls(5) [OF hk]
        hk_idle [OF hk] hk_do_work [OF hk] hk_assign(2) [OF hk])
  have rec: "keeps I (worker_recover h x)" for x
    unfolding worker_recover_def worker_backoff_def
    by (intro keeps_ebind keeps_emod keeps_if keeps_pure hk_emit [OF hk] hk_calls(3) [OF hk]
        hk_assign(4) [OF hk])
  show ?thesis unfolding worker_iteration_def
    by (intro keeps_ebind keeps_emod keeps_etry att rec hk_assign(3) [OF hk])
qed

lemma hk_loop_rule:
  assumes hk: "host_keeps I h"
  shows "loop_rule h mi I (\<lambda>_. I)"
proof -
  have st: "I s \<Longrightarrow> I (s\<lparr>wenv := others (timing h) (wenv s)\<rparr>)" for s
    using keepsD [OF hk_calls(2) [OF hk], of s] by (simp add: stop_read)
  show ?thesis unfolding loop_rule_def
  proof (intro conjI allI impI)
    fix s s' assume "I s" "worker_turn h mi s = Inl s'"
    then show "I s'"
      by (elim worker_turn_Inl) (auto intro: keeps_run [OF hk_iteration [OF hk]] st)
  next
    fix s r s' assume "I s" "worker_turn h mi s = Inr (r, s')"
    then show "I s'"
      by (elim worker_turn_Inr) (auto intro: keeps_run [OF hk_iteration [OF hk]] st)
  qed
qed

lemma worker_run_keeps:
  assumes hk: "host_keeps I h" and run: "worker_run h mi e = Some (r, s)" and ok: "startable mi e"
    and I: "I (worker_init e)"
  shows "I s"
proof -
  obtain q t where body: "worker_body h mi (worker_init e) = Some (q, t)"
    and fin: "efinally (\<lambda>s. (case q of Inl x \<Rightarrow> Inl x | Inr _ \<Rightarrow> Inr (run_summary s), s))
       (worker_release h) t = (r, s)"
    using worker_run_started [OF ok run] .
  have "keeps I (worker_start h)" unfolding worker_start_def
    by (intro keeps_ebind keeps_emod hk_emit [OF hk] hk_calls(4) [OF hk] hk_assign(1) [OF hk])
  then have st: "triple I (worker_start h) (\<lambda>_. I) (\<lambda>_. I)" by (rule keeps_triple)
  have It: "I t" by (rule worker_body_rule [OF body I st hk_loop_rule [OF hk]])
  obtain u where rel: "worker_release h t = (u, s)"
    using fin by (auto simp: efinally_def split: prod.splits sum.splits)
  have "keeps I (worker_release h)" unfolding worker_release_def
    by (intro keeps_ebind keeps_emod hk_emit [OF hk] hk_assign(6) [OF hk])
  from keeps_run [OF this rel It] show ?thesis .
qed

end
