(* ===== verification/Checkpoints.thy ===== *)
theory Checkpoints
  imports AtomicFile WorkerKeeps
begin

text \<open>
  The checkpoint stores of \<^verbatim>\<open>worker.py\<close> and what \<^verbatim>\<open>WorkerHost\<close> needs of one: a contract, met by
  the in-memory store and by the file store, and the at-least-once guarantee of the host proved
  from the contract alone.
\<close>

section \<open>The stores\<close>

text \<open>\<^verbatim>\<open>InMemoryCheckpointStore\<close>\<close>

definition memory_load :: "('c option, 'c option) eff" where
  "memory_load = eget (\<lambda>s. s)"

definition memory_save :: "'c option \<Rightarrow> ('c option, unit) eff" where
  "memory_save c = emod (\<lambda>_. c)"

text \<open>\<^verbatim>\<open>FileCheckpointStore.load\<close>: a missing file is the checkpoint \<^verbatim>\<open>None\<close>.\<close>

definition read_file :: "string \<Rightarrow> 'd disk \<Rightarrow> exc + 'd content \<times> 'd disk" where
  "read_file t d = (case visible d t of
     None \<Rightarrow> Inl (Exc FileNotFoundError t) | Some x \<Rightarrow> Inr (x, d))"

definition checkpoint_load :: "string \<Rightarrow> ('c option fsys, 'c option) eff" where
  "checkpoint_load t = etry (\<lambda>x. instance_of x FileNotFoundError)
     (ebind (syscall (read_file t)) (\<lambda>x. case x of
        Whole c \<Rightarrow> eret c | Torn \<Rightarrow> eraise (Exc JSONDecodeError ''Expecting value'')))
     (\<lambda>_. eret None)"

section \<open>Their contract\<close>

text \<open>
  \<open>holds s\<close> is the stored checkpoint. A save that raises leaves the old checkpoint or the new
  one, a load never changes it.
\<close>

locale checkpoint_store =
  fixes load :: "('s, 'c option) eff" and save :: "'c option \<Rightarrow> ('s, unit) eff"
    and ok :: "'s \<Rightarrow> bool" and holds :: "'s \<Rightarrow> 'c option"
  assumes load: "triple (\<lambda>s. ok s \<and> holds s = x) load
      (\<lambda>r s. ok s \<and> holds s = x \<and> r = x) (\<lambda>_ s. ok s \<and> holds s = x)"
    and save: "triple (\<lambda>s. ok s \<and> holds s = x) (save c)
      (\<lambda>_ s. ok s \<and> holds s = c) (\<lambda>_ s. ok s \<and> (holds s = x \<or> holds s = c))"

interpretation memory_store: checkpoint_store memory_load memory_save "\<lambda>_. True" "\<lambda>s. s"
  by unfold_locales (auto simp: memory_load_def memory_save_def intro!: triple_eget triple_emod)

definition file_ok :: "string \<Rightarrow> string \<Rightarrow> 'c option fsys \<Rightarrow> bool" where
  "file_ok tmp t s \<longleftrightarrow> ready tmp t (disk s) \<and> visible (disk s) t \<noteq> Some Torn"

definition file_holds :: "string \<Rightarrow> 'c option fsys \<Rightarrow> 'c option" where
  "file_holds t s = (case visible (disk s) t of Some (Whole c) \<Rightarrow> c | _ \<Rightarrow> None)"

lemma checkpoint_load_run:
  assumes "checkpoint_load t s = (r, s')" "visible (disk s) t \<noteq> Some Torn"
  shows "disk s' = disk s \<and> (r = Inr (file_holds t s) \<or> r = Inl io_error)"
proof (cases "faults s \<noteq> [] \<and> hd (faults s)")
  case True
  with assms show ?thesis
    by (auto simp: checkpoint_load_def etry_def ebind_def syscall_def Let_def io_error_def subclass_of_def)
next
  case False
  show ?thesis
  proof (cases "visible (disk s) t")
    case None
    with assms False show ?thesis
      by (auto simp: checkpoint_load_def etry_def ebind_def syscall_def Let_def read_file_def
          file_holds_def eret_def)
  next
    case (Some x)
    with assms(2) obtain c where "x = Whole c" by (cases x) auto
    with Some assms False show ?thesis
      by (auto simp: checkpoint_load_def etry_def ebind_def syscall_def Let_def read_file_def
          file_holds_def eret_def)
  qed
qed

interpretation file_store: checkpoint_store
  "checkpoint_load t" "checkpoint_save tmp t" "file_ok tmp t" "file_holds t"
proof
  fix x :: "'c option"
  show "triple (\<lambda>s. file_ok tmp t s \<and> file_holds t s = x) (checkpoint_load t)
      (\<lambda>r s. file_ok tmp t s \<and> file_holds t s = x \<and> r = x) (\<lambda>_ s. file_ok tmp t s \<and> file_holds t s = x)"
    unfolding triple_def file_ok_def
    by (auto dest!: checkpoint_load_run simp: file_holds_def)
next
  fix x c :: "'c option"
  show "triple (\<lambda>s. file_ok tmp t s \<and> file_holds t s = x) (checkpoint_save tmp t c)
      (\<lambda>_ s. file_ok tmp t s \<and> file_holds t s = c)
      (\<lambda>_ s. file_ok tmp t s \<and> (file_holds t s = x \<or> file_holds t s = c))"
    unfolding triple_def
  proof (intro allI impI)
    fix s r s'
    assume pre: "file_ok tmp t s \<and> file_holds t s = x" and run: "checkpoint_save tmp t c s = (r, s')"
    then have rd: "ready tmp t (disk s)" by (simp add: file_ok_def)
    have rd': "ready tmp t (disk s')"
      using checkpoint_file.run_safe [OF rd run] by (simp add: all_safe_def target_safe_def)
    show "(\<forall>a. r = Inr a \<longrightarrow> file_ok tmp t s' \<and> file_holds t s' = c) \<and>
        (\<forall>e. r = Inl e \<longrightarrow> file_ok tmp t s' \<and> (file_holds t s' = x \<or> file_holds t s' = c))"
    proof (cases r)
      case (Inl e)
      with run have "visible (disk s') t = visible (disk s) t \<or> visible (disk s') t = Some (Whole c)"
        using checkpoint_file.failure_keeps [OF rd] by blast
      with Inl pre rd' show ?thesis by (auto simp: file_ok_def file_holds_def)
    next
      case (Inr u)
      with run checkpoint_file.returns_installed [OF rd] rd' show ?thesis
        by (auto simp: file_ok_def file_holds_def installed_def)
    qed
  qed
qed

section \<open>At-least-once, for every store\<close>

text \<open>
  What the store may hold after a history, most recent call first, from the initial \<open>x\<close>: the
  last successful save, or one of the failed saves after it.
\<close>

fun may_hold :: "'c option \<Rightarrow> ('o, 'c) history \<Rightarrow> 'c option \<Rightarrow> bool" where
  "may_hold x [] c = (c = x)"
| "may_hold x ((CSave c', True) # cs) c = (c = c')"
| "may_hold x ((CSave c', False) # cs) c = (c = c' \<or> may_hold x cs c)"
| "may_hold x (_ # cs) c = may_hold x cs c"

lemma may_hold_quiet [simp]: "quiet k \<Longrightarrow> may_hold x ((k, b) # cs) c = may_hold x cs c"
  by (cases k) simp_all

definition saved_after_persist :: "'c option \<Rightarrow> ('o, 'c) history \<Rightarrow> bool" where
  "saved_after_persist c cs \<longleftrightarrow> (\<exists>new b old. cs = new @ (CSave c, b) # old \<and> persisted old)"

lemma saved_after_persist_Cons: "saved_after_persist c cs \<Longrightarrow> saved_after_persist c (k # cs)"
  unfolding saved_after_persist_def by (metis append_Cons)

lemma saved_after_persist_now: "persisted cs \<Longrightarrow> saved_after_persist c ((CSave c, b) # cs)"
  unfolding saved_after_persist_def by (metis append_Nil)

lemma may_hold_origin:
  "may_hold x cs c \<Longrightarrow> saves_guarded cs \<Longrightarrow> c = x \<or> saved_after_persist c cs"
proof (induction cs)
  case (Cons k cs)
  obtain q b where k: "k = (q, b)" by (cases k)
  show ?case
  proof (cases "\<exists>c'. q = CSave c'")
    case True
    then obtain c' where q: "q = CSave c'" by blast
    show ?thesis
    proof (cases "c = c'")
      case True
      with Cons.prems k q show ?thesis by (simp add: saved_after_persist_now)
    next
      case False
      with Cons k q show ?thesis by (cases b) (auto intro: saved_after_persist_Cons)
    qed
  next
    case False
    then have "may_hold x (k # cs) c = may_hold x cs c" "saves_guarded (k # cs) = saves_guarded cs"
      by (cases q; simp add: k)+
    with Cons show ?thesis by (auto intro: saved_after_persist_Cons)
  qed
qed simp

text \<open>
  The store is a part of the consumer's world, read by \<open>g\<close> and written by \<open>p\<close>. No other call
  of the host touches it.
\<close>

definition in_store ::
  "('u \<Rightarrow> 's) \<Rightarrow> ('s \<Rightarrow> 'u \<Rightarrow> 'u) \<Rightarrow> ('s, 'a) eff \<Rightarrow> ('u env, 'a) eff" where
  "in_store g p = zoom (\<lambda>e. g (user e)) (\<lambda>st e. e\<lparr>user := p st (user e)\<rparr>)"

definition leaves :: "('u \<Rightarrow> 's) \<Rightarrow> ('u env, 'a) eff \<Rightarrow> bool" where
  "leaves g m \<longleftrightarrow> (\<forall>e. g (user (snd (m e))) = g (user e))"

definition store_private :: "('u \<Rightarrow> 's) \<Rightarrow> ('o, 'c, 'u) worker_host \<Rightarrow> bool" where
  "store_private g h \<longleftrightarrow> leaves g (now h) \<and> leaves g (stop_is_set (timing h)) \<and>
     (\<forall>f ev. heartbeat h = Some f \<longrightarrow> leaves g (f ev)) \<and> (\<forall>d. leaves g (host_wait (timing h) d)) \<and>
     (\<forall>c. leaves g (i_plan h c)) \<and> (\<forall>p. leaves g (i_fetch h p)) \<and>
     (\<forall>y p. leaves g (i_transform h y p)) \<and> (\<forall>f t p. i_output h = Some f \<longrightarrow> leaves g (f t p)) \<and>
     (\<forall>y p. leaves g (i_persist h y p)) \<and>
     (\<forall>f t p. i_checkpoint h = Some f \<longrightarrow> leaves g (f t p))"

definition uses_store :: "('u \<Rightarrow> 's) \<Rightarrow> ('s \<Rightarrow> 'u \<Rightarrow> 'u) \<Rightarrow> ('s, 'c option) eff \<Rightarrow>
    ('c option \<Rightarrow> ('s, unit) eff) \<Rightarrow> ('o, 'c, 'u) worker_host \<Rightarrow> bool" where
  "uses_store g p ld sv h \<longleftrightarrow> (\<forall>st u. g (p st u) = st) \<and> store_private g h \<and>
     cp_load h = in_store g p ld \<and> (\<forall>c. cp_save h c = in_store g p (sv c))"

definition store_inv ::
  "('s \<Rightarrow> bool) \<Rightarrow> ('s \<Rightarrow> 'c option) \<Rightarrow> ('u \<Rightarrow> 's) \<Rightarrow> 'c option \<Rightarrow> ('o, 'c, 'u) wstate \<Rightarrow> bool" where
  "store_inv okp hold g x s \<longleftrightarrow> okp (g (user (wenv s))) \<and> may_hold x (calls s) (hold (g (user (wenv s))))"

lemma leaves_run: "leaves g m \<Longrightarrow> m e = (r, e') \<Longrightarrow> g (user e') = g (user e)"
  by (metis leaves_def snd_conv)

lemma store_inv_wcall:
  assumes "leaves g m" "\<And>x b cs c. may_hold x ((k, b) # cs) c = may_hold x cs c"
  shows "keeps (store_inv okp hold g x) (wcall k m)"
proof (rule keeps_runI)
  fix s r s' assume run: "wcall k m s = (r, s')" and I: "store_inv okp hold g x s"
  from wcall_run [OF run] obtain e where "m (wenv s) = (r, e)"
    "s' = s\<lparr>wenv := e, calls := (k, \<not> isl r) # calls s\<rparr>" by blast
  with I leaves_run [OF assms(1)] assms(2) show "store_inv okp hold g x s'"
    by (simp add: store_inv_def)
qed

lemma store_inv_env:
  assumes "leaves g m"
  shows "keeps (store_inv okp hold g x) (in_env m)"
proof (rule keeps_runI)
  fix s r s' assume run: "in_env m s = (r, s')" and I: "store_inv okp hold g x s"
  from in_env_run [OF run] obtain e where "m (wenv s) = (r, e)" "s' = s\<lparr>wenv := e\<rparr>" by blast
  with I leaves_run [OF assms(1)] show "store_inv okp hold g x s'"
    by (simp add: store_inv_def)
qed

lemma in_store_wcall_run:
  assumes "wcall k (in_store g p m) s = (r, s')" "\<And>st u. g (p st u) = st"
  shows "m (g (user (wenv s))) = (r, g (user (wenv s'))) \<and> calls s' = (k, \<not> isl r) # calls s"
  using wcall_run [OF assms(1)] assms(2) by (auto simp: in_store_def dest: zoom_outcome)

context checkpoint_store
begin

lemma load_keeps:
  assumes g: "\<And>st u. g (p st u) = st"
  shows "keeps (store_inv ok holds g x) (wcall CLoad (in_store g p load))"
proof (rule keeps_runI)
  fix s r s' assume run: "wcall CLoad (in_store g p load) s = (r, s')" and I: "store_inv ok holds g x s"
  note m = in_store_wcall_run [OF run g]
  from I have pre: "ok (g (user (wenv s))) \<and> holds (g (user (wenv s))) = holds (g (user (wenv s)))"
    by (simp add: store_inv_def)
  from m triple_Inr [OF load pre] triple_Inl [OF load pre]
  have "ok (g (user (wenv s'))) \<and> holds (g (user (wenv s'))) = holds (g (user (wenv s)))"
    by (cases r) auto
  with I m run show "store_inv ok holds g x s'"
    by (simp add: store_inv_def)
qed

lemma save_keeps:
  assumes g: "\<And>st u. g (p st u) = st"
  shows "keeps (store_inv ok holds g x) (wcall (CSave c) (in_store g p (save c)))"
proof (rule keeps_runI)
  fix s r s' assume run: "wcall (CSave c) (in_store g p (save c)) s = (r, s')" and I: "store_inv ok holds g x s"
  note m = in_store_wcall_run [OF run g]
  from I have pre: "ok (g (user (wenv s))) \<and> holds (g (user (wenv s))) = holds (g (user (wenv s)))"
    by (simp add: store_inv_def)
  show "store_inv ok holds g x s'"
  proof (cases r)
    case (Inl y)
    with m have "save c (g (user (wenv s))) = (Inl y, g (user (wenv s')))" by simp
    from triple_Inl [OF save pre this] I m Inl show ?thesis by (auto simp: store_inv_def)
  next
    case (Inr u)
    with m have "save c (g (user (wenv s))) = (Inr u, g (user (wenv s')))" by simp
    from triple_Inr [OF save pre this] m Inr show ?thesis by (auto simp: store_inv_def)
  qed
qed

lemma host_keeps_store:
  assumes "uses_store g p load save h"
  shows "host_keeps (store_inv ok holds g x) h"
proof -
  have g: "\<And>st u. g (p st u) = st" and priv: "store_private g h"
    and ls: "cp_load h = in_store g p load" "\<And>c. cp_save h c = in_store g p (save c)"
    using assms by (auto simp: uses_store_def)
  show ?thesis
    unfolding host_keeps_def ls worker_wait_def
    using priv unfolding store_private_def
    by (intro conjI allI impI load_keeps [where g = g and p = p, OF g]
        save_keeps [where g = g and p = p, OF g])
      (auto simp: store_inv_def intro!: store_inv_wcall store_inv_env)
qed

lemma at_least_once:
  assumes "uses_store g p load save h" "startable mi e" "worker_run h mi e = Some (r, s)"
    and "ok (g (user e))" "saves_guarded (calls s)"
  shows "ok (g (user (wenv s))) \<and> (holds (g (user (wenv s))) = holds (g (user e)) \<or>
     saved_after_persist (holds (g (user (wenv s)))) (calls s))"
proof -
  have "store_inv ok holds g (holds (g (user e))) s"
    by (rule worker_run_keeps [OF host_keeps_store [OF assms(1)] assms(3,2)])
      (simp add: store_inv_def worker_init_def assms(4))
  then show ?thesis
    using may_hold_origin [OF _ assms(5)] by (auto simp: store_inv_def)
qed

end

lemma worker_run_guarded:
  "worker_run h mi e = Some (r, s) \<Longrightarrow> startable mi e \<Longrightarrow> saves_guarded (calls s)"
  using worker_run_inv [of h mi e r s] by (auto simp: run_inv_def hist_inv_def wf_history_def)

text \<open>
  C7. A worker on a \<^verbatim>\<open>FileCheckpointStore\<close> never resumes past work it did not persist: whatever
  system calls fail and however \<^verbatim>\<open>run\<close> ends, the checkpoint file is whole, and it holds the
  checkpoint it held before the run or one whose save came right after the successful persistence
  of its work.
\<close>

theorem worker_file_at_least_once:
  assumes "uses_store g p (checkpoint_load t) (checkpoint_save tmp t) h"
    and "startable mi e" "worker_run h mi e = Some (r, s)" "file_ok tmp t (g (user e))"
  shows "file_ok tmp t (g (user (wenv s))) \<and>
    (file_holds t (g (user (wenv s))) = file_holds t (g (user e)) \<or>
     saved_after_persist (file_holds t (g (user (wenv s)))) (calls s))"
  by (rule file_store.at_least_once [OF assms worker_run_guarded [OF assms(3,2)]])

text \<open>
  A source with one unit of work, on a disk with no checkpoint file; the second call of the
  run that touches the disk fails.
\<close>

definition demo_disk :: "'d disk" where
  "demo_disk = \<lparr>entries = (\<lambda>_. None), entries_synced = (\<lambda>_. None), data = (\<lambda>_. Torn),
     data_synced = (\<lambda>_. False), next_ino = 0\<rparr>"

definition file_host :: "(nat, nat, nat option fsys \<times> nat list) worker_host" where
  "file_host = \<lparr>
     i_plan = (\<lambda>cp. eret (case cp of
         None \<Rightarrow> StepDecision (Typed CONTINUE) 1
       | Some n \<Rightarrow> if n \<ge> 1 then StepDecision (Typed STOP) 0 else StepDecision (Typed CONTINUE) (n + 1))),
     i_fetch = eret, i_transform = (\<lambda>y p. eret y),
     i_output = Some (\<lambda>t p. eret (Typed \<lparr>so_result = Typed t, so_checkpoint = Some p,
         so_directive = Typed CONTINUE\<rparr>)),
     i_persist = (\<lambda>r p. emod (\<lambda>e. e\<lparr>user := (fst (user e), r # snd (user e))\<rparr>)),
     i_checkpoint = None,
     cp_load = in_store fst (\<lambda>st u. (st, snd u)) (checkpoint_load ''cp.json''),
     cp_save = (\<lambda>c. in_store fst (\<lambda>st u. (st, snd u)) (checkpoint_save ''cp.tmp'' ''cp.json'' c)),
     backoff = \<lparr>initial_seconds = 1, maximum_seconds = 60, multiplier = 2, idle_seconds = 5,
        max_consecutive_failures = None\<rparr>,
     heartbeat = None,
     timing = \<lparr>sleeper = TimeSleep, event_wait = (\<lambda>_ e. e), others = (\<lambda>e. e)\<rparr>,
     now = eret ''2024-01-01T00:00:00+00:00'',
     type_name = (\<lambda>_. ''OSError'')\<rparr>"

definition file_env :: "bool list \<Rightarrow> (nat option fsys \<times> nat list) env" where
  "file_env fs = \<lparr>stop_flag = False, run_locked = False,
     user = (\<lparr>disk = demo_disk, faults = fs, seen = []\<rparr>, [])\<rparr>"

lemma file_run: "map_option (\<lambda>(r, s). (snd (user (wenv s)), completed s, failures s,
      file_holds ''cp.json'' (fst (user (wenv s)))))
    (worker_run file_host None (file_env [False, False, True])) = Some ([1, 1], 1, 1, Some 1)"
  by code_simp

lemma file_uses_store: "uses_store fst (\<lambda>st u. (st, snd u)) (checkpoint_load ''cp.json'')
    (checkpoint_save ''cp.tmp'' ''cp.json'') file_host"
  by (auto simp: uses_store_def store_private_def leaves_def file_host_def eff_defs stop_is_set_def
      host_wait_def Let_def)

lemma file_env_ok: "file_ok ''cp.tmp'' ''cp.json'' (fst (user (file_env fs)))"
  "startable None (file_env fs)"
  by (simp_all add: file_ok_def file_env_def demo_disk_def ready_def disk_wf_def visible_def startable_def)

theorem worker_file_at_least_once_witness:
  "\<exists>r s. worker_run file_host None (file_env [False, False, True]) = Some (r, s) \<and>
     failures s = 1 \<and> saved_after_persist (Some 1) (calls s)"
proof -
  from file_run obtain r s where
    run: "worker_run file_host None (file_env [False, False, True]) = Some (r, s)"
    and s: "failures s = 1" "file_holds ''cp.json'' (fst (user (wenv s))) = Some 1" by auto
  have "file_holds ''cp.json'' (fst (user (file_env fs))) = (None :: nat option)" for fs
    by (simp add: file_holds_def file_env_def demo_disk_def visible_def)
  with worker_file_at_least_once [OF file_uses_store file_env_ok(2) run file_env_ok(1)] s run
  show ?thesis by auto
qed

end
