(* ===== verification/Continuous.thy ===== *)
theory Continuous
  imports HostBase
begin

text \<open>
  \<^verbatim>\<open>continuous.py\<close>: the host that repeats an opaque consumer step. The locals of \<^verbatim>\<open>run\<close> are the
  fields of \<open>cstate\<close>; \<open>trace\<close> is the history of the callbacks, the most recent first, each with
  whether it returned, and \<open>applied\<close> the directives that came to \<^verbatim>\<open>_apply\<close>.
\<close>

section \<open>Data\<close>

datatype loop_action = LoopContinue | LoopWait | LoopStop

datatype boundary_action = Keep | Rotate

record loop_directive =
  ld_action :: loop_action
  ld_boundary :: boundary_action
  ld_delay :: "rat option"
  ld_counted :: bool
  ld_reason :: string

text \<open>\<^verbatim>\<open>LoopDirective.__post_init__\<close>\<close>

definition make_directive ::
  "loop_action dyn \<Rightarrow> boundary_action dyn \<Rightarrow> rat option \<Rightarrow> bool \<Rightarrow> string \<Rightarrow> exc + loop_directive" where
  "make_directive act bnd dly cnt why = (case act of
     Untyped \<Rightarrow> Inl (Exc TypeError ''action must be a LoopAction'')
   | Typed a \<Rightarrow> (case bnd of
       Untyped \<Rightarrow> Inl (Exc TypeError ''boundary must be a BoundaryAction'')
     | Typed b \<Rightarrow> if (case dly of None \<Rightarrow> False | Some d \<Rightarrow> d < 0)
         then Inl (Exc ValueError ''delay must be >= 0'')
         else Inr \<lparr>ld_action = a, ld_boundary = b, ld_delay = dly, ld_counted = cnt, ld_reason = why\<rparr>))"

record loop_context =
  lx_sequence :: nat
  lx_counted :: nat
  lx_attempts :: nat
  lx_repeated_wait :: bool

record loop_run =
  lr_sequence :: nat
  lr_counted :: nat
  lr_attempts :: nat
  lr_last :: "loop_directive option"

section \<open>The host\<close>

datatype event =
    EvControl loop_context | EvStep loop_context | EvError exc loop_context
  | EvRotate loop_context string | EvObserve string loop_context "loop_directive option" | EvWait rat

record 'u cont_host =
  step :: "loop_context \<Rightarrow> ('u env, loop_directive dyn) eff"
  control :: "(loop_context \<Rightarrow> ('u env, loop_directive dyn option) eff) option"
  rotate :: "(loop_context \<Rightarrow> string \<Rightarrow> ('u env, unit) eff) option"
  on_error :: "(exc \<Rightarrow> loop_context \<Rightarrow> ('u env, loop_directive dyn) eff) option"
  observe :: "(string \<Rightarrow> loop_context \<Rightarrow> loop_directive option \<Rightarrow> ('u env, unit) eff) option"
  ctiming :: "'u timing"
  rotation_attempts :: "int option"

text \<open>The check of \<^verbatim>\<open>ContinuousWorkerHost.__init__\<close>\<close>

definition make_cont_host :: "'u cont_host \<Rightarrow> exc + 'u cont_host" where
  "make_cont_host h = (if (case rotation_attempts h of None \<Rightarrow> False | Some n \<Rightarrow> n < 1)
     then Inl (Exc ValueError ''rotation_attempts must be >= 1'') else Inr h)"

record 'u cstate =
  sequence :: nat
  counted :: nat
  attempts :: nat
  repeated_wait :: bool
  last_directive :: "loop_directive option"
  applied :: "loop_directive list"
  trace :: "(event \<times> bool) list"
  cenv :: "'u env"

type_synonym ('u, 'a) ceff = "('u cstate, 'a) eff"

definition in_cenv :: "('u env, 'a) eff \<Rightarrow> ('u, 'a) ceff" where
  "in_cenv = zoom cenv (\<lambda>e s. s\<lparr>cenv := e\<rparr>)"

definition ccall :: "event \<Rightarrow> ('u env, 'a) eff \<Rightarrow> ('u, 'a) ceff" where
  "ccall ev m s = (case in_cenv m s of (r, s') \<Rightarrow> (r, s'\<lparr>trace := (ev, \<not> isl r) # trace s'\<rparr>))"

definition context_of :: "'u cstate \<Rightarrow> loop_context" where
  "context_of s = \<lparr>lx_sequence = sequence s, lx_counted = counted s, lx_attempts = attempts s,
     lx_repeated_wait = repeated_wait s\<rparr>"

definition require_directive :: "loop_directive dyn \<Rightarrow> string \<Rightarrow> exc + loop_directive" where
  "require_directive v source = (case v of
     Untyped \<Rightarrow> Inl (Exc TypeError (source @ '' must return LoopDirective'')) | Typed d \<Rightarrow> Inr d)"

definition cont_observe ::
  "'u cont_host \<Rightarrow> string \<Rightarrow> loop_context \<Rightarrow> loop_directive option \<Rightarrow> ('u, unit) ceff" where
  "cont_observe h ev cx d = (case observe h of
     None \<Rightarrow> eret ()
   | Some f \<Rightarrow> etry (\<lambda>x. instance_of x Exception) (ccall (EvObserve ev cx d) (f ev cx d)) (\<lambda>_. eret ()))"

definition cont_wait :: "'u cont_host \<Rightarrow> rat \<Rightarrow> ('u, unit) ceff" where
  "cont_wait h d = ccall (EvWait d) (host_wait (ctiming h) d)"

text \<open>\<^verbatim>\<open>_rotate\<close>; its record in the trace does not depend on a callback being there.\<close>

definition cont_rotate :: "'u cont_host \<Rightarrow> loop_context \<Rightarrow> string \<Rightarrow> ('u, unit) ceff" where
  "cont_rotate h cx reason =
     ebind (ccall (EvRotate cx reason)
       (case rotate h of None \<Rightarrow> eret () | Some f \<Rightarrow> f cx reason)) (\<lambda>_.
     cont_observe h ''rotate'' cx None)"

definition cont_apply ::
  "'u cont_host \<Rightarrow> loop_directive \<Rightarrow> loop_context \<Rightarrow> nat \<Rightarrow> nat \<Rightarrow> bool \<Rightarrow>
   ('u, nat \<times> nat \<times> bool \<times> bool) ceff" where
  "cont_apply h d cx cnt att from_error =
     (let cnt' = (if ld_counted d then cnt + 1 else cnt);
          rw = (from_error \<or> ld_action d = LoopWait) in
      ebind (if ld_boundary d = Rotate
             then ebind (cont_rotate h cx (ld_reason d)) (\<lambda>_. eret 0) else eret att) (\<lambda>att'.
      if ld_action d = LoopStop then eret (cnt', att', rw, True)
      else ebind (ewhen (ld_action d = LoopWait)
                   (cont_wait h (case ld_delay d of None \<Rightarrow> 0 | Some t \<Rightarrow> t))) (\<lambda>_.
           eret (cnt', att', rw, False))))"

text \<open>The assignments of \<^verbatim>\<open>run\<close> around \<^verbatim>\<open>_apply\<close>; \<open>True\<close> leaves the loop.\<close>

definition settle :: "'u cont_host \<Rightarrow> loop_directive \<Rightarrow> loop_context \<Rightarrow> bool \<Rightarrow> ('u, bool) ceff" where
  "settle h d cx from_error =
     ebind (eget counted) (\<lambda>cnt. ebind (eget attempts) (\<lambda>att.
     ebind (cont_apply h d cx cnt att from_error) (\<lambda>(cnt', att', rw, stop).
     ebind (emod (\<lambda>s. s\<lparr>counted := cnt', attempts := att', repeated_wait := rw,
                        applied := d # applied s\<rparr>)) (\<lambda>_. eret stop))))"

text \<open>The control hook: \<open>None\<close> when it let the step run.\<close>

definition cont_control :: "'u cont_host \<Rightarrow> ('u, bool option) ceff" where
  "cont_control h = (case control h of
     None \<Rightarrow> eret None
   | Some f \<Rightarrow>
       ebind (eget context_of) (\<lambda>between.
       ebind (ccall (EvControl between) (f between)) (\<lambda>v. case v of
         None \<Rightarrow> eret None
       | Some v' \<Rightarrow>
           ebind (elift (require_directive v' ''control'')) (\<lambda>d.
           ebind (emod (\<lambda>s. s\<lparr>last_directive := Some d\<rparr>)) (\<lambda>_.
           ebind (cont_observe h ''control'' between (Some d)) (\<lambda>_.
           ebind (settle h d between False) (\<lambda>stop. eret (Some stop))))))))"

definition limit_reached :: "'u cont_host \<Rightarrow> 'u cstate \<Rightarrow> bool" where
  "limit_reached h s = (case rotation_attempts h of None \<Rightarrow> False | Some n \<Rightarrow> n \<le> int (attempts s))"

definition rotate_at_limit :: "'u cont_host \<Rightarrow> ('u, unit) ceff" where
  "rotate_at_limit h =
     ebind (eget (limit_reached h)) (\<lambda>due. ewhen due
       (ebind (eget context_of) (\<lambda>between.
        ebind (cont_rotate h between ''attempt-limit'') (\<lambda>_.
        emod (\<lambda>s. s\<lparr>attempts := 0\<rparr>)))))"

text \<open>The \<^verbatim>\<open>try\<close> block around the step: the directive and whether it came from \<^verbatim>\<open>on_error\<close>.\<close>

definition take_step :: "'u cont_host \<Rightarrow> loop_context \<Rightarrow> ('u, loop_directive \<times> bool) ceff" where
  "take_step h cx =
     etry (\<lambda>_. True)
       (ebind (ccall (EvStep cx) (step h cx)) (\<lambda>v.
        ebind (elift (require_directive v ''step'')) (\<lambda>d.
        ebind (cont_observe h ''step'' cx (Some d)) (\<lambda>_. eret (d, False)))))
       (\<lambda>x. case on_error h of
          None \<Rightarrow> eraise x
        | Some f \<Rightarrow>
            ebind (ccall (EvError x cx) (f x cx)) (\<lambda>v.
            ebind (elift (require_directive v ''on_error'')) (\<lambda>d.
            ebind (cont_observe h ''error'' cx (Some d)) (\<lambda>_. eret (d, True)))))"

definition cont_iteration :: "'u cont_host \<Rightarrow> ('u, bool) ceff" where
  "cont_iteration h =
     ebind (cont_control h) (\<lambda>c. case c of
       Some stop \<Rightarrow> eret stop
     | None \<Rightarrow>
         ebind (rotate_at_limit h) (\<lambda>_.
         ebind (emod (\<lambda>s. s\<lparr>sequence := sequence s + 1, attempts := attempts s + 1\<rparr>)) (\<lambda>_.
         ebind (eget context_of) (\<lambda>cx.
         ebind (take_step h cx) (\<lambda>(d, from_error).
         ebind (emod (\<lambda>s. s\<lparr>last_directive := Some d\<rparr>)) (\<lambda>_.
         settle h d cx from_error))))))"

definition below_count :: "int option \<Rightarrow> nat \<Rightarrow> bool" where
  "below_count mx n = (case mx of None \<Rightarrow> True | Some m \<Rightarrow> int n < m)"

definition cont_turn ::
  "'u cont_host \<Rightarrow> int option \<Rightarrow> 'u cstate \<Rightarrow> 'u cstate + ((exc + unit) \<times> 'u cstate)" where
  "cont_turn h mx s =
     (case in_cenv (stop_is_set (ctiming h)) s of
        (Inl x, s1) \<Rightarrow> Inr (Inl x, s1)
      | (Inr stopped, s1) \<Rightarrow>
          if stopped \<or> \<not> below_count mx (counted s1) then Inr (Inr (), s1)
          else (case cont_iteration h s1 of
              (Inl x, s2) \<Rightarrow> Inr (Inl x, s2)
            | (Inr stop, s2) \<Rightarrow> if stop then Inr (Inr (), s2) else Inl s2))"

definition cont_init :: "'u env \<Rightarrow> 'u cstate" where
  "cont_init e = \<lparr>sequence = 0, counted = 0, attempts = 0, repeated_wait = False,
     last_directive = None, applied = [], trace = [], cenv = e\<lparr>run_locked := True\<rparr>\<rparr>"

definition cont_summary :: "'u cstate \<Rightarrow> loop_run" where
  "cont_summary s = \<lparr>lr_sequence = sequence s, lr_counted = counted s, lr_attempts = attempts s,
     lr_last = last_directive s\<rparr>"

text \<open>After the loop: the last observation and the result; then \<^verbatim>\<open>finally\<close>.\<close>

definition cont_finish :: "'u cont_host \<Rightarrow> exc + unit \<Rightarrow> ('u, loop_run) ceff" where
  "cont_finish h r = efinally
     (ebind (elift r) (\<lambda>_.
      ebind (eget context_of) (\<lambda>cx. ebind (eget last_directive) (\<lambda>d.
      ebind (cont_observe h ''stopped'' cx d) (\<lambda>_. eget cont_summary)))))
     (emod (\<lambda>s. s\<lparr>cenv := (cenv s)\<lparr>run_locked := False\<rparr>\<rparr>))"

definition cont_run ::
  "'u cont_host \<Rightarrow> int option \<Rightarrow> 'u env \<Rightarrow> ((exc + loop_run) \<times> 'u cstate) option" where
  "cont_run h mx e =
     (if (case mx of None \<Rightarrow> False | Some m \<Rightarrow> m < 0)
        then Some (Inl (Exc ValueError ''max_counted must be >= 0''), (cont_init e)\<lparr>cenv := e\<rparr>)
      else if run_locked e
        then Some (Inl (Exc RuntimeError ''continuous worker host is already running''),
                   (cont_init e)\<lparr>cenv := e\<rparr>)
      else map_option (\<lambda>(r, s). cont_finish h r s) (iterate (cont_turn h mx) (cont_init e)))"

end
