(* ===== verification/ContinuousProps.thy ===== *)
theory ContinuousProps
  imports Continuous
begin

text \<open>
  Correctness of \<^verbatim>\<open>ContinuousWorkerHost\<close>: the numbering of the steps, the rotation limit, the work
  limit and the STOP directive on every run, termination, and the release of the run lock.
\<close>

section \<open>The history of a run\<close>

type_synonym events = "(event \<times> bool) list"

fun n_steps :: "events \<Rightarrow> nat" where
  "n_steps [] = 0"
| "n_steps ((EvStep cx, ok) # tr) = Suc (n_steps tr)"
| "n_steps (_ # tr) = n_steps tr"

text \<open>Steps since the last rotation that returned\<close>

fun since_rotation :: "events \<Rightarrow> nat" where
  "since_rotation [] = 0"
| "since_rotation ((EvStep cx, ok) # tr) = Suc (since_rotation tr)"
| "since_rotation ((EvRotate cx w, ok) # tr) = (if ok then 0 else since_rotation tr)"
| "since_rotation (_ # tr) = since_rotation tr"

fun steps_numbered :: "events \<Rightarrow> bool" where
  "steps_numbered [] = True"
| "steps_numbered ((EvStep cx, ok) # tr) =
     (lx_sequence cx = Suc (n_steps tr) \<and> lx_attempts cx = Suc (since_rotation tr) \<and> steps_numbered tr)"
| "steps_numbered (_ # tr) = steps_numbered tr"

fun limit_kept :: "int option \<Rightarrow> events \<Rightarrow> bool" where
  "limit_kept l [] = True"
| "limit_kept l ((EvStep cx, ok) # tr) =
     ((case l of None \<Rightarrow> True | Some n \<Rightarrow> int (lx_attempts cx) \<le> n) \<and> limit_kept l tr)"
| "limit_kept l (_ # tr) = limit_kept l tr"

fun quiet_event :: "event \<Rightarrow> bool" where
  "quiet_event (EvStep cx) = False"
| "quiet_event (EvRotate cx w) = False"
| "quiet_event _ = True"

lemma quiet_event_trace [simp]:
  assumes "quiet_event ev"
  shows "n_steps ((ev, ok) # tr) = n_steps tr" "since_rotation ((ev, ok) # tr) = since_rotation tr"
    "steps_numbered ((ev, ok) # tr) = steps_numbered tr" "limit_kept l ((ev, ok) # tr) = limit_kept l tr"
  using assms by (cases ev; simp)+

definition no_stop :: "loop_directive list \<Rightarrow> bool" where
  "no_stop ds \<longleftrightarrow> (\<forall>d \<in> set ds. ld_action d \<noteq> LoopStop)"

definition count_within :: "int option \<Rightarrow> nat \<Rightarrow> bool" where
  "count_within mx n = (case mx of None \<Rightarrow> True | Some m \<Rightarrow> int n \<le> m)"

text \<open>
  \<open>accounted\<close> holds wherever a run can end; \<open>running\<close> between the turns of the loop; \<open>due\<close> inside
  a turn, after the tests of the loop.
\<close>

definition accounted :: "'u cont_host \<Rightarrow> int option \<Rightarrow> 'u cstate \<Rightarrow> bool" where
  "accounted h mx s \<longleftrightarrow> steps_numbered (trace s) \<and> limit_kept (rotation_attempts h) (trace s) \<and>
     sequence s = n_steps (trace s) \<and> counted s = length (filter ld_counted (applied s)) \<and>
     count_within mx (counted s) \<and> no_stop (tl (applied s))"

definition running :: "'u cont_host \<Rightarrow> int option \<Rightarrow> 'u cstate \<Rightarrow> bool" where
  "running h mx s \<longleftrightarrow> accounted h mx s \<and> no_stop (applied s) \<and>
     attempts s = since_rotation (trace s)"

definition due :: "'u cont_host \<Rightarrow> int option \<Rightarrow> 'u cstate \<Rightarrow> bool" where
  "due h mx s \<longleftrightarrow> running h mx s \<and> below_count mx (counted s)"

lemma in_cenv_run: "in_cenv m s = (r, s') \<Longrightarrow> \<exists>e. m (cenv s) = (r, e) \<and> s' = s\<lparr>cenv := e\<rparr>"
  by (auto simp: in_cenv_def dest: zoom_outcome)

lemma ccall_run:
  assumes "ccall ev m s = (r, s')"
  shows "\<exists>e. m (cenv s) = (r, e) \<and> s' = s\<lparr>cenv := e, trace := (ev, \<not> isl r) # trace s\<rparr>"
  using assms in_cenv_run [of m s] by (fastforce simp: ccall_def split: prod.splits)

definition event_closed :: "('u cstate \<Rightarrow> bool) \<Rightarrow> bool" where
  "event_closed I \<longleftrightarrow> (\<forall>s e. I s \<longrightarrow> I (s\<lparr>cenv := e\<rparr>)) \<and>
     (\<forall>s e ev ok. quiet_event ev \<longrightarrow> I s \<longrightarrow> I (s\<lparr>cenv := e, trace := (ev, ok) # trace s\<rparr>))"

lemma event_closed_invs:
  "event_closed (accounted h mx)" "event_closed (running h mx)" "event_closed (due h mx)"
  by (auto simp: event_closed_def accounted_def running_def due_def)

lemma event_closed_conj: "event_closed I \<Longrightarrow> event_closed J \<Longrightarrow> event_closed (\<lambda>s. I s \<and> J s)"
  by (simp add: event_closed_def)

lemma event_closed_env: "event_closed I \<Longrightarrow> I s \<Longrightarrow> I (s\<lparr>cenv := e\<rparr>)"
  unfolding event_closed_def by blast

lemma keeps_ccall:
  assumes "event_closed I" "quiet_event ev"
  shows "keeps I (ccall ev m)"
proof (rule keeps_runI)
  fix s r s' assume run: "ccall ev m s = (r, s')" and "I s"
  with ccall_run [OF run] assms show "I s'" unfolding event_closed_def by blast
qed

lemma keeps_cobserve: "event_closed I \<Longrightarrow> keeps I (cont_observe h ev cx d)"
  unfolding cont_observe_def
  by (auto split: option.split intro!: keeps_etry keeps_pure keeps_ccall)

lemma keeps_cwait: "event_closed I \<Longrightarrow> keeps I (cont_wait h d)"
  unfolding cont_wait_def by (simp add: keeps_ccall)

text \<open>A computation that keeps the invariants of the turn, as a triple.\<close>

lemma due_accounted: "due h mx s \<Longrightarrow> accounted h mx s"
  by (simp add: due_def running_def)

lemma due_triple:
  "keeps (due h mx) m \<Longrightarrow> triple (due h mx) m (\<lambda>_. due h mx) (\<lambda>_. accounted h mx)"
  by (erule keeps_triple_weaken) (auto dest: due_accounted)

text \<open>\<open>rotated\<close> holds when a rotation has been recorded and \<open>attempts\<close> is not yet reset.\<close>

definition rotated :: "'u cont_host \<Rightarrow> int option \<Rightarrow> 'u cstate \<Rightarrow> bool" where
  "rotated h mx s \<longleftrightarrow> due h mx (s\<lparr>attempts := 0\<rparr>)"

lemma rotated_closed: "event_closed (rotated h mx)"
  by (auto simp: event_closed_def rotated_def accounted_def running_def due_def)

lemma rotate_triple:
  "triple (due h mx) (cont_rotate h cx w) (\<lambda>_. rotated h mx) (\<lambda>_. accounted h mx)"
  unfolding cont_rotate_def
proof (rule triple_ebind)
  show "triple (due h mx) (ccall (EvRotate cx w) m) (\<lambda>_. rotated h mx) (\<lambda>_. accounted h mx)" for m
    unfolding triple_def
  proof (intro allI impI)
    fix s r s' assume "due h mx s" and run: "ccall (EvRotate cx w) m s = (r, s')"
    with ccall_run [OF run] show "(\<forall>a. r = Inr a \<longrightarrow> rotated h mx s') \<and> (\<forall>x. r = Inl x \<longrightarrow> accounted h mx s')"
      by (auto simp: rotated_def due_def running_def accounted_def)
  qed
  show "triple (rotated h mx) (cont_observe h ev cx d) (\<lambda>_. rotated h mx) (\<lambda>_. accounted h mx)" for ev d
    by (rule keeps_triple_weaken [OF keeps_cobserve [OF rotated_closed]])
      (auto simp: rotated_def due_def running_def accounted_def)
qed

section \<open>One turn\<close>

definition limit_ok :: "'u cont_host \<Rightarrow> bool" where
  "limit_ok h \<longleftrightarrow> (\<forall>n. rotation_attempts h = Some n \<longrightarrow> 1 \<le> n)"

lemma make_cont_host_ok: "make_cont_host g = Inr h \<Longrightarrow> limit_ok h"
  by (auto simp: make_cont_host_def limit_ok_def split: if_splits option.splits)

lemma rotate_at_limit_triple:
  assumes "limit_ok h"
  shows "triple (due h mx) (rotate_at_limit h) (\<lambda>_ s. due h mx s \<and> \<not> limit_reached h s)
     (\<lambda>_. accounted h mx)"
  unfolding rotate_at_limit_def
proof (rule triple_ebind)
  show "triple (due h mx) (eget (limit_reached h)) (\<lambda>b s. due h mx s \<and> b = limit_reached h s)
      (\<lambda>_. accounted h mx)"
    by (rule triple_eget) simp
  have rot: "triple (due h mx) (ebind (eget context_of) (\<lambda>between.
      ebind (cont_rotate h between w) (\<lambda>_. emod (\<lambda>s. s\<lparr>attempts := 0\<rparr>))))
      (\<lambda>_ s. due h mx s \<and> \<not> limit_reached h s) (\<lambda>_. accounted h mx)" for w
    by (rule triple_ebind [OF triple_eget [where Q = "\<lambda>_. due h mx"]
          triple_ebind [OF rotate_triple triple_emod]])
      (use assms in \<open>auto simp: rotated_def limit_reached_def limit_ok_def split: option.splits\<close>)
  show "triple (\<lambda>s. due h mx s \<and> b = limit_reached h s) (ewhen b (ebind (eget context_of) (\<lambda>between.
      ebind (cont_rotate h between ''attempt-limit'') (\<lambda>_. emod (\<lambda>s. s\<lparr>attempts := 0\<rparr>)))))
      (\<lambda>_ s. due h mx s \<and> \<not> limit_reached h s) (\<lambda>_. accounted h mx)" for b
    unfolding ewhen_def
    by (cases b; simp only: if_True if_False) (rule triple_pre [OF rot] triple_eret; simp)+
qed

lemma apply_triple:
  "triple (\<lambda>s. due h mx s \<and> cnt = counted s \<and> att = attempts s) (cont_apply h d cx cnt att fe)
     (\<lambda>(cnt', att', rw, stop) s. due h mx (s\<lparr>attempts := att'\<rparr>) \<and>
        cnt' = (if ld_counted d then counted s + 1 else counted s) \<and> stop = (ld_action d = LoopStop))
     (\<lambda>_. accounted h mx)"
proof -
  let ?R = "\<lambda>att' s. due h mx (s\<lparr>attempts := att'\<rparr>) \<and> cnt = counted s"
  have cl: "event_closed (?R att')" for att'
    by (auto simp: event_closed_def due_def running_def accounted_def)
  have rot: "triple (\<lambda>s. due h mx s \<and> cnt = counted s) (cont_rotate h cx w)
      (\<lambda>_. ?R 0) (\<lambda>_. accounted h mx)" for w
  proof -
    have "keeps (\<lambda>s. cnt = counted s) (cont_rotate h cx w)"
      unfolding cont_rotate_def
      by (intro keeps_ebind keeps_cobserve keeps_runI)
        (auto dest!: ccall_run simp: event_closed_def)
    from triple_keeps_conj [OF rotate_triple this] show ?thesis
      by (rule triple_conseq) (auto simp: rotated_def)
  qed
  have fst: "triple (\<lambda>s. due h mx s \<and> cnt = counted s \<and> att = attempts s)
      (if b then ebind (cont_rotate h cx w) (\<lambda>_. eret 0) else eret att) ?R (\<lambda>_. accounted h mx)"
    for b w
  proof -
    have rot': "triple (\<lambda>s. due h mx s \<and> cnt = counted s \<and> att = attempts s)
        (ebind (cont_rotate h cx w) (\<lambda>_. eret 0)) ?R (\<lambda>_. accounted h mx)"
      by (rule triple_pre [OF triple_ebind [OF rot]], rule triple_eret) auto
    have stay: "triple (\<lambda>s. due h mx s \<and> cnt = counted s \<and> att = attempts s)
        (eret att) ?R (\<lambda>_. accounted h mx)"
      by (rule triple_eret) auto
    from rot' stay show ?thesis by simp
  qed
  have wait: "triple (?R a) (ewhen b (cont_wait h w)) (\<lambda>_. ?R a) (\<lambda>_. accounted h mx)" for a b w
    by (rule keeps_triple_weaken [OF keeps_ewhen [OF keeps_cwait [OF cl]]])
      (auto simp: due_def running_def accounted_def)
  show ?thesis unfolding cont_apply_def Let_def
  proof (rule triple_ebind [OF fst])
    fix a
    show "triple (?R a) (if ld_action d = LoopStop
         then eret (if ld_counted d then cnt + 1 else cnt, a, fe \<or> ld_action d = LoopWait, True)
         else ebind (ewhen (ld_action d = LoopWait) (cont_wait h (case ld_delay d of None \<Rightarrow> 0 | Some t \<Rightarrow> t)))
            (\<lambda>_. eret (if ld_counted d then cnt + 1 else cnt, a, fe \<or> ld_action d = LoopWait, False)))
        (\<lambda>(cnt', att', rw, stop) s. due h mx (s\<lparr>attempts := att'\<rparr>) \<and>
           cnt' = (if ld_counted d then counted s + 1 else counted s) \<and> stop = (ld_action d = LoopStop))
        (\<lambda>_. accounted h mx)"
      by (cases "ld_action d = LoopStop"; simp only: if_True if_False)
        (auto intro!: triple_eret triple_ebind [OF wait])
  qed
qed

text \<open>What a turn leaves: \<open>running\<close>, or after a STOP everything but the absence of one.\<close>

definition settled :: "'u cont_host \<Rightarrow> int option \<Rightarrow> bool \<Rightarrow> 'u cstate \<Rightarrow> bool" where
  "settled h mx stop s \<longleftrightarrow> accounted h mx s \<and> attempts s = since_rotation (trace s) \<and>
     (\<not> stop \<longrightarrow> no_stop (applied s))"

lemma settle_triple:
  "triple (due h mx) (settle h d cx fe) (\<lambda>stop. settled h mx stop) (\<lambda>_. accounted h mx)"
proof -
  have fin: "triple (\<lambda>s. due h mx (s\<lparr>attempts := att'\<rparr>) \<and>
        cnt' = (if ld_counted d then counted s + 1 else counted s) \<and> stop = (ld_action d = LoopStop))
      (ebind (emod (\<lambda>s. s\<lparr>counted := cnt', attempts := att', repeated_wait := rw,
         applied := d # applied s\<rparr>)) (\<lambda>_. eret stop))
      (\<lambda>stop. settled h mx stop) (\<lambda>_. accounted h mx)" for cnt' att' rw stop
    by (rule triple_ebind [OF triple_emod [where Q = "\<lambda>_. settled h mx stop"] triple_eret])
      (auto simp: due_def running_def accounted_def settled_def no_stop_def below_count_def
         count_within_def split: option.splits)
  show ?thesis unfolding settle_def
    by (rule triple_ebind [OF triple_eget [where Q = "\<lambda>cnt s. due h mx s \<and> cnt = counted s"]
          triple_ebind [OF triple_eget triple_ebind [OF apply_triple]]])
      (simp_all add: fin split_beta)
qed

lemma keeps_cdue_elift: "triple (due h mx) (elift r) (\<lambda>_. due h mx) (\<lambda>_. due h mx)"
  by (rule triple_elift)

text \<open>\<open>stepping cx\<close>: the counters have been advanced for the step that sees \<open>cx\<close>.\<close>

definition stepping :: "'u cont_host \<Rightarrow> int option \<Rightarrow> loop_context \<Rightarrow> 'u cstate \<Rightarrow> bool" where
  "stepping h mx cx s \<longleftrightarrow> (\<exists>t. due h mx t \<and> \<not> limit_reached h t \<and> cx = context_of s \<and>
     s = t\<lparr>sequence := sequence t + 1, attempts := attempts t + 1\<rparr>)"

lemma stepping_logged:
  assumes "stepping h mx cx s"
  shows "due h mx (s\<lparr>cenv := e, trace := (EvStep cx, ok) # trace s\<rparr>)"
  using assms
  by (auto simp: stepping_def due_def running_def accounted_def context_of_def limit_reached_def
      split: option.splits)

lemma take_step_triple:
  "triple (stepping h mx cx) (take_step h cx) (\<lambda>_. due h mx) (\<lambda>_. accounted h mx)"
proof -
  have obs: "triple (due h mx) (ebind (cont_observe h ev cx d) (\<lambda>_. eret v))
      (\<lambda>_. due h mx) (\<lambda>_. due h mx)" for ev d and v :: 'b
    by (intro keeps_triple keeps_ebind keeps_cobserve keeps_pure event_closed_invs)
  have call: "triple (stepping h mx cx) (ccall (EvStep cx) m) (\<lambda>_. due h mx) (\<lambda>_. due h mx)" for m
    unfolding triple_def by (auto dest!: ccall_run intro: stepping_logged)
  have err: "triple (due h mx) (ccall (EvError x cx) m) (\<lambda>_. due h mx) (\<lambda>_. due h mx)" for x m
    by (intro keeps_triple keeps_ccall event_closed_invs) simp
  have hnd: "triple (due h mx) (case on_error h of None \<Rightarrow> eraise x
        | Some f \<Rightarrow> ebind (ccall (EvError x cx) (f x cx)) (\<lambda>v.
            ebind (elift (require_directive v ''on_error'')) (\<lambda>d.
            ebind (cont_observe h ''error'' cx (Some d)) (\<lambda>_. eret (d, True)))))
      (\<lambda>_. due h mx) (\<lambda>_. accounted h mx)" for x
  proof (cases "on_error h")
    case None
    then show ?thesis by (simp add: triple_eraise due_accounted)
  next
    case (Some f)
    show ?thesis unfolding Some option.case
      by (rule triple_conseq [OF triple_ebind [OF err triple_ebind [OF keeps_cdue_elift obs]]])
        (auto dest: due_accounted)
  qed
  show ?thesis unfolding take_step_def
    by (rule triple_etry [OF triple_ebind [OF call triple_ebind [OF keeps_cdue_elift obs]] hnd]) simp
qed

lemma due_last: "due h mx s \<Longrightarrow> due h mx (s\<lparr>last_directive := d\<rparr>)"
  by (auto simp: due_def running_def accounted_def)

lemma control_triple:
  "triple (due h mx) (cont_control h)
     (\<lambda>r s. case r of None \<Rightarrow> due h mx s | Some stop \<Rightarrow> settled h mx stop s) (\<lambda>_. accounted h mx)"
proof (cases "control h")
  case None
  then show ?thesis by (simp add: cont_control_def triple_eret)
next
  case (Some f)
  let ?Q = "\<lambda>r s. case r of None \<Rightarrow> due h mx s | Some stop \<Rightarrow> settled h mx stop s"
  have call: "triple (due h mx) (ccall (EvControl cx) m) (\<lambda>_. due h mx) (\<lambda>_. accounted h mx)" for cx m
    by (intro due_triple keeps_ccall event_closed_invs) simp
  have chk: "triple (due h mx) (elift r) (\<lambda>_. due h mx) (\<lambda>_. accounted h mx)"
    for r :: "exc + loop_directive"
    by (rule triple_elift) (auto dest: due_accounted)
  have obs: "triple (due h mx) (cont_observe h ev cx d) (\<lambda>_. due h mx) (\<lambda>_. accounted h mx)" for ev cx d
    by (intro due_triple keeps_cobserve event_closed_invs)
  have fin: "triple (due h mx) (ebind (settle h d cx False) (\<lambda>stop. eret (Some stop))) ?Q
      (\<lambda>_. accounted h mx)" for d cx
    by (rule triple_ebind [OF settle_triple triple_eret]) simp
  have body: "triple (due h mx)
      (case v of None \<Rightarrow> eret None
       | Some v' \<Rightarrow> ebind (elift (require_directive v' ''control'')) (\<lambda>d.
           ebind (emod (\<lambda>s. s\<lparr>last_directive := Some d\<rparr>)) (\<lambda>_.
           ebind (cont_observe h ''control'' cx (Some d)) (\<lambda>_.
           ebind (settle h d cx False) (\<lambda>stop. eret (Some stop)))))) ?Q (\<lambda>_. accounted h mx)" for v cx
  proof (cases v)
    case (Some v')
    show ?thesis unfolding Some option.case
      by (rule triple_ebind [OF chk triple_ebind [OF triple_emod triple_ebind [OF obs fin]]])
        (rule due_last)
  qed (simp add: triple_eret)
  show ?thesis unfolding cont_control_def Some option.case
    by (rule triple_ebind [OF triple_eget [where Q = "\<lambda>_. due h mx"] triple_ebind [OF call body]]) simp
qed

lemma iteration_triple:
  assumes "limit_ok h"
  shows "triple (due h mx) (cont_iteration h) (\<lambda>stop. settled h mx stop) (\<lambda>_. accounted h mx)"
proof -
  let ?Q = "\<lambda>stop. settled h mx stop" and ?E = "\<lambda>_ :: exc. accounted h mx"
  have fin: "triple (due h mx) (ebind (emod (\<lambda>s. s\<lparr>last_directive := Some d\<rparr>)) (\<lambda>_. settle h d cx fe))
      ?Q ?E" for d cx fe
    by (rule triple_ebind [OF triple_emod settle_triple]) (rule due_last)
  have go: "triple (\<lambda>s. due h mx s \<and> \<not> limit_reached h s)
      (ebind (emod (\<lambda>s. s\<lparr>sequence := sequence s + 1, attempts := attempts s + 1\<rparr>)) (\<lambda>_.
       ebind (eget context_of) (\<lambda>cx. ebind (take_step h cx) (\<lambda>(d, fe).
       ebind (emod (\<lambda>s. s\<lparr>last_directive := Some d\<rparr>)) (\<lambda>_. settle h d cx fe))))) ?Q ?E"
  proof (rule triple_ebind)
    show "triple (\<lambda>s. due h mx s \<and> \<not> limit_reached h s)
        (emod (\<lambda>s. s\<lparr>sequence := sequence s + 1, attempts := attempts s + 1\<rparr>))
        (\<lambda>_ s. stepping h mx (context_of s) s) ?E"
      by (rule triple_emod, unfold stepping_def) blast
    have step: "triple (stepping h mx cx) (ebind (take_step h cx) (\<lambda>(d, fe).
        ebind (emod (\<lambda>s. s\<lparr>last_directive := Some d\<rparr>)) (\<lambda>_. settle h d cx fe))) ?Q ?E" for cx
      by (rule triple_ebind [OF take_step_triple]) (simp add: fin split_beta)
    show "triple (\<lambda>s. stepping h mx (context_of s) s) (ebind (eget context_of) (\<lambda>cx.
        ebind (take_step h cx) (\<lambda>(d, fe).
        ebind (emod (\<lambda>s. s\<lparr>last_directive := Some d\<rparr>)) (\<lambda>_. settle h d cx fe)))) ?Q ?E"
      by (rule triple_ebind [OF triple_eget step]) simp
  qed
  show ?thesis unfolding cont_iteration_def
  proof (rule triple_ebind [OF control_triple])
    fix c :: "bool option"
    show "triple (\<lambda>s. case c of None \<Rightarrow> due h mx s | Some stop \<Rightarrow> settled h mx stop s)
      (case c of Some stop \<Rightarrow> eret stop
       | None \<Rightarrow> ebind (rotate_at_limit h) (\<lambda>_.
         ebind (emod (\<lambda>s. s\<lparr>sequence := sequence s + 1, attempts := attempts s + 1\<rparr>)) (\<lambda>_.
         ebind (eget context_of) (\<lambda>cx. ebind (take_step h cx) (\<lambda>(d, fe).
         ebind (emod (\<lambda>s. s\<lparr>last_directive := Some d\<rparr>)) (\<lambda>_. settle h d cx fe)))))) ?Q ?E"
    proof (cases c)
      case None
      show ?thesis unfolding None option.case
        by (rule triple_ebind [OF rotate_at_limit_triple [OF assms] go])
    next
      case (Some stop)
      show ?thesis unfolding Some option.case by (rule triple_eret)
    qed
  qed
qed

section \<open>Whole runs\<close>

lemma cstop_read: "in_cenv (stop_is_set (ctiming h)) s =
    (Inr (stop_flag (others (ctiming h) (cenv s))), s\<lparr>cenv := others (ctiming h) (cenv s)\<rparr>)"
  by (simp add: in_cenv_def zoom_def stop_is_set_def Let_def)

lemma cont_turn_Inl:
  assumes "cont_turn h mx s = Inl s2"
  obtains s1 where "s1 = s\<lparr>cenv := others (ctiming h) (cenv s)\<rparr>" "\<not> stop_flag (cenv s1)"
    "below_count mx (counted s1)" "cont_iteration h s1 = (Inr False, s2)"
  using assms by (auto simp: cont_turn_def cstop_read split: if_splits prod.splits sum.splits)

lemma cont_turn_Inr:
  assumes "cont_turn h mx s = Inr (r, s2)"
  obtains (test) "s2 = s\<lparr>cenv := others (ctiming h) (cenv s)\<rparr>" "r = Inr ()"
  | (stop) s1 where "s1 = s\<lparr>cenv := others (ctiming h) (cenv s)\<rparr>" "below_count mx (counted s1)"
      "cont_iteration h s1 = (Inr True, s2)" "r = Inr ()"
  | (raise) s1 x where "s1 = s\<lparr>cenv := others (ctiming h) (cenv s)\<rparr>" "below_count mx (counted s1)"
      "cont_iteration h s1 = (Inl x, s2)" "r = Inl x"
  using assms by (auto simp: cont_turn_def cstop_read split: if_splits prod.splits sum.splits)

definition run_end :: "'u cont_host \<Rightarrow> int option \<Rightarrow> exc + unit \<Rightarrow> 'u cstate \<Rightarrow> bool" where
  "run_end h mx r s \<longleftrightarrow> accounted h mx s \<and> (r = Inr () \<longrightarrow> attempts s = since_rotation (trace s))"

lemma run_end_closed: "event_closed (run_end h mx r)"
  by (auto simp: event_closed_def run_end_def accounted_def)

lemma cont_loop_end:
  assumes it: "iterate (cont_turn h mx) s0 = Some (r, s)" and ok: "limit_ok h" and "running h mx s0"
  shows "run_end h mx r s"
proof -
  have env: "running h mx t \<Longrightarrow> running h mx (t\<lparr>cenv := e\<rparr>)" for t e
    by (rule event_closed_env [OF event_closed_invs(2)])
  note T = iteration_triple [OF ok, of mx]
  have "case (r, s) of (r, s) \<Rightarrow> run_end h mx r s"
  proof (rule iterate_rule [where I = "running h mx", OF it assms(3)])
    fix t t' assume "running h mx t" "cont_turn h mx t = Inl t'"
    then obtain s1 where s1: "s1 = t\<lparr>cenv := others (ctiming h) (cenv t)\<rparr>"
      "below_count mx (counted s1)" "cont_iteration h s1 = (Inr False, t')"
      by (auto elim: cont_turn_Inl)
    with env \<open>running h mx t\<close> have "due h mx s1" by (simp add: due_def)
    with triple_Inr [OF T] s1(3) have "settled h mx False t'" by blast
    then show "running h mx t'" by (simp add: running_def settled_def)
  next
    fix t q assume t: "running h mx t" and turn: "cont_turn h mx t = Inr q"
    obtain r' t' where q: "q = (r', t')" by (cases q)
    from turn [unfolded q] have "run_end h mx r' t'"
    proof (cases rule: cont_turn_Inr)
      case test
      with env [OF t] show ?thesis by (simp add: run_end_def running_def)
    next
      case (stop s1)
      with env [OF t] have "due h mx s1" by (simp add: due_def)
      with triple_Inr [OF T] stop(3) have "settled h mx True t'" by blast
      then show ?thesis by (simp add: run_end_def settled_def)
    next
      case (raise s1 x)
      with env [OF t] have "due h mx s1" by (simp add: due_def)
      with triple_Inl [OF T] raise(3) have "accounted h mx t'" by blast
      with raise(4) show ?thesis by (simp add: run_end_def)
    qed
    then show "case q of (r, s) \<Rightarrow> run_end h mx r s" by (simp add: q)
  qed
  then show ?thesis by simp
qed

lemma cont_run_started:
  assumes "startable mx e" "cont_run h mx e = Some (r, s)"
  obtains q t where "iterate (cont_turn h mx) (cont_init e) = Some (q, t)" "cont_finish h q t = (r, s)"
proof -
  from assms have "map_option (\<lambda>(r, s). cont_finish h r s) (iterate (cont_turn h mx) (cont_init e)) = Some (r, s)"
    by (auto simp: cont_run_def startable_def split: if_splits option.splits)
  with that show thesis by (cases "iterate (cont_turn h mx) (cont_init e)") auto
qed

lemma cont_finish_run:
  assumes "cont_finish h q t = (r, s)" "event_closed I" "I t"
  shows "I s" "\<not> run_locked (cenv s)" "r = Inr w \<Longrightarrow> q = Inr () \<and> w = cont_summary s"
proof -
  let ?body = "ebind (elift q) (\<lambda>_. ebind (eget context_of) (\<lambda>cx. ebind (eget last_directive) (\<lambda>d.
      ebind (cont_observe h ''stopped'' cx d) (\<lambda>_. eget cont_summary))))"
  obtain r1 s1 where b: "?body t = (r1, s1)" by (cases "?body t")
  with assms(1) have rs: "r = r1" "s = s1\<lparr>cenv := (cenv s1)\<lparr>run_locked := False\<rparr>\<rparr>"
    by (simp_all add: cont_finish_def efinally_def emod_def)
  have "keeps I ?body"
    by (intro keeps_ebind keeps_pure keeps_cobserve assms(2))
  from keeps_run [OF this b assms(3)] show "I s"
    unfolding rs(2) by (rule event_closed_env [OF assms(2)])
  show "\<not> run_locked (cenv s)" by (simp add: rs(2))
  assume "r = Inr w"
  with b rs have "r1 = Inr w" by simp
  with b rs(2) show "q = Inr () \<and> w = cont_summary s"
    by (auto simp: ebind_def elift_def eget_def cont_summary_def split: sum.splits prod.splits)
qed

text \<open>Every run that starts ends in an accounted state.\<close>

lemma cont_run_end:
  assumes "make_cont_host g = Inr h" "startable mx e" "cont_run h mx e = Some (r, s)"
  shows "accounted h mx s" "r = Inr w \<Longrightarrow> w = cont_summary s \<and> attempts s = since_rotation (trace s)"
proof -
  obtain q t where it: "iterate (cont_turn h mx) (cont_init e) = Some (q, t)"
    and fin: "cont_finish h q t = (r, s)" using cont_run_started [OF assms(2,3)] .
  have "running h mx (cont_init e)"
    using assms(2) by (auto simp: running_def accounted_def cont_init_def no_stop_def
        count_within_def startable_def split: option.splits)
  from cont_loop_end [OF it make_cont_host_ok [OF assms(1)] this]
  have "run_end h mx q s" by (rule cont_finish_run(1) [OF fin run_end_closed])
  then show "accounted h mx s" by (simp add: run_end_def)
  show "w = cont_summary s \<and> attempts s = since_rotation (trace s)" if "r = Inr w"
    using cont_finish_run(3) [OF fin run_end_closed [of h mx q] _ that] \<open>run_end h mx q s\<close>
      cont_loop_end [OF it make_cont_host_ok [OF assms(1)] \<open>running h mx (cont_init e)\<close>]
    by (auto simp: run_end_def)
qed

text \<open>
  C14. Steps are numbered and boundaries are bounded: in every run of the continuous host the k-th
  step sees \<^verbatim>\<open>sequence\<close> k, its \<^verbatim>\<open>attempts_in_boundary\<close> is one more than the number of steps since
  the last rotation and never exceeds \<^verbatim>\<open>rotation_attempts\<close>, and the run's result reports both
  counters exactly, raising steps included.
\<close>

theorem cont_run_numbered:
  assumes "make_cont_host g = Inr h" "startable mx e" "cont_run h mx e = Some (r, s)"
  shows "steps_numbered (trace s) \<and> limit_kept (rotation_attempts h) (trace s) \<and>
    (\<forall>w. r = Inr w \<longrightarrow> lr_sequence w = n_steps (trace s) \<and> lr_attempts w = since_rotation (trace s))"
  using cont_run_end [OF assms] by (auto simp: accounted_def cont_summary_def)

text \<open>
  C31. The work limit: the counted total is the number of accepted directives whose \<^verbatim>\<open>counted\<close>
  flag is set, it never exceeds \<^verbatim>\<open>max_counted\<close>, and nothing is accepted after a STOP.
\<close>

theorem cont_run_counted:
  assumes "make_cont_host g = Inr h" "startable mx e" "cont_run h mx e = Some (r, s)"
  shows "counted s = length (filter ld_counted (applied s)) \<and> count_within mx (counted s) \<and>
    no_stop (tl (applied s)) \<and> (\<forall>w. r = Inr w \<longrightarrow> lr_counted w = counted s)"
  using cont_run_end [OF assms] by (auto simp: accounted_def cont_summary_def)

text \<open>
  The lock of the continuous host is released by every run that starts, whatever the step, the
  hooks or the telemetry raise.
\<close>

theorem cont_run_releases:
  assumes "startable mx e" "cont_run h mx e = Some (r, s)"
  shows "\<not> run_locked (cenv s)"
proof -
  obtain q t where "cont_finish h q t = (r, s)" using cont_run_started [OF assms] .
  from cont_finish_run(2) [OF this, of "\<lambda>_. True"] show ?thesis by (simp add: event_closed_def)
qed

section \<open>Termination\<close>

text \<open>Every directive the consumer can return is a counted one.\<close>

definition returns_counted :: "('u env, loop_directive dyn) eff \<Rightarrow> bool" where
  "returns_counted m \<longleftrightarrow> (\<forall>e d e'. m e = (Inr (Typed d), e') \<longrightarrow> ld_counted d)"

definition counts :: "'u cont_host \<Rightarrow> bool" where
  "counts h \<longleftrightarrow> (\<forall>cx. returns_counted (step h cx)) \<and>
     (\<forall>f x cx. on_error h = Some f \<longrightarrow> returns_counted (f x cx)) \<and>
     (\<forall>f cx e d e'. control h = Some f \<longrightarrow> f cx e = (Inr (Some (Typed d)), e') \<longrightarrow> ld_counted d)"

abbreviation any_end :: "exc \<Rightarrow> 'u cstate \<Rightarrow> bool" where
  "any_end \<equiv> \<lambda>_ _. True"

lemma count_closed: "event_closed (\<lambda>s. counted s = k)"
  by (simp add: event_closed_def)

lemma keeps_count: "keeps (\<lambda>s. counted s = k) (ccall ev m)"
  by (rule keeps_runI) (auto dest: ccall_run)

lemma keeps_count_rotate: "keeps (\<lambda>s. counted s = k) (cont_rotate h cx why)"
  unfolding cont_rotate_def by (intro keeps_ebind keeps_count keeps_cobserve count_closed)

text \<open>\<open>counting\<close> says when a computation ends with the count advanced by \<open>n v\<close> for its value \<open>v\<close>.\<close>

lemma count_triple:
  "keeps (\<lambda>s. counted s = k) m \<Longrightarrow> triple (\<lambda>s. counted s = k) m (\<lambda>_ s. counted s = k) any_end"
  by (erule keeps_triple_weaken) auto

lemma settle_counts:
  assumes "ld_counted d"
  shows "triple (\<lambda>s. counted s = k) (settle h d cx fe) (\<lambda>_ s. counted s = Suc k) any_end"
proof -
  have app: "triple (\<lambda>s. counted s = k) (cont_apply h d cx k att fe) (\<lambda>(c, _) s. c = Suc k) any_end" for att
  proof -
    have tr: "triple (\<lambda>s. counted s = k) m (\<lambda>_ s. True) any_end" for m :: "('a, nat) ceff"
      by (simp add: triple_def)
    have wt: "triple (\<lambda>s. True) m (\<lambda>_ s. True) any_end" for m :: "('a, unit) ceff"
      by (simp add: triple_def)
    show ?thesis unfolding cont_apply_def Let_def
      by (rule triple_ebind [OF tr])
        (use assms in \<open>auto intro!: triple_eret triple_ebind [OF wt]\<close>)
  qed
  show ?thesis unfolding settle_def
  proof (rule triple_ebind [OF triple_eget [where Q = "\<lambda>c s. counted s = k \<and> c = k"]])
    show "triple (\<lambda>s. counted s = k \<and> c = k) (ebind (eget attempts) (\<lambda>att.
        ebind (cont_apply h d cx c att fe) (\<lambda>(cnt', att', rw, stop).
        ebind (emod (\<lambda>s. s\<lparr>counted := cnt', attempts := att', repeated_wait := rw,
                           applied := d # applied s\<rparr>)) (\<lambda>_. eret stop))))
        (\<lambda>_ s. counted s = Suc k) any_end" for c
    proof (cases "c = k")
      case True
      have fin: "triple (\<lambda>s. fst v = Suc k) (case v of (cnt', att', rw, stop) \<Rightarrow>
          ebind (emod (\<lambda>s. s\<lparr>counted := cnt', attempts := att', repeated_wait := rw,
             applied := d # applied s\<rparr>)) (\<lambda>_. eret stop)) (\<lambda>_ s. counted s = Suc k) any_end"
        for v :: "nat \<times> nat \<times> bool \<times> bool"
        unfolding split_beta
        by (rule triple_ebind [OF triple_emod [where Q = "\<lambda>_ s. counted s = Suc k"] triple_eret]) simp_all
      show ?thesis unfolding True
        by (rule triple_ebind [OF triple_eget [where Q = "\<lambda>_ s. counted s = k"] triple_ebind
              [OF triple_conseq [OF app] fin]]) auto
    qed (simp add: triple_def)
  qed simp
qed

lemma ccall_value:
  "ccall ev m s = (Inr v, s') \<Longrightarrow> \<exists>e. m (cenv s) = (Inr v, e) \<and> counted s' = counted s"
  by (auto dest: ccall_run)

text \<open>A call that returns, when its value is checked, yields a counted directive.\<close>

lemma checked_counts:
  assumes "returns_counted m"
  shows "triple (\<lambda>s. counted s = k) (ebind (ccall ev m) (\<lambda>v. ebind (elift (require_directive v src))
      (\<lambda>d. ebind (cont_observe h ev' cx (Some d)) (\<lambda>_. eret (d, b)))))
    (\<lambda>(d, _) s. ld_counted d \<and> counted s = k) (\<lambda>_ s. counted s = k)"
proof (rule triple_ebind)
  let ?c = "\<lambda>v. \<forall>d. v = Typed d \<longrightarrow> ld_counted d"
  show "triple (\<lambda>s. counted s = k) (ccall ev m) (\<lambda>v s. ?c v \<and> counted s = k) (\<lambda>_ s. counted s = k)"
    unfolding triple_def
  proof (intro allI impI)
    fix s r s' assume "counted s = k" and run: "ccall ev m s = (r, s')"
    with ccall_run [OF run] assms show "(\<forall>a. r = Inr a \<longrightarrow> ?c a \<and> counted s' = k) \<and>
        (\<forall>x. r = Inl x \<longrightarrow> counted s' = k)"
      unfolding returns_counted_def by auto
  qed
  show "triple (\<lambda>s. ?c v \<and> counted s = k) (ebind (elift (require_directive v src))
      (\<lambda>d. ebind (cont_observe h ev' cx (Some d)) (\<lambda>_. eret (d, b))))
      (\<lambda>(d, _) s. ld_counted d \<and> counted s = k) (\<lambda>_ s. counted s = k)" for v
  proof (rule triple_ebind)
    show "triple (\<lambda>s. ?c v \<and> counted s = k) (elift (require_directive v src))
        (\<lambda>d s. ld_counted d \<and> counted s = k) (\<lambda>_ s. counted s = k)"
      by (rule triple_elift) (auto simp: require_directive_def split: dyn.splits)
    have "keeps (\<lambda>s. ld_counted d \<and> counted s = k) (cont_observe h ev' cx (Some d))" for d
      by (rule keeps_cobserve) (simp add: event_closed_def)
    from keeps_triple [OF this]
    have "triple (\<lambda>s. ld_counted d \<and> counted s = k) (cont_observe h ev' cx (Some d))
        (\<lambda>_ s. ld_counted d \<and> counted s = k) (\<lambda>_ s. counted s = k)" for d
      by (rule triple_conseq) auto
    then show "triple (\<lambda>s. ld_counted d \<and> counted s = k) (ebind (cont_observe h ev' cx (Some d)) (\<lambda>_. eret (d, b)))
        (\<lambda>(d, _) s. ld_counted d \<and> counted s = k) (\<lambda>_ s. counted s = k)" for d
      by (rule triple_ebind) (rule triple_eret, simp)
  qed
qed

lemma take_step_counts:
  assumes "counts h"
  shows "triple (\<lambda>s. counted s = k) (take_step h cx) (\<lambda>(d, _) s. ld_counted d \<and> counted s = k) any_end"
  unfolding take_step_def
proof (rule triple_etry)
  show "triple (\<lambda>s. counted s = k) (ebind (ccall (EvStep cx) (step h cx)) (\<lambda>v.
      ebind (elift (require_directive v ''step'')) (\<lambda>d.
      ebind (cont_observe h ''step'' cx (Some d)) (\<lambda>_. eret (d, False)))))
      (\<lambda>(d, _) s. ld_counted d \<and> counted s = k) (\<lambda>_ s. counted s = k)"
    by (rule checked_counts) (use assms in \<open>simp add: counts_def\<close>)
  show "triple (\<lambda>s. counted s = k) (case on_error h of None \<Rightarrow> eraise x
      | Some f \<Rightarrow> ebind (ccall (EvError x cx) (f x cx)) (\<lambda>v.
          ebind (elift (require_directive v ''on_error'')) (\<lambda>d.
          ebind (cont_observe h ''error'' cx (Some d)) (\<lambda>_. eret (d, True)))))
      (\<lambda>(d, _) s. ld_counted d \<and> counted s = k) any_end" for x
  proof (cases "on_error h")
    case (Some f)
    show ?thesis unfolding Some option.case
      by (rule triple_conseq [OF checked_counts]) (use assms Some in \<open>auto simp: counts_def\<close>)
  qed (simp add: triple_eraise)
qed simp

lemma control_counts:
  assumes "counts h"
  shows "triple (\<lambda>s. counted s = k) (cont_control h)
    (\<lambda>r s. counted s = (if r = None then k else Suc k)) any_end"
proof (cases "control h")
  case None
  then show ?thesis by (simp add: cont_control_def triple_eret)
next
  case (Some f)
  let ?Q = "\<lambda>r s. counted s = (if r = None then k else Suc k)"
  let ?c = "\<lambda>v. \<forall>d. v = Some (Typed d) \<longrightarrow> ld_counted d"
  have cc: "f cx e = (Inr (Some (Typed d)), e') \<Longrightarrow> ld_counted d" for cx e d e'
    using assms Some unfolding counts_def by blast
  have call: "triple (\<lambda>s. counted s = k) (ccall (EvControl cx) (f cx))
      (\<lambda>v s. ?c v \<and> counted s = k) any_end" for cx
    unfolding triple_def by (auto dest!: ccall_run dest: cc)
  have obs: "triple (\<lambda>s. counted s = k) (cont_observe h ev cx d) (\<lambda>_ s. counted s = k) any_end" for ev cx d
    by (intro count_triple keeps_cobserve count_closed)
  have fin: "triple (\<lambda>s. counted s = k) (ebind (settle h d cx False) (\<lambda>stop. eret (Some stop))) ?Q any_end"
    if "ld_counted d" for d cx
    by (rule triple_ebind [OF settle_counts [OF that] triple_eret]) simp
  have use: "triple (\<lambda>s. ld_counted d \<and> counted s = k)
      (ebind (emod (\<lambda>s. s\<lparr>last_directive := Some d\<rparr>)) (\<lambda>_.
       ebind (cont_observe h ''control'' cx (Some d)) (\<lambda>_.
       ebind (settle h d cx False) (\<lambda>stop. eret (Some stop))))) ?Q any_end" for d cx
  proof (cases "ld_counted d")
    case True
    show ?thesis
      by (rule triple_ebind [OF triple_emod triple_ebind [OF obs fin [OF True]]]) simp
  qed (simp add: triple_def)
  have body: "triple (\<lambda>s. ?c v \<and> counted s = k)
      (case v of None \<Rightarrow> eret None
       | Some v' \<Rightarrow> ebind (elift (require_directive v' ''control'')) (\<lambda>d.
           ebind (emod (\<lambda>s. s\<lparr>last_directive := Some d\<rparr>)) (\<lambda>_.
           ebind (cont_observe h ''control'' cx (Some d)) (\<lambda>_.
           ebind (settle h d cx False) (\<lambda>stop. eret (Some stop)))))) ?Q any_end" for v cx
  proof (cases v)
    case (Some v')
    have chk: "triple (\<lambda>s. ?c (Some v') \<and> counted s = k) (elift (require_directive v' ''control''))
        (\<lambda>d s. ld_counted d \<and> counted s = k) any_end"
      by (rule triple_elift) (auto simp: require_directive_def split: dyn.splits)
    show ?thesis unfolding Some option.case by (rule triple_ebind [OF chk use])
  qed (simp add: triple_eret)
  show ?thesis unfolding cont_control_def Some option.case
    by (rule triple_ebind [OF triple_eget [where Q = "\<lambda>_ s. counted s = k"] triple_ebind [OF call body]]) simp
qed

lemma cont_iteration_counts:
  assumes "counts h"
  shows "triple (\<lambda>s. counted s = k) (cont_iteration h) (\<lambda>_ s. counted s = Suc k) any_end"
  unfolding cont_iteration_def
proof (rule triple_ebind [OF control_counts [OF assms]])
  fix c :: "bool option"
  let ?P = "\<lambda>s. counted s = k"
  have rot: "triple ?P (rotate_at_limit h) (\<lambda>_. ?P) any_end"
    unfolding rotate_at_limit_def
    by (intro count_triple keeps_ebind keeps_ewhen keeps_pure keeps_count_rotate keeps_emod) simp
  have fin: "triple (\<lambda>s. ld_counted (fst v) \<and> counted s = k)
      (case v of (d, fe) \<Rightarrow> ebind (emod (\<lambda>s. s\<lparr>last_directive := Some d\<rparr>)) (\<lambda>_. settle h d cx fe))
      (\<lambda>_ s. counted s = Suc k) any_end" for v :: "loop_directive \<times> bool" and cx
  proof (cases "ld_counted (fst v)")
    case True
    show ?thesis unfolding split_beta
      by (rule triple_ebind [OF triple_emod settle_counts [OF True]]) simp
  qed (simp add: triple_def)
  have st: "triple ?P (take_step h cx) (\<lambda>v s. ld_counted (fst v) \<and> counted s = k) any_end" for cx
    using take_step_counts [OF assms] by (rule triple_conseq) (auto simp: split_beta)
  have adv: "triple ?P (emod (\<lambda>s. s\<lparr>sequence := sequence s + 1, attempts := attempts s + 1\<rparr>))
      (\<lambda>_. ?P) any_end" by (rule triple_emod) simp
  have see: "triple ?P (eget context_of) (\<lambda>_. ?P) any_end" by (rule triple_eget)
  have go: "triple ?P (ebind (rotate_at_limit h) (\<lambda>_.
         ebind (emod (\<lambda>s. s\<lparr>sequence := sequence s + 1, attempts := attempts s + 1\<rparr>)) (\<lambda>_.
         ebind (eget context_of) (\<lambda>cx. ebind (take_step h cx) (\<lambda>(d, fe).
         ebind (emod (\<lambda>s. s\<lparr>last_directive := Some d\<rparr>)) (\<lambda>_. settle h d cx fe))))))
      (\<lambda>_ s. counted s = Suc k) any_end"
    by (rule triple_ebind [OF rot triple_ebind [OF adv triple_ebind [OF see triple_ebind [OF st fin]]]])
  show "triple (\<lambda>s. counted s = (if c = None then k else Suc k))
      (case c of Some stop \<Rightarrow> eret stop
       | None \<Rightarrow> ebind (rotate_at_limit h) (\<lambda>_.
         ebind (emod (\<lambda>s. s\<lparr>sequence := sequence s + 1, attempts := attempts s + 1\<rparr>)) (\<lambda>_.
         ebind (eget context_of) (\<lambda>cx. ebind (take_step h cx) (\<lambda>(d, fe).
         ebind (emod (\<lambda>s. s\<lparr>last_directive := Some d\<rparr>)) (\<lambda>_. settle h d cx fe))))))
      (\<lambda>_ s. counted s = Suc k) any_end"
    by (cases c) (simp_all add: go [simplified] triple_eret)
qed

text \<open>
  C33. A bounded continuous run ends when every directive the consumer returns is counted: no
  sequence of waits, rotations and mapped errors keeps it going.
\<close>

theorem cont_run_terminates:
  assumes "counts h" "startable (Some m) e"
  shows "\<exists>r s. cont_run h (Some m) e = Some (r, s)"
proof -
  have "\<exists>q. iterate (cont_turn h (Some m)) (cont_init e) = Some q"
  proof (rule iterate_terminates [where I = "\<lambda>_. True" and \<mu> = "\<lambda>s. nat (m - int (counted s))"])
    fix s s' assume "cont_turn h (Some m) s = Inl s'"
    then obtain s1 where s1: "s1 = s\<lparr>cenv := others (ctiming h) (cenv s)\<rparr>"
      "below_count (Some m) (counted s1)" "cont_iteration h s1 = (Inr False, s')"
      by (auto elim: cont_turn_Inl)
    with triple_Inr [OF cont_iteration_counts [OF assms(1)] _ s1(3)]
    show "True \<and> nat (m - int (counted s')) < nat (m - int (counted s))"
      by (auto simp: below_count_def)
  qed simp
  then show ?thesis using assms(2)
    by (auto simp: cont_run_def startable_def)
qed

section \<open>Mapped errors\<close>

text \<open>
  A consumer whose \<^verbatim>\<open>on_error\<close> maps everything, whose telemetry raises only \<^verbatim>\<open>Exception\<close>s, and
  that has no other callback besides the step.
\<close>

definition maps_errors :: "'u cont_host \<Rightarrow> bool" where
  "maps_errors h \<longleftrightarrow> control h = None \<and> rotate h = None \<and> sleeper (ctiming h) = TimeSleep \<and>
     (\<exists>f. on_error h = Some f \<and> (\<forall>x cx e. \<exists>d e'. f x cx e = (Inr (Typed d), e'))) \<and>
     (\<forall>f ev cx d e x e'. observe h = Some f \<longrightarrow> f ev cx d e = (Inl x, e') \<longrightarrow> instance_of x Exception)"

lemma quietly_ccall:
  assumes "\<And>e x e'. m e \<noteq> (Inl x, e')"
  shows "quietly (ccall ev m)"
  by (rule quietlyI) (use assms in \<open>auto dest!: ccall_run\<close>)

lemma quietly_observe:
  assumes "maps_errors h"
  shows "quietly (cont_observe h ev cx d)"
proof (cases "observe h")
  case (Some f)
  have ex: "f ev cx d e = (Inl x, e') \<Longrightarrow> instance_of x Exception" for e x e'
    using assms Some unfolding maps_errors_def by blast
  have "ccall (EvObserve ev cx d) (f ev cx d) s = (Inl x, s') \<Longrightarrow> instance_of x Exception" for s x s'
    by (auto dest!: ccall_run dest: ex)
  then show ?thesis unfolding cont_observe_def Some option.case
    by (intro quietly_etry_all quietly_pure) auto
qed (simp add: cont_observe_def quietly_pure)

lemma quietly_settle:
  assumes m: "maps_errors h"
  shows "quietly (settle h d cx fe)"
proof -
  have wt: "quietly (cont_wait h w)" for w
    unfolding cont_wait_def using m
    by (intro quietly_ccall) (simp add: maps_errors_def host_wait_def emod_def)
  have rt: "quietly (cont_rotate h cx why)" for why
    unfolding cont_rotate_def using m
    by (intro quietly_ebind quietly_ccall quietly_observe [OF m]) (simp add: maps_errors_def eret_def)
  show ?thesis unfolding settle_def cont_apply_def Let_def split_beta
    by (auto intro!: quietly_ebind quietly_pure quietly_ewhen wt rt)
qed

lemma quietly_take_step:
  assumes m: "maps_errors h"
  shows "quietly (take_step h cx)"
proof -
  obtain f where f: "on_error h = Some f" "\<And>x cx e. \<exists>d e'. f x cx e = (Inr (Typed d), e')"
    using m unfolding maps_errors_def by blast
  have hnd: "ebind (ccall (EvError x cx) (f x cx)) (\<lambda>v. ebind (elift (require_directive v ''on_error'')) k) s
      \<noteq> (Inl y, s')" if "\<And>d. quietly (k d)" for x k y s and s' :: "'a cstate"
  proof -
    from f(2) [of x cx "cenv s"] obtain d e' where "f x cx (cenv s) = (Inr (Typed d), e')" by blast
    then show ?thesis using quietly_run [OF that]
      by (simp add: ebind_def ccall_def in_cenv_def zoom_def elift_def require_directive_def)
  qed
  show ?thesis unfolding take_step_def f option.case
    by (intro quietly_etry_all quietlyI hnd quietly_ebind quietly_pure quietly_observe [OF m]) simp
qed

lemma quietly_iteration:
  assumes m: "maps_errors h"
  shows "quietly (cont_iteration h)"
proof -
  have c: "cont_control h = eret None" using m by (simp add: cont_control_def maps_errors_def)
  have rt: "quietly (cont_rotate h cx why)" for cx why
    unfolding cont_rotate_def using m
    by (intro quietly_ebind quietly_ccall quietly_observe [OF m]) (simp add: maps_errors_def eret_def)
  show ?thesis unfolding cont_iteration_def c ebind_eret option.case rotate_at_limit_def split_beta
    by (intro quietly_ebind quietly_ewhen quietly_pure rt quietly_take_step [OF m] quietly_settle [OF m])
qed


section \<open>A small consumer for the witnesses\<close>

text \<open>Every third step is interrupted, errors are mapped to waits, boundaries hold two attempts.\<close>

definition demo_cont :: "nat cont_host" where
  "demo_cont = \<lparr>
     step = (\<lambda>cx. if lx_sequence cx mod 3 = 0 then eraise (Exc KeyboardInterrupt '''')
        else ebind (emod (\<lambda>e. e\<lparr>user := user e + 1\<rparr>)) (\<lambda>_. eret (Typed
          \<lparr>ld_action = LoopContinue, ld_boundary = Keep, ld_delay = None, ld_counted = True, ld_reason = ''''\<rparr>))),
     control = None, rotate = None,
     on_error = Some (\<lambda>x cx. eret (Typed
        \<lparr>ld_action = LoopWait, ld_boundary = Keep, ld_delay = Some 1, ld_counted = True, ld_reason = ''''\<rparr>)),
     observe = Some (\<lambda>ev cx d. eraise (Exc ValueError ''telemetry'')),
     ctiming = \<lparr>sleeper = TimeSleep, event_wait = (\<lambda>_ e. e), others = (\<lambda>e. e)\<rparr>,
     rotation_attempts = Some 2\<rparr>"

definition demo_cenv :: "nat env" where
  "demo_cenv = \<lparr>stop_flag = False, run_locked = False, user = 0\<rparr>"

lemma demo_cont_run: "map_option (\<lambda>(r, s). (case r of Inl _ \<Rightarrow> 0 | Inr w \<Rightarrow> lr_sequence w, counted s, attempts s, user (cenv s)))
    (cont_run demo_cont (Some 5) demo_cenv) = Some (5, 5, 1, 4)"
  by code_simp

lemma demo_cont_ok: "make_cont_host demo_cont = Inr demo_cont" "startable (Some 5) demo_cenv"
  by (simp_all add: make_cont_host_def demo_cont_def startable_def demo_cenv_def)

lemma demo_cont_started: "\<exists>w s. cont_run demo_cont (Some 5) demo_cenv = Some (Inr w, s) \<and>
    lr_sequence w = 5 \<and> counted s = 5"
proof -
  from demo_cont_run obtain r s where run: "cont_run demo_cont (Some 5) demo_cenv = Some (r, s)"
    and s: "(case r of Inl _ \<Rightarrow> 0 | Inr w \<Rightarrow> lr_sequence w) = 5" "counted s = 5" by auto
  from s(1) obtain w where "r = Inr w" "lr_sequence w = 5" by (cases r) auto
  with run s show ?thesis by blast
qed

theorem cont_run_numbered_witness:
  "\<exists>w s. cont_run demo_cont (Some 5) demo_cenv = Some (Inr w, s) \<and> steps_numbered (trace s) \<and>
     limit_kept (Some 2) (trace s) \<and> n_steps (trace s) = 5"
proof -
  from demo_cont_started obtain w s where run: "cont_run demo_cont (Some 5) demo_cenv = Some (Inr w, s)"
    and s: "lr_sequence w = 5" by blast
  have "rotation_attempts demo_cont = Some 2" by (simp add: demo_cont_def)
  with cont_run_numbered [OF demo_cont_ok run] s run show ?thesis by auto
qed

theorem cont_run_counted_witness:
  "\<exists>r s. cont_run demo_cont (Some 5) demo_cenv = Some (r, s) \<and> length (filter ld_counted (applied s)) = 5"
proof -
  from demo_cont_started obtain w s where run: "cont_run demo_cont (Some 5) demo_cenv = Some (Inr w, s)"
    and s: "counted s = 5" by blast
  with cont_run_counted [OF demo_cont_ok run] show ?thesis by auto
qed

theorem cont_run_releases_witness:
  "\<exists>r s. cont_run demo_cont (Some 5) demo_cenv = Some (r, s) \<and> \<not> run_locked (cenv s)"
proof -
  from demo_cont_started obtain w s where run: "cont_run demo_cont (Some 5) demo_cenv = Some (Inr w, s)" by blast
  with cont_run_releases [OF demo_cont_ok(2) run] show ?thesis by blast
qed

lemma demo_cont_counts: "counts demo_cont" "maps_errors demo_cont"
  by (auto simp: counts_def maps_errors_def demo_cont_def returns_counted_def eff_defs subclass_of_def
      split: if_splits)

theorem cont_run_terminates_witness: "\<exists>r s. cont_run demo_cont (Some 5) demo_cenv = Some (r, s)"
  by (rule cont_run_terminates [OF demo_cont_counts(1) demo_cont_ok(2)])


end
