(* ===== verification/FleetWorld.thy ===== *)
theory FleetWorld
  imports PyValues
begin

text \<open>
  What the fleet modules read and write: one directory per unit with its \<^verbatim>\<open>state.json\<close>,
  \<^verbatim>\<open>pid.json\<close> and clearance audit, the supervisor lock file, the process handles of this
  supervisor, and the history of launches and signals. Files hold whole documents here: that
  \<^verbatim>\<open>write_json_atomic\<close> leaves the old document or the new one is proved in \<open>AtomicFile\<close>, and the
  outcomes of \<open>writes\<close> are exactly those it allows.
\<close>

section \<open>Files\<close>

datatype doc = Json json | NotJson | NotUtf8

text \<open>
  A directory entry: absent, a readable file, an entry \<^verbatim>\<open>lstat\<close> sees but \<^verbatim>\<open>open\<close> refuses (with
  whether it is a regular file), or one \<^verbatim>\<open>lstat\<close> itself refuses.
\<close>

datatype io_class = Denied | NotDir | IsDir | IOFailure

fun io_exc :: "io_class \<Rightarrow> exc" where
  "io_exc Denied = Exc PermissionError ''Permission denied''"
| "io_exc NotDir = Exc NotADirectoryError ''Not a directory''"
| "io_exc IsDir = Exc IsADirectoryError ''Is a directory''"
| "io_exc IOFailure = Exc OSError ''Input/output error''"

datatype entry = Missing | File doc | Unreadable io_class bool | Hidden io_class

fun lstat :: "entry \<Rightarrow> exc + bool" where
  "lstat Missing = Inl (Exc FileNotFoundError ''No such file or directory'')"
| "lstat (File d) = Inr True"
| "lstat (Unreadable c regular) = Inr regular"
| "lstat (Hidden c) = Inl (io_exc c)"

fun read_text :: "entry \<Rightarrow> exc + doc" where
  "read_text Missing = Inl (Exc FileNotFoundError ''No such file or directory'')"
| "read_text (File NotUtf8) = Inl (Exc UnicodeDecodeError ''invalid start byte'')"
| "read_text (File d) = Inr d"
| "read_text (Unreadable c regular) = Inl (io_exc c)"
| "read_text (Hidden c) = Inl (io_exc c)"

definition read_json :: "entry \<Rightarrow> exc + (string, json) dict option" where
  "read_json e = (case read_text e of
     Inl x \<Rightarrow> if caught_by x [FileNotFoundError, PermissionError, IsADirectoryError]
               then Inr None else Inl x
   | Inr (Json (JObj d)) \<Rightarrow> Inr (Some d)
   | Inr _ \<Rightarrow> Inr None)"

text \<open>
  \<^verbatim>\<open>_read_pid\<close>: unlike \<^verbatim>\<open>read_json\<close> it does not catch \<^verbatim>\<open>IsADirectoryError\<close>, and it returns a
  document of any type.
\<close>

definition read_pid :: "entry \<Rightarrow> exc + json option" where
  "read_pid e = (case read_text e of
     Inl x \<Rightarrow> if caught_by x [FileNotFoundError, PermissionError] then Inr None else Inl x
   | Inr (Json j) \<Rightarrow> Inr (Some j)
   | Inr _ \<Rightarrow> Inr None)"

datatype dir_kind = NoDir | RealDir | OtherDir

record unit_dir =
  dir_kind :: dir_kind
  state_entry :: entry
  pid_entry :: entry
  audit :: "json list"

text \<open>How a \<^verbatim>\<open>write_json_atomic\<close> ends.\<close>

datatype outcome = WriteOk | FailOld | FailNew

record handle =
  h_pid :: int
  h_running :: bool

record launch =
  l_unit :: string
  l_token :: string
  l_env :: "(string, string) dict"

text \<open>What \<^verbatim>\<open>os.kill(pid, 0)\<close> does, and \<^verbatim>\<open>ps -o stat=\<close> for a pid: its exit code and output.\<close>

datatype kill_result = Delivered | NoSuchProcess | NotPermitted | KillFailed

datatype ps_result = PsFailed | PsDone int string

record world =
  unit_dirs :: "string \<Rightarrow> unit_dir"
  writes :: "outcome list"
  handles :: "(string, handle) dict"
  launches :: "launch list"
  signals :: "int list"
  lock_entry :: entry
  my_pid :: int
  my_host :: string
  probes :: "int \<Rightarrow> kill_result \<times> ps_result"
  clock :: rat

type_synonym 'a weff = "(world, 'a) eff"

definition write_failed :: exc where
  "write_failed = Exc OSError ''Input/output error''"

definition put_dir :: "string \<Rightarrow> (unit_dir \<Rightarrow> unit_dir) \<Rightarrow> world \<Rightarrow> world" where
  "put_dir u f w = w\<lparr>unit_dirs := (unit_dirs w)(u := f (unit_dirs w u))\<rparr>"

text \<open>A durable step of a file system takes effect, or fails before or after it took effect.\<close>

definition durable_step :: "(world \<Rightarrow> world) \<Rightarrow> unit weff" where
  "durable_step f w = (let w1 = w\<lparr>writes := tl (writes w)\<rparr> in
     case (case writes w of [] \<Rightarrow> WriteOk | x # _ \<Rightarrow> x) of
       WriteOk \<Rightarrow> (Inr (), f w1) | FailOld \<Rightarrow> (Inl write_failed, w1) | FailNew \<Rightarrow> (Inl write_failed, f w1))"

text \<open>\<open>write_doc upd d\<close>: replace an entry, chosen by \<open>upd\<close>, by the document \<open>d\<close>.\<close>

definition write_doc :: "(entry \<Rightarrow> world \<Rightarrow> world) \<Rightarrow> json \<Rightarrow> unit weff" where
  "write_doc upd d = durable_step (upd (File (Json d)))"

definition write_state :: "string \<Rightarrow> json \<Rightarrow> unit weff" where
  "write_state u = write_doc (\<lambda>e. put_dir u (\<lambda>ud. ud\<lparr>state_entry := e\<rparr>))"

definition write_pid :: "string \<Rightarrow> json \<Rightarrow> unit weff" where
  "write_pid u = write_doc (\<lambda>e. put_dir u (\<lambda>ud. ud\<lparr>pid_entry := e\<rparr>))"

text \<open>\<^verbatim>\<open>unlink\<close>: it removes a name it may not read, and refuses a directory.\<close>

fun unlink_result :: "entry \<Rightarrow> exc + unit" where
  "unlink_result Missing = Inl (Exc FileNotFoundError ''No such file or directory'')"
| "unlink_result (File d) = Inr ()"
| "unlink_result (Unreadable c regular) = (if c = IsDir then Inl (io_exc c) else Inr ())"
| "unlink_result (Hidden c) = Inl (io_exc c)"

text \<open>\<open>v == i\<close> for an integer \<open>i\<close>: Python compares numbers across their types.\<close>

fun py_eq_int :: "json \<Rightarrow> int \<Rightarrow> bool" where
  "py_eq_int (JInt j) i = (j = i)"
| "py_eq_int (JBool b) i = (of_bool b = i)"
| "py_eq_int (JFloat q) i = (q = of_int i)"
| "py_eq_int _ i = False"

lemma io_exc_os: "instance_of (io_exc c) OSError" "\<not> instance_of (io_exc c) FileNotFoundError"
  by (cases c; simp add: subclass_of_def)+

lemma lstat_not_found: "lstat e = Inl x \<Longrightarrow> instance_of x FileNotFoundError \<longleftrightarrow> e = Missing"
  by (cases e) (auto simp: io_exc_os)

lemma lstat_error: "lstat e = Inl x \<Longrightarrow> instance_of x OSError"
  by (cases e) (auto simp: io_exc_os subclass_of_def)

section \<open>Unit ids and directories\<close>

text \<open>\<^verbatim>\<open>_validate_unit\<close> on strings: one path component\<close>

definition unit_ok :: "string \<Rightarrow> bool" where
  "unit_ok u \<longleftrightarrow> u \<noteq> [] \<and> u \<noteq> ''.'' \<and> u \<noteq> ''..'' \<and> CHR ''/'' \<notin> set u \<and> CHR 0x00 \<notin> set u"

definition validate_unit :: "string \<Rightarrow> exc + string" where
  "validate_unit u = (if unit_ok u then Inr u
     else Inl (Exc ValueError (''unit must be one safe path component, got '' @ repr_str u)))"

definition tombstone_error :: "string \<Rightarrow> exc" where
  "tombstone_error msg = Exc ProcessTombstoneError msg"

text \<open>\<^verbatim>\<open>_ensure_unit_dir\<close>: \<^verbatim>\<open>mkdir\<close> refuses a non-directory, the check refuses a symbolic link.\<close>

definition ensure_unit_dir :: "string \<Rightarrow> unit weff" where
  "ensure_unit_dir u = ebind (eget (\<lambda>w. dir_kind (unit_dirs w u))) (\<lambda>k. case k of
     NoDir \<Rightarrow> emod (put_dir u (\<lambda>ud. ud\<lparr>dir_kind := RealDir\<rparr>))
   | RealDir \<Rightarrow> eret ()
   | OtherDir \<Rightarrow> eraise (tombstone_error ''unit directory must be a real directory''))"

definition tomb :: "string \<Rightarrow> world \<Rightarrow> bool" where
  "tomb u w \<longleftrightarrow> pid_entry (unit_dirs w u) \<noteq> Missing"

definition n_launches :: "string \<Rightarrow> world \<Rightarrow> nat" where
  "n_launches u w = length (filter (\<lambda>l. l_unit l = u) (launches w))"

lemma put_dir_simps [simp]:
  "unit_dirs (put_dir u f w) u = f (unit_dirs w u)"
  "u \<noteq> v \<Longrightarrow> unit_dirs (put_dir u f w) v = unit_dirs w v"
  "launches (put_dir u f w) = launches w" "handles (put_dir u f w) = handles w"
  "signals (put_dir u f w) = signals w" "lock_entry (put_dir u f w) = lock_entry w"
  "my_pid (put_dir u f w) = my_pid w" "my_host (put_dir u f w) = my_host w"
  "probes (put_dir u f w) = probes w" "writes (put_dir u f w) = writes w" "clock (put_dir u f w) = clock w"
  by (simp_all add: put_dir_def)

lemma read_json_simps [simp]:
  "read_json Missing = Inr None" "read_json (File (Json (JObj d))) = Inr (Some d)"
  "read_json (File NotJson) = Inr None"
  by (simp_all add: read_json_def subclass_of_def)

text \<open>\<^verbatim>\<open>read_json\<close> promises \<^verbatim>\<open>None\<close> for a corrupt file; bytes that are not UTF-8 make it raise.\<close>

lemma read_json_not_utf8: "read_json (File NotUtf8) = Inl (Exc UnicodeDecodeError ''invalid start byte'')"
  by (simp add: read_json_def subclass_of_def)

text \<open>How a durable step ends.\<close>

lemma durable_step_cases:
  assumes "durable_step f w = (r, w')"
  obtains (ok) "r = Inr ()" "w' = f (w\<lparr>writes := tl (writes w)\<rparr>)"
  | (failed) "r = Inl write_failed" "w' = f (w\<lparr>writes := tl (writes w)\<rparr>) \<or> w' = w\<lparr>writes := tl (writes w)\<rparr>"
  using assms by (auto simp: durable_step_def Let_def split: list.splits outcome.splits)

lemma triple_durable_step:
  assumes "\<And>w. P w \<Longrightarrow> Q () (f (w\<lparr>writes := tl (writes w)\<rparr>))"
    and "\<And>w. P w \<Longrightarrow> E write_failed (f (w\<lparr>writes := tl (writes w)\<rparr>)) \<and> E write_failed (w\<lparr>writes := tl (writes w)\<rparr>)"
  shows "triple P (durable_step f) Q E"
  unfolding triple_def using assms by (auto elim!: durable_step_cases)

lemma keeps_durable_step:
  assumes "\<And>w. I w \<Longrightarrow> I (f (w\<lparr>writes := tl (writes w)\<rparr>)) \<and> I (w\<lparr>writes := tl (writes w)\<rparr>)"
  shows "keeps I (durable_step f)"
  by (rule keeps_runI) (use assms in \<open>auto elim!: durable_step_cases\<close>)

end
