(* ===== verification/Process.thy ===== *)
theory Process
  imports FleetWorld
begin

text \<open>
  \<^verbatim>\<open>fleet/process.py\<close> as one supervisor runs it: the launch of a worker behind its durable
  \<^verbatim>\<open>pid.json\<close>, the cooperative stop, the liveness probe and the operator's clearance. What the
  operating system and the child answer during a launch is the record \<open>answers\<close>.
\<close>

section \<open>Data\<close>

record process_spec =
  sp_unit :: string
  sp_command :: "string list"
  sp_env :: "(string, string) dict option"
  sp_label :: string
  sp_env_overlay :: "(string, string) dict"
  sp_generation_env :: "string option"
  sp_pid_metadata :: "(string, json) dict"
  sp_startup_timeout :: "rat option"
  sp_streams :: nat

record spawn_result =
  sr_pid :: int
  sr_started_at :: rat
  sr_alive :: bool
  sr_token :: "string option"
  sr_generation :: "int option"

record stop_result =
  st_pid :: int
  st_signalled :: bool
  st_killed :: bool
  st_cleaned :: bool

record liveness_result =
  lv_pid :: int
  lv_state :: string

text \<open>\<^verbatim>\<open>_validate_startup_timeout\<close>, with \<open>None\<close> for a value that is not finite\<close>

definition validate_startup_timeout :: "rat option \<Rightarrow> exc + unit" where
  "validate_startup_timeout t = (case t of
     Some v \<Rightarrow> if v \<le> 0 then Inl (Exc ValueError ''startup_timeout must be positive and finite'') else Inr ()
   | None \<Rightarrow> Inl (Exc ValueError ''startup_timeout must be positive and finite''))"

text \<open>\<^verbatim>\<open>ProcessSpec.__post_init__\<close>\<close>

definition make_spec :: "process_spec \<Rightarrow> exc + process_spec" where
  "make_spec sp = (case validate_unit (sp_unit sp) of
     Inl x \<Rightarrow> Inl x
   | Inr _ \<Rightarrow> (case validate_startup_timeout (sp_startup_timeout sp) of Inl x \<Rightarrow> Inl x | Inr _ \<Rightarrow> Inr sp))"

section \<open>The provenance record\<close>

definition standard_pid_keys :: "string list" where
  "standard_pid_keys = [''command'', ''label'', ''pid'', ''started_at'']"

definition pid_payload :: "process_spec \<Rightarrow> int \<Rightarrow> rat \<Rightarrow> exc + (string, json) dict" where
  "pid_payload sp pid started =
     (let collisions = filter (\<lambda>k. k \<in> set (dict_keys (sp_pid_metadata sp))) standard_pid_keys in
      if collisions \<noteq> [] then
        Inl (Exc ValueError (''pid_metadata may not replace standard fields: '' @ join '', '' collisions))
      else Inr (dict_update [(''pid'', JInt pid), (''command'', JList (List.map JStr (sp_command sp))),
          (''started_at'', JFloat started), (''label'', JStr (sp_label sp))] (sp_pid_metadata sp)))"

definition opt_int :: "int option \<Rightarrow> json" where
  "opt_int g = (case g of None \<Rightarrow> JNull | Some i \<Rightarrow> JInt i)"

definition provenance ::
  "(string, json) dict \<Rightarrow> json \<Rightarrow> json \<Rightarrow> string \<Rightarrow> int option \<Rightarrow> string \<Rightarrow> string \<Rightarrow> json" where
  "provenance template pid started u gen tok status = JObj (dict_update template
     [(''pid'', pid), (''started_at'', started), (''unit'', JStr u), (''generation'', opt_int gen),
      (''token'', JStr tok), (''incarnation'', JStr tok), (''status'', JStr status)])"

section \<open>Launching\<close>

text \<open>
  What a launch meets: the opening of the log streams, \<^verbatim>\<open>Popen\<close>, the first bytes of the child,
  the sending of the ACK, and the answers of \<^verbatim>\<open>proc.poll()\<close> during the probe window.
\<close>

record answers =
  a_token :: string
  a_streams :: "exc + unit"
  a_popen :: "exc + int"
  a_started :: rat
  a_ready :: "exc + string"
  a_ack :: "exc + unit"
  a_exited :: "bool list"

definition ready_line :: string where
  "ready_line = ''READY'' @ [CHR 0x0A]"

definition child_env ::
  "(string, string) dict \<Rightarrow> process_spec \<Rightarrow> int option \<Rightarrow> (string, string) dict" where
  "child_env environ sp gen =
     (let base = (case sp_env sp of None \<Rightarrow> environ | Some e \<Rightarrow> e);
          e1 = dict_update base (sp_env_overlay sp)
      in case (gen, sp_generation_env sp) of
           (Some g, Some k) \<Rightarrow> AList.update k (int_str g) e1
         | _ \<Rightarrow> e1)"

definition gate_env :: "(json \<Rightarrow> string) \<Rightarrow> string \<Rightarrow> string list \<Rightarrow> (string, string) dict \<Rightarrow> (string, string) dict" where
  "gate_env dumps fd command e =
     AList.update ''DATASOURCE_KIT_EXEC_COMMAND'' (dumps (JList (List.map JStr command)))
       (AList.update ''DATASOURCE_KIT_ACK_FD'' fd e)"

text \<open>
  \<^verbatim>\<open>spawn_process\<close> after \<^verbatim>\<open>Popen\<close>: the handshake, with the \<^verbatim>\<open>_persist\<close> hook of \<^verbatim>\<open>spawn\<close>; \<open>None\<close>
  when the child did not announce itself.
\<close>

definition handshake ::
  "answers \<Rightarrow> int \<Rightarrow> (int \<Rightarrow> rat \<Rightarrow> string \<Rightarrow> unit weff) option \<Rightarrow> bool weff" where
  "handshake a pid persist =
     ebind (elift (a_ready a)) (\<lambda>bytes.
     if bytes \<noteq> ready_line then eret False
     else ebind (case persist of
         None \<Rightarrow> eret ()
       | Some f \<Rightarrow> ebind (f pid (a_started a) (a_token a)) (\<lambda>_.
           emod (\<lambda>w. w\<lparr>handles := AList.update (a_token a) \<lparr>h_pid = pid, h_running = True\<rparr> (handles w)\<rparr>)))
       (\<lambda>_. ebind (elift (a_ack a)) (\<lambda>_. eret True)))"

definition probe_window :: "answers \<Rightarrow> bool \<Rightarrow> bool weff" where
  "probe_window a owned =
     (if True \<in> set (a_exited a)
      then ebind (ewhen owned (emod (\<lambda>w. w\<lparr>handles := AList.delete (a_token a) (handles w)\<rparr>)))
             (\<lambda>_. eret False)
      else eret True)"

definition spawn_process ::
  "answers \<Rightarrow> string \<Rightarrow> (string, string) dict \<Rightarrow> rat option \<Rightarrow>
   (int \<Rightarrow> rat \<Rightarrow> string \<Rightarrow> unit weff) option \<Rightarrow> int option \<Rightarrow> spawn_result weff" where
  "spawn_process a u env timeout persist gen =
     ebind (elift (validate_startup_timeout timeout)) (\<lambda>_.
     ebind (elift (a_popen a)) (\<lambda>pid.
     ebind (emod (\<lambda>w. w\<lparr>launches := \<lparr>l_unit = u, l_token = a_token a, l_env = env\<rparr> # launches w\<rparr>)) (\<lambda>_.
     ebind (handshake a pid persist) (\<lambda>ready.
     if \<not> ready then eret \<lparr>sr_pid = pid, sr_started_at = a_started a, sr_alive = False,
        sr_token = None, sr_generation = None\<rparr>
     else ebind (probe_window a (persist \<noteq> None)) (\<lambda>up.
       eret \<lparr>sr_pid = pid, sr_started_at = a_started a, sr_alive = up,
          sr_token = Some (a_token a), sr_generation = gen\<rparr>)))))"

text \<open>The fence: presence of \<^verbatim>\<open>pid.json\<close>, of whatever kind, forbids a launch.\<close>

definition launch_fence :: "string \<Rightarrow> unit weff" where
  "launch_fence u =
     ebind (eget (\<lambda>w. lstat (pid_entry (unit_dirs w u)))) (\<lambda>r. case r of
       Inr _ \<Rightarrow> eraise (tombstone_error ''process tombstone exists; operator verification required'')
     | Inl x \<Rightarrow> if instance_of x FileNotFoundError then eret ()
         else if instance_of x OSError then
           eraise (tombstone_error ''pid metadata unreadable; operator verification required'')
         else eraise x)"

definition create_pid_file :: "string \<Rightarrow> unit weff" where
  "create_pid_file u = durable_step (put_dir u (\<lambda>ud. ud\<lparr>pid_entry := File NotJson\<rparr>))"

definition spawn ::
  "answers \<Rightarrow> (string, string) dict \<Rightarrow> (json \<Rightarrow> string) \<Rightarrow> string \<Rightarrow> process_spec \<Rightarrow> string \<Rightarrow> int option \<Rightarrow>
   spawn_result weff" where
  "spawn a environ dumps fd sp u gen =
     ebind (ensure_unit_dir u) (\<lambda>_.
     ebind (launch_fence u) (\<lambda>_.
     ebind (elift (pid_payload sp 0 0)) (\<lambda>template.
     ebind (create_pid_file u) (\<lambda>_.
     ebind (write_pid u (provenance template JNull JNull (sp_unit sp) gen (a_token a) ''launch_intent'')) (\<lambda>_.
     ebind (ewhen (0 < sp_streams sp) (elift (a_streams a))) (\<lambda>_.
     spawn_process a u (gate_env dumps fd (sp_command sp) (child_env environ sp gen)) (sp_startup_timeout sp)
       (Some (\<lambda>pid started tok. write_pid u
          (provenance template (JInt pid) (JFloat started) (sp_unit sp) gen tok ''running_or_unknown'')))
       gen))))))"

section \<open>Stopping, probing, clearing\<close>

text \<open>\<^verbatim>\<open>stop_process\<close>\<close>

definition stop_process :: "int \<Rightarrow> unit weff" where
  "stop_process pid = eraise (tombstone_error
     ''numeric PID signalling is disabled; operator verification required'')"

definition find_handle :: "json \<Rightarrow> world \<Rightarrow> (string \<times> handle) option" where
  "find_handle tok w = (case as_str tok of
     None \<Rightarrow> None | Some t \<Rightarrow> map_option (\<lambda>h. (t, h)) (map_of (handles w) t))"

definition stop :: "string \<Rightarrow> stop_result weff" where
  "stop u =
     ebind (eget (\<lambda>w. pid_entry (unit_dirs w u))) (\<lambda>e.
     ebind (elift (read_json e)) (\<lambda>data. case data of
       None \<Rightarrow> eraise (tombstone_error ''pid metadata absent or unreadable'')
     | Some d \<Rightarrow>
         ebind (eget (find_handle (dict_get d ''token'' JNull))) (\<lambda>found.
         ebind (case found of
             None \<Rightarrow> eret False
           | Some (t, h) \<Rightarrow>
               if py_eq_int (dict_get d ''pid'' JNull) (h_pid h) \<and> h_running h
               then ebind (emod (\<lambda>w. w\<lparr>signals := h_pid h # signals w\<rparr>)) (\<lambda>_. eret True)
               else ebind (emod (\<lambda>w. w\<lparr>handles := AList.delete t (handles w)\<rparr>)) (\<lambda>_. eret False)) (\<lambda>signalled.
         ebind (write_pid u (JObj (AList.update ''status'' (JStr ''stop_requested_or_unknown'')
             (AList.update ''operator_verification_required'' (JBool True)
               (AList.update ''stop_requested'' (JBool True) d))))) (\<lambda>_.
         ebind (elift (if truthy (dict_get d ''pid'' JNull) then py_int (dict_get d ''pid'' JNull) else Inr 0)) (\<lambda>pid.
         eret \<lparr>st_pid = pid, st_signalled = signalled, st_killed = False, st_cleaned = False\<rparr>))))))"

definition liveness :: "(world \<Rightarrow> int \<Rightarrow> bool) \<Rightarrow> string \<Rightarrow> liveness_result weff" where
  "liveness probe u =
     ebind (eget (\<lambda>w. pid_entry (unit_dirs w u))) (\<lambda>e.
     ebind (elift (read_pid e)) (\<lambda>data. case data of
       None \<Rightarrow> eraise (Exc FileNotFoundError (''no pid.json in '' @ u))
     | Some JNull \<Rightarrow> eraise (Exc FileNotFoundError (''no pid.json in '' @ u))
     | Some j \<Rightarrow> (case (case j of JObj d \<Rightarrow> (case map_of d ''pid'' of None \<Rightarrow> None
                         | Some v \<Rightarrow> (case py_int v of Inl _ \<Rightarrow> None | Inr p \<Rightarrow> Some p)) | _ \<Rightarrow> None) of
         None \<Rightarrow> eret \<lparr>lv_pid = 0, lv_state = ''stale''\<rparr>
       | Some p \<Rightarrow> ebind (eget (\<lambda>w. probe w p)) (\<lambda>up.
           eret \<lparr>lv_pid = p, lv_state = (if up then ''running'' else ''stale'')\<rparr>))))"

definition clearance_record :: "string \<Rightarrow> int \<Rightarrow> string \<Rightarrow> string \<Rightarrow> rat \<Rightarrow> json" where
  "clearance_record u gen tok operator time = JObj [(''unit'', JStr u), (''generation'', JInt gen),
     (''token'', JStr tok), (''operator'', JStr operator),
     (''asserted_workload_fully_gone'', JBool True), (''cleared_at'', JFloat time)]"

definition clear_process_tombstone :: "string \<Rightarrow> string \<Rightarrow> int \<Rightarrow> string \<Rightarrow> bool \<Rightarrow> string \<Rightarrow> unit weff" where
  "clear_process_tombstone dir u gen tok asserted operator =
     (if \<not> asserted then eraise (tombstone_error ''explicit workload-gone assertion is required'')
      else ebind (ensure_unit_dir dir) (\<lambda>_.
       ebind (eget (\<lambda>w. pid_entry (unit_dirs w dir))) (\<lambda>e. case lstat e of
         Inl x \<Rightarrow> if instance_of x OSError then eraise (tombstone_error ''tombstone absent or unreadable'') else eraise x
       | Inr regular \<Rightarrow>
           if \<not> regular then eraise (tombstone_error ''tombstone is not a regular file'')
           else ebind (elift (read_json e)) (\<lambda>data. case data of
             None \<Rightarrow> eraise (tombstone_error ''tombstone absent or unreadable'')
           | Some d \<Rightarrow>
               if \<not> (dict_get d ''unit'' JNull = JStr u \<and> py_eq_int (dict_get d ''generation'' JNull) gen \<and>
                      dict_get d ''token'' JNull = JStr tok)
               then eraise (tombstone_error ''unit/generation/token do not exactly match'')
               else ebind (eget clock) (\<lambda>time.
                 ebind (durable_step (put_dir dir (\<lambda>ud. ud\<lparr>audit := audit ud @ [clearance_record u gen tok operator time]\<rparr>))) (\<lambda>_.
                 ebind (durable_step (put_dir dir (\<lambda>ud. ud\<lparr>pid_entry := Missing\<rparr>))) (\<lambda>_.
                 emod (\<lambda>w. w\<lparr>handles := AList.delete tok (handles w)\<rparr>))))))))"

text \<open>\<^verbatim>\<open>_clean_pid\<close>, which no other code calls: true says that \<^verbatim>\<open>pid.json\<close> is not there any more.\<close>

definition clean_pid :: "string \<Rightarrow> bool weff" where
  "clean_pid u =
     ebind (eget (\<lambda>w. pid_entry (unit_dirs w u))) (\<lambda>e. case unlink_result e of
       Inl x \<Rightarrow> eret (instance_of x FileNotFoundError)
     | Inr _ \<Rightarrow> ebind (emod (put_dir u (\<lambda>ud. ud\<lparr>pid_entry := Missing\<rparr>))) (\<lambda>_. eret True))"

lemma clean_pid_removes:
  "clean_pid u w = (Inr b, w') \<Longrightarrow> b \<longleftrightarrow> pid_entry (unit_dirs w' u) = Missing"
  by (cases "pid_entry (unit_dirs w u)")
    (auto simp: clean_pid_def eff_defs put_dir_def io_exc_os subclass_of_def split: if_splits)

section \<open>The launch contract\<close>

text \<open>
  What every routine here but the clearance does to the launches of a unit: other units are left
  alone, a tombstone stays, and a launch happens only where there was none and leaves one.
\<close>

definition others_same :: "string \<Rightarrow> world \<Rightarrow> world \<Rightarrow> bool" where
  "others_same u w w' \<longleftrightarrow> (\<forall>v. v \<noteq> u \<longrightarrow> unit_dirs w' v = unit_dirs w v) \<and>
     audit (unit_dirs w' u) = audit (unit_dirs w u) \<and>
     lock_entry w' = lock_entry w \<and> my_pid w' = my_pid w \<and> my_host w' = my_host w \<and>
     probes w' = probes w \<and> clock w' = clock w"

definition launch_ok :: "string \<Rightarrow> world \<Rightarrow> world \<Rightarrow> bool" where
  "launch_ok u w w' \<longleftrightarrow> others_same u w w' \<and> (tomb u w \<longrightarrow> tomb u w') \<and>
     (launches w' = launches w \<or> \<not> tomb u w \<and> tomb u w' \<and>
        (\<exists>l. l_unit l = u \<and> launches w' = l # launches w))"

definition no_launch :: "string \<Rightarrow> world \<Rightarrow> world \<Rightarrow> bool" where
  "no_launch u w w' \<longleftrightarrow> others_same u w w' \<and> (tomb u w \<longrightarrow> tomb u w') \<and> launches w' = launches w"

lemma others_same_refl [simp]: "others_same u w w"
  by (simp add: others_same_def)

lemma no_launch_ok: "no_launch u w w' \<Longrightarrow> launch_ok u w w'"
  by (simp add: no_launch_def launch_ok_def)

lemma tomb_put_dir [simp]:
  "tomb u (put_dir u f w) = (pid_entry (f (unit_dirs w u)) \<noteq> Missing)"
  "u \<noteq> v \<Longrightarrow> tomb v (put_dir u f w) = tomb v w"
  by (simp_all add: tomb_def)

lemma keeps_no_launch_ensure: "keeps (no_launch u w0) (ensure_unit_dir u)"
  unfolding ensure_unit_dir_def
  by (auto intro!: keeps_ebind keeps_pure keeps_emod split: dir_kind.split
      simp: no_launch_def others_same_def tomb_def)

lemma keeps_no_launch_write: "keeps (no_launch u w0) (write_pid u d)"
  unfolding write_pid_def write_doc_def
  by (rule keeps_durable_step) (auto simp: no_launch_def others_same_def tomb_def)

lemma keeps_fence: "keeps I (launch_fence u)"
  unfolding launch_fence_def by (auto split: sum.split intro!: keeps_ebind keeps_pure)

text \<open>Phases of a launch: the fence is in place, then the child has been started.\<close>

definition fenced :: "string \<Rightarrow> world \<Rightarrow> world \<Rightarrow> bool" where
  "fenced u w w' \<longleftrightarrow> others_same u w w' \<and> \<not> tomb u w \<and> tomb u w' \<and> launches w' = launches w"

definition launched :: "string \<Rightarrow> world \<Rightarrow> world \<Rightarrow> bool" where
  "launched u w w' \<longleftrightarrow> others_same u w w' \<and> \<not> tomb u w \<and> tomb u w' \<and>
     (\<exists>l. l_unit l = u \<and> launches w' = l # launches w)"

lemma phases_ok: "fenced u w w' \<Longrightarrow> launch_ok u w w'" "launched u w w' \<Longrightarrow> launch_ok u w w'"
  by (auto simp: fenced_def launched_def launch_ok_def)

lemma keeps_phase_write:
  "keeps (fenced u w) (write_pid u d)" "keeps (launched u w) (write_pid u d)"
  unfolding write_pid_def write_doc_def
  by (rule keeps_durable_step, auto simp: fenced_def launched_def others_same_def tomb_def)+

lemma launched_handles: "launched u w (w'\<lparr>handles := hs\<rparr>) = launched u w w'"
  by (simp add: launched_def others_same_def tomb_def)

lemma keeps_handshake:
  assumes "\<And>pid started tok. keeps (launched u w) (f pid started tok)"
  shows "keeps (launched u w) (handshake a pid (Some f))"
  unfolding handshake_def option.case
  by (intro keeps_ebind keeps_if keeps_pure assms keeps_emod) (simp add: launched_handles)

lemma keeps_probe: "keeps (launched u w) (probe_window a owned)"
  unfolding probe_window_def
  by (intro keeps_if keeps_ebind keeps_ewhen keeps_pure keeps_emod) (simp add: launched_handles)

lemma spawn_process_launched:
  assumes "\<And>pid started tok. keeps (launched u w) (f pid started tok)"
  shows "triple (fenced u w) (spawn_process a u env t (Some f) gen)
    (\<lambda>_. launched u w) (\<lambda>_. launch_ok u w)"
proof -
  have el: "triple (fenced u w) (elift r) (\<lambda>_. fenced u w) (\<lambda>_. launch_ok u w)" for r :: "exc + 'b"
    by (rule triple_elift) (simp_all add: phases_ok)
  have el': "triple (fenced u w) (elift r) (\<lambda>_. fenced u w) (\<lambda>_. launch_ok u w)" for r :: "exc + int"
    by (rule triple_elift) (simp_all add: phases_ok)
  have pop: "triple (fenced u w) (emod (\<lambda>w. w\<lparr>launches := \<lparr>l_unit = u, l_token = tok, l_env = env\<rparr> # launches w\<rparr>))
      (\<lambda>_. launched u w) (\<lambda>_. launch_ok u w)" for tok
    by (rule triple_emod) (auto simp: fenced_def launched_def others_same_def tomb_def)
  have rest: "triple (launched u w) (ebind (handshake a pid (Some f)) (\<lambda>ready.
      if \<not> ready then eret \<lparr>sr_pid = pid, sr_started_at = a_started a, sr_alive = False,
         sr_token = None, sr_generation = None\<rparr>
      else ebind (probe_window a (Some f \<noteq> None)) (\<lambda>up. eret \<lparr>sr_pid = pid, sr_started_at = a_started a,
         sr_alive = up, sr_token = Some (a_token a), sr_generation = gen\<rparr>)))
      (\<lambda>_. launched u w) (\<lambda>_. launch_ok u w)" for pid
    by (rule keeps_triple_weaken)
      (auto intro!: keeps_ebind keeps_handshake assms keeps_probe keeps_pure simp: phases_ok)
  show ?thesis unfolding spawn_process_def
    by (rule triple_ebind [OF el triple_ebind [OF el' triple_ebind [OF pop rest]]])
qed

lemma fence_phase:
  "triple (no_launch u w) (launch_fence u) (\<lambda>_ w'. no_launch u w w' \<and> \<not> tomb u w') (\<lambda>_. launch_ok u w)"
  unfolding triple_def
proof (intro allI impI)
  fix v r v' assume I: "no_launch u w v" and run: "launch_fence u v = (r, v')"
  show "(\<forall>a. r = Inr a \<longrightarrow> no_launch u w v' \<and> \<not> tomb u v') \<and> (\<forall>x. r = Inl x \<longrightarrow> launch_ok u w v')"
  proof (cases "lstat (pid_entry (unit_dirs v u))")
    case (Inl x)
    with run I lstat_not_found [OF Inl] lstat_error [OF Inl] show ?thesis
      by (auto simp: launch_fence_def eff_defs tomb_def no_launch_ok split: if_splits)
  next
    case (Inr b)
    with run I show ?thesis by (auto simp: launch_fence_def eff_defs no_launch_ok)
  qed
qed

lemma create_phase:
  "triple (\<lambda>w'. no_launch u w w' \<and> \<not> tomb u w') (create_pid_file u) (\<lambda>_. fenced u w) (\<lambda>_. launch_ok u w)"
  unfolding create_pid_file_def
  by (rule triple_durable_step)
    (auto simp: no_launch_def fenced_def launch_ok_def others_same_def tomb_def)

lemma triple_phase:
  "keeps (fenced u w) m \<Longrightarrow> triple (fenced u w) m (\<lambda>_. fenced u w) (\<lambda>_. launch_ok u w)"
  by (erule keeps_triple_weaken) (auto intro: phases_ok)

text \<open>\<^verbatim>\<open>spawn\<close> meets the contract, whatever the system and the child answer.\<close>

lemma spawn_contract:
  "triple (\<lambda>w'. w' = w) (spawn a environ dumps fd sp u gen) (\<lambda>_. launched u w) (\<lambda>_. launch_ok u w)"
proof -
  have ens: "triple (\<lambda>w'. w' = w) (ensure_unit_dir u) (\<lambda>_. no_launch u w) (\<lambda>_. launch_ok u w)"
    by (rule triple_conseq [OF keeps_triple [OF keeps_no_launch_ensure [of u w]]])
      (auto simp: no_launch_ok no_launch_def)
  have tmpl: "triple (\<lambda>w'. no_launch u w w' \<and> \<not> tomb u w') (elift r)
      (\<lambda>_ w'. no_launch u w w' \<and> \<not> tomb u w') (\<lambda>_. launch_ok u w)" for r :: "exc + (string, json) dict"
    by (rule triple_elift) (auto simp: no_launch_ok)
  have intent: "triple (fenced u w) (write_pid u d) (\<lambda>_. fenced u w) (\<lambda>_. launch_ok u w)" for d
    by (intro triple_phase keeps_phase_write)
  have streams: "triple (fenced u w) (ewhen b (elift r)) (\<lambda>_. fenced u w) (\<lambda>_. launch_ok u w)"
    for b and r :: "exc + unit"
    by (intro triple_phase keeps_ewhen keeps_pure)
  show ?thesis unfolding spawn_def
    by (rule triple_ebind [OF ens triple_ebind [OF fence_phase triple_ebind [OF tmpl
          triple_ebind [OF create_phase triple_ebind [OF intent triple_ebind [OF streams
          spawn_process_launched]]]]]]) (rule keeps_phase_write)
qed

lemma stop_contract: "keeps (no_launch u w) (stop u)"
proof -
  have env: "no_launch u w (v\<lparr>signals := ss\<rparr>) = no_launch u w v"
    "no_launch u w (v\<lparr>handles := hs\<rparr>) = no_launch u w v" for v ss hs
    by (simp_all add: no_launch_def others_same_def tomb_def)
  show ?thesis unfolding stop_def
    by (auto split: option.split prod.split
        intro!: keeps_ebind keeps_pure keeps_if keeps_emod keeps_no_launch_write simp: env)
qed

lemma launch_ok_trans:
  assumes "launch_ok u a b" "launch_ok u b c"
  shows "launch_ok u a c"
  using assms unfolding launch_ok_def others_same_def by auto

section \<open>Properties\<close>

lemma ensure_cases:
  assumes "ensure_unit_dir u w = (r, w')"
  shows "pid_entry (unit_dirs w' u) = pid_entry (unit_dirs w u) \<and> launches w' = launches w \<and>
    (\<forall>x. r = Inl x \<longrightarrow> exc_cls x = ProcessTombstoneError)"
  using assms
  by (cases "dir_kind (unit_dirs w u)")
    (auto simp: ensure_unit_dir_def eff_defs tombstone_error_def)

text \<open>
  The fence: whatever kind of entry \<^verbatim>\<open>pid.json\<close> is, \<^verbatim>\<open>spawn\<close> in its directory raises
  \<^verbatim>\<open>ProcessTombstoneError\<close>, starts nothing and leaves the entry as it is.
\<close>

theorem spawn_fenced:
  assumes "tomb u w"
  shows "case spawn a environ dumps fd sp u gen w of (r, w') \<Rightarrow>
    (\<exists>x. r = Inl x \<and> exc_cls x = ProcessTombstoneError) \<and> launches w' = launches w \<and>
    pid_entry (unit_dirs w' u) = pid_entry (unit_dirs w u)"
proof -
  obtain r1 w1 where e: "ensure_unit_dir u w = (r1, w1)" by (cases "ensure_unit_dir u w")
  note E = ensure_cases [OF e]
  show ?thesis
  proof (cases r1)
    case (Inl x)
    with e E show ?thesis by (simp add: spawn_def ebind_def)
  next
    case (Inr v)
    from E assms have t: "pid_entry (unit_dirs w1 u) \<noteq> Missing" by (simp add: tomb_def)
    have "\<exists>x. launch_fence u w1 = (Inl x, w1) \<and> exc_cls x = ProcessTombstoneError"
    proof (cases "lstat (pid_entry (unit_dirs w1 u))")
      case (Inl x)
      with t lstat_not_found [OF Inl] lstat_error [OF Inl] show ?thesis
        by (auto simp: launch_fence_def eff_defs tombstone_error_def)
    next
      case (Inr b)
      then show ?thesis by (auto simp: launch_fence_def eff_defs tombstone_error_def)
    qed
    then obtain x where "launch_fence u w1 = (Inl x, w1)" "exc_cls x = ProcessTombstoneError" by blast
    with e E Inr show ?thesis by (simp add: spawn_def ebind_def)
  qed
qed

text \<open>The tombstone a successful launch leaves names the child it started.\<close>

definition names_child :: "entry \<Rightarrow> int \<Rightarrow> string \<Rightarrow> int option \<Rightarrow> bool" where
  "names_child e pid tok gen \<longleftrightarrow> (\<exists>d. e = File (Json (JObj d)) \<and> map_of d ''pid'' = Some (JInt pid) \<and>
     map_of d ''token'' = Some (JStr tok) \<and> map_of d ''generation'' = Some (opt_int gen) \<and>
     map_of d ''status'' = Some (JStr ''running_or_unknown''))"

lemma provenance_names_child:
  "names_child (File (Json (provenance t (JInt pid) st u gen tok ''running_or_unknown''))) pid tok gen"
  by (simp add: names_child_def provenance_def)

lemma write_pid_Inr:
  "write_pid u d w = (Inr v, w') \<Longrightarrow> pid_entry (unit_dirs w' u) = File (Json d) \<and> handles w' = handles w"
  unfolding write_pid_def write_doc_def by (auto elim!: durable_step_cases)

lemma handshake_True:
  assumes "handshake a pid (Some f) w = (Inr True, w')"
  obtains v w1 where "f pid (a_started a) (a_token a) w = (Inr v, w1)" "a_ack a = Inr ()"
    "w' = w1\<lparr>handles := AList.update (a_token a) \<lparr>h_pid = pid, h_running = True\<rparr> (handles w1)\<rparr>"
  using assms
  by (auto simp: handshake_def run_Inr elim!: ebind_InrE split: if_splits)

lemma probe_window_Inr:
  "probe_window a owned w = (Inr up, w') \<Longrightarrow> unit_dirs w' = unit_dirs w \<and> launches w' = launches w \<and>
     (up \<longrightarrow> handles w' = handles w \<and> True \<notin> set (a_exited a))"
  by (auto simp: probe_window_def run_Inr ewhen_def elim!: ebind_InrE split: if_splits)

lemma spawn_process_Inr:
  assumes "spawn_process a u env t (Some f) gen w = (Inr res, w')"
  shows "\<exists>pid w2 ready w3. handshake a pid (Some f) w2 = (Inr ready, w3) \<and>
     (if \<not> ready then eret \<lparr>sr_pid = pid, sr_started_at = a_started a, sr_alive = False,
        sr_token = None, sr_generation = None\<rparr>
      else ebind (probe_window a True) (\<lambda>up. eret \<lparr>sr_pid = pid, sr_started_at = a_started a, sr_alive = up,
          sr_token = Some (a_token a), sr_generation = gen\<rparr>)) w3 = (Inr res, w')"
proof -
  have "(Some f \<noteq> None) = True" by simp
  from assms show ?thesis unfolding spawn_process_def \<open>(Some f \<noteq> None) = True\<close>
    by (elim ebind_InrE) blast
qed


text \<open>What the clearance does once the record matches.\<close>

definition clear_matched :: "string \<Rightarrow> json \<Rightarrow> string \<Rightarrow> unit weff" where
  "clear_matched dir rec tok =
     ebind (durable_step (put_dir dir (\<lambda>ud. ud\<lparr>audit := audit ud @ [rec]\<rparr>))) (\<lambda>_.
     ebind (durable_step (put_dir dir (\<lambda>ud. ud\<lparr>pid_entry := Missing\<rparr>))) (\<lambda>_.
     emod (\<lambda>w. w\<lparr>handles := AList.delete tok (handles w)\<rparr>)))"

lemma clear_matched_run:
  assumes "clear_matched u rec tok w = (r, w')" "tomb u w" "\<not> tomb u w'"
  shows "audit (unit_dirs w' u) = audit (unit_dirs w u) @ [rec] \<and> launches w' = launches w"
  using assms unfolding clear_matched_def
  by (auto elim!: ebind_cases durable_step_cases simp: emod_def tomb_def)

lemma clear_cases:
  assumes "clear_process_tombstone u unit gen tok asserted operator w = (r, w')"
  obtains (refused) "pid_entry (unit_dirs w' u) = pid_entry (unit_dirs w u)" "launches w' = launches w" "\<exists>x. r = Inl x"
  | (matched) d w1 where "asserted" "pid_entry (unit_dirs w u) = File (Json (JObj d))"
      "dict_get d ''unit'' JNull = JStr unit" "py_eq_int (dict_get d ''generation'' JNull) gen"
      "dict_get d ''token'' JNull = JStr tok" "unit_dirs w1 u = (unit_dirs w u)\<lparr>dir_kind := RealDir\<rparr>"
      "launches w1 = launches w" "clear_matched u (clearance_record unit gen tok operator (clock w)) tok w1 = (r, w')"
proof (cases asserted)
  case False
  with assms show ?thesis by (intro that(1)) (auto simp: clear_process_tombstone_def eraise_def)
next
  case True
  show ?thesis
  proof (cases "dir_kind (unit_dirs w u) = OtherDir")
    case k: True
    with True assms show ?thesis
      by (intro that(1)) (auto simp: clear_process_tombstone_def ensure_unit_dir_def eff_defs)
  next
    case k: False
    obtain w1 where e: "ensure_unit_dir u w = (Inr (), w1)" "unit_dirs w1 u = (unit_dirs w u)\<lparr>dir_kind := RealDir\<rparr>"
      "launches w1 = launches w" "clock w1 = clock w"
      using k by (cases "dir_kind (unit_dirs w u)") (auto simp: ensure_unit_dir_def eff_defs)
    let ?e = "pid_entry (unit_dirs w u)"
    show ?thesis
    proof (cases "\<exists>d. ?e = File (Json (JObj d)) \<and> dict_get d ''unit'' JNull = JStr unit \<and>
        py_eq_int (dict_get d ''generation'' JNull) gen \<and> dict_get d ''token'' JNull = JStr tok")
      case m: True
      then obtain d where d: "?e = File (Json (JObj d))" "dict_get d ''unit'' JNull = JStr unit"
        "py_eq_int (dict_get d ''generation'' JNull) gen" "dict_get d ''token'' JNull = JStr tok" by blast
      from assms True e d have "clear_matched u (clearance_record unit gen tok operator (clock w)) tok w1 = (r, w')"
        by (simp add: clear_process_tombstone_def clear_matched_def ebind_def eget_def elift_def)
      with True d e show ?thesis by (intro that(2) [of d w1]) auto
    next
      case m: False
      have "\<exists>x. r = Inl x \<and> w' = w1"
        using assms True e m
        by (cases ?e rule: read_text.cases)
          (auto simp: clear_process_tombstone_def ebind_def eget_def elift_def eraise_def read_json_def
            tombstone_error_def split: if_splits json.splits)
      with e show ?thesis by (intro that(1)) auto
    qed
  qed
qed

text \<open>
  C18. Clearance: the tombstone of a unit disappears only through an asserted clearance that names
  the unit, generation and token recorded in it, only after a record of the clearance was added to
  the audit; no clearance starts anything.
\<close>

theorem clear_needs_match:
  assumes "clear_process_tombstone u unit gen tok asserted operator w = (r, w')"
    and "tomb u w" "\<not> tomb u w'"
  shows "asserted \<and> (\<exists>d. pid_entry (unit_dirs w u) = File (Json (JObj d)) \<and>
      dict_get d ''unit'' JNull = JStr unit \<and> py_eq_int (dict_get d ''generation'' JNull) gen \<and>
      dict_get d ''token'' JNull = JStr tok) \<and>
    audit (unit_dirs w' u) = audit (unit_dirs w u) @ [clearance_record unit gen tok operator (clock w)] \<and>
    launches w' = launches w"
proof -
  from assms(1) show ?thesis
  proof (cases rule: clear_cases)
    case refused
    with assms(2,3) show ?thesis by (simp add: tomb_def)
  next
    case (matched d w1)
    with assms(2) have "tomb u w1" by (simp add: tomb_def)
    from clear_matched_run [OF matched(8) this assms(3)] matched show ?thesis by auto
  qed
qed

section \<open>A small fleet for the witnesses\<close>

definition demo_fleet :: "entry \<Rightarrow> entry \<Rightarrow> world" where
  "demo_fleet st pd = \<lparr>unit_dirs = (\<lambda>_. \<lparr>dir_kind = RealDir, state_entry = Missing, pid_entry = Missing, audit = []\<rparr>)
       (''u'' := \<lparr>dir_kind = RealDir, state_entry = st, pid_entry = pd, audit = []\<rparr>),
     writes = [], handles = [], launches = [], signals = [], lock_entry = Missing, my_pid = 7,
     my_host = ''a'', probes = (\<lambda>_. (NoSuchProcess, PsFailed)), clock = 100\<rparr>"

definition demo_spec :: process_spec where
  "demo_spec = \<lparr>sp_unit = ''u'', sp_command = [''run''], sp_env = Some [], sp_label = '''', sp_env_overlay = [],
     sp_generation_env = Some ''G'', sp_pid_metadata = [(''region'', JStr ''eu'')], sp_startup_timeout = Some 30, sp_streams = 0\<rparr>"

definition demo_answers :: answers where
  "demo_answers = \<lparr>a_token = ''tok'', a_streams = Inr (), a_popen = Inr 42, a_started = 100, a_ready = Inr ready_line,
     a_ack = Inr (), a_exited = [False, False]\<rparr>"

abbreviation demo_dumps :: "json \<Rightarrow> string" where
  "demo_dumps \<equiv> \<lambda>_. '''' "

theorem spawn_fenced_witness:
  "launches (snd (spawn demo_answers [] demo_dumps ''3'' demo_spec ''u'' (Some 1) (demo_fleet Missing (Unreadable IsDir False)))) = []"
proof -
  have t: "tomb ''u'' (demo_fleet Missing (Unreadable IsDir False))" by (simp add: tomb_def demo_fleet_def)
  have "launches (demo_fleet Missing (Unreadable IsDir False)) = []" by (simp add: demo_fleet_def)
  with spawn_fenced [OF t, of demo_answers "[]" demo_dumps "''3''" demo_spec "Some 1"] show ?thesis
    by (simp add: split_beta)
qed

lemma demo_spawn: "(case spawn demo_answers [] demo_dumps ''3'' demo_spec ''u'' (Some 1) (demo_fleet Missing Missing) of
    (r, w) \<Rightarrow> (case r of Inl x \<Rightarrow> None | Inr res \<Rightarrow> sr_token res,
      map (\<lambda>l. map_of (l_env l) ''G'') (launches w))) = (Some ''tok'', [Some ''1''])"
  by code_simp


definition demo_tombstone :: entry where
  "demo_tombstone = File (Json (JObj [(''unit'', JStr ''u''), (''generation'', JInt 1), (''token'', JStr ''tok'')]))"

lemma demo_clear: "(case clear_process_tombstone ''u'' ''u'' 1 ''tok'' True ''op'' (demo_fleet Missing demo_tombstone) of
    (r, w) \<Rightarrow> (isl r, pid_entry (unit_dirs w ''u'') = Missing)) = (False, True)"
  by code_simp

theorem clear_needs_match_witness:
  "\<exists>r w'. clear_process_tombstone ''u'' ''u'' 1 ''tok'' True ''op'' (demo_fleet Missing demo_tombstone) = (r, w') \<and>
     audit (unit_dirs w' ''u'') = [clearance_record ''u'' 1 ''tok'' ''op'' 100]"
proof -
  let ?w = "demo_fleet Missing demo_tombstone"
  obtain r w' where run: "clear_process_tombstone ''u'' ''u'' 1 ''tok'' True ''op'' ?w = (r, w')"
    by (cases "clear_process_tombstone ''u'' ''u'' 1 ''tok'' True ''op'' ?w")
  have t: "tomb ''u'' ?w" by (simp add: tomb_def demo_fleet_def demo_tombstone_def)
  from demo_clear run have "\<not> tomb ''u'' w'" by (simp add: tomb_def)
  from clear_needs_match [OF run t this] run show ?thesis by (auto simp: demo_fleet_def)
qed

end
