(* ===== verification/SupervisorLock.thy ===== *)
theory SupervisorLock
  imports FleetWorld
begin

text \<open>
  The exclusive supervisor lock of \<^verbatim>\<open>fleet/state.py\<close>: a file created with \<^verbatim>\<open>O_EXCL\<close> whose body
  names its owner, stolen when the owner is dead, unreadable or this process itself. First the
  routines as one process runs them, then several processes running them side by side.
\<close>

section \<open>The routines\<close>

text \<open>
  A process that has exited and was not waited for answers to signals, so \<^verbatim>\<open>ps\<close> is asked too. A pid
  that fits no C integer makes \<^verbatim>\<open>os.kill\<close> raise \<^verbatim>\<open>OverflowError\<close>; that is not modelled.
\<close>

definition pid_is_zombie :: "world \<Rightarrow> int \<Rightarrow> bool" where
  "pid_is_zombie w p = (case snd (probes w p) of
     PsFailed \<Rightarrow> False
   | PsDone code out \<Rightarrow> code = 0 \<and> CHR ''Z'' \<in> set (py_strip out))"

definition pid_alive :: "world \<Rightarrow> int \<Rightarrow> bool" where
  "pid_alive w p = (if p \<le> 0 then False
     else case fst (probes w p) of
       NoSuchProcess \<Rightarrow> False
     | NotPermitted \<Rightarrow> \<not> pid_is_zombie w p
     | KillFailed \<Rightarrow> False
     | Delivered \<Rightarrow> \<not> pid_is_zombie w p)"

lemma pid_alive_iff: "pid_alive w p \<longleftrightarrow> 0 < p \<and> fst (probes w p) \<in> {Delivered, NotPermitted} \<and> \<not> pid_is_zombie w p"
  by (auto simp: pid_alive_def split: kill_result.splits)

text \<open>A worker whose exit nobody collected does not count as running.\<close>

lemma zombie_not_alive: "snd (probes w p) = PsDone 0 out \<Longrightarrow> CHR ''Z'' \<in> set (py_strip out) \<Longrightarrow> \<not> pid_alive w p"
  by (simp add: pid_alive_iff pid_is_zombie_def)

definition lock_is_live :: "(string, json) dict option \<Rightarrow> world \<Rightarrow> bool" where
  "lock_is_live owner w = (case owner of
     None \<Rightarrow> False
   | Some d \<Rightarrow> (case as_int (dict_get d ''pid'' JNull) of
       None \<Rightarrow> False
     | Some p \<Rightarrow>
         if p = my_pid w then False
         else if dict_get d ''hostname'' JNull \<noteq> JStr (my_host w) then True
         else pid_alive w p))"

definition lock_body :: "(string, json) dict \<Rightarrow> world \<Rightarrow> (string, json) dict" where
  "lock_body payload w =
     (let d = (if map_of payload ''started_at'' = None
               then AList.update ''started_at'' (JFloat (clock w)) payload else payload)
      in AList.update ''hostname'' (JStr (my_host w)) (AList.update ''pid'' (JInt (my_pid w)) d))"

definition owner_text :: "(rat \<Rightarrow> string) \<Rightarrow> (string, json) dict option \<Rightarrow> string" where
  "owner_text fr owner = (case owner of
     None \<Rightarrow> ''?'' | Some d \<Rightarrow> if d = [] then ''?'' else py_str fr (dict_get d ''pid'' JNull))"

text \<open>
  One round of the \<^verbatim>\<open>while True\<close> loop: \<open>None\<close> goes round again. An entry that is there makes the
  exclusive creation fail; a new file is empty until its body is written.
\<close>

definition acquire_round ::
  "(rat \<Rightarrow> string) \<Rightarrow> string \<Rightarrow> (string, json) dict \<Rightarrow> (string, json) dict option weff" where
  "acquire_round fr path body =
     ebind (eget lock_entry) (\<lambda>e.
     if e = Missing then
       ebind (emod (\<lambda>w. w\<lparr>lock_entry := File NotJson\<rparr>)) (\<lambda>_.
       ebind (write_doc (\<lambda>e w. w\<lparr>lock_entry := e\<rparr>) (JObj body)) (\<lambda>_. eret (Some body)))
     else
       ebind (elift (read_json e)) (\<lambda>owner.
       ebind (eget (lock_is_live owner)) (\<lambda>live.
       if live then eraise (Exc SupervisorLockError
           (''supervisor lock '' @ path @ '' held by live pid '' @ owner_text fr owner))
       else ebind (elift (unlink_result e)) (\<lambda>_.
            ebind (emod (\<lambda>w. w\<lparr>lock_entry := Missing\<rparr>)) (\<lambda>_. eret None)))))"

definition acquire_turn ::
  "(rat \<Rightarrow> string) \<Rightarrow> string \<Rightarrow> (string, json) dict \<Rightarrow> world \<Rightarrow>
   world + ((exc + (string, json) dict) \<times> world)" where
  "acquire_turn fr path body w = (case acquire_round fr path body w of
     (Inl x, w') \<Rightarrow> Inr (Inl x, w')
   | (Inr None, w') \<Rightarrow> Inl w'
   | (Inr (Some b), w') \<Rightarrow> Inr (Inr b, w'))"

definition acquire_loop ::
  "(rat \<Rightarrow> string) \<Rightarrow> string \<Rightarrow> (string, json) dict \<Rightarrow> world \<Rightarrow>
   ((exc + (string, json) dict) \<times> world) option" where
  "acquire_loop fr path body = iterate (acquire_turn fr path body)"

text \<open>The loop always ends (below), so it is a computation like the others.\<close>

definition acquire_lock ::
  "(rat \<Rightarrow> string) \<Rightarrow> string \<Rightarrow> (string, json) dict \<Rightarrow> (string, json) dict weff" where
  "acquire_lock fr path payload w =
     (case acquire_loop fr path (lock_body payload w) w of
        Some r \<Rightarrow> r | None \<Rightarrow> (Inl (Exc AssertionError ''acquire_lock does not end''), w))"

definition release_lock :: "bool weff" where
  "release_lock =
     ebind (eget lock_entry) (\<lambda>e. ebind (elift (read_json e)) (\<lambda>owner. ebind (eget my_pid) (\<lambda>me.
       case owner of
         None \<Rightarrow> eret False
       | Some d \<Rightarrow> if \<not> py_eq_int (dict_get d ''pid'' JNull) me then eret False
           else ebind (elift (unlink_result e)) (\<lambda>_.
                ebind (emod (\<lambda>w. w\<lparr>lock_entry := Missing\<rparr>)) (\<lambda>_. eret True)))))"

text \<open>\<^verbatim>\<open>with hold_lock(): m\<close>\<close>

definition hold_lock :: "(rat \<Rightarrow> string) \<Rightarrow> string \<Rightarrow> (string, json) dict \<Rightarrow> 'a weff \<Rightarrow> 'a weff" where
  "hold_lock fr path payload m =
     ebind (acquire_lock fr path payload) (\<lambda>_.
     efinally m (ebind release_lock (\<lambda>_. eret ())))"

section \<open>One process at a time\<close>

definition owns_lock :: "world \<Rightarrow> bool" where
  "owns_lock w \<longleftrightarrow> (\<exists>b. lock_entry w = File (Json (JObj b)) \<and>
     map_of b ''pid'' = Some (JInt (my_pid w)) \<and> map_of b ''hostname'' = Some (JStr (my_host w)))"

text \<open>The lock names an owner that must not be displaced.\<close>

definition held_by_other :: "world \<Rightarrow> bool" where
  "held_by_other w \<longleftrightarrow> (\<exists>owner. read_json (lock_entry w) = Inr owner \<and> lock_is_live owner w)"

lemma lock_body_stamped:
  "map_of (lock_body pl w) ''pid'' = Some (JInt (my_pid w))"
  "map_of (lock_body pl w) ''hostname'' = Some (JStr (my_host w))"
  by (simp_all add: lock_body_def Let_def)

text \<open>The identity of this process, which no round changes.\<close>

definition same_process :: "world \<Rightarrow> world \<Rightarrow> bool" where
  "same_process w w' \<longleftrightarrow> my_pid w' = my_pid w \<and> my_host w' = my_host w \<and> probes w' = probes w \<and>
     unit_dirs w' = unit_dirs w \<and> launches w' = launches w \<and> handles w' = handles w"

lemma same_process_trans: "same_process u v \<Longrightarrow> same_process v w \<Longrightarrow> same_process u w"
  by (simp add: same_process_def)

text \<open>The four ways a round ends.\<close>

lemma acquire_round_cases:
  assumes "acquire_round fr path body w = (r, w')"
  obtains (created) "lock_entry w = Missing" "r = Inr (Some body)"
      "lock_entry w' = File (Json (JObj body))" "same_process w w'"
  | (write_failed) "lock_entry w = Missing" "r = Inl write_failed" "same_process w w'"
  | (live) "held_by_other w" "lock_entry w \<noteq> Missing" "w' = w"
      "\<exists>msg. r = Inl (Exc SupervisorLockError msg)"
  | (io) x where "r = Inl x" "\<not> held_by_other w" "w' = w" "lock_entry w \<noteq> Missing"
  | (stolen) "\<not> held_by_other w" "lock_entry w \<noteq> Missing" "r = Inr None" "w' = w\<lparr>lock_entry := Missing\<rparr>"
proof (cases "lock_entry w = Missing")
  case True
  then show ?thesis
    using assms that(1,2)
    by (auto simp: acquire_round_def eff_defs write_doc_def durable_step_def Let_def same_process_def
        split: outcome.splits list.splits)
next
  case False
  show ?thesis
  proof (cases "read_json (lock_entry w)")
    case (Inl x)
    with False assms show ?thesis
      by (intro that(4) [of x]) (auto simp: acquire_round_def eff_defs held_by_other_def)
  next
    case (Inr owner)
    show ?thesis
    proof (cases "lock_is_live owner w")
      case True
      with Inr False assms show ?thesis
        by (intro that(3)) (auto simp: acquire_round_def eff_defs held_by_other_def)
    next
      case nl: False
      then have nh: "\<not> held_by_other w" using Inr by (simp add: held_by_other_def)
      show ?thesis
      proof (cases "unlink_result (lock_entry w)")
        case (Inl x)
        with nl Inr False assms nh show ?thesis
          by (intro that(4) [of x]) (auto simp: acquire_round_def eff_defs)
      next
        case (Inr u)
        with nl \<open>read_json (lock_entry w) = Inr owner\<close> False assms nh show ?thesis
          by (intro that(5)) (auto simp: acquire_round_def eff_defs)
      qed
    qed
  qed
qed

text \<open>Hence the loop takes at most two rounds.\<close>

lemma acquire_loop_ends: "\<exists>r. acquire_loop fr path body w = Some r"
  unfolding acquire_loop_def
proof (rule iterate_terminates [where I = "\<lambda>_. True" and \<mu> = "\<lambda>w. if lock_entry w = Missing then 0 else 1"])
  fix w w' assume "acquire_turn fr path body w = Inl w'"
  then have "acquire_round fr path body w = (Inr None, w')"
    by (auto simp: acquire_turn_def split: prod.splits sum.splits option.splits)
  then show "True \<and> (if lock_entry w' = Missing then 0 else 1) < (if lock_entry w = Missing then 0 else 1 :: nat)"
    by (cases rule: acquire_round_cases) auto
qed simp

lemma acquire_lock_loop:
  "acquire_loop fr path (lock_body pl w) w = Some (acquire_lock fr path pl w)"
  using acquire_loop_ends [of fr path "lock_body pl w" w] by (auto simp: acquire_lock_def)

text \<open>What an acquisition that returns has established, and what a refusal leaves.\<close>

definition acquired :: "(string, json) dict \<Rightarrow> world \<Rightarrow> (exc + (string, json) dict) \<times> world \<Rightarrow> bool" where
  "acquired body w q \<longleftrightarrow> (case q of (r, w') \<Rightarrow> same_process w w' \<and>
     (\<forall>b. r = Inr b \<longrightarrow> b = body \<and> lock_entry w' = File (Json (JObj body)) \<and> \<not> held_by_other w) \<and>
     (held_by_other w \<longrightarrow> w' = w \<and> (\<exists>msg. r = Inl (Exc SupervisorLockError msg))))"

lemma not_held_missing: "lock_entry w = Missing \<Longrightarrow> \<not> held_by_other w"
  by (simp add: held_by_other_def lock_is_live_def)

lemma acquire_lock_acquired: "acquired (lock_body pl w) w (acquire_lock fr path pl w)"
proof -
  let ?b = "lock_body pl w"
  let ?I = "\<lambda>v. v = w \<or> (same_process w v \<and> \<not> held_by_other w \<and> lock_entry v = Missing)"
  show ?thesis
  proof (rule iterate_rule [where I = ?I, OF acquire_lock_loop [unfolded acquire_loop_def, of fr path pl w]])
    fix v v' assume I: "?I v" and "acquire_turn fr path ?b v = Inl v'"
    then have "acquire_round fr path ?b v = (Inr None, v')"
      by (auto simp: acquire_turn_def split: prod.splits sum.splits option.splits)
    then show "?I v'" using I
      by (cases rule: acquire_round_cases) (auto simp: same_process_def)
  next
    fix v q assume I: "?I v" and turn: "acquire_turn fr path ?b v = Inr q"
    obtain r0 v' where rnd: "acquire_round fr path ?b v = (r0, v')"
      by (cases "acquire_round fr path ?b v")
    with turn have q: "(\<exists>x. r0 = Inl x \<and> q = (Inl x, v')) \<or> (\<exists>b. r0 = Inr (Some b) \<and> q = (Inr b, v'))"
      by (auto simp: acquire_turn_def split: sum.splits option.splits)
    from rnd show "acquired ?b w q"
      by (cases rule: acquire_round_cases)
        (use I q not_held_missing in \<open>auto simp: acquired_def same_process_def\<close>)
  qed simp
qed

lemma release_owned:
  assumes "owns_lock w"
  shows "release_lock w = (Inr True, w\<lparr>lock_entry := Missing\<rparr>)"
  using assms by (auto simp: owns_lock_def release_lock_def eff_defs dict_get_def)

section \<open>The contract of an exclusive lock\<close>

text \<open>
  What code that runs under the lock relies on: an acquisition either makes this process the
  holder or leaves the holder in place, and the holder's release frees the lock. \<open>stays\<close> says
  that the identity the lock is checked against does not change.
\<close>

locale exclusive_lock =
  fixes acquire :: "('s, 'b) eff" and release :: "('s, 'r) eff"
    and holds :: "'s \<Rightarrow> bool" and free :: "'s \<Rightarrow> bool"
  assumes acquire_holds: "acquire s = (Inr b, s') \<Longrightarrow> holds s'"
    and release_frees: "holds s \<Longrightarrow> \<exists>r s'. release s = (Inr r, s') \<and> free s'"
begin

definition under_lock :: "('s, 'a) eff \<Rightarrow> ('s, 'a) eff" where
  "under_lock m = ebind acquire (\<lambda>_. efinally m (ebind release (\<lambda>_. eret ())))"

text \<open>The body runs only after the acquisition, and the lock is free however it ends.\<close>

lemma under_lock_run:
  assumes "keeps holds m" "under_lock m s = (r, s')"
  shows "(\<exists>x. acquire s = (Inl x, s') \<and> r = Inl x) \<or>
    (\<exists>b s1 s2. acquire s = (Inr b, s1) \<and> m s1 = (r, s2) \<and> free s')"
proof (cases "acquire s")
  case (Pair q s1)
  show ?thesis
  proof (cases q)
    case (Inl x)
    with Pair assms(2) show ?thesis by (simp add: under_lock_def ebind_def)
  next
    case (Inr b)
    with Pair have h: "holds s1" by (auto intro: acquire_holds)
    obtain r2 s2 where m: "m s1 = (r2, s2)" by (cases "m s1")
    from keeps_run [OF assms(1) m h] have "holds s2" .
    from release_frees [OF this] obtain u s3 where "release s2 = (Inr u, s3)" "free s3" by blast
    with Pair Inr m assms(2) show ?thesis
      by (auto simp: under_lock_def ebind_def efinally_def eret_def)
  qed
qed

end

interpretation supervisor: exclusive_lock "acquire_lock fr path payload" release_lock
  owns_lock "\<lambda>w. lock_entry w = Missing"
proof
  show "acquire_lock fr path payload w = (Inr b, w') \<Longrightarrow> owns_lock w'" for w b w'
    using acquire_lock_acquired [of payload w fr path] lock_body_stamped [of payload w]
    by (auto simp: acquired_def owns_lock_def same_process_def)
  show "owns_lock w \<Longrightarrow> \<exists>r w'. release_lock w = (Inr r, w') \<and> lock_entry w' = Missing" for w
    by (rule exI [of _ True]) (simp add: release_owned)
qed

lemma hold_lock_under: "hold_lock fr path payload m = supervisor.under_lock fr path payload m"
  by (simp add: hold_lock_def supervisor.under_lock_def)

section \<open>Properties of the routines\<close>


definition demo_lock_world :: "entry \<Rightarrow> int list \<Rightarrow> world" where
  "demo_lock_world e ps = \<lparr>unit_dirs = (\<lambda>_. \<lparr>dir_kind = NoDir, state_entry = Missing, pid_entry = Missing, audit = []\<rparr>),
     writes = [], handles = [], launches = [], signals = [], lock_entry = e, my_pid = 7,
     my_host = ''a'', probes = (\<lambda>p. if p \<in> set ps then (Delivered, PsDone 0 ''S'') else (NoSuchProcess, PsFailed)), clock = 100\<rparr>"

definition owner_doc :: "int \<Rightarrow> string \<Rightarrow> entry" where
  "owner_doc p h = File (Json (JObj [(''pid'', JInt p), (''hostname'', JStr h)]))"


text \<open>
  A lock of another host must be treated as held, because its owner cannot be probed. A body
  of another host whose pid happens to be this process's own is nevertheless stolen.
\<close>

theorem foreign_host_same_pid_stolen:
  "\<exists>b w'. acquire_lock (\<lambda>_. '''') ''l'' [] (demo_lock_world (owner_doc 7 ''b'') []) = (Inr b, w') \<and>
     held_by_other (demo_lock_world (owner_doc 8 ''b'') [])"
proof -
  have "isl (fst (acquire_lock (\<lambda>_. '''') ''l'' [] (demo_lock_world (owner_doc 7 ''b'') []))) = False"
    by code_simp
  then obtain b w' where "acquire_lock (\<lambda>_. '''') ''l'' [] (demo_lock_world (owner_doc 7 ''b'') []) = (Inr b, w')"
    by (metis isl_def prod.collapse sum.exhaust_sel)
  moreover have "held_by_other (demo_lock_world (owner_doc 8 ''b'') [])"
    by (auto simp: held_by_other_def demo_lock_world_def owner_doc_def lock_is_live_def dict_get_def)
  ultimately show ?thesis by blast
qed

section \<open>Several processes\<close>

text \<open>
  The system calls of \<^verbatim>\<open>acquire_lock\<close>, interleaved. \<open>Body i\<close> is the body written by process
  \<open>i\<close>; a process that created the file writes into the inode it opened, whatever became of its
  name. Every process below \<open>100\<close> is alive.
\<close>

datatype lock_text = Empty | Body nat

datatype lock_pc = Start | SawFile | WillUnlink | Created nat | Holding | Refused

record locks =
  name :: "(nat \<times> lock_text) option"
  fresh :: nat
  pcs :: "nat \<Rightarrow> lock_pc"

definition move :: "nat \<Rightarrow> lock_pc \<Rightarrow> locks \<Rightarrow> locks" where
  "move i c s = s\<lparr>pcs := (pcs s)(i := c)\<rparr>"

definition judged_live :: "nat \<Rightarrow> (nat \<times> lock_text) option \<Rightarrow> bool" where
  "judged_live i f = (case f of Some (_, Body j) \<Rightarrow> j \<noteq> i \<and> j < 100 | _ \<Rightarrow> False)"

inductive lock_step :: "locks \<Rightarrow> locks \<Rightarrow> bool" where
  lk_create: "pcs s i = Start \<Longrightarrow> name s = None \<Longrightarrow>
    lock_step s (move i (Created (fresh s)) (s\<lparr>name := Some (fresh s, Empty), fresh := fresh s + 1\<rparr>))"
| lk_exists: "pcs s i = Start \<Longrightarrow> name s \<noteq> None \<Longrightarrow> lock_step s (move i SawFile s)"
| lk_refuse: "pcs s i = SawFile \<Longrightarrow> judged_live i (name s) \<Longrightarrow> lock_step s (move i Refused s)"
| lk_judge: "pcs s i = SawFile \<Longrightarrow> \<not> judged_live i (name s) \<Longrightarrow> lock_step s (move i WillUnlink s)"
| lk_unlink: "pcs s i = WillUnlink \<Longrightarrow> lock_step s (move i Start (s\<lparr>name := None\<rparr>))"
| lk_write_body: "pcs s i = Created n \<Longrightarrow> lock_step s (move i Holding
    (s\<lparr>name := (case name s of Some (m, t) \<Rightarrow> if m = n then Some (m, Body i) else Some (m, t) | None \<Rightarrow> None)\<rparr>))"

inductive lock_steps :: "locks \<Rightarrow> locks \<Rightarrow> bool" where
  no_more: "lock_steps s s"
| one_more: "lock_step s t \<Longrightarrow> lock_steps t u \<Longrightarrow> lock_steps s u"

definition all_start :: "(nat \<times> lock_text) option \<Rightarrow> locks" where
  "all_start f = \<lparr>name = f, fresh = 1, pcs = (\<lambda>_. Start)\<rparr>"

text \<open>
  The lock is not exclusive when two supervisors race: from a directory without a lock file,
  two processes can both come to hold it, because a file that was created and not yet written is
  judged abandoned.
\<close>

theorem lock_race_two_holders:
  "\<exists>s. lock_steps (all_start None) s \<and> pcs s 1 = Holding \<and> pcs s 2 = Holding"
proof -
  let ?s1 = "move 1 (Created 1) (all_start None\<lparr>name := Some (1, Empty), fresh := 2\<rparr>)"
  let ?s2 = "move 2 SawFile ?s1"
  let ?s3 = "move 2 WillUnlink ?s2"
  let ?s4 = "move 2 Start (?s3\<lparr>name := None\<rparr>)"
  let ?s5 = "move 2 (Created 2) (?s4\<lparr>name := Some (2, Empty), fresh := 3\<rparr>)"
  let ?s6 = "move 2 Holding (?s5\<lparr>name := Some (2, Body 2)\<rparr>)"
  let ?s7 = "move 1 Holding (?s6\<lparr>name := Some (2, Body 2)\<rparr>)"
  have "lock_step (all_start None) ?s1"
    using lock_step.lk_create [of "all_start None" 1] by (simp add: all_start_def numeral_2_eq_2)
  moreover have "lock_step ?s1 ?s2" by (rule lock_step.lk_exists) (simp_all add: move_def all_start_def)
  moreover have "lock_step ?s2 ?s3"
    by (rule lock_step.lk_judge) (simp_all add: move_def all_start_def judged_live_def)
  moreover have "lock_step ?s3 ?s4" by (rule lock_step.lk_unlink) (simp add: move_def)
  moreover have "lock_step ?s4 ?s5"
    using lock_step.lk_create [of ?s4 2] by (simp add: move_def all_start_def numeral_2_eq_2 numeral_3_eq_3)
  moreover have "lock_step ?s5 ?s6" using lock_step.lk_write_body [of ?s5 2 2] by (simp add: move_def)
  moreover have "lock_step ?s6 ?s7" using lock_step.lk_write_body [of ?s6 1 1] by (simp add: move_def all_start_def)
  ultimately have "lock_steps (all_start None) ?s7"
    by (blast intro: lock_steps.intros)
  then show ?thesis by (rule exI [of _ ?s7, OF conjI]) (simp add: move_def)
qed

end
