(* ===== verification/Reconciler.thy ===== *)
theory Reconciler
  imports Process SupervisorLock
begin

text \<open>
  \<^verbatim>\<open>DesiredStateReconciler\<close> of \<^verbatim>\<open>fleet/state.py\<close>: the persisted state of a unit, the heartbeats
  merged into it, and the passes that converge units towards their desired state through injected
  spawn and stop actions. \<open>schema\<close> is the reconciler's schema version and \<open>fr\<close> the \<^verbatim>\<open>repr\<close> of a
  float.
\<close>

section \<open>State\<close>

definition core_state_keys :: "string list" where
  "core_state_keys = [''schema_version'', ''unit'', ''desired'', ''actual'', ''generation'', ''pid'']"

definition default_state :: "int \<Rightarrow> string \<Rightarrow> (string, json) dict" where
  "default_state schema u = [(''schema_version'', JInt schema), (''unit'', JStr u),
     (''desired'', JStr ''disabled''), (''actual'', JStr ''unknown''), (''generation'', JInt 0), (''pid'', JNull)]"

definition load_state :: "int \<Rightarrow> string \<Rightarrow> (string, json) dict weff" where
  "load_state schema u =
     ebind (elift (validate_unit u)) (\<lambda>_.
     ebind (eget (\<lambda>w. state_entry (unit_dirs w u))) (\<lambda>e.
     ebind (elift (read_json e)) (\<lambda>stored.
     eret (AList.update ''unit'' (JStr u) (case stored of
       None \<Rightarrow> default_state schema u | Some d \<Rightarrow> dict_update (default_state schema u) d)))))"

definition save_state :: "string \<Rightarrow> (string, json) dict \<Rightarrow> unit weff" where
  "save_state u state = write_state u (JObj state)"

definition desired_values :: "string list" where
  "desired_values = [''enabled'', ''disabled'', ''paused'']"

definition set_desired :: "int \<Rightarrow> string \<Rightarrow> string \<Rightarrow> (string, json) dict weff" where
  "set_desired schema u desired =
     (if desired \<notin> set desired_values
      then eraise (Exc ValueError (''desired must be one of '' @ join '', '' (List.map repr_str desired_values)
             @ '', got '' @ repr_str desired))
      else ebind (load_state schema u) (\<lambda>state.
        let state' = AList.update ''desired'' (JStr desired) state in
        ebind (save_state u state') (\<lambda>_. eret state')))"

definition merge_heartbeat :: "int \<Rightarrow> string \<Rightarrow> (string, json) dict \<Rightarrow> (string, json) dict weff" where
  "merge_heartbeat schema u heartbeat =
     ebind (load_state schema u) (\<lambda>state.
     case as_int (dict_get heartbeat ''generation'' JNull) of
       None \<Rightarrow> eret state
     | Some reported \<Rightarrow>
         ebind (elift (dict_item state ''generation'')) (\<lambda>g. ebind (elift (py_int g)) (\<lambda>current.
         if reported \<noteq> current then eret state
         else let merged = dict_update state (filter (\<lambda>(k, _). k \<notin> set core_state_keys) heartbeat) in
           ebind (save_state u merged) (\<lambda>_. eret merged))))"

definition honor_desired_state :: "(string, json) dict \<Rightarrow> exc + bool" where
  "honor_desired_state state = Inr (dict_get state ''desired'' JNull \<in> {JStr ''enabled'', JStr ''paused''})"

definition observe_actual :: "string \<Rightarrow> string weff" where
  "observe_actual u =
     ebind (elift (validate_unit u)) (\<lambda>_.
     ebind (eget (\<lambda>w. lstat (pid_entry (unit_dirs w u)))) (\<lambda>r. case r of
       Inr _ \<Rightarrow> eret ''running''
     | Inl x \<Rightarrow> if instance_of x FileNotFoundError then eret ''stopped''
         else if instance_of x OSError then eret ''unknown'' else eraise x))"

section \<open>Converging one unit\<close>

record reconcile_outcome =
  ro_unit :: string
  ro_action :: string
  ro_desired :: string
  ro_actual :: string
  ro_generation :: int
  ro_pid :: "int option"
  ro_alive :: bool
  ro_degraded :: "string option"

type_synonym state_doc = "(string, json) dict"
type_synonym spawn_action = "process_spec \<Rightarrow> int \<Rightarrow> string \<Rightarrow> spawn_result weff"
type_synonym stop_action = "string \<Rightarrow> stop_result weff"

definition tombstone_reason :: string where
  "tombstone_reason = ''process_tombstone_operator_verification_required''"

text \<open>\<^verbatim>\<open>str(state["desired"])\<close> and \<^verbatim>\<open>int(state["generation"])\<close>, in the order of the outcome's fields\<close>

definition desired_text :: "(rat \<Rightarrow> string) \<Rightarrow> state_doc \<Rightarrow> exc + string" where
  "desired_text fr state = (case dict_item state ''desired'' of Inl x \<Rightarrow> Inl x | Inr v \<Rightarrow> Inr (py_str fr v))"

definition generation_of :: "state_doc \<Rightarrow> exc + int" where
  "generation_of state = (case dict_item state ''generation'' of Inl x \<Rightarrow> Inl x | Inr v \<Rightarrow> py_int v)"

definition outcome_of :: "(rat \<Rightarrow> string) \<Rightarrow> string \<Rightarrow> state_doc \<Rightarrow> string \<Rightarrow> int option \<Rightarrow> bool \<Rightarrow> string option \<Rightarrow>
    reconcile_outcome weff" where
  "outcome_of fr u state actual pid alv reason =
     ebind (elift (desired_text fr state)) (\<lambda>d. ebind (elift (generation_of state)) (\<lambda>g.
     eret \<lparr>ro_unit = u, ro_action = ''noop'', ro_desired = d, ro_actual = actual, ro_generation = g,
       ro_pid = pid, ro_alive = alv, ro_degraded = reason\<rparr>))"

text \<open>The branch of a unit with a tombstone\<close>

definition reconcile_tombstone :: "(rat \<Rightarrow> string) \<Rightarrow> stop_action \<Rightarrow> string \<Rightarrow> state_doc \<Rightarrow> bool \<Rightarrow> string \<Rightarrow>
    reconcile_outcome weff" where
  "reconcile_tombstone fr stop_a u state want actual =
     (let st1 = AList.update ''operator_verification_required'' (JBool True)
                  (AList.update ''degraded_reason'' (JStr tombstone_reason) state) in
      ebind (if want then eret st1
             else etry (\<lambda>x. instance_of x ProcessTombstoneError)
               (ebind (stop_a u) (\<lambda>res.
                eret (if st_signalled res then AList.update ''stop_requested'' (JBool True) st1 else st1)))
               (\<lambda>_. eret st1)) (\<lambda>st2.
      ebind (save_state u st2) (\<lambda>_.
      outcome_of fr u st2 actual (as_int (dict_get st2 ''pid'' JNull)) (actual = ''running'') (Some tombstone_reason))))"

definition leader_exited :: string where
  "leader_exited = ''leader_exited_operator_verification_required''"

text \<open>The state after a spawn action returned\<close>

definition spawned_state :: "state_doc \<Rightarrow> int \<Rightarrow> spawn_result \<Rightarrow> state_doc" where
  "spawned_state state gen res =
     (let st = dict_update state [(''generation'', JInt gen), (''pid'', JInt (sr_pid res)),
            (''actual'', JStr (if sr_alive res then ''running'' else ''unknown'')),
            (''process_token'', case sr_token res of None \<Rightarrow> JNull | Some t \<Rightarrow> JStr t),
            (''operator_verification_required'', JBool (\<not> sr_alive res))]
      in if sr_alive res then st else AList.update ''degraded_reason'' (JStr leader_exited) st)"

text \<open>The branch of a stopped unit that should run\<close>

definition reconcile_spawn :: "(rat \<Rightarrow> string) \<Rightarrow> spawn_action \<Rightarrow> process_spec \<Rightarrow> string \<Rightarrow> state_doc \<Rightarrow>
    reconcile_outcome weff" where
  "reconcile_spawn fr spawn_a sp u state =
     ebind (elift (generation_of state)) (\<lambda>g.
     ebind (etry (\<lambda>x. instance_of x ProcessTombstoneError)
         (ebind (spawn_a sp (g + 1) u) (\<lambda>res. eret (Some res))) (\<lambda>_. eret None)) (\<lambda>r. case r of
       None \<Rightarrow>
         let st = dict_update state [(''actual'', JStr ''unknown''), (''degraded_reason'', JStr tombstone_reason),
                    (''operator_verification_required'', JBool True)] in
         ebind (save_state u st) (\<lambda>_. outcome_of fr u st ''unknown'' None False (Some tombstone_reason))
     | Some res \<Rightarrow>
         let st = spawned_state state (g + 1) res in
         ebind (save_state u st) (\<lambda>_. ebind (elift (desired_text fr st)) (\<lambda>d.
         eret \<lparr>ro_unit = u, ro_action = ''spawned'', ro_desired = d,
           ro_actual = (if sr_alive res then ''running'' else ''unknown''), ro_generation = g + 1,
           ro_pid = Some (sr_pid res), ro_alive = sr_alive res,
           ro_degraded = (if sr_alive res then None else Some leader_exited)\<rparr>))))"

definition reconcile_stopped :: "(rat \<Rightarrow> string) \<Rightarrow> string \<Rightarrow> state_doc \<Rightarrow> reconcile_outcome weff" where
  "reconcile_stopped fr u state =
     (let st = AList.update ''actual'' (JStr ''stopped'') state in
      ebind (save_state u st) (\<lambda>_. outcome_of fr u st ''stopped'' None False None))"

text \<open>\<^verbatim>\<open>with unit_lock(...)\<close>: the directory is made and checked; the lock itself only delays.\<close>

definition enter_unit :: "string \<Rightarrow> unit weff" where
  "enter_unit u = ebind (elift (validate_unit u)) (\<lambda>_. ensure_unit_dir u)"

definition reconcile_unit :: "int \<Rightarrow> (rat \<Rightarrow> string) \<Rightarrow> spawn_action \<Rightarrow> stop_action \<Rightarrow>
    (state_doc \<Rightarrow> exc + bool) \<Rightarrow> process_spec \<Rightarrow> reconcile_outcome weff" where
  "reconcile_unit schema fr spawn_a stop_a policy sp =
     (let u = sp_unit sp in
      ebind (enter_unit u) (\<lambda>_.
      ebind (load_state schema u) (\<lambda>state0.
      ebind (elift (policy state0)) (\<lambda>want.
      ebind (observe_actual u) (\<lambda>actual.
      let state = AList.update ''actual'' (JStr actual) state0 in
      if actual \<noteq> ''stopped'' then reconcile_tombstone fr stop_a u state want actual
      else if want then reconcile_spawn fr spawn_a sp u state
      else reconcile_stopped fr u state)))))"

definition reconcile_all :: "int \<Rightarrow> (rat \<Rightarrow> string) \<Rightarrow> spawn_action \<Rightarrow> stop_action \<Rightarrow>
    (state_doc \<Rightarrow> exc + bool) \<Rightarrow> process_spec list \<Rightarrow> reconcile_outcome list weff" where
  "reconcile_all schema fr spawn_a stop_a policy = emap (reconcile_unit schema fr spawn_a stop_a policy)"

definition reconcile_once :: "int \<Rightarrow> (rat \<Rightarrow> string) \<Rightarrow> spawn_action \<Rightarrow> stop_action \<Rightarrow> string \<Rightarrow>
    (state_doc \<Rightarrow> exc + bool) \<Rightarrow> process_spec list \<Rightarrow> reconcile_outcome list weff" where
  "reconcile_once schema fr spawn_a stop_a path policy specs =
     hold_lock fr path [] (reconcile_all schema fr spawn_a stop_a policy specs)"

text \<open>The loop of \<^verbatim>\<open>serve\<close>, between the acquisition and the release of the lock\<close>

definition serve_turn :: "'a weff \<Rightarrow> bool weff option \<Rightarrow> unit weff \<Rightarrow> world \<Rightarrow>
    world + ((exc + unit) \<times> world)" where
  "serve_turn pass stop_condition sleep w =
     (case ebind pass (\<lambda>_. ebind (case stop_condition of None \<Rightarrow> eret False | Some c \<Rightarrow> c) (\<lambda>ended.
             if ended then eret True else ebind sleep (\<lambda>_. eret False))) w of
        (Inl x, w') \<Rightarrow> Inr (Inl x, w')
      | (Inr ended, w') \<Rightarrow> if ended then Inr (Inr (), w') else Inl w')"

definition serve :: "int \<Rightarrow> (rat \<Rightarrow> string) \<Rightarrow> spawn_action \<Rightarrow> stop_action \<Rightarrow> string \<Rightarrow>
    (state_doc \<Rightarrow> exc + bool) \<Rightarrow> process_spec list \<Rightarrow> bool weff option \<Rightarrow> unit weff \<Rightarrow> world \<Rightarrow>
    ((exc + unit) \<times> world) option" where
  "serve schema fr spawn_a stop_a path policy specs stop_condition sleep w =
     (case acquire_lock fr path [] w of
        (Inl x, w1) \<Rightarrow> Some (Inl x, w1)
      | (Inr _, w1) \<Rightarrow> map_option
          (\<lambda>(r, w2). efinally (\<lambda>w. (r, w)) (ebind release_lock (\<lambda>_. eret ())) w2)
          (iterate (serve_turn (reconcile_all schema fr spawn_a stop_a policy specs) stop_condition sleep) w1))"

end
