(* ===== verification/ReconcilerProps.thy ===== *)
theory ReconcilerProps
  imports Reconciler
begin

text \<open>
  Correctness of the reconciler: its actions' contract as an interface, at most one launch per
  tombstone over every sequence of fleet operations, the outcome of a pass, the fencing of
  heartbeats and the extent of the supervisor lock.
\<close>

section \<open>What leaves launches alone\<close>

lemma launch_ok_refl [simp]: "launch_ok u w w"
  by (simp add: launch_ok_def)

lemma keeps_launch_ok: "(\<And>w. launch_ok u w (snd (m w))) \<Longrightarrow> keeps (launch_ok u w0) m"
  by (rule keepsI) (blast intro: launch_ok_trans)

lemma no_launch_write_state: "keeps (no_launch u w0) (write_state u d)"
  unfolding write_state_def write_doc_def
  by (rule keeps_durable_step) (auto simp: no_launch_def others_same_def tomb_def)

lemma keeps_no_launch_ok:
  assumes h: "\<And>w0. keeps (no_launch u w0) m"
  shows "keeps (launch_ok u w0) m"
proof (rule keeps_launch_ok)
  fix w
  have "no_launch u w w" by (simp add: no_launch_def)
  from no_launch_ok [OF keepsD [OF h this]] show "launch_ok u w (snd (m w))" .
qed

lemma keeps_load: "keeps I (load_state schema u)"
  unfolding load_state_def by (intro keeps_ebind keeps_pure)

lemma keeps_observe_actual: "keeps I (observe_actual u)"
  unfolding observe_actual_def
  by (auto intro!: keeps_ebind keeps_pure keeps_if split: sum.split)

lemma keeps_save: "keeps (no_launch u w0) (save_state u st)"
  unfolding save_state_def by (rule no_launch_write_state)

lemma keeps_outcome: "keeps I (outcome_of fr u st actual pid alv reason)"
  unfolding outcome_of_def by (intro keeps_ebind keeps_pure)

lemma keeps_enter: "keeps (no_launch u w0) (enter_unit u)"
  unfolding enter_unit_def by (intro keeps_ebind keeps_pure keeps_no_launch_ensure)

lemma keeps_set_desired: "keeps (no_launch u w0) (set_desired schema u d)"
  unfolding set_desired_def Let_def by (intro keeps_if keeps_ebind keeps_pure keeps_load keeps_save)

lemma keeps_merge_heartbeat: "keeps (no_launch u w0) (merge_heartbeat schema u hb)"
  unfolding merge_heartbeat_def Let_def
  by (auto intro!: keeps_if keeps_ebind keeps_pure keeps_load keeps_save split: option.split)

section \<open>The contract of the actions\<close>

locale process_actions =
  fixes spawn_a :: spawn_action and stop_a :: stop_action
  assumes spawn_launches: "triple (\<lambda>w'. w' = w) (spawn_a sp g u) (\<lambda>_. launched u w) (\<lambda>_. launch_ok u w)"
    and stop_spares: "keeps (no_launch u w) (stop_a u)"
begin

lemma keeps_spawn: "keeps (launch_ok u w0) (spawn_a sp g u)"
proof (rule keeps_launch_ok)
  fix w
  obtain r w' where run: "spawn_a sp g u w = (r, w')" by (cases "spawn_a sp g u w")
  with triple_Inr [OF spawn_launches refl] triple_Inl [OF spawn_launches refl] phases_ok(2)
  show "launch_ok u w (snd (spawn_a sp g u w))" by (cases r) auto
qed

lemma keeps_tombstone_branch: "keeps (no_launch u w0) (reconcile_tombstone fr stop_a u st want actual)"
  unfolding reconcile_tombstone_def Let_def
  by (intro keeps_ebind keeps_if keeps_pure keeps_etry stop_spares keeps_save keeps_outcome)

lemma keeps_spawn_branch: "keeps (launch_ok u w0) (reconcile_spawn fr spawn_a sp u st)"
  unfolding reconcile_spawn_def Let_def
  by (auto split: option.split intro!: keeps_ebind keeps_pure keeps_etry keeps_spawn
      keeps_no_launch_ok [OF keeps_save] keeps_outcome)

lemma keeps_reconcile: "keeps (launch_ok (sp_unit sp) w0) (reconcile_unit schema fr spawn_a stop_a policy sp)"
  unfolding reconcile_unit_def Let_def reconcile_stopped_def
  by (intro keeps_ebind keeps_if keeps_pure keeps_no_launch_ok [OF keeps_enter] keeps_load
      keeps_observe_actual keeps_no_launch_ok [OF keeps_tombstone_branch] keeps_spawn_branch
      keeps_no_launch_ok [OF keeps_save] keeps_outcome)

end

section \<open>Launches over a whole history\<close>

text \<open>A tombstone stands for the launch it fenced.\<close>

definition budget :: "string \<Rightarrow> world \<Rightarrow> nat" where
  "budget u w = n_launches u w + (if tomb u w then 0 else 1)"

lemma launch_ok_budget:
  assumes "launch_ok v w w'"
  shows "budget u w' \<le> budget u w" and "u \<noteq> v \<Longrightarrow> tomb u w' = tomb u w" and "tomb u w \<Longrightarrow> tomb u w'"
proof -
  show t: "u \<noteq> v \<Longrightarrow> tomb u w' = tomb u w"
    using assms by (auto simp: launch_ok_def others_same_def tomb_def)
  show t': "tomb u w \<Longrightarrow> tomb u w'"
    using assms t by (cases "u = v") (auto simp: launch_ok_def)
  show "budget u w' \<le> budget u w"
  proof (cases "launches w' = launches w")
    case True
    with t' show ?thesis by (simp add: budget_def n_launches_def)
  next
    case False
    with assms obtain l where "\<not> tomb v w" "tomb v w'" "l_unit l = v" "launches w' = l # launches w"
      by (auto simp: launch_ok_def)
    with t show ?thesis by (auto simp: budget_def n_launches_def)
  qed
qed

context process_actions
begin

text \<open>A pass over any fleet, with or without the lock, starts nothing that is fenced.\<close>

lemma reconcile_all_budget:
  assumes "reconcile_all schema fr spawn_a stop_a policy specs w = (r, w')"
  shows "budget u w' \<le> budget u w" "tomb u w \<Longrightarrow> tomb u w'"
proof -
  have "keeps (\<lambda>v. budget u v \<le> budget u w \<and> (tomb u w \<longrightarrow> tomb u v)) (reconcile_all schema fr spawn_a stop_a policy specs)"
    unfolding reconcile_all_def
  proof (rule keeps_emap, rule keeps_runI)
    fix sp v r v'
    assume run: "reconcile_unit schema fr spawn_a stop_a policy sp v = (r, v')"
      and I: "budget u v \<le> budget u w \<and> (tomb u w \<longrightarrow> tomb u v)"
    have "launch_ok (sp_unit sp) v v'"
      by (rule keeps_run [OF keeps_reconcile run]) simp
    with launch_ok_budget [OF this, of u] I show "budget u v' \<le> budget u w \<and> (tomb u w \<longrightarrow> tomb u v')" by auto
  qed
  from keeps_run [OF this assms] show "budget u w' \<le> budget u w" "tomb u w \<Longrightarrow> tomb u w'" by auto
qed

end

section \<open>The default actions\<close>

definition default_spawn_action :: "(string \<Rightarrow> int \<Rightarrow> answers) \<Rightarrow> (string, string) dict \<Rightarrow> (json \<Rightarrow> string) \<Rightarrow> string \<Rightarrow>
    spawn_action" where
  "default_spawn_action ans environ dumps fd sp gen u = spawn (ans u gen) environ dumps fd sp u (Some gen)"

definition default_stop_action :: stop_action where
  "default_stop_action u = stop u"

interpretation kit: process_actions "default_spawn_action ans environ dumps fd" default_stop_action
  by unfold_locales
    (simp_all add: default_spawn_action_def default_stop_action_def spawn_contract stop_contract)

section \<open>At most one launch per clearance\<close>

text \<open>
  What may happen to a fleet: passes of the reconciler with the package's own actions, heartbeats,
  changes of desired state, operator clearances, and restarts of the supervisor, which lose its
  process handles and may change its pid.
\<close>

datatype fleet_op =
    Pass "string \<Rightarrow> int \<Rightarrow> answers" "state_doc \<Rightarrow> exc + bool" "process_spec list"
  | Heartbeat string state_doc
  | Desire string string
  | Clear string string int string bool string
  | Restart int

fun fleet_op_run :: "fleet_op \<Rightarrow> world \<Rightarrow> world" where
  "fleet_op_run (Pass ans policy specs) w = snd (reconcile_all 1 (\<lambda>_. '''')
     (default_spawn_action ans [] (\<lambda>_. '''') ''3'') default_stop_action policy specs w)"
| "fleet_op_run (Heartbeat u hb) w = snd (merge_heartbeat 1 u hb w)"
| "fleet_op_run (Desire u d) w = snd (set_desired 1 u d w)"
| "fleet_op_run (Clear dir u gen tok asserted operator) w =
     snd (clear_process_tombstone dir u gen tok asserted operator w)"
| "fleet_op_run (Restart pid) w = w\<lparr>handles := [], my_pid := pid\<rparr>"

fun fleet_run :: "fleet_op list \<Rightarrow> world \<Rightarrow> world" where
  "fleet_run [] w = w"
| "fleet_run (op # ops) w = fleet_run ops (fleet_op_run op w)"

text \<open>The clearances of a unit: the operations that took its tombstone away.\<close>

fun clearances :: "string \<Rightarrow> fleet_op list \<Rightarrow> world \<Rightarrow> nat" where
  "clearances u [] w = 0"
| "clearances u (op # ops) w =
     (if tomb u w \<and> \<not> tomb u (fleet_op_run op w) then 1 else 0) + clearances u ops (fleet_op_run op w)"

lemma clear_matched_others:
  assumes "clear_matched dir rec tok w = (r, w')"
  shows "launches w' = launches w" "u \<noteq> dir \<Longrightarrow> tomb u w' = tomb u w" "tomb dir w' \<Longrightarrow> tomb dir w"
  using assms unfolding clear_matched_def
  by (auto elim!: ebind_cases durable_step_cases simp: emod_def tomb_def)

lemma clear_keeps:
  assumes "clear_process_tombstone dir unit gen tok asserted operator w = (r, w')"
  shows "launches w' = launches w \<and> (tomb u w' \<longrightarrow> tomb u w)"
proof -
  have others: "u \<noteq> dir \<Longrightarrow> tomb u w' = tomb u w"
  proof -
    assume ne: "u \<noteq> dir"
    have en: "keeps (no_launch dir w) (ensure_unit_dir dir)" by (rule keeps_no_launch_ensure)
    have "keeps (\<lambda>v. tomb u v = tomb u w) (clear_process_tombstone dir unit gen tok asserted operator)"
      unfolding clear_process_tombstone_def ensure_unit_dir_def using ne
      by (auto split: option.split sum.split dir_kind.split intro!: keeps_if keeps_ebind keeps_pure keeps_emod
          keeps_durable_step simp: tomb_def)
    from keeps_run [OF this assms] show ?thesis by simp
  qed
  from assms show ?thesis
  proof (cases rule: clear_cases)
    case refused
    with others show ?thesis by (cases "u = dir") (auto simp: tomb_def)
  next
    case (matched d w1)
    with clear_matched_others [OF matched(8)] others show ?thesis
      by (cases "u = dir") (auto simp: tomb_def)
  qed
qed

lemma no_launch_budget: "no_launch v w w' \<Longrightarrow> budget u w' \<le> budget u w"
  using launch_ok_budget(1) no_launch_ok by blast

lemma fleet_op_budget:
  "budget u (fleet_op_run op w) \<le> budget u w + (if tomb u w \<and> \<not> tomb u (fleet_op_run op w) then 1 else 0)"
proof (cases op)
  case (Pass ans policy specs)
  have "budget u (fleet_op_run op w) \<le> budget u w"
    unfolding Pass fleet_op_run.simps
    by (rule kit.reconcile_all_budget(1)) (rule surjective_pairing)
  then show ?thesis by simp
next
  case (Heartbeat v hb)
  have "no_launch v w (fleet_op_run op w)"
    unfolding Heartbeat fleet_op_run.simps
    by (rule keepsD [OF keeps_merge_heartbeat]) (simp add: no_launch_def)
  from no_launch_budget [OF this, of u] show ?thesis by simp
next
  case (Desire v d)
  have "no_launch v w (fleet_op_run op w)"
    unfolding Desire fleet_op_run.simps
    by (rule keepsD [OF keeps_set_desired]) (simp add: no_launch_def)
  from no_launch_budget [OF this, of u] show ?thesis by simp
next
  case (Clear dir v gen tok asserted operator)
  from clear_keeps [of dir v gen tok asserted operator w "fst (clear_process_tombstone dir v gen tok asserted operator w)"
      "fleet_op_run op w" u] Clear
  show ?thesis by (auto simp: budget_def n_launches_def)
next
  case (Restart p)
  then show ?thesis by (simp add: budget_def n_launches_def tomb_def)
qed

text \<open>
  C1. At most one launch per clearance: over any sequence of reconciler passes, heartbeats, changes
  of desired state, clearances and supervisor restarts, whatever the system, the children and the
  disk answer, a unit is started at most once more than operators cleared its tombstone, and not
  even once if it had a tombstone at the start.
\<close>

theorem one_launch_per_clearance:
  "n_launches u (fleet_run ops w) \<le> n_launches u w + (if tomb u w then 0 else 1) + clearances u ops w"
proof -
  have "budget u (fleet_run ops w) \<le> budget u w + clearances u ops w"
  proof (induction ops arbitrary: w)
    case (Cons op ops)
    from Cons [of "fleet_op_run op w"] fleet_op_budget [of u op w] show ?case by (simp split: if_splits)
  qed simp
  then show ?thesis by (simp add: budget_def split: if_splits)
qed

section \<open>Heartbeats\<close>

lemma map_of_dict_update_filter:
  "k \<in> set core \<Longrightarrow> map_of (dict_update d (filter (\<lambda>(k, _). k \<notin> set core) e)) k = map_of d k"
  by (rule map_of_dict_update_notin) (auto simp: dict_keys_def)

lemma load_state_run: "load_state schema u w = (r, w') \<Longrightarrow> w' = w"
  by (auto simp: load_state_def eff_defs split: sum.splits)


section \<open>The outcome of a pass over one unit\<close>

lemma observe_run: "observe_actual u w = (r, w') \<Longrightarrow> w' = w \<and>
    (\<forall>a. r = Inr a \<longrightarrow> (a = ''stopped'' \<longleftrightarrow> \<not> tomb u w))"
proof -
  assume run: "observe_actual u w = (r, w')"
  show ?thesis
  proof (cases "lstat (pid_entry (unit_dirs w u))")
    case (Inl x)
    with run lstat_not_found [OF Inl] show ?thesis
      by (auto simp: observe_actual_def eff_defs tomb_def split: sum.splits if_splits)
  next
    case (Inr b)
    then have "tomb u w" by (auto simp: tomb_def)
    with run Inr show ?thesis by (auto simp: observe_actual_def eff_defs split: sum.splits)
  qed
qed

text \<open>What a pass that returns went through.\<close>

lemma reconcile_unit_Inr:
  assumes "reconcile_unit schema fr spawn_a stop_a policy sp w = (Inr res, w')"
  obtains w1 st0 want actual where "enter_unit (sp_unit sp) w = (Inr (), w1)"
    "load_state schema (sp_unit sp) w1 = (Inr st0, w1)" "policy st0 = Inr want"
    "actual = ''stopped'' \<longleftrightarrow> \<not> tomb (sp_unit sp) w1"
    "(if actual \<noteq> ''stopped'' then reconcile_tombstone fr stop_a (sp_unit sp) (AList.update ''actual'' (JStr actual) st0) want actual
      else if want then reconcile_spawn fr spawn_a sp (sp_unit sp) (AList.update ''actual'' (JStr actual) st0)
      else reconcile_stopped fr (sp_unit sp) (AList.update ''actual'' (JStr actual) st0)) w1 = (Inr res, w')"
proof -
  let ?u = "sp_unit sp"
  from assms obtain w1 st0 w2 want w3 actual w4 where e: "enter_unit ?u w = (Inr (), w1)"
    and l: "load_state schema ?u w1 = (Inr st0, w2)" and p: "elift (policy st0) w2 = (Inr want, w3)"
    and ob: "observe_actual ?u w3 = (Inr actual, w4)"
    and rest: "(if actual \<noteq> ''stopped'' then reconcile_tombstone fr stop_a ?u (AList.update ''actual'' (JStr actual) st0) want actual
      else if want then reconcile_spawn fr spawn_a sp ?u (AList.update ''actual'' (JStr actual) st0)
      else reconcile_stopped fr ?u (AList.update ''actual'' (JStr actual) st0)) w4 = (Inr res, w')"
    unfolding reconcile_unit_def Let_def by (elim ebind_InrE) (simp only: unit_all_eq1)
  have "w2 = w1" using load_state_run [OF l] .
  moreover have "w3 = w2" "policy st0 = Inr want" using p by (simp_all add: elift_Inr)
  moreover have "w4 = w3" "actual = ''stopped'' \<longleftrightarrow> \<not> tomb ?u w3" using observe_run [OF ob] by auto
  ultimately show thesis using that e l rest by simp
qed

lemma enter_unit_tomb: "enter_unit u w = (r, w1) \<Longrightarrow> tomb u w1 = tomb u w \<and> launches w1 = launches w \<and>
    state_entry (unit_dirs w1 u) = state_entry (unit_dirs w u)"
  by (cases "dir_kind (unit_dirs w u)")
    (auto simp: enter_unit_def ensure_unit_dir_def eff_defs tomb_def split: sum.splits)

lemma outcome_of_Inr: "outcome_of fr u st actual pid alv reason w = (Inr res, w') \<Longrightarrow>
    w' = w \<and> ro_action res = ''noop'' \<and> ro_degraded res = reason"
  by (auto simp: outcome_of_def run_Inr elim!: ebind_InrE)

lemma save_state_Inr: "save_state u st w = (Inr v, w') \<Longrightarrow>
    state_entry (unit_dirs w' u) = File (Json (JObj st)) \<and> launches w' = launches w"
  unfolding save_state_def write_state_def write_doc_def by (auto elim!: durable_step_cases)

context process_actions
begin

lemma tombstone_outcome:
  assumes "reconcile_tombstone fr stop_a u st want actual w = (Inr res, w')"
  shows "ro_action res = ''noop'' \<and> ro_degraded res = Some tombstone_reason \<and> launches w' = launches w \<and>
    (\<exists>d. state_entry (unit_dirs w' u) = File (Json (JObj d)) \<and>
       map_of d ''operator_verification_required'' = Some (JBool True))"
proof -
  let ?st1 = "AList.update ''operator_verification_required'' (JBool True)
                  (AList.update ''degraded_reason'' (JStr tombstone_reason) st)"
  let ?m = "if want then eret ?st1
             else etry (\<lambda>x. instance_of x ProcessTombstoneError)
               (ebind (stop_a u) (\<lambda>res.
                eret (if st_signalled res then AList.update ''stop_requested'' (JBool True) ?st1 else ?st1)))
               (\<lambda>_. eret ?st1)"
  from assms obtain st2 w1 v w2 where m: "?m w = (Inr st2, w1)" and sv: "save_state u st2 w1 = (Inr v, w2)"
    and out: "outcome_of fr u st2 actual (as_int (dict_get st2 ''pid'' JNull)) (actual = ''running'') (Some tombstone_reason) w2 = (Inr res, w')"
    unfolding reconcile_tombstone_def Let_def by (elim ebind_InrE) blast
  have "keeps (no_launch u w) (reconcile_tombstone fr stop_a u st want actual)"
    by (rule keeps_tombstone_branch)
  from keeps_run [OF this assms] have "launches w' = launches w" by (simp add: no_launch_def)
  moreover have "st2 = ?st1 \<or> st2 = AList.update ''stop_requested'' (JBool True) ?st1"
    using m by (auto simp: etry_def ebind_def eret_def split: if_splits prod.splits sum.splits)
  then have "map_of st2 ''operator_verification_required'' = Some (JBool True)" by auto
  ultimately show ?thesis using outcome_of_Inr [OF out] save_state_Inr [OF sv] by auto
qed

lemma spawn_outcome:
  assumes "reconcile_spawn fr spawn_a sp u st w = (Inr res, w')" "ro_action res = ''spawned''"
  shows "launched u w w' \<and> generation_of st = Inr (ro_generation res - 1) \<and>
    (\<exists>d. state_entry (unit_dirs w' u) = File (Json (JObj d)) \<and> map_of d ''generation'' = Some (JInt (ro_generation res)) \<and>
       map_of d ''operator_verification_required'' = Some (JBool (\<not> ro_alive res)))"
proof -
  from assms(1) obtain g w1 r w2 where g: "elift (generation_of st) w = (Inr g, w1)"
    and tried: "etry (\<lambda>x. instance_of x ProcessTombstoneError)
         (ebind (spawn_a sp (g + 1) u) (\<lambda>res. eret (Some res))) (\<lambda>_. eret None) w1 = (Inr r, w2)"
    and rest: "(case r of None \<Rightarrow>
         ebind (save_state u (dict_update st [(''actual'', JStr ''unknown''), (''degraded_reason'', JStr tombstone_reason),
                    (''operator_verification_required'', JBool True)]))
          (\<lambda>_. outcome_of fr u (dict_update st [(''actual'', JStr ''unknown''), (''degraded_reason'', JStr tombstone_reason),
                    (''operator_verification_required'', JBool True)]) ''unknown'' None False (Some tombstone_reason))
     | Some res \<Rightarrow>
         ebind (save_state u (spawned_state st (g + 1) res)) (\<lambda>_. ebind (elift (desired_text fr (spawned_state st (g + 1) res))) (\<lambda>d.
         eret \<lparr>ro_unit = u, ro_action = ''spawned'', ro_desired = d,
           ro_actual = (if sr_alive res then ''running'' else ''unknown''), ro_generation = g + 1,
           ro_pid = Some (sr_pid res), ro_alive = sr_alive res,
           ro_degraded = (if sr_alive res then None else Some leader_exited)\<rparr>))) w2 = (Inr res, w')"
    unfolding reconcile_spawn_def Let_def by (elim ebind_InrE) blast
  from g have w1: "w1 = w" "generation_of st = Inr g" by (auto simp: elift_Inr)
  from rest assms(2) obtain sr where r: "r = Some sr"
    by (cases r) (auto elim!: ebind_InrE dest: outcome_of_Inr)
  from tried r w1 have sa: "spawn_a sp (g + 1) u w = (Inr sr, w2)"
    by (auto simp: etry_def ebind_def eret_def split: if_splits prod.splits sum.splits)
  have l: "launched u w w2" by (rule triple_Inr [OF spawn_launches _ sa]) simp
  from rest r obtain v where sv: "save_state u (spawned_state st (g + 1) sr) w2 = (Inr v, w')"
    and res: "ro_generation res = g + 1" "ro_alive res = sr_alive sr"
    by (auto simp: run_Inr elim!: ebind_InrE)
  have "keeps (no_launch u w2) (save_state u (spawned_state st (g + 1) sr))" by (rule keeps_save)
  from keeps_run [OF this sv] have "no_launch u w2 w'" by (simp add: no_launch_def)
  with l have "launched u w w'" by (auto simp: launched_def no_launch_def others_same_def)
  with save_state_Inr [OF sv] w1 res show ?thesis
    by (auto simp: spawned_state_def Let_def)
qed

end


section \<open>The supervisor lock around a pass\<close>

lemma keeps_owns_lock_all:
  "keeps owns_lock (reconcile_all schema fr (default_spawn_action ans environ dumps fd) default_stop_action policy specs)"
  unfolding reconcile_all_def
proof (rule keeps_emap, rule keeps_runI)
  fix sp w r w'
  assume run: "reconcile_unit schema fr (default_spawn_action ans environ dumps fd) default_stop_action policy sp w = (r, w')"
    and "owns_lock w"
  have "launch_ok (sp_unit sp) w w'"
    by (rule keeps_run [OF kit.keeps_reconcile run]) simp
  with \<open>owns_lock w\<close> show "owns_lock w'"
    by (simp add: launch_ok_def others_same_def owns_lock_def)
qed


section \<open>Two flaws\<close>

definition demo_policy :: "state_doc \<Rightarrow> exc + bool" where
  "demo_policy = honor_desired_state"

text \<open>
  The reconciler-owned operator flag can be withdrawn by a worker: after a pass has recorded that
  an operator must verify the unit, a heartbeat of the current generation resets the flag while the
  tombstone still stands.
\<close>

theorem heartbeat_clears_operator_flag:
  "let w = fleet_run [Pass (\<lambda>_ _. demo_answers) demo_policy [demo_spec],
       Heartbeat ''u'' [(''generation'', JInt 0), (''operator_verification_required'', JBool False)]]
       (demo_fleet Missing demo_tombstone)
   in tomb ''u'' w \<and> (case state_entry (unit_dirs w ''u'') of File (Json (JObj d)) \<Rightarrow>
     map_of d ''degraded_reason'' = Some (JStr tombstone_reason) \<and>
     map_of d ''operator_verification_required'' = Some (JBool False) | _ \<Rightarrow> False)"
  unfolding tomb_def by code_simp

text \<open>
  A stale degradation: after a clearance, a pass starts the unit again and reports it alive with
  no degradation, but the persisted state still carries the degradation of the earlier pass.
\<close>

theorem degraded_reason_outlives_clearance:
  "let w = fleet_run [Desire ''u'' ''enabled'', Pass (\<lambda>_ _. demo_answers) demo_policy [demo_spec],
       Clear ''u'' ''u'' 1 ''tok'' True ''op'', Pass (\<lambda>_ _. demo_answers) demo_policy [demo_spec]]
       (demo_fleet Missing demo_tombstone)
   in length (launches w) = 1 \<and> (case state_entry (unit_dirs w ''u'') of File (Json (JObj d)) \<Rightarrow>
     map_of d ''actual'' = Some (JStr ''running'') \<and>
     map_of d ''degraded_reason'' = Some (JStr tombstone_reason) | _ \<Rightarrow> False)"
  by code_simp

section \<open>Witnesses\<close>

abbreviation demo_spawn_action :: spawn_action where
  "demo_spawn_action \<equiv> default_spawn_action (\<lambda>_ _. demo_answers) [] (\<lambda>_. '''') ''3''"

definition want_all :: "state_doc \<Rightarrow> exc + bool" where
  "want_all st = Inr True"

lemma demo_merge: "(case (load_state 1 ''u'' (demo_fleet Missing Missing),
      merge_heartbeat 1 ''u'' [(''generation'', JInt 4), (''desired'', JStr ''enabled'')] (demo_fleet Missing Missing)) of
    ((r, _), (r', _)) \<Rightarrow> (isl r, isl r')) = (False, False)"
  by code_simp


lemma demo_reconcile: "(case reconcile_unit 1 (\<lambda>_. '''') demo_spawn_action default_stop_action want_all demo_spec (demo_fleet Missing Missing) of
    (Inl _, _) \<Rightarrow> None | (Inr res, _) \<Rightarrow> Some (ro_action res)) = Some ''spawned''"
  by code_simp



end
