(* ===== verification/ControlPlane.thy ===== *)
theory ControlPlane
  imports ReconcilerProps
begin

text \<open>
  \<^verbatim>\<open>WorkerControlPlane\<close> (\<^verbatim>\<open>fleet/control.py\<close>): observation and desired-state control of a declared
  fleet, and \<^verbatim>\<open>FleetHost\<close> (\<^verbatim>\<open>fleet/host.py\<close>): consumer-driven passes under the supervisor lock.
\<close>

section \<open>The control plane\<close>

record unit_observation =
  ob_unit :: string
  ob_desired :: string
  ob_actual :: string
  ob_generation :: int
  ob_pid :: "int option"
  ob_heartbeat :: state_doc

definition require_unit :: "string list \<Rightarrow> string \<Rightarrow> unit weff" where
  "require_unit units u = (if u \<in> set units then eret () else eraise (Exc KeyError (repr_str u)))"

text \<open>The live leader, when the tombstone names one that can be probed.\<close>

definition probe_leader :: "string \<Rightarrow> int option weff" where
  "probe_leader u = ebind
     (etry (\<lambda>x. caught_by x [FileNotFoundError, OSError])
       (ebind (liveness pid_alive u) (\<lambda>l. eret (Some l))) (\<lambda>_. eret None)) (\<lambda>live.
     eret (case live of None \<Rightarrow> None
       | Some l \<Rightarrow> if lv_state l = ''running'' then Some (lv_pid l) else None))"

definition observe_process :: "string \<Rightarrow> (string \<times> int option) weff" where
  "observe_process u =
     ebind (eget (\<lambda>w. lstat (pid_entry (unit_dirs w u)))) (\<lambda>r. case r of
       Inl x \<Rightarrow> if instance_of x FileNotFoundError then eret (''stopped'', None)
         else if instance_of x OSError then eret (''unknown'', None) else eraise x
     | Inr _ \<Rightarrow> ebind (probe_leader u) (\<lambda>p. eret (case p of
         None \<Rightarrow> (''unknown'', None) | Some pid \<Rightarrow> (''running'', Some pid))))"

definition observe_unit :: "int \<Rightarrow> (rat \<Rightarrow> string) \<Rightarrow> string list \<Rightarrow> string \<Rightarrow> unit_observation weff" where
  "observe_unit schema fr units u =
     ebind (require_unit units u) (\<lambda>_.
     ebind (load_state schema u) (\<lambda>state.
     ebind (observe_process u) (\<lambda>(actual, pid).
     ebind (elift (desired_text fr state)) (\<lambda>d.
     ebind (elift (generation_of state)) (\<lambda>g.
     eret \<lparr>ob_unit = u, ob_desired = d, ob_actual = actual, ob_generation = g, ob_pid = pid,
       ob_heartbeat = filter (\<lambda>(k, _). k \<notin> set core_state_keys) state\<rparr>)))))"

definition observe_fleet :: "int \<Rightarrow> (rat \<Rightarrow> string) \<Rightarrow> string list \<Rightarrow> unit_observation list weff" where
  "observe_fleet schema fr units = emap (observe_unit schema fr units) units"

definition control_desired :: "int \<Rightarrow> string list \<Rightarrow> string \<Rightarrow> string \<Rightarrow> state_doc weff" where
  "control_desired schema units desired u =
     ebind (require_unit units u) (\<lambda>_. set_desired schema u desired)"

definition cp_pause :: "int \<Rightarrow> string list \<Rightarrow> string \<Rightarrow> state_doc weff" where
  "cp_pause schema units = control_desired schema units ''paused''"

definition cp_resume :: "int \<Rightarrow> string list \<Rightarrow> string \<Rightarrow> state_doc weff" where
  "cp_resume schema units = control_desired schema units ''enabled''"

definition cp_enable :: "int \<Rightarrow> string list \<Rightarrow> string \<Rightarrow> state_doc weff" where
  "cp_enable schema units = control_desired schema units ''enabled''"

definition cp_disable :: "int \<Rightarrow> string list \<Rightarrow> string \<Rightarrow> state_doc weff" where
  "cp_disable schema units = control_desired schema units ''disabled''"

text \<open>Observation reads only: every step of it leaves the world as it was.\<close>

lemma keeps_liveness: "keeps I (liveness probe u)"
  unfolding liveness_def
  by (auto split: option.split json.split intro!: keeps_ebind keeps_pure)

lemma keeps_probe_leader: "keeps I (probe_leader u)"
  unfolding probe_leader_def by (intro keeps_ebind keeps_etry keeps_liveness keeps_pure)

lemma keeps_observe_process: "keeps I (observe_process u)"
  unfolding observe_process_def
  by (auto split: sum.split intro!: keeps_ebind keeps_if keeps_pure keeps_probe_leader)

lemma keeps_observe_unit: "keeps I (observe_unit schema fr units u)"
  unfolding observe_unit_def require_unit_def split_beta
  by (intro keeps_ebind keeps_if keeps_pure keeps_load keeps_observe_process)

lemma read_only: "keeps (\<lambda>v. v = w) m \<Longrightarrow> m w = (r, w') \<Longrightarrow> w' = w"
  by (drule keeps_run) auto

lemma observe_process_Inr:
  assumes "observe_process u w = (Inr (actual, pid), w')"
  shows "(actual = ''stopped'' \<longleftrightarrow> \<not> tomb u w) \<and> (pid \<noteq> None \<longleftrightarrow> actual = ''running'') \<and>
    (\<forall>p. pid = Some p \<longrightarrow> pid_alive w p)"
proof (cases "lstat (pid_entry (unit_dirs w u))")
  case (Inl x)
  with assms lstat_not_found [OF Inl] show ?thesis
    by (auto simp: observe_process_def ebind_def eget_def eret_def eraise_def tomb_def split: if_splits)
next
  case (Inr b)
  then have t: "tomb u w" by (auto simp: tomb_def)
  from Inr assms obtain p where p: "probe_leader u w = (Inr p, w')"
    and res: "(actual, pid) = (case p of None \<Rightarrow> (''unknown'', None) | Some pid \<Rightarrow> (''running'', Some pid))"
    by (auto simp: observe_process_def run_Inr elim!: ebind_InrE)
  have "\<forall>q. p = Some q \<longrightarrow> pid_alive w q"
  proof (intro allI impI)
    fix q assume q: "p = Some q"
    with p obtain l where l: "liveness pid_alive u w = (Inr l, w')" "lv_state l = ''running''" "lv_pid l = q"
      by (auto simp: probe_leader_def etry_def ebind_def eret_def split: prod.splits sum.splits if_splits)
    then show "pid_alive w q"
      by (auto simp: liveness_def run_Inr elim!: ebind_InrE split: option.splits json.splits if_splits)
  qed
  with t res show ?thesis by (cases p) auto
qed

text \<open>
  The control plane observes without acting: \<^verbatim>\<open>observe_unit\<close> changes nothing; it reports
  \<^verbatim>\<open>stopped\<close> exactly when the unit has no tombstone, a pid exactly when it reports \<^verbatim>\<open>running\<close>, and
  then a live one; and the heartbeat it hands on holds no key of the reconciler's core.
\<close>

theorem observe_unit_sound:
  assumes "observe_unit schema fr units u w = (Inr ob, w')"
  shows "w' = w \<and> u \<in> set units \<and> (ob_actual ob = ''stopped'' \<longleftrightarrow> \<not> tomb u w) \<and>
    (ob_pid ob \<noteq> None \<longleftrightarrow> ob_actual ob = ''running'') \<and> (\<forall>p. ob_pid ob = Some p \<longrightarrow> pid_alive w p) \<and>
    (\<forall>k \<in> set core_state_keys. map_of (ob_heartbeat ob) k = None)"
proof -
  from assms obtain state w1 actual pid w2 where req: "u \<in> set units"
    and l: "load_state schema u w = (Inr state, w1)" and pr: "observe_process u w1 = (Inr (actual, pid), w2)"
    and ob: "ob_actual ob = actual" "ob_pid ob = pid"
      "ob_heartbeat ob = filter (\<lambda>(k, _). k \<notin> set core_state_keys) state"
    by (auto simp: observe_unit_def require_unit_def run_Inr elim!: ebind_InrE split: if_splits)
  have "w1 = w" by (rule load_state_run [OF l])
  moreover have "w' = w" by (rule read_only [OF keeps_observe_unit assms])
  moreover have "\<forall>k \<in> set core_state_keys. map_of (ob_heartbeat ob) k = None"
    using ob(3) by (auto simp: dict_keys_def)
  ultimately show ?thesis using req observe_process_Inr [OF pr] ob by auto
qed

section \<open>The fleet host\<close>

text \<open>The consumer's callbacks are computations on the world, the units opaque.\<close>

record ('t, 'r, 'a) fleet_host =
  fh_path :: string
  fh_units :: "'t list"
  fh_admit :: "'t list \<Rightarrow> 'a weff"
  fh_reconcile :: "'t \<Rightarrow> 'r weff"
  fh_payload :: "state_doc weff option"
  fh_sleep :: "rat \<Rightarrow> unit weff"

definition reconcile_pass :: "('t, 'r, 'a) fleet_host \<Rightarrow> ('a \<times> 'r list) weff" where
  "reconcile_pass h =
     ebind (fh_admit h (fh_units h)) (\<lambda>admission.
     ebind (emap (fh_reconcile h) (fh_units h)) (\<lambda>results. eret (admission, results)))"

definition host_acquire :: "(rat \<Rightarrow> string) \<Rightarrow> ('t, 'r, 'a) fleet_host \<Rightarrow> state_doc weff" where
  "host_acquire fr h =
     ebind (case fh_payload h of None \<Rightarrow> eret [] | Some p \<Rightarrow> p) (\<lambda>payload.
     acquire_lock fr (fh_path h) payload)"

definition host_run_once :: "(rat \<Rightarrow> string) \<Rightarrow> ('t, 'r, 'a) fleet_host \<Rightarrow> ('a \<times> 'r list) weff" where
  "host_run_once fr h =
     ebind (host_acquire fr h) (\<lambda>_. efinally (reconcile_pass h) (ebind release_lock (\<lambda>_. eret ())))"

definition host_turn :: "('t, 'r, 'a) fleet_host \<Rightarrow> rat \<Rightarrow> ('a \<times> 'r list \<Rightarrow> unit weff) option \<Rightarrow>
    bool weff option \<Rightarrow> world \<Rightarrow> world + ((exc + unit) \<times> world)" where
  "host_turn h interval on_pass stop_condition w =
     (case ebind (reconcile_pass h) (\<lambda>completed.
           ebind (case on_pass of None \<Rightarrow> eret () | Some f \<Rightarrow> f completed) (\<lambda>_.
           ebind (case stop_condition of None \<Rightarrow> eret False | Some c \<Rightarrow> c) (\<lambda>ended.
           if ended then eret True else ebind (fh_sleep h interval) (\<lambda>_. eret False)))) w of
        (Inl x, w') \<Rightarrow> Inr (Inl x, w')
      | (Inr ended, w') \<Rightarrow> if ended then Inr (Inr (), w') else Inl w')"

definition host_serve :: "(rat \<Rightarrow> string) \<Rightarrow> ('t, 'r, 'a) fleet_host \<Rightarrow> rat \<Rightarrow>
    ('a \<times> 'r list \<Rightarrow> unit weff) option \<Rightarrow> bool weff option \<Rightarrow> world \<Rightarrow> ((exc + unit) \<times> world) option" where
  "host_serve fr h interval on_pass stop_condition w =
     (if interval \<le> 0 then Some (Inl (Exc ValueError ''interval must be positive''), w)
      else (case host_acquire fr h w of
        (Inl x, w1) \<Rightarrow> Some (Inl x, w1)
      | (Inr _, w1) \<Rightarrow> map_option
          (\<lambda>(r, w2). efinally (\<lambda>w. (r, w)) (ebind release_lock (\<lambda>_. eret ())) w2)
          (iterate (host_turn h interval on_pass stop_condition) w1)))"

text \<open>Callbacks that leave the lock and the identity of the process alone\<close>

definition respects_lock :: "('t, 'r, 'a) fleet_host \<Rightarrow> ('a \<times> 'r list \<Rightarrow> unit weff) option \<Rightarrow> bool weff option \<Rightarrow> bool" where
  "respects_lock h on_pass stop_condition \<longleftrightarrow> (\<forall>us. keeps owns_lock (fh_admit h us)) \<and>
     (\<forall>u. keeps owns_lock (fh_reconcile h u)) \<and> (\<forall>d. keeps owns_lock (fh_sleep h d)) \<and>
     (\<forall>f c. on_pass = Some f \<longrightarrow> keeps owns_lock (f c)) \<and>
     (\<forall>c. stop_condition = Some c \<longrightarrow> keeps owns_lock c)"

lemma keeps_lock_pass: "respects_lock h f c \<Longrightarrow> keeps owns_lock (reconcile_pass h)"
  unfolding reconcile_pass_def
  by (intro keeps_ebind keeps_emap keeps_pure) (simp_all add: respects_lock_def)

lemma host_acquire_holds: "host_acquire fr h w = (Inr b, w1) \<Longrightarrow> owns_lock w1"
  by (auto simp: host_acquire_def elim!: ebind_InrE intro: supervisor.acquire_holds)

lemma release_at_end:
  assumes "owns_lock w" "efinally m (ebind release_lock (\<lambda>_. eret ())) w = (r, w')" "keeps owns_lock m"
  shows "lock_entry w' = Missing \<and> fst (m w) = r"
proof -
  obtain q v where m: "m w = (q, v)" by (cases "m w")
  from keeps_run [OF assms(3) m assms(1)] have "release_lock v = (Inr True, v\<lparr>lock_entry := Missing\<rparr>)"
    by (rule release_owned)
  with m assms(2) show ?thesis by (auto simp: efinally_def ebind_def eret_def)
qed


text \<open>
  \<^verbatim>\<open>serve\<close> holds the lock across its passes and frees it when it ends: by the stop condition, or
  by the first exception of a callback, which it hands on.
\<close>

theorem host_serve_releases:
  assumes "respects_lock h on_pass stop_condition" "host_acquire fr h w = (Inr b, w1)" "0 < interval"
    and "host_serve fr h interval on_pass stop_condition w = Some (r, w')"
  shows "lock_entry w' = Missing \<and> (stop_condition = None \<longrightarrow> (\<exists>x. r = Inl x))"
proof -
  let ?t = "host_turn h interval on_pass stop_condition"
  from assms(2-4) obtain q v where it: "iterate ?t w1 = Some (q, v)"
    and fin: "efinally (\<lambda>w. (q, w)) (ebind release_lock (\<lambda>_. eret ())) v = (r, w')"
    by (auto simp: host_serve_def)
  let ?m = "ebind (reconcile_pass h) (\<lambda>completed.
           ebind (case on_pass of None \<Rightarrow> eret () | Some f \<Rightarrow> f completed) (\<lambda>_.
           ebind (case stop_condition of None \<Rightarrow> eret False | Some c \<Rightarrow> c) (\<lambda>ended.
           if ended then eret True else ebind (fh_sleep h interval) (\<lambda>_. eret False))))"
  have turn: "?t u = (case ?m u of (Inl x, u') \<Rightarrow> Inr (Inl x, u')
      | (Inr ended, u') \<Rightarrow> if ended then Inr (Inr (), u') else Inl u')" for u
    by (simp add: host_turn_def)
  have keep: "keeps owns_lock ?m"
    using assms(1) unfolding respects_lock_def
    by (auto split: option.split intro!: keeps_ebind keeps_if keeps_pure keeps_lock_pass [OF assms(1)])
  have never: "stop_condition = None \<Longrightarrow> ?m u \<noteq> (Inr True, u')" for u u'
    by (auto simp: run_Inr elim!: ebind_InrE)
  have "case (q, v) of (q, v) \<Rightarrow> owns_lock v \<and> (stop_condition = None \<longrightarrow> q \<noteq> Inr ())"
  proof (rule iterate_rule [where I = owns_lock, OF it host_acquire_holds [OF assms(2)]])
    fix u u' assume "owns_lock u" and "?t u = Inl u'"
    then have "?m u = (Inr False, u')"
      unfolding turn by (auto split: prod.splits sum.splits if_splits)
    from keeps_run [OF keep this \<open>owns_lock u\<close>] show "owns_lock u'" .
  next
    fix u p assume own: "owns_lock u" and "?t u = Inr p"
    then obtain q0 u' where p: "p = (q0, u')" and m: "(\<exists>x. ?m u = (Inl x, u') \<and> q0 = Inl x) \<or> (?m u = (Inr True, u') \<and> q0 = Inr ())"
      unfolding turn by (cases p) (auto split: prod.splits sum.splits if_splits)
    then have "owns_lock u'" using keeps_run [OF keep _ own] by auto
    with p m never show "case p of (q, v) \<Rightarrow> owns_lock v \<and> (stop_condition = None \<longrightarrow> q \<noteq> Inr ())"
      by (auto simp del: eff_defs)
  qed
  then have "owns_lock v" "stop_condition = None \<Longrightarrow> q \<noteq> Inr ()" by auto
  with release_at_end [OF _ fin keeps_runI] show ?thesis by (cases q) auto
qed

section \<open>Witnesses\<close>

lemma demo_observe: "(case observe_unit 1 (\<lambda>_. '''') [''u''] ''u'' (demo_fleet Missing demo_tombstone) of
    (Inl _, _) \<Rightarrow> None | (Inr ob, _) \<Rightarrow> Some (ob_actual ob)) = Some ''unknown''"
  by code_simp

theorem observe_unit_sound_witness:
  "\<exists>ob. observe_unit 1 (\<lambda>_. '''') [''u''] ''u'' (demo_fleet Missing demo_tombstone) =
     (Inr ob, demo_fleet Missing demo_tombstone) \<and> ob_actual ob = ''unknown'' \<and> ob_pid ob = None"
proof -
  let ?w = "demo_fleet Missing demo_tombstone"
  obtain r w' where run: "observe_unit 1 (\<lambda>_. '''') [''u''] ''u'' ?w = (r, w')"
    by (cases "observe_unit 1 (\<lambda>_. '''') [''u''] ''u'' ?w")
  with demo_observe obtain ob where r: "r = Inr ob" "ob_actual ob = ''unknown''" by (cases r) auto
  from observe_unit_sound [OF run [unfolded r(1)]] run r show ?thesis by auto
qed

definition demo_fleet_host :: "bool \<Rightarrow> (nat, nat, unit) fleet_host" where
  "demo_fleet_host admits = \<lparr>fh_path = ''l'', fh_units = [1, 2],
     fh_admit = (\<lambda>_. if admits then eret () else eraise (Exc ValueError ''no'')), fh_reconcile = (\<lambda>u. eret (u + 10)),
     fh_payload = None, fh_sleep = (\<lambda>_. eret ())\<rparr>"

lemma demo_fleet_host_respects: "respects_lock (demo_fleet_host admits) None (Some (eret True))"
  "respects_lock (demo_fleet_host admits) None None"
  by (auto simp: respects_lock_def demo_fleet_host_def intro!: keeps_if keeps_pure)

lemma demo_fleet_host_acquires: "\<exists>b w1. host_acquire (\<lambda>_. '''') (demo_fleet_host admits) (demo_lock_world Missing []) = (Inr b, w1)"
proof -
  have "isl (fst (host_acquire (\<lambda>_. '''') (demo_fleet_host admits) (demo_lock_world Missing []))) = False"
    by code_simp
  then show ?thesis by (metis isl_def prod.collapse sum.exhaust_sel)
qed


theorem host_serve_releases_witness:
  "\<exists>r w'. host_serve (\<lambda>_. '''') (demo_fleet_host True) 5 None (Some (eret True)) (demo_lock_world Missing []) = Some (r, w') \<and>
     lock_entry w' = Missing"
proof -
  obtain b w1 where a: "host_acquire (\<lambda>_. '''') (demo_fleet_host True) (demo_lock_world Missing []) = (Inr b, w1)"
    using demo_fleet_host_acquires by blast
  have "host_turn (demo_fleet_host True) 5 None (Some (eret True)) w1 = Inr (Inr (), w1)"
    by (simp add: host_turn_def reconcile_pass_def demo_fleet_host_def eff_defs)
  then have "iterate (host_turn (demo_fleet_host True) 5 None (Some (eret True))) w1 = Some (Inr (), w1)"
    by (rule iterate_Inr)
  with a obtain r w' where run: "host_serve (\<lambda>_. '''') (demo_fleet_host True) 5 None (Some (eret True)) (demo_lock_world Missing []) = Some (r, w')"
    by (auto simp: host_serve_def intro: surjective_pairing)
  from host_serve_releases [OF demo_fleet_host_respects(1) a _ run] run show ?thesis by auto
qed

end
