(* ===== verification/ExecGate.thy ===== *)
theory ExecGate
  imports FleetWorld
begin

text \<open>
  The launch of one unit as a protocol between a supervisor (\<^verbatim>\<open>spawn\<close> and \<^verbatim>\<open>spawn_process\<close> of
  \<^verbatim>\<open>fleet/process.py\<close>) and the wrapper it starts (\<^verbatim>\<open>_exec_gate.py\<close>), step by step, with crashes of
  either at any point, restarts of the supervisor, and the operator's clearance. The sequential
  model of \<open>Process\<close> has the values; this one has the interleavings.
\<close>

section \<open>States\<close>

text \<open>\<^verbatim>\<open>pid.json\<close>, by the token it names; launches are numbered by their tokens.\<close>

datatype pid_doc = NoDoc | TornDoc nat | IntentDoc nat | RunningDoc nat

text \<open>Where the supervisor is in \<^verbatim>\<open>spawn\<close>; the token is chosen behind the fence.\<close>

datatype sup_pc =
    Outside | Fenced nat | Created nat | Intended nat | Started nat | Readied nat | Persisted nat
  | Acked nat | Dead

text \<open>
  A wrapper: not yet announced, waiting for the ACK, replaced by the worker, gone. \<open>kid_ack\<close>: an
  ACK was sent to it. \<open>kid_open\<close>: the supervisor still holds its end of the socket pair.
\<close>

datatype kid_pc = Unborn | Booting | Waiting | Worker | Gone

record gate =
  doc :: pid_doc
  sup :: sup_pc
  kid :: "nat \<Rightarrow> kid_pc"
  kid_ack :: "nat \<Rightarrow> bool"
  kid_open :: "nat \<Rightarrow> bool"
  next_token :: nat

definition gate_init :: gate where
  "gate_init = \<lparr>doc = NoDoc, sup = Outside, kid = (\<lambda>_. Unborn), kid_ack = (\<lambda>_. False),
     kid_open = (\<lambda>_. False), next_token = 0\<rparr>"

section \<open>Steps\<close>

text \<open>
  The supervisor is alone in \<^verbatim>\<open>spawn\<close>: the reconciler runs it under the unit lock, which the
  clearance takes too. An exception of the supervisor closes the channel, like its death.
\<close>

inductive gate_step :: "gate \<Rightarrow> gate \<Rightarrow> bool" where
  fence: "sup s = Outside \<Longrightarrow> doc s = NoDoc \<Longrightarrow>
    gate_step s (s\<lparr>sup := Fenced (next_token s), next_token := next_token s + 1\<rparr>)"
| create_doc: "sup s = Fenced t \<Longrightarrow> gate_step s (s\<lparr>sup := Created t, doc := TornDoc t\<rparr>)"
| write_intent: "sup s = Created t \<Longrightarrow> gate_step s (s\<lparr>sup := Intended t, doc := IntentDoc t\<rparr>)"
| popen: "sup s = Intended t \<Longrightarrow>
    gate_step s (s\<lparr>sup := Started t, kid := (kid s)(t := Booting), kid_open := (kid_open s)(t := True)\<rparr>)"
| announce: "kid s t = Booting \<Longrightarrow> gate_step s (s\<lparr>kid := (kid s)(t := Waiting)\<rparr>)"
| recv_ready: "sup s = Started t \<Longrightarrow> kid s t = Waiting \<Longrightarrow> gate_step s (s\<lparr>sup := Readied t\<rparr>)"
| persist: "sup s = Readied t \<Longrightarrow> gate_step s (s\<lparr>sup := Persisted t, doc := RunningDoc t\<rparr>)"
| send_ack: "sup s = Persisted t \<Longrightarrow>
    gate_step s (s\<lparr>sup := Acked t, kid_ack := (kid_ack s)(t := True), kid_open := (kid_open s)(t := False)\<rparr>)"
| exec_worker: "kid s t = Waiting \<Longrightarrow> kid_ack s t \<Longrightarrow> gate_step s (s\<lparr>kid := (kid s)(t := Worker)\<rparr>)"
| end_of_file: "kid s t = Waiting \<Longrightarrow> \<not> kid_ack s t \<Longrightarrow> \<not> kid_open s t \<Longrightarrow>
    gate_step s (s\<lparr>kid := (kid s)(t := Gone)\<rparr>)"
| kid_dies: "kid s t \<noteq> Unborn \<Longrightarrow> gate_step s (s\<lparr>kid := (kid s)(t := Gone)\<rparr>)"
| give_up: "sup s \<noteq> Dead \<Longrightarrow> gate_step s (s\<lparr>sup := Outside, kid_open := (\<lambda>_. False)\<rparr>)"
| crash: "gate_step s (s\<lparr>sup := Dead, kid_open := (\<lambda>_. False)\<rparr>)"
| restart: "sup s = Dead \<Longrightarrow> gate_step s (s\<lparr>sup := Outside\<rparr>)"
| operator_clears: "sup s \<in> {Outside, Dead} \<Longrightarrow> (\<forall>t. kid s t \<in> {Unborn, Gone}) \<Longrightarrow>
    gate_step s (s\<lparr>doc := NoDoc\<rparr>)"

inductive gate_reach :: "gate \<Rightarrow> bool" where
  at_start: "gate_reach gate_init"
| after_step: "gate_reach s \<Longrightarrow> gate_step s s' \<Longrightarrow> gate_reach s'"

section \<open>The invariant\<close>

definition live_kid :: "gate \<Rightarrow> nat \<Rightarrow> bool" where
  "live_kid s t \<longleftrightarrow> kid s t \<notin> {Unborn, Gone}"

text \<open>The document the supervisor has established at each point of \<^verbatim>\<open>spawn\<close>.\<close>

fun sup_doc :: "sup_pc \<Rightarrow> gate \<Rightarrow> bool" where
  "sup_doc (Fenced t) s = (doc s = NoDoc \<and> kid s t = Unborn \<and> t < next_token s)"
| "sup_doc (Created t) s = (doc s = TornDoc t \<and> kid s t = Unborn \<and> t < next_token s)"
| "sup_doc (Intended t) s = (doc s = IntentDoc t \<and> kid s t = Unborn \<and> t < next_token s)"
| "sup_doc (Started t) s = (doc s = IntentDoc t \<and> kid s t \<noteq> Unborn)"
| "sup_doc (Readied t) s = (doc s = IntentDoc t \<and> kid s t \<noteq> Unborn)"
| "sup_doc (Persisted t) s = (doc s = RunningDoc t \<and> kid s t \<noteq> Unborn)"
| "sup_doc (Acked t) s = (doc s = RunningDoc t)"
| "sup_doc _ s = True"

definition gate_inv :: "gate \<Rightarrow> bool" where
  "gate_inv s \<longleftrightarrow> sup_doc (sup s) s \<and>
     (\<forall>t. live_kid s t \<longrightarrow> doc s = IntentDoc t \<or> doc s = RunningDoc t) \<and>
     (\<forall>t. live_kid s t \<longrightarrow> kid_ack s t \<longrightarrow> doc s = RunningDoc t) \<and>
     (\<forall>t. kid s t = Worker \<longrightarrow> kid_ack s t) \<and> (\<forall>t. kid_ack s t \<longrightarrow> kid s t \<noteq> Unborn) \<and>
     (\<forall>t. next_token s \<le> t \<longrightarrow> kid s t = Unborn)"

lemma gate_inv_init: "gate_inv gate_init"
  by (simp add: gate_inv_def gate_init_def live_kid_def)

lemma sup_doc_kid: "sup_doc p s \<Longrightarrow> kid s t \<noteq> Unborn \<Longrightarrow> k \<noteq> Unborn \<Longrightarrow>
    sup_doc p (s\<lparr>kid := (kid s)(t := k)\<rparr>)"
  by (cases p) auto

lemma sup_doc_frame [simp]: "sup_doc p (s\<lparr>sup := q\<rparr>) = sup_doc p s"
  "sup_doc p (s\<lparr>kid_open := f\<rparr>) = sup_doc p s" "sup_doc p (s\<lparr>kid_ack := a\<rparr>) = sup_doc p s"
  by (cases p; simp)+

text \<open>The steps of the wrappers move one kid that has been started.\<close>

lemma kid_moves:
  assumes "gate_inv s" "kid s t \<noteq> Unborn" "k = Worker \<Longrightarrow> kid_ack s t"
    and "k \<noteq> Gone \<Longrightarrow> live_kid s t" "k \<noteq> Unborn"
  shows "gate_inv (s\<lparr>kid := (kid s)(t := k)\<rparr>)"
  using assms sup_doc_kid [of "sup s" s t k] unfolding gate_inv_def
  by (auto simp: live_kid_def)

lemma gate_inv_step:
  assumes step: "gate_step s s'" and inv: "gate_inv s"
  shows "gate_inv s'"
  using step
proof (cases rule: gate_step.cases)
  case fence
  with inv show ?thesis by (auto simp: gate_inv_def live_kid_def)
next
  case (create_doc t)
  with inv show ?thesis by (auto simp: gate_inv_def live_kid_def)
next
  case (write_intent t)
  with inv show ?thesis by (auto simp: gate_inv_def live_kid_def)
next
  case (popen t)
  with inv show ?thesis
    by (auto simp: gate_inv_def live_kid_def not_le)
next
  case (announce t)
  with kid_moves [OF inv, of t Waiting] show ?thesis by (simp add: live_kid_def)
next
  case (recv_ready t)
  with inv show ?thesis by (auto simp: gate_inv_def live_kid_def)
next
  case (persist t)
  with inv show ?thesis by (auto simp: gate_inv_def live_kid_def)
next
  case (send_ack t)
  with inv show ?thesis by (auto simp: gate_inv_def live_kid_def)
next
  case (exec_worker t)
  with kid_moves [OF inv, of t Worker] show ?thesis by (simp add: live_kid_def)
next
  case (end_of_file t)
  with kid_moves [OF inv, of t Gone] show ?thesis by simp
next
  case (kid_dies t)
  with kid_moves [OF inv, of t Gone] show ?thesis by simp
next
  case give_up
  with inv show ?thesis by (auto simp: gate_inv_def live_kid_def)
next
  case crash
  with inv show ?thesis by (auto simp: gate_inv_def live_kid_def)
next
  case restart
  with inv show ?thesis by (auto simp: gate_inv_def live_kid_def)
next
  case operator_clears
  with inv have "sup_doc (sup s) s'" by auto
  with operator_clears inv show ?thesis by (auto simp: gate_inv_def live_kid_def)
qed

lemma gate_reach_inv: "gate_reach s \<Longrightarrow> gate_inv s"
  by (induction rule: gate_reach.induct) (auto intro: gate_inv_init gate_inv_step)

section \<open>Properties\<close>

text \<open>
  C3. No work without provenance: in every state a fleet can reach, through crashes of supervisor
  and wrapper, restarts, and clearances of fully dead launches, a wrapper that has become the worker
  is the one \<^verbatim>\<open>pid.json\<close> names with its final record; so at most one worker of a unit ever runs.
\<close>

theorem worker_has_provenance:
  assumes "gate_reach s" "kid s t = Worker"
  shows "doc s = RunningDoc t \<and> (\<forall>u. kid s u = Worker \<longrightarrow> u = t)"
proof -
  have doc: "kid s u = Worker \<Longrightarrow> doc s = RunningDoc u" for u
    using gate_reach_inv [OF assms(1)] by (auto simp: gate_inv_def live_kid_def)
  from doc [OF assms(2)] doc show ?thesis by auto
qed

inductive gate_steps :: "gate \<Rightarrow> gate \<Rightarrow> bool" where
  stay: "gate_steps s s"
| go: "gate_step s t \<Longrightarrow> gate_steps t u \<Longrightarrow> gate_steps s u"

lemma gate_steps_reach: "gate_steps s t \<Longrightarrow> gate_reach s \<Longrightarrow> gate_reach t"
  by (induction rule: gate_steps.induct) (auto intro: after_step)

lemma abandoned_step:
  assumes "gate_step s s'" "gate_inv s" "sup s \<in> {Outside, Dead} \<or> (\<exists>u. u \<noteq> t \<and> sup s \<in> {Fenced u, Created u, Intended u, Started u, Readied u, Persisted u, Acked u})"
    and "t < next_token s" "\<not> kid_ack s t"
  shows "\<not> kid_ack s' t \<and> t < next_token s' \<and>
    (sup s' \<in> {Outside, Dead} \<or> (\<exists>u. u \<noteq> t \<and> sup s' \<in> {Fenced u, Created u, Intended u, Started u, Readied u, Persisted u, Acked u}))"
  using assms by (cases rule: gate_step.cases) auto

text \<open>
  C22. An abandoned launch never works: once the supervisor has left a launch without sending the
  ACK, by an exception or its death, the wrapper of that launch never becomes the worker, however
  the run goes on.
\<close>

theorem abandoned_launch_never_works:
  assumes "gate_steps s s'" "gate_reach s" "sup s \<in> {Outside, Dead}" "t < next_token s" "\<not> kid_ack s t"
  shows "kid s' t \<noteq> Worker"
proof -
  let ?away = "\<lambda>s. sup s \<in> {Outside, Dead} \<or> (\<exists>u. u \<noteq> t \<and> sup s \<in> {Fenced u, Created u, Intended u, Started u, Readied u, Persisted u, Acked u})"
  have "gate_inv s' \<and> \<not> kid_ack s' t"
    using assms(1) gate_reach_inv [OF assms(2)] assms(4,5) disjI1 [OF assms(3), of "\<exists>u. u \<noteq> t \<and> sup s \<in> {Fenced u, Created u, Intended u, Started u, Readied u, Persisted u, Acked u}"]
  proof (induction rule: gate_steps.induct)
    case (go s s1 s2)
    from abandoned_step [OF go.hyps(1) go.prems(1) go.prems(4) go.prems(2,3)]
      gate_inv_step [OF go.hyps(1) go.prems(1)] go.IH show ?case by blast
  qed simp
  then show ?thesis by (auto simp: gate_inv_def)
qed

section \<open>Witnesses\<close>

text \<open>A supervisor that dies before the ACK, and one that goes all the way.\<close>

definition gate_started :: gate where
  "gate_started = \<lparr>doc = IntentDoc 0, sup = Started 0, kid = (\<lambda>_. Unborn)(0 := Booting), kid_ack = (\<lambda>_. False),
     kid_open = (\<lambda>_. False)(0 := True), next_token = 1\<rparr>"

lemma gate_started_reach: "gate_reach gate_started"
proof -
  let ?s1 = "gate_init\<lparr>sup := Fenced 0, next_token := 1\<rparr>"
  let ?s2 = "?s1\<lparr>sup := Created 0, doc := TornDoc 0\<rparr>"
  let ?s3 = "?s2\<lparr>sup := Intended 0, doc := IntentDoc 0\<rparr>"
  have "gate_step gate_init ?s1" using gate_step.fence [of gate_init] by (simp add: gate_init_def)
  then have "gate_reach ?s1" by (rule after_step [OF at_start])
  moreover have "gate_step ?s1 ?s2" by (rule gate_step.create_doc) simp
  ultimately have "gate_reach ?s2" by (rule after_step)
  moreover have "gate_step ?s2 ?s3" by (rule gate_step.write_intent) simp
  ultimately have "gate_reach ?s3" by (rule after_step)
  moreover have "gate_step ?s3 gate_started"
    using gate_step.popen [of ?s3 0] by (simp add: gate_started_def gate_init_def)
  ultimately show ?thesis by (rule after_step)
qed

definition gate_working :: gate where
  "gate_working = \<lparr>doc = RunningDoc 0, sup = Acked 0, kid = (\<lambda>_. Unborn)(0 := Worker), kid_ack = (\<lambda>_. False)(0 := True),
     kid_open = (\<lambda>_. False)(0 := False), next_token = 1\<rparr>"

lemma gate_working_reach: "gate_reach gate_working"
proof -
  let ?s1 = "gate_started\<lparr>kid := (kid gate_started)(0 := Waiting)\<rparr>"
  let ?s2 = "?s1\<lparr>sup := Readied 0\<rparr>"
  let ?s3 = "?s2\<lparr>sup := Persisted 0, doc := RunningDoc 0\<rparr>"
  let ?s4 = "?s3\<lparr>sup := Acked 0, kid_ack := (kid_ack ?s3)(0 := True), kid_open := (kid_open ?s3)(0 := False)\<rparr>"
  have "gate_step gate_started ?s1" by (rule gate_step.announce) (simp add: gate_started_def)
  then have "gate_reach ?s1" by (rule after_step [OF gate_started_reach])
  moreover have "gate_step ?s1 ?s2" by (rule gate_step.recv_ready) (simp_all add: gate_started_def)
  ultimately have "gate_reach ?s2" by (rule after_step)
  moreover have "gate_step ?s2 ?s3" by (rule gate_step.persist) simp
  ultimately have "gate_reach ?s3" by (rule after_step)
  moreover have "gate_step ?s3 ?s4" by (rule gate_step.send_ack) simp
  ultimately have "gate_reach ?s4" by (rule after_step)
  moreover have "gate_step ?s4 gate_working"
    using gate_step.exec_worker [of ?s4 0] by (simp add: gate_started_def gate_working_def)
  ultimately show ?thesis by (rule after_step)
qed

theorem worker_has_provenance_witness:
  "gate_reach gate_working \<and> kid gate_working 0 = Worker \<and> doc gate_working = RunningDoc 0"
proof -
  have "kid gate_working 0 = Worker" by (simp add: gate_working_def)
  with worker_has_provenance [OF gate_working_reach this] gate_working_reach show ?thesis by blast
qed

theorem abandoned_launch_never_works_witness:
  "\<exists>s. gate_steps (gate_started\<lparr>sup := Dead, kid_open := (\<lambda>_. False)\<rparr>) s \<and> kid s 0 \<noteq> Worker"
proof -
  let ?d = "gate_started\<lparr>sup := Dead, kid_open := (\<lambda>_. False)\<rparr>"
  have r: "gate_reach ?d" by (rule after_step [OF gate_started_reach gate_step.crash])
  have "gate_step ?d (?d\<lparr>kid := (kid ?d)(0 := Waiting)\<rparr>)"
    by (rule gate_step.announce) (simp add: gate_started_def)
  then have st: "gate_steps ?d (?d\<lparr>kid := (kid ?d)(0 := Waiting)\<rparr>)" by (blast intro: gate_steps.intros)
  from abandoned_launch_never_works [OF st r, of 0] st show ?thesis
    by (auto simp: gate_started_def)
qed

section \<open>The wrapper's own code\<close>

text \<open>
  \<^verbatim>\<open>main\<close> of \<^verbatim>\<open>_exec_gate.py\<close> on the bytes it reads: how \<^verbatim>\<open>os.read\<close> cuts the stream into chunks
  is not up to the wrapper. An exhausted list is the end of file. \<open>loads\<close> is \<^verbatim>\<open>json.loads\<close>.
\<close>

datatype gate_end = GateRaise exc | GateExit int | GateExec string "string list" "(string, string) dict"

definition newline :: char where
  "newline = CHR 0x0A"

definition ends_line :: "string \<Rightarrow> bool" where
  "ends_line s \<longleftrightarrow> s \<noteq> [] \<and> last s = newline"

fun read_ack :: "(exc + string) list \<Rightarrow> string \<Rightarrow> exc + string option" where
  "read_ack rs ack =
     (if ends_line ack then Inr (Some ack)
      else case rs of
        [] \<Rightarrow> Inr None
      | Inl x # _ \<Rightarrow> Inl x
      | Inr chunk # rs' \<Rightarrow> if chunk = [] then Inr None else read_ack rs' (ack @ chunk))"

declare read_ack.simps [simp del]

text \<open>\<^verbatim>\<open>os.execvpe(command[0], command, os.environ)\<close>\<close>

fun exec_command :: "json \<Rightarrow> (string, string) dict \<Rightarrow> gate_end" where
  "exec_command (JList []) e = GateRaise (Exc IndexError ''list index out of range'')"
| "exec_command (JList (JStr f # args)) e =
     (if list_all (\<lambda>a. as_str a \<noteq> None) args then GateExec f (f # List.map (the \<circ> as_str) args) e
      else GateRaise (Exc TypeError ''expected str, bytes or os.PathLike object''))"
| "exec_command (JStr []) e = GateRaise (Exc IndexError ''string index out of range'')"
| "exec_command (JObj d) e = GateRaise (Exc KeyError ''0'')"
| "exec_command _ e = GateRaise (Exc TypeError ''execvpe: wrong type of command'')"

definition ack_line :: string where
  "ack_line = ''ACK'' @ [newline]"

text \<open>The second component says whether \<^verbatim>\<open>READY\<close> was announced.\<close>

definition exec_gate ::
  "(string \<Rightarrow> exc + json) \<Rightarrow> (string, string) dict \<Rightarrow> (exc + string) list \<Rightarrow> gate_end \<times> bool" where
  "exec_gate loads environ rs =
     (case map_of environ ''DATASOURCE_KIT_ACK_FD'' of
        None \<Rightarrow> (GateRaise (Exc KeyError (repr_str ''DATASOURCE_KIT_ACK_FD'')), False)
      | Some fd \<Rightarrow> (case py_int (JStr fd) of
          Inl x \<Rightarrow> (GateRaise x, False)
        | Inr _ \<Rightarrow> (case map_of environ ''DATASOURCE_KIT_EXEC_COMMAND'' of
            None \<Rightarrow> (GateRaise (Exc KeyError (repr_str ''DATASOURCE_KIT_EXEC_COMMAND'')), False)
          | Some text \<Rightarrow> (case loads text of
              Inl x \<Rightarrow> (GateRaise x, False)
            | Inr command \<Rightarrow>
                (case read_ack rs [] of
                   Inl x \<Rightarrow> GateRaise x
                 | Inr None \<Rightarrow> GateExit 0
                 | Inr (Some ack) \<Rightarrow>
                     if ack \<noteq> ack_line then GateExit 0
                     else exec_command command (AList.delete ''DATASOURCE_KIT_EXEC_COMMAND''
                            (AList.delete ''DATASOURCE_KIT_ACK_FD'' environ)), True)))))"

text \<open>The command a configured wrapper was given, when it can be executed at all.\<close>

definition configured :: "(string \<Rightarrow> exc + json) \<Rightarrow> (string, string) dict \<Rightarrow> string list \<Rightarrow> bool" where
  "configured loads environ args \<longleftrightarrow>
     (\<exists>fd n text. map_of environ ''DATASOURCE_KIT_ACK_FD'' = Some fd \<and> py_int (JStr fd) = Inr n \<and>
        map_of environ ''DATASOURCE_KIT_EXEC_COMMAND'' = Some text \<and>
        loads text = Inr (JList (List.map JStr args)) \<and> args \<noteq> [])"

lemma ends_line_Nil [simp]: "\<not> ends_line []"
  by (simp add: ends_line_def)

text \<open>The loop stops at the first chunk boundary behind a newline.\<close>

lemma read_ack_sound:
  "read_ack rs acc = Inr (Some ack) \<Longrightarrow> 
     \<exists>cs rest. rs = List.map Inr cs @ rest \<and> [] \<notin> set cs \<and> ack = acc @ concat cs"
proof (induction rs acc rule: read_ack.induct)
  case (1 rs acc)
  show ?case
  proof (cases "ends_line acc")
    case True
    with "1.prems" have "ack = acc" by (subst (asm) read_ack.simps) simp
    then show ?thesis by (intro exI [of _ "[]"] exI [of _ rs]) simp
  next
    case False
    with "1.prems" obtain c rs' where rs: "rs = Inr c # rs'" "c \<noteq> []" "read_ack rs' (acc @ c) = Inr (Some ack)"
      by (subst (asm) read_ack.simps) (auto split: list.splits sum.splits if_splits)
    from "1.IH" [OF False rs(1) refl rs(2,3)] obtain cs rest
      where "rs' = List.map Inr cs @ rest" "[] \<notin> set cs" "ack = (acc @ c) @ concat cs" by blast
    with rs show ?thesis by (intro exI [of _ "c # cs"] exI [of _ rest]) simp
  qed
qed

lemma read_ack_complete:
  assumes "[] \<notin> set cs" "\<And>p q. acc @ concat cs = p @ q \<Longrightarrow> q \<noteq> [] \<Longrightarrow> \<not> ends_line p"
    and "ends_line (acc @ concat cs)"
  shows "read_ack (List.map Inr cs @ rest) acc = Inr (Some (acc @ concat cs))"
  using assms
proof (induction cs arbitrary: acc)
  case (Cons c cs)
  from Cons.prems(1) have "c \<noteq> []" by auto
  with Cons.prems(2) [of acc "c @ concat cs"] have "\<not> ends_line acc" by simp
  moreover have "read_ack (List.map Inr cs @ rest) (acc @ c) = Inr (Some ((acc @ c) @ concat cs))"
    using Cons.prems by (intro Cons.IH) auto
  ultimately show ?case using \<open>c \<noteq> []\<close> by (subst read_ack.simps) simp
qed (subst read_ack.simps, simp)

lemma ack_line_prefixes: "ack_line = p @ q \<Longrightarrow> q \<noteq> [] \<Longrightarrow> \<not> ends_line p"
proof
  assume eq: "ack_line = p @ q" and q: "q \<noteq> []" and "ends_line p"
  then obtain p' where p: "p = p' @ [newline]" by (cases p rule: rev_cases) (auto simp: ends_line_def)
  from q obtain q' c where "q = q' @ [c]" by (cases q rule: rev_cases) auto
  with eq p have "''ACK'' = p' @ newline # q'" by (simp add: ack_line_def)
  moreover have "newline \<notin> set ''ACK''" by (simp add: newline_def)
  ultimately show False by simp
qed

lemma read_ack_iff:
  "read_ack rs [] = Inr (Some ack_line) \<longleftrightarrow>
     (\<exists>cs rest. rs = List.map Inr cs @ rest \<and> [] \<notin> set cs \<and> concat cs = ack_line)"
proof
  assume "\<exists>cs rest. rs = List.map Inr cs @ rest \<and> [] \<notin> set cs \<and> concat cs = ack_line"
  then obtain cs rest where "rs = List.map Inr cs @ rest" "[] \<notin> set cs" "concat cs = ack_line" by blast
  with read_ack_complete [of cs "[]" rest] ack_line_prefixes show "read_ack rs [] = Inr (Some ack_line)"
    by (simp add: ack_line_def ends_line_def)
qed (use read_ack_sound in fastforce)

lemma exec_command_GateExec:
  "exec_command c e = GateExec f args e' \<longleftrightarrow> c = JList (List.map JStr args) \<and> args \<noteq> [] \<and> f = hd args \<and> e' = e"
proof -
  have *: "list_all (\<lambda>a. as_str a \<noteq> None) js \<Longrightarrow> js = List.map JStr (List.map (the \<circ> as_str) js)" for js
  proof (induction js)
    case (Cons j js)
    then show ?case by (cases j) auto
  qed simp
  have **: "list_all (\<lambda>a. as_str a \<noteq> None) (List.map JStr as)"
      "List.map (the \<circ> as_str) (List.map JStr as) = as" for as
    by (induction as) auto
  show ?thesis
    using ** * by (cases "(c, e)" rule: exec_command.cases)
      (auto simp del: map_map simp: Cons_eq_map_conv split: if_splits)
qed

text \<open>
  C23. The wrapper replaces itself by the worker exactly when it was configured with a command and
  the bytes it reads, however they are cut into chunks, are the line \<^verbatim>\<open>ACK\<close>; it then executes
  exactly that command, without the two variables of the handshake in the environment.
\<close>

theorem exec_gate_needs_ack:
  "fst (exec_gate loads environ rs) = GateExec f args e \<longleftrightarrow>
     configured loads environ args \<and> f = hd args \<and>
     e = AList.delete ''DATASOURCE_KIT_EXEC_COMMAND'' (AList.delete ''DATASOURCE_KIT_ACK_FD'' environ) \<and>
     (\<exists>cs rest. rs = List.map Inr cs @ rest \<and> [] \<notin> set cs \<and> concat cs = ack_line)"
  unfolding read_ack_iff [symmetric] exec_gate_def configured_def
  by (auto simp: exec_command_GateExec simp del: map_of_None_keys split: option.splits sum.splits if_splits)

end
