(* ===== verification/Results.thy ===== *)
theory Results
  imports PyValues
begin

text \<open>
  \<^verbatim>\<open>results.py\<close>: cursors named by the consumer, their JSON form, and the outcomes of a worker with
  the helpers that build them. Arguments the code checks with \<^verbatim>\<open>isinstance\<close> are JSON values.
\<close>

section \<open>Cursors\<close>

definition require_text :: "json \<Rightarrow> string \<Rightarrow> exc + string" where
  "require_text v field = (case as_str v of
     None \<Rightarrow> Inl (Exc ValidationError (field @ '' must be a non-empty string''))
   | Some s \<Rightarrow> if blank s then Inl (Exc ValidationError (field @ '' must be a non-empty string''))
               else Inr s)"

record cursor =
  cur_kind :: string
  cur_value :: string

text \<open>\<^verbatim>\<open>Cursor(kind, value)\<close> with its \<^verbatim>\<open>__post_init__\<close>\<close>

definition make_cursor :: "json \<Rightarrow> json \<Rightarrow> exc + cursor" where
  "make_cursor kind val =
     sbind (require_text kind ''cursor kind'') (\<lambda>k.
     sbind (require_text val ''cursor value'') (\<lambda>v. Inr \<lparr>cur_kind = k, cur_value = v\<rparr>))"

definition cursor_as_dict :: "cursor \<Rightarrow> (string, json) dict" where
  "cursor_as_dict c = [(''kind'', JStr (cur_kind c)), (''value'', JStr (cur_value c))]"

definition cursor_from_mapping :: "(string, json) dict \<Rightarrow> exc + cursor" where
  "cursor_from_mapping raw =
     (let kind = dict_get raw ''kind'' JNull; val = dict_get raw ''value'' JNull in
      if as_str kind = None \<or> as_str val = None
      then Inl (Exc ValidationError ''Cursor requires kind and value strings'')
      else make_cursor kind val)"

definition cursor_wf :: "cursor \<Rightarrow> bool" where
  "cursor_wf c \<longleftrightarrow> \<not> blank (cur_kind c) \<and> \<not> blank (cur_value c)"

lemma require_text_Inr: "require_text v f = Inr s \<longleftrightarrow> v = JStr s \<and> \<not> blank s"
  by (auto simp: require_text_def as_str_Some split: option.splits)

lemma make_cursor_Inr:
  "make_cursor k v = Inr c \<longleftrightarrow> k = JStr (cur_kind c) \<and> v = JStr (cur_value c) \<and> cursor_wf c"
  by (auto simp: make_cursor_def sbind_Inr require_text_Inr cursor_wf_def)

lemma cursor_from_mapping_Inr:
  "cursor_from_mapping raw = Inr c \<longleftrightarrow>
     map_of raw ''kind'' = Some (JStr (cur_kind c)) \<and> map_of raw ''value'' = Some (JStr (cur_value c)) \<and> cursor_wf c"
  by (auto simp: cursor_from_mapping_def make_cursor_Inr dict_get_def Let_def
      simp del: map_of_None_keys split: option.splits if_splits)

text \<open>
  A cursor survives its JSON form: reading a mapping gives a cursor exactly when the mapping
  holds its two texts and the texts are not blank, and the form of a constructed cursor is such
  a mapping.
\<close>

theorem cursor_roundtrip:
  "(cursor_from_mapping raw = Inr c \<longleftrightarrow>
      map_of raw ''kind'' = Some (JStr (cur_kind c)) \<and> map_of raw ''value'' = Some (JStr (cur_value c)) \<and>
      (\<exists>k v. make_cursor k v = Inr c)) \<and>
   (cursor_from_mapping (cursor_as_dict c) = Inr c \<longleftrightarrow> (\<exists>k v. make_cursor k v = Inr c))"
  by (auto simp: cursor_from_mapping_Inr make_cursor_Inr cursor_as_dict_def)

section \<open>Worker results\<close>

record 'o worker_result =
  res_status :: string
  res_checkpoint :: "'o option"
  res_objects :: "'o list"
  res_cursor :: "cursor option"
  res_follow_up :: "(string, json) dict list"
  res_counts :: "(string, int) dict"
  res_reason :: string

definition make_result ::
  "json \<Rightarrow> 'o option \<Rightarrow> 'o list \<Rightarrow> cursor option \<Rightarrow> (string, json) dict list \<Rightarrow> (string, int) dict \<Rightarrow>
   string \<Rightarrow> exc + 'o worker_result" where
  "make_result status cp objects cur follow_up counts reason =
     sbind (require_text status ''status'') (\<lambda>st.
     Inr \<lparr>res_status = st, res_checkpoint = cp, res_objects = objects, res_cursor = cur,
          res_follow_up = follow_up, res_counts = counts, res_reason = reason\<rparr>)"

definition working_result ::
  "json \<Rightarrow> json \<Rightarrow> json \<Rightarrow> 'o option \<Rightarrow> 'o list \<Rightarrow> exc + 'o worker_result" where
  "working_result status cursor_kind cursor_value cp objects =
     sbind (require_text status ''status'') (\<lambda>st.
     sbind (make_cursor cursor_kind cursor_value) (\<lambda>c.
     make_result (JStr st) cp objects (Some c) [] [] []))"

definition blocked_result :: "json \<Rightarrow> json \<Rightarrow> exc + 'o worker_result" where
  "blocked_result status reason =
     sbind (require_text status ''status'') (\<lambda>st.
     sbind (require_text reason ''reason'') (\<lambda>r.
     make_result (JStr st) None [] None [] [] r))"

definition completed_result :: "json \<Rightarrow> 'o option \<Rightarrow> exc + 'o worker_result" where
  "completed_result status cp =
     sbind (require_text status ''status'') (\<lambda>st. make_result (JStr st) cp [] None [] [] [])"

text \<open>What each helper promises: a status that is not blank, and a cursor or a reason where it is due.\<close>

theorem results_are_complete:
  "working_result status k v cp objects = Inr w \<Longrightarrow>
     \<not> blank (res_status w) \<and> (\<exists>c. res_cursor w = Some c \<and> make_cursor k v = Inr c) \<and> res_checkpoint w = cp"
  "(blocked_result status reason :: exc + 'o worker_result) = Inr b \<Longrightarrow>
     \<not> blank (res_status b) \<and> \<not> blank (res_reason b) \<and> res_cursor b = None"
  "completed_result status cp = Inr d \<Longrightarrow>
     \<not> blank (res_status d) \<and> res_cursor d = None \<and> res_checkpoint d = cp"
  by (auto simp: working_result_def blocked_result_def completed_result_def make_result_def
      sbind_Inr require_text_Inr)

end
