(* ===== verification/Fetch.thy ===== *)
theory Fetch
  imports Results WorkerRuns
begin

text \<open>
  \<^verbatim>\<open>fetch.py\<close>: planners that walk units of work by cursors, and \<^verbatim>\<open>FetchIntent\<close>, the intent that
  runs them under \<^verbatim>\<open>WorkerHost\<close>. \<open>'a\<close> are the consumer's opaque units and payloads. The objects
  that reach the host are the consumer's, plans, result dictionaries and strings.
\<close>

section \<open>Objects\<close>

datatype 'a obj =
    NoObj | Text string | Opaque 'a
  | FetchPlan (plan_ref: "'a obj") (plan_cursor: cursor)
  | ResultDict "'a obj"

text \<open>What a checkpoint store gives back: a cursor kept in memory, or the value of a document.\<close>

datatype checkpoint_obj = CkCursor cursor | CkValue json

datatype sequence_order = FORWARD | REVERSE

definition parse_sequence_order :: "string \<Rightarrow> exc + sequence_order" where
  "parse_sequence_order s =
     (if s = ''forward'' then Inr FORWARD
      else if s = ''reverse'' then Inr REVERSE
      else Inl (Exc ValidationError ''order must be one of: forward, reverse''))"

definition require_plan :: "'a obj \<Rightarrow> exc + 'a obj" where
  "require_plan p = (case p of FetchPlan r c \<Rightarrow> Inr p | _ \<Rightarrow> Inl (Exc TypeError ''expected FetchPlan''))"

section \<open>SequencePlanner\<close>

record 'a sequence_planner =
  sq_kind :: string
  sq_encode :: "'a obj \<Rightarrow> exc + string"
  sq_units :: "'a obj list"
  sq_index :: "(string, nat) dict"

fun index_units ::
  "string \<Rightarrow> ('a obj \<Rightarrow> exc + string) \<Rightarrow> nat \<Rightarrow> 'a obj list \<Rightarrow> (string, nat) dict \<Rightarrow> exc + (string, nat) dict" where
  "index_units kind encode i [] d = Inr d"
| "index_units kind encode i (u # us) d =
     sbind (encode u) (\<lambda>v.
     sbind (make_cursor (JStr kind) (JStr v)) (\<lambda>_.
     if v \<in> set (dict_keys d) then Inl (Exc ValidationError (''duplicate cursor value '' @ repr_str v))
     else index_units kind encode (Suc i) us (AList.update v i d)))"

definition make_sequence_planner ::
  "'a obj list \<Rightarrow> json \<Rightarrow> ('a obj \<Rightarrow> exc + string) \<Rightarrow> string \<Rightarrow> exc + 'a sequence_planner" where
  "make_sequence_planner units kind encode order =
     sbind (parse_sequence_order order) (\<lambda>direction.
     let ordered = (if direction = REVERSE then rev units else units) in
     case as_str kind of
       None \<Rightarrow> Inl (Exc ValidationError ''cursor kind must be a non-empty string'')
     | Some k \<Rightarrow>
         if blank k then Inl (Exc ValidationError ''cursor kind must be a non-empty string'')
         else sbind (index_units k encode 0 ordered []) (\<lambda>ix.
              Inr \<lparr>sq_kind = k, sq_encode = encode, sq_units = ordered, sq_index = ix\<rparr>))"

definition require_kind :: "string \<Rightarrow> cursor \<Rightarrow> exc + unit" where
  "require_kind kind c =
     (if cur_kind c \<noteq> kind
      then Inl (Exc ValidationError (''cursor kind '' @ repr_str (cur_kind c) @
             '' does not match planner kind '' @ repr_str kind))
      else Inr ())"

definition sequence_continue ::
  "'a sequence_planner \<Rightarrow> nat \<Rightarrow> exc + ('a obj, checkpoint_obj) planned" where
  "sequence_continue p i =
     (let u = sq_units p ! i in
      sbind (sq_encode p u) (\<lambda>v.
      sbind (make_cursor (JStr (sq_kind p)) (JStr v)) (\<lambda>c.
      Inr (StepDecision (Typed CONTINUE) (FetchPlan u c)))))"

definition sequence_lookup :: "'a sequence_planner \<Rightarrow> cursor \<Rightarrow> exc + nat" where
  "sequence_lookup p c =
     sbind (require_kind (sq_kind p) c) (\<lambda>_.
     case map_of (sq_index p) (cur_value c) of
       None \<Rightarrow> Inl (Exc ValidationError (''unknown cursor value '' @ repr_str (cur_value c)))
     | Some i \<Rightarrow> Inr i)"

definition sequence_plan ::
  "'a sequence_planner \<Rightarrow> cursor option \<Rightarrow> exc + ('a obj, checkpoint_obj) planned" where
  "sequence_plan p cur =
     (if sq_units p = [] then Inr (StepDecision (Typed STOP) NoObj)
      else case cur of
        None \<Rightarrow> sequence_continue p 0
      | Some c \<Rightarrow> sbind (sequence_lookup p c) (\<lambda>i.
          if length (sq_units p) \<le> i + 1 then Inr (StepDecision (Typed STOP) NoObj)
          else sequence_continue p (i + 1)))"

definition sequence_after ::
  "'a sequence_planner \<Rightarrow> 'a obj \<Rightarrow> 'a obj \<Rightarrow> exc + cursor option dyn" where
  "sequence_after p payload plan =
     sbind (require_plan plan) (\<lambda>current.
     sbind (sequence_lookup p (plan_cursor current)) (\<lambda>i.
     Inr (Typed (if length (sq_units p) \<le> i + 1 then None else Some (plan_cursor current)))))"

section \<open>ResumePlanner\<close>

text \<open>\<open>advance\<close> may return something that is no cursor, \<open>Untyped\<close>.\<close>

record 'a resume_planner =
  rs_start :: cursor
  rs_advance :: "'a obj \<Rightarrow> 'a obj \<Rightarrow> exc + cursor option dyn"

definition make_resume_planner ::
  "json \<Rightarrow> json \<Rightarrow> ('a obj \<Rightarrow> 'a obj \<Rightarrow> exc + cursor option dyn) \<Rightarrow> exc + 'a resume_planner" where
  "make_resume_planner kind start advance =
     sbind (make_cursor kind start) (\<lambda>c. Inr \<lparr>rs_start = c, rs_advance = advance\<rparr>)"

definition resume_plan ::
  "'a resume_planner \<Rightarrow> cursor option \<Rightarrow> exc + ('a obj, checkpoint_obj) planned" where
  "resume_plan p cur =
     (let current = (case cur of None \<Rightarrow> rs_start p | Some c \<Rightarrow> c) in
      sbind (require_kind (cur_kind (rs_start p)) current) (\<lambda>_.
      Inr (StepDecision (Typed CONTINUE) (FetchPlan (Text (cur_value current)) current))))"

definition resume_after ::
  "'a resume_planner \<Rightarrow> 'a obj \<Rightarrow> 'a obj \<Rightarrow> exc + cursor option dyn" where
  "resume_after p payload plan =
     sbind (require_plan plan) (\<lambda>current.
     sbind (rs_advance p payload current) (\<lambda>nxt.
     case nxt of
       Untyped \<Rightarrow> Inl (Exc TypeError ''advance() must return Cursor or None'')
     | Typed None \<Rightarrow> Inr (Typed None)
     | Typed (Some c) \<Rightarrow> sbind (require_kind (cur_kind (rs_start p)) c) (\<lambda>_. Inr (Typed (Some c)))))"

section \<open>FetchIntent\<close>

text \<open>The planner and the consumer's fetcher and persist callback.\<close>

record ('a, 'u) fetch_intent =
  fi_fetch :: "'a obj \<Rightarrow> ('u env, 'a obj) eff"
  fi_persist :: "'a obj \<Rightarrow> 'a obj \<Rightarrow> ('u env, unit) eff"
  fi_plan :: "cursor option \<Rightarrow> exc + ('a obj, checkpoint_obj) planned"
  fi_after :: "'a obj \<Rightarrow> 'a obj \<Rightarrow> exc + cursor option dyn"
  fi_exhausted :: work_directive

definition make_fetch_intent ::
  "('a obj \<Rightarrow> ('u env, 'a obj) eff) \<Rightarrow> ('a obj \<Rightarrow> 'a obj \<Rightarrow> ('u env, unit) eff) \<Rightarrow>
   (cursor option \<Rightarrow> exc + ('a obj, checkpoint_obj) planned) \<Rightarrow>
   ('a obj \<Rightarrow> 'a obj \<Rightarrow> exc + cursor option dyn) \<Rightarrow> work_directive \<Rightarrow> exc + ('a, 'u) fetch_intent" where
  "make_fetch_intent fetcher persist plan after exhausted =
     (if exhausted = CONTINUE
      then Inl (Exc ValueError ''exhausted must be WorkDirective.STOP or WorkDirective.IDLE'')
      else Inr \<lparr>fi_fetch = fetcher, fi_persist = persist, fi_plan = plan, fi_after = after,
                fi_exhausted = exhausted\<rparr>)"

definition cursor_from_checkpoint :: "checkpoint_obj option \<Rightarrow> exc + cursor option" where
  "cursor_from_checkpoint cp = (case cp of
     None \<Rightarrow> Inr None
   | Some (CkCursor c) \<Rightarrow> Inr (Some c)
   | Some (CkValue (JObj d)) \<Rightarrow> sbind (cursor_from_mapping d) (\<lambda>c. Inr (Some c))
   | Some (CkValue _) \<Rightarrow> Inl (Exc ValidationError ''checkpoint must be a Cursor, mapping, or None''))"

fun check_decision ::
  "('a obj, checkpoint_obj) planned \<Rightarrow> exc + ('a obj, checkpoint_obj) planned" where
  "check_decision (StepDecision d w) =
     (if d = Typed CONTINUE \<and> \<not> is_FetchPlan w
      then Inl (Exc TypeError ''CONTINUE work must be a FetchPlan'')
      else Inr (StepDecision d w))"
| "check_decision _ = Inl (Exc TypeError ''planner.plan() must return StepDecision'')"

definition fetch_plan ::
  "('a, 'u) fetch_intent \<Rightarrow> checkpoint_obj option \<Rightarrow> exc + ('a obj, checkpoint_obj) planned" where
  "fetch_plan fi cp =
     sbind (cursor_from_checkpoint cp) (\<lambda>cur. sbind (fi_plan fi cur) check_decision)"

definition fetch_fetch :: "('a, 'u) fetch_intent \<Rightarrow> 'a obj \<Rightarrow> ('u env, 'a obj) eff" where
  "fetch_fetch fi plan = ebind (elift (require_plan plan)) (\<lambda>p. fi_fetch fi (plan_ref p))"

definition fetch_output ::
  "('a, 'u) fetch_intent \<Rightarrow> 'a obj \<Rightarrow> 'a obj \<Rightarrow> exc + ('a obj, checkpoint_obj) source_output dyn" where
  "fetch_output fi transformed plan =
     sbind (require_plan plan) (\<lambda>current.
     sbind (fi_after fi transformed current) (\<lambda>nxt.
     case nxt of
       Untyped \<Rightarrow> Inl (Exc TypeError ''planner.checkpoint_after() must return Cursor or None'')
     | Typed None \<Rightarrow> Inr (Typed \<lparr>so_result = Typed (ResultDict transformed),
         so_checkpoint = Some (CkValue (JObj (cursor_as_dict (plan_cursor current)))),
         so_directive = Typed (fi_exhausted fi)\<rparr>)
     | Typed (Some c) \<Rightarrow> Inr (Typed \<lparr>so_result = Typed (ResultDict transformed),
         so_checkpoint = Some (CkValue (JObj (cursor_as_dict c))), so_directive = Typed CONTINUE\<rparr>)))"

definition fetch_persist :: "('a, 'u) fetch_intent \<Rightarrow> 'a obj \<Rightarrow> 'a obj \<Rightarrow> ('u env, unit) eff" where
  "fetch_persist fi res plan = (case res of
     ResultDict payload \<Rightarrow> fi_persist fi payload plan
   | _ \<Rightarrow> eraise (Exc KeyError (repr_str ''payload'')))"

text \<open>The host that runs the intent: the intent's methods in place of those of \<open>h\<close>.\<close>

definition fetch_host ::
  "('a, 'u) fetch_intent \<Rightarrow> ('a obj, checkpoint_obj, 'u) worker_host \<Rightarrow> ('a obj, checkpoint_obj, 'u) worker_host" where
  "fetch_host fi h = h\<lparr>
     i_plan := (\<lambda>cp. elift (fetch_plan fi cp)),
     i_fetch := fetch_fetch fi,
     i_transform := (\<lambda>payload plan. eret payload),
     i_output := Some (\<lambda>t plan. elift (fetch_output fi t plan)),
     i_persist := fetch_persist fi,
     i_checkpoint := None\<rparr>"

end
