(* ===== verification/FetchProps.thy ===== *)
theory FetchProps
  imports Fetch WorkerKeeps
begin

text \<open>
  What \<^verbatim>\<open>FetchIntent\<close> does under \<^verbatim>\<open>WorkerHost\<close>: a planner that walks a list of units delivers them
  in order, each one before the next is planned, and all of them when nothing fails. The contract
  between planner and host is the locale \<open>unit_walk\<close>, interpreted by \<^verbatim>\<open>SequencePlanner\<close>.
\<close>

section \<open>The walk in the history of the host\<close>

text \<open>The unit of each successful save, most recent first: the persist right before it names it.\<close>

fun delivered :: "('a obj, 'c) history \<Rightarrow> 'a obj list" where
  "delivered ((CSave c, True) # (CPersist r (FetchPlan u cur), True) # cs) = u # delivered cs"
| "delivered (_ # cs) = delivered cs"
| "delivered [] = []"

lemma delivered_quiet [simp]: "quiet c \<Longrightarrow> delivered ((c, ok) # cs) = delivered cs"
  by (cases c) auto

lemma delivered_failed [simp]: "delivered ((CSave c, False) # cs) = delivered cs"
  by simp

text \<open>The checkpoint at which \<open>k\<close> units are done.\<close>

definition resume_point :: "(nat \<Rightarrow> cursor) \<Rightarrow> nat \<Rightarrow> checkpoint_obj option" where
  "resume_point pt k = (if k = 0 then None else Some (CkValue (JObj (cursor_as_dict (pt (k - 1))))))"

definition walked ::
  "'a obj list \<Rightarrow> (nat \<Rightarrow> cursor) \<Rightarrow> nat \<Rightarrow> nat \<Rightarrow> ('a obj, checkpoint_obj, 'u) wstate \<Rightarrow> bool" where
  "walked us pt k m s \<longleftrightarrow> k \<le> m \<and> m \<le> length us \<and> checkpoint s = resume_point pt m \<and>
     delivered (calls s) = rev (drop k (take m us))"

lemma walked_quiet: "quiet_closed (walked us pt k m)"
  by (auto simp: quiet_closed_def walked_def)

lemma walked_bound: "walked us pt k m s \<Longrightarrow> m \<le> length us"
  by (simp add: walked_def)

text \<open>
  A call may raise only when \<open>F\<close> holds: one proof then covers hosts that may fault and hosts that
  do not.
\<close>

lemma triple_tame: "keeps I m \<Longrightarrow> F \<or> quietly m \<Longrightarrow> triple I m (\<lambda>_. I) (\<lambda>_ s. F \<and> I s)"
  unfolding triple_def by (auto dest: keeps_run quietly_run)

lemma triple_absurd: "(\<And>s. \<not> P s) \<Longrightarrow> triple P m Q E"
  by (simp add: triple_def)

lemma quietly_in_env: "quietly m \<Longrightarrow> quietly (in_env m)"
  by (rule quietlyI) (auto dest: in_env_run quietly_run)

lemma quietly_wcall: "quietly m \<Longrightarrow> quietly (wcall c m)"
  by (rule quietlyI) (auto dest: wcall_run quietly_run)

definition calm_host :: "('o, 'c, 'u) worker_host \<Rightarrow> bool" where
  "calm_host h \<longleftrightarrow> quietly (now h) \<and> (\<forall>f ev. heartbeat h = Some f \<longrightarrow> quietly (f ev)) \<and>
     (\<forall>d. quietly (host_wait (timing h) d)) \<and> quietly (cp_load h) \<and> (\<forall>c. quietly (cp_save h c))"

definition calm_intent :: "('a, 'u) fetch_intent \<Rightarrow> bool" where
  "calm_intent fi \<longleftrightarrow> (\<forall>r. quietly (fi_fetch fi r)) \<and> (\<forall>y p. quietly (fi_persist fi y p))"

lemma fetch_host_fields [simp]:
  "i_plan (fetch_host fi h) = (\<lambda>cp. elift (fetch_plan fi cp))" "i_fetch (fetch_host fi h) = fetch_fetch fi"
  "i_transform (fetch_host fi h) = (\<lambda>y p. eret y)" "i_persist (fetch_host fi h) = fetch_persist fi"
  "i_output (fetch_host fi h) = Some (\<lambda>t p. elift (fetch_output fi t p))"
  "cp_load (fetch_host fi h) = cp_load h" "cp_save (fetch_host fi h) = cp_save h"
  "heartbeat (fetch_host fi h) = heartbeat h" "now (fetch_host fi h) = now h"
  "timing (fetch_host fi h) = timing h" "backoff (fetch_host fi h) = backoff h"
  by (simp_all add: fetch_host_def)

lemma calm_emit: "calm_host h \<Longrightarrow> quietly (worker_emit h st err retry)"
  unfolding worker_emit_def calm_host_def
  by (auto split: option.split intro!: quietly_ebind quietly_in_env quietly_pure quietly_etry_all
      dest: quietly_run [OF quietly_wcall])

lemma calm_idle: "calm_host h \<Longrightarrow> quietly (worker_idle h)"
  unfolding worker_idle_def worker_wait_def
  by (intro quietly_ebind calm_emit quietly_wcall quietly_pure) (simp_all add: calm_host_def)

lemma calm_fetch_host: "calm_host (fetch_host fi h) = calm_host h"
  by (simp add: calm_host_def)

lemma idle_goes_on: "worker_idle h s = (Inr f, s') \<Longrightarrow> f = GoOn"
  by (auto simp: worker_idle_def run_Inr elim!: ebind_InrE)

text \<open>A call that changes nothing but the environment and the history.\<close>

lemma triple_wcall_tame:
  assumes "F \<or> quietly m" "\<And>s e a. P s \<Longrightarrow> m (wenv s) = (Inr a, e) \<Longrightarrow> Q a (s\<lparr>wenv := e, calls := (c, True) # calls s\<rparr>)"
    and "\<And>s e x. F \<Longrightarrow> P s \<Longrightarrow> E x (s\<lparr>wenv := e, calls := (c, False) # calls s\<rparr>)"
  shows "triple P (wcall c m) Q E"
  unfolding triple_def
proof (intro allI impI)
  fix s r s' assume P: "P s" and run: "wcall c m s = (r, s')"
  from wcall_run [OF run] obtain e where
    e: "m (wenv s) = (r, e)" "s' = s\<lparr>wenv := e, calls := (c, \<not> isl r) # calls s\<rparr>" by blast
  from assms(1) e(1) have "isl r \<Longrightarrow> F" by (cases r) (auto dest: quietly_run)
  then show "(\<forall>a. r = Inr a \<longrightarrow> Q a s') \<and> (\<forall>x. r = Inl x \<longrightarrow> E x s')"
    using assms(2,3) P e by auto
qed

section \<open>The contract of a planner that walks a list\<close>

locale unit_walk =
  fixes wf :: "'p \<Rightarrow> bool" and units :: "'p \<Rightarrow> 'a obj list" and point :: "'p \<Rightarrow> nat \<Rightarrow> cursor"
    and plan :: "'p \<Rightarrow> cursor option \<Rightarrow> exc + ('a obj, checkpoint_obj) planned"
    and after :: "'p \<Rightarrow> 'a obj \<Rightarrow> 'a obj \<Rightarrow> exc + cursor option dyn"
  assumes point_wf: "wf p \<Longrightarrow> i < length (units p) \<Longrightarrow> cursor_wf (point p i)"
    and plan_empty: "wf p \<Longrightarrow> units p = [] \<Longrightarrow> plan p None = Inr (StepDecision (Typed STOP) NoObj)"
    and plan_first: "wf p \<Longrightarrow> units p \<noteq> [] \<Longrightarrow>
      plan p None = Inr (StepDecision (Typed CONTINUE) (FetchPlan (units p ! 0) (point p 0)))"
    and plan_next: "wf p \<Longrightarrow> Suc i < length (units p) \<Longrightarrow>
      plan p (Some (point p i)) =
        Inr (StepDecision (Typed CONTINUE) (FetchPlan (units p ! Suc i) (point p (Suc i))))"
    and plan_last: "wf p \<Longrightarrow> Suc i = length (units p) \<Longrightarrow>
      plan p (Some (point p i)) = Inr (StepDecision (Typed STOP) NoObj)"
    and after_next: "wf p \<Longrightarrow> i < length (units p) \<Longrightarrow>
      after p y (FetchPlan u (point p i)) =
        Inr (Typed (if Suc i = length (units p) then None else Some (point p i)))"
begin

lemma plan_at:
  assumes "wf p" "m \<le> length (units p)"
  shows "sbind (cursor_from_checkpoint (resume_point (point p) m)) (plan p) =
    Inr (if m = length (units p) then StepDecision (Typed STOP) NoObj
         else StepDecision (Typed CONTINUE) (FetchPlan (units p ! m) (point p m)))"
proof (cases m)
  case 0
  then show ?thesis using plan_empty [OF assms(1)] plan_first [OF assms(1)]
    by (simp add: resume_point_def cursor_from_checkpoint_def)
next
  case (Suc i)
  with point_wf [OF assms(1), of i] assms have "cursor_from_mapping (cursor_as_dict (point p i)) = Inr (point p i)"
    by (auto simp: cursor_from_mapping_Inr cursor_as_dict_def)
  with Suc assms plan_next [OF assms(1), of i] plan_last [OF assms(1), of i] show ?thesis
    by (auto simp: resume_point_def cursor_from_checkpoint_def)
qed

text \<open>The intent with this planner, at the point where \<open>m\<close> units are done.\<close>

definition runs :: "'p \<Rightarrow> ('a, 'u) fetch_intent \<Rightarrow> bool" where
  "runs p fi \<longleftrightarrow> wf p \<and> fi_plan fi = plan p \<and> fi_after fi = after p \<and> fi_exhausted fi \<noteq> CONTINUE"

lemma fetch_plan_at:
  assumes "runs p fi" "m \<le> length (units p)"
  shows "fetch_plan fi (resume_point (point p) m) =
    Inr (if m = length (units p) then StepDecision (Typed STOP) NoObj
         else StepDecision (Typed CONTINUE) (FetchPlan (units p ! m) (point p m)))"
  using plan_at [of p m] assms by (auto simp: fetch_plan_def runs_def sbind_Inr)

lemma fetch_output_at:
  assumes "runs p fi" "m < length (units p)"
  shows "\<exists>out. fetch_output fi y (FetchPlan (units p ! m) (point p m)) = Inr (Typed out) \<and>
    check_output (Typed out) = Inr (ResultDict y, resume_point (point p) (Suc m),
      if Suc m = length (units p) then fi_exhausted fi else CONTINUE)"
  using assms after_next [of p m y]
  by (auto simp: fetch_output_def require_plan_def runs_def resume_point_def)

abbreviation at_unit :: "'p \<Rightarrow> nat \<Rightarrow> nat \<Rightarrow> ('a obj, checkpoint_obj, 'u) wstate \<Rightarrow> bool" where
  "at_unit p k m \<equiv> walked (units p) (point p) k m"

lemma triple_deliver:
  assumes fi: "runs p fi" "m < length (units p)" and F: "F \<or> calm_intent fi"
  shows "triple (at_unit p k m) (deliver (fetch_host fi h) (FetchPlan (units p ! m) (point p m)) None y)
    (\<lambda>(cp, d) s. cp = resume_point (point p) (Suc m) \<and>
       d = (if Suc m = length (units p) then fi_exhausted fi else CONTINUE) \<and> at_unit p k m s \<and>
       (\<exists>r cs. calls s = (CPersist r (FetchPlan (units p ! m) (point p m)), True) # cs))
    (\<lambda>_ s. F \<and> at_unit p k m s)"
proof -
  let ?plan = "FetchPlan (units p ! m) (point p m)"
  let ?d = "if Suc m = length (units p) then fi_exhausted fi else CONTINUE"
  let ?cp = "resume_point (point p) (Suc m)"
  obtain out where out: "fetch_output fi y ?plan = Inr (Typed out)"
    and chk: "check_output (Typed out) = Inr (ResultDict y, ?cp, ?d)"
    using fetch_output_at [OF fi] by blast
  have o: "triple (at_unit p k m) (wcall (COutput y ?plan) (elift (fetch_output fi y ?plan)))
      (\<lambda>a s. a = Typed out \<and> at_unit p k m s) (\<lambda>_ s. F \<and> at_unit p k m s)"
    by (rule triple_wcall_tame [where F = False])
      (auto simp: out quietly_pure elift_def walked_def)
  have per: "triple (at_unit p k m) (wcall (CPersist (ResultDict y) ?plan) (fetch_persist fi (ResultDict y) ?plan))
      (\<lambda>_ s. at_unit p k m s \<and> (\<exists>r cs. calls s = (CPersist r ?plan, True) # cs))
      (\<lambda>_ s. F \<and> at_unit p k m s)"
    by (rule triple_wcall_tame [where F = F])
      (use F in \<open>auto simp: fetch_persist_def calm_intent_def walked_def\<close>)
  have fin: "triple (\<lambda>s. a = Typed out \<and> at_unit p k m s)
      (ebind (elift (check_output a)) (\<lambda>(res, cp, d). ebind
        (wcall (CPersist res ?plan) (fetch_persist fi res ?plan)) (\<lambda>_. eret (cp, d))))
      (\<lambda>(cp, d) s. cp = ?cp \<and> d = ?d \<and> at_unit p k m s \<and> (\<exists>r cs. calls s = (CPersist r ?plan, True) # cs))
      (\<lambda>_ s. F \<and> at_unit p k m s)" for a
  proof (cases "a = Typed out")
    case True
    have tr: "triple (at_unit p k m)
      (ebind (wcall (CPersist (ResultDict y) ?plan) (fetch_persist fi (ResultDict y) ?plan)) (\<lambda>_. eret (?cp, ?d)))
      (\<lambda>(cp, d) s. cp = ?cp \<and> d = ?d \<and> at_unit p k m s \<and> (\<exists>r cs. calls s = (CPersist r ?plan, True) # cs))
      (\<lambda>_ s. F \<and> at_unit p k m s)"
      by (rule triple_ebind [OF per triple_eret]) simp
    have eq: "elift (check_output a) = (eret (ResultDict y, ?cp, ?d) :: ('a obj, checkpoint_obj, 'd, _) weff)"
      unfolding True chk by (simp add: eff_defs fun_eq_iff)
    show ?thesis unfolding eq ebind_eret prod.case by (rule triple_pre [OF tr]) simp
  qed (simp add: triple_def)
  show ?thesis unfolding deliver_def fetch_host_fields option.case
    by (rule triple_ebind [OF o fin])
qed

end

section \<open>Iterations of the host on the walk\<close>

context unit_walk
begin

definition on_walk :: "'p \<Rightarrow> nat \<Rightarrow> ('a obj, checkpoint_obj, 'u) wstate \<Rightarrow> bool" where
  "on_walk p k s \<longleftrightarrow> (\<exists>m. at_unit p k m s)"

lemma on_walkI: "at_unit p k m s \<Longrightarrow> on_walk p k s"
  by (auto simp: on_walk_def)

lemma on_walk_quiet: "quiet_closed (on_walk p k)"
  using walked_quiet [of "units p" "point p" k] unfolding quiet_closed_def on_walk_def by blast

lemma tame_step:
  "keeps (at_unit p k m) x \<Longrightarrow> F \<or> quietly x \<Longrightarrow>
   triple (at_unit p k m) x (\<lambda>_. at_unit p k m) (\<lambda>_ s. F \<and> on_walk p k s)"
  by (erule triple_conseq [OF triple_tame]) (auto intro: on_walkI)

lemma triple_save:
  assumes "F \<or> quietly (cp_save h cp)" "cp = resume_point (point p) (Suc m)" "m < length (units p)"
  shows "triple (\<lambda>s. at_unit p k m s \<and>
       (\<exists>r cs. calls s = (CPersist r (FetchPlan (units p ! m) (point p m)), True) # cs))
    (ebind (wcall (CSave cp) (cp_save h cp)) (\<lambda>_. emod (\<lambda>s. s\<lparr>checkpoint := cp,
        completed := completed s + 1, consecutive := 0\<rparr>)))
    (\<lambda>_. at_unit p k (Suc m)) (\<lambda>_ s. F \<and> on_walk p k s)"
proof (rule triple_ebind [OF triple_wcall_tame [OF assms(1)] triple_emod])
  fix s e x
  assume "F" "at_unit p k m s \<and> (\<exists>r cs. calls s = (CPersist r (FetchPlan (units p ! m) (point p m)), True) # cs)"
  then show "F \<and> on_walk p k (s\<lparr>wenv := e, calls := (CSave cp, False) # calls s\<rparr>)"
    by (auto simp: walked_def intro: on_walkI [of p k m])
qed (use assms(2,3) in \<open>auto simp: walked_def take_Suc_conv_app_nth\<close>)

lemma triple_do_work:
  assumes fi: "runs p fi" "m < length (units p)" and F: "F \<or> calm_intent fi \<and> calm_host h"
  shows "triple (at_unit p k m)
    (do_work (fetch_host fi h) (FetchPlan (units p ! m) (point p m)) None)
    (\<lambda>f s. at_unit p k (Suc m) s \<and> (f = Leave \<longrightarrow> Suc m = length (units p)))
    (\<lambda>_ s. F \<and> on_walk p k s)"
proof -
  let ?plan = "FetchPlan (units p ! m) (point p m)" and ?h = "fetch_host fi h"
  let ?cp = "resume_point (point p) (Suc m)" and ?E = "\<lambda>(_ :: exc) s. F \<and> on_walk p k s"
  let ?d = "if Suc m = length (units p) then fi_exhausted fi else CONTINUE"
  let ?Q = "\<lambda>f s. at_unit p k (Suc m) s \<and> (f = Leave \<longrightarrow> Suc m = length (units p))"
  have emit: "triple (at_unit p k n) (worker_emit ?h st None None) (\<lambda>_. at_unit p k n) ?E" for n st
    by (rule tame_step [OF keeps_emit [OF walked_quiet]]) (use F in \<open>auto intro!: calm_emit simp: calm_fetch_host\<close>)
  have quiet_call: "quiet c \<Longrightarrow> F \<or> quietly x \<Longrightarrow>
      triple (at_unit p k m) (wcall c x) (\<lambda>_. at_unit p k m) ?E" for c and x :: "('b env, 'a obj) eff"
    by (rule tame_step [OF keeps_quiet_wcall [OF walked_quiet]]) (auto intro: quietly_wcall)
  have idle: "triple (at_unit p k (Suc m)) (worker_idle ?h) (\<lambda>f s. at_unit p k (Suc m) s \<and> f = GoOn) ?E"
    using tame_step [OF keeps_idle [OF walked_quiet], of F ?h p k "Suc m"] F calm_idle [of ?h]
    unfolding triple_def calm_fetch_host by (auto dest: idle_goes_on)
  have last: "triple (at_unit p k (Suc m)) (case ?d of STOP \<Rightarrow> eret Leave | IDLE \<Rightarrow> worker_idle ?h
      | CONTINUE \<Rightarrow> eret GoOn) ?Q ?E"
    using fi(1) by (cases ?d)
      (auto simp: runs_def split: if_splits intro!: triple_eret triple_conseq [OF idle])
  have saved: "triple (\<lambda>s. (cp, d) = (?cp, ?d) \<and> at_unit p k m s \<and> (\<exists>r cs. calls s = (CPersist r ?plan, True) # cs))
     (ebind (ebind (wcall (CSave cp) (cp_save ?h cp)) (\<lambda>_. emod (\<lambda>s. s\<lparr>checkpoint := cp,
        completed := completed s + 1, consecutive := 0\<rparr>)))
      (\<lambda>_. ebind (worker_emit ?h ''checkpointed'' None None)
      (\<lambda>_. case d of STOP \<Rightarrow> eret Leave | IDLE \<Rightarrow> worker_idle ?h | CONTINUE \<Rightarrow> eret GoOn)))
     ?Q ?E" for cp d
  proof (cases "(cp, d) = (?cp, ?d)")
    case True
    then have cp: "cp = ?cp" and d: "d = ?d" by auto
    have F': "F \<or> quietly (cp_save h ?cp)" using F by (auto simp: calm_host_def)
    from triple_ebind [OF triple_save [OF F' refl fi(2)] triple_ebind [OF emit last]]
    show ?thesis unfolding cp d fetch_host_fields by (rule triple_pre) auto
  qed (rule triple_absurd, blast)
  have del: "triple (at_unit p k m) (ebind (deliver ?h ?plan None y) (\<lambda>(cp, d).
      ebind (wcall (CSave cp) (cp_save ?h cp)) (\<lambda>_. ebind (emod (\<lambda>s. s\<lparr>checkpoint := cp,
        completed := completed s + 1, consecutive := 0\<rparr>)) (\<lambda>_.
      ebind (worker_emit ?h ''checkpointed'' None None)
      (\<lambda>_. case d of STOP \<Rightarrow> eret Leave | IDLE \<Rightarrow> worker_idle ?h | CONTINUE \<Rightarrow> eret GoOn))))) ?Q ?E" for y
  proof (rule triple_ebind)
    show "triple (at_unit p k m) (deliver ?h ?plan None y)
        (\<lambda>(cp, d) s. (cp, d) = (?cp, ?d) \<and> at_unit p k m s \<and> (\<exists>r cs. calls s = (CPersist r ?plan, True) # cs)) ?E"
      by (rule triple_conseq [OF triple_deliver [OF fi, of F k h y]]) (use F in \<open>auto intro: on_walkI\<close>)
  qed (use saved in \<open>auto simp: ebind_assoc split: prod.splits\<close>)
  have fetch: "F \<or> quietly (fetch_fetch fi ?plan)"
    using F by (auto simp: fetch_fetch_def require_plan_def calm_intent_def intro!: quietly_ebind quietly_pure) (simp add: quietly_pure)
  show ?thesis
    unfolding do_work_def fetch_host_fields
    by (rule triple_ebind [OF emit triple_ebind [OF quiet_call triple_ebind [OF quiet_call]]],
      simp, rule fetch, simp, simp add: quietly_pure, rule del [unfolded fetch_host_fields])
qed

end

lemma recover_goes_on: "worker_recover h x s = (Inr f, s') \<Longrightarrow> f = GoOn"
  by (auto simp: worker_recover_def worker_backoff_def run_Inr split: if_splits elim!: ebind_InrE)

context unit_walk
begin

lemma triple_attempt:
  assumes fi: "runs p fi" and F: "F \<or> calm_intent fi \<and> calm_host h"
  shows "triple (at_unit p k m) (worker_attempt (fetch_host fi h))
    (\<lambda>f s. if m = length (units p) then f = Leave \<and> at_unit p k m s
           else at_unit p k (Suc m) s \<and> (f = Leave \<longrightarrow> Suc m = length (units p)))
    (\<lambda>_ s. F \<and> on_walk p k s)"
proof (cases "m \<le> length (units p)")
  case True
  let ?h = "fetch_host fi h" and ?cp = "resume_point (point p) m" and ?E = "\<lambda>(_ :: exc) s. F \<and> on_walk p k s"
  let ?Q = "\<lambda>f s. if m = length (units p) then f = Leave \<and> at_unit p k m s
           else at_unit p k (Suc m) s \<and> (f = Leave \<longrightarrow> Suc m = length (units p))"
  let ?planned = "if m = length (units p) then StepDecision (Typed STOP) NoObj
      else StepDecision (Typed CONTINUE) (FetchPlan (units p ! m) (point p m))"
  have plan: "triple (\<lambda>s. cp = checkpoint s \<and> at_unit p k m s) (wcall (CPlan cp) (elift (fetch_plan fi cp)))
      (\<lambda>a s. a = ?planned \<and> at_unit p k m s) ?E" for cp
  proof (cases "cp = ?cp")
    case cp: True
    have "triple (at_unit p k m) (wcall (CPlan ?cp) (elift (Inr ?planned)))
        (\<lambda>a s. a = ?planned \<and> at_unit p k m s) ?E"
      by (rule triple_wcall_tame [where F = False])
        (simp_all add: quietly_pure run_Inr walked_def)
    then show ?thesis unfolding cp fetch_plan_at [OF fi True] by (rule triple_pre) simp
  qed (rule triple_absurd, auto simp: walked_def)
  have rest: "triple (\<lambda>s. a = ?planned \<and> at_unit p k m s) (ebind (elift (decide a)) (\<lambda>d. case d of
        DStop \<Rightarrow> ebind (emod (\<lambda>s. s\<lparr>consecutive := 0\<rparr>)) (\<lambda>_. eret Leave)
      | DIdle \<Rightarrow> ebind (emod (\<lambda>s. s\<lparr>consecutive := 0\<rparr>)) (\<lambda>_. worker_idle ?h)
      | DWork plan legacy \<Rightarrow> do_work ?h plan legacy)) ?Q ?E" for a
  proof (cases "a = ?planned")
    case a: True
    show ?thesis
    proof (cases "m = length (units p)")
      case True
      with a have "elift (decide a) = (eret DStop :: ('a obj, checkpoint_obj, 'b, _) weff)"
        by (simp add: eff_defs fun_eq_iff)
      then have eq: "ebind (elift (decide a)) f = f DStop"
        for f :: "('a obj, checkpoint_obj) decision \<Rightarrow> ('a obj, checkpoint_obj, 'b, flow) weff" by simp
      have st: "triple (at_unit p k m) (ebind (emod (\<lambda>s. s\<lparr>consecutive := 0\<rparr>)) (\<lambda>_. eret Leave)) ?Q ?E"
        by (rule triple_ebind [where R = "\<lambda>_. at_unit p k m"], rule triple_emod, simp add: walked_def,
            rule triple_eret, simp add: True)
      show ?thesis unfolding eq decision.case by (rule triple_pre [OF st]) simp
    next
      case False
      with a have "elift (decide a) = (eret (DWork (FetchPlan (units p ! m) (point p m)) None)
          :: ('a obj, checkpoint_obj, 'b, _) weff)"
        by (simp add: eff_defs fun_eq_iff)
      then have eq: "ebind (elift (decide a)) f = f (DWork (FetchPlan (units p ! m) (point p m)) None)"
        for f :: "('a obj, checkpoint_obj) decision \<Rightarrow> ('a obj, checkpoint_obj, 'b, flow) weff" by simp
      from False True have m: "m < length (units p)" by simp
      show ?thesis unfolding eq decision.case
        by (rule triple_conseq [OF triple_do_work [OF fi m F, of k]]) (use False in auto)
    qed
  qed (rule triple_absurd, blast)
  show ?thesis unfolding worker_attempt_def fetch_host_fields
    by (rule triple_ebind [OF triple_eget triple_ebind [OF plan rest]]) simp
qed (rule triple_absurd, simp add: walked_def)

lemma triple_iteration:
  assumes fi: "runs p fi" and F: "F \<or> calm_intent fi \<and> calm_host h"
  shows "triple (at_unit p k m) (worker_iteration (fetch_host fi h))
    (\<lambda>f s. on_walk p k s \<and> (f = Leave \<longrightarrow> at_unit p k (length (units p)) s) \<and>
       (\<not> F \<longrightarrow> f = GoOn \<longrightarrow> m < length (units p) \<and> at_unit p k (Suc m) s))
    (\<lambda>_ s. F \<and> on_walk p k s)"
proof -
  let ?h = "fetch_host fi h"
  let ?Q = "\<lambda>f s. on_walk p k s \<and> (f = Leave \<longrightarrow> at_unit p k (length (units p)) s) \<and>
       (\<not> F \<longrightarrow> f = GoOn \<longrightarrow> m < length (units p) \<and> at_unit p k (Suc m) s)"
  have rec: "triple (\<lambda>s. F \<and> on_walk p k s) (worker_recover ?h x) ?Q (\<lambda>_ s. F \<and> on_walk p k s)" for x
  proof -
    have "keeps (on_walk p k) (worker_recover ?h x)"
      unfolding worker_recover_def worker_backoff_def
      by (intro keeps_ebind keeps_emod keeps_if keeps_emit keeps_wait on_walk_quiet keeps_pure)
        (simp add: on_walk_def walked_def)
    then show ?thesis unfolding triple_def by (auto dest: keeps_run recover_goes_on)
  qed
  have att: "triple (at_unit p k m) (worker_attempt ?h) ?Q (\<lambda>_ s. F \<and> on_walk p k s)"
    by (rule triple_conseq [OF triple_attempt [OF fi F]])
      (auto intro: on_walkI dest: walked_bound split: if_splits)
  show ?thesis unfolding worker_iteration_def
    by (rule triple_ebind [OF triple_emod triple_etry [OF att rec]]) (auto simp: walked_def)
qed

end

section \<open>Whole runs\<close>

text \<open>No call of the host sets its stop event.\<close>

definition unstopped :: "('o, 'c, 'u) worker_host \<Rightarrow> bool" where
  "unstopped h \<longleftrightarrow> host_keeps (\<lambda>s. \<not> stop_flag (wenv s)) h"

text \<open>The checkpoint the store gives back at the start.\<close>

definition loads :: "('o, 'c, 'u) worker_host \<Rightarrow> 'u env \<Rightarrow> 'c option \<Rightarrow> bool" where
  "loads h e cp \<longleftrightarrow> fst (cp_load h (e\<lparr>run_locked := True\<rparr>)) = Inr cp"

lemma load_call:
  assumes "loads h e cp" "wcall CLoad (cp_load h) (worker_init e) = (r, s)"
  shows "r = Inr cp \<and> calls s = [(CLoad, True)]"
  using wcall_run [OF assms(2)] assms(1) by (auto simp: loads_def worker_init_def)

context unit_walk
begin

lemma start_walk:
  assumes "loads h e (resume_point (point p) k)" "k \<le> length (units p)" "F \<or> calm_host h"
  shows "triple (\<lambda>s. s = worker_init e) (worker_start (fetch_host fi h)) (\<lambda>_. at_unit p k k)
    (\<lambda>_ s. F \<and> on_walk p k s)"
proof -
  let ?cp = "resume_point (point p) k"
  have load: "triple (\<lambda>s. s = worker_init e) (wcall CLoad (cp_load h))
      (\<lambda>cp s. cp = ?cp \<and> calls s = [(CLoad, True)]) (\<lambda>_ s. F \<and> on_walk p k s)"
    unfolding triple_def using load_call [OF assms(1)] by auto
  have emit: "triple (at_unit p k k) (worker_emit (fetch_host fi h) ''starting'' None None)
      (\<lambda>_. at_unit p k k) (\<lambda>_ s. F \<and> on_walk p k s)"
    by (rule tame_step [OF keeps_emit [OF walked_quiet]]) (use assms(3) in \<open>auto intro!: calm_emit simp: calm_fetch_host\<close>)
  show ?thesis unfolding worker_start_def fetch_host_fields
    by (rule triple_ebind [OF load triple_ebind [OF triple_emod emit]]) (use assms(2) in \<open>auto simp: walked_def\<close>)
qed

lemma walked_env [simp]: "walked us pt k m (s\<lparr>wenv := e\<rparr>) = walked us pt k m s"
  "on_walk p k (s\<lparr>wenv := e\<rparr>) = on_walk p k s"
  "quiet c \<Longrightarrow> walked us pt k m (s\<lparr>wenv := e, calls := (c, ok) # calls s\<rparr>) = walked us pt k m s"
  "quiet c \<Longrightarrow> on_walk p k (s\<lparr>wenv := e, calls := (c, ok) # calls s\<rparr>) = on_walk p k s"
  by (simp_all add: walked_def on_walk_def)

definition ended :: "'p \<Rightarrow> nat \<Rightarrow> bool \<Rightarrow> bool \<Rightarrow> int option \<Rightarrow> exc + unit \<Rightarrow> ('a obj, checkpoint_obj, 'u) wstate \<Rightarrow> bool" where
  "ended p k F U mi q s \<longleftrightarrow> on_walk p k s \<and> (isl q \<longrightarrow> F) \<and>
     (q = Inr () \<longrightarrow> U \<longrightarrow> at_unit p k (length (units p)) s \<or> \<not> may_iterate mi (iterations s))"

lemma ended_quiet: "quiet_closed (ended p k F U mi q)"
  by (auto simp: quiet_closed_def ended_def)

lemma loop_walk:
  assumes fi: "runs p fi" and F: "F \<or> calm_intent fi \<and> calm_host h" and U: "U \<Longrightarrow> unstopped (fetch_host fi h)"
  shows "loop_rule (fetch_host fi h) mi (\<lambda>s. on_walk p k s \<and> (U \<longrightarrow> \<not> stop_flag (wenv s))) (ended p k F U mi)"
proof -
  let ?h = "fetch_host fi h"
  let ?I = "\<lambda>s. on_walk p k s \<and> (U \<longrightarrow> \<not> stop_flag (wenv s))"
  have env: "?I s \<Longrightarrow> ?I (s\<lparr>wenv := others (timing ?h) (wenv s)\<rparr>)" for s :: "('a obj, checkpoint_obj, 'b) wstate"
  proof -
    have "keeps (\<lambda>s :: ('a obj, checkpoint_obj, 'b) wstate. \<not> stop_flag (wenv s)) (in_env (stop_is_set (timing ?h)))" if U
      by (rule hk_calls(2) [OF U [OF that, unfolded unstopped_def]])
    moreover assume "?I s"
    ultimately show ?thesis using keepsD [of "\<lambda>s. \<not> stop_flag (wenv s)" "in_env (stop_is_set (timing ?h))" s]
      unfolding stop_read by (auto simp del: fetch_host_fields)
  qed
  have it: "?I s \<Longrightarrow> worker_iteration ?h s = (q, s') \<Longrightarrow>
      ?I s' \<and> (isl q \<longrightarrow> F) \<and> (q = Inr Leave \<longrightarrow> at_unit p k (length (units p)) s')" for s s' q
  proof -
    assume I: "?I s" and run: "worker_iteration ?h s = (q, s')"
    from I obtain m where m: "at_unit p k m s" by (auto simp: on_walk_def)
    have "\<not> stop_flag (wenv s')" if U
      using keeps_run [OF hk_iteration [OF U [OF that, unfolded unstopped_def]] run] I that by blast
    with triple_Inr [OF triple_iteration [OF fi F] m, of _ s'] triple_Inl [OF triple_iteration [OF fi F] m, of _ s'] run
    show ?thesis by (cases q) auto
  qed
  show ?thesis unfolding loop_rule_def
  proof (intro conjI allI impI)
    fix s s' assume I: "?I s" and turn: "worker_turn ?h mi s = Inl s'"
    from turn obtain s1 where "s1 = s\<lparr>wenv := others (timing ?h) (wenv s)\<rparr>"
      and it1: "worker_iteration ?h s1 = (Inr GoOn, s')" by (rule worker_turn_Inl)
    with env [OF I] have "?I s1" by simp
    from it [OF this it1] show "on_walk p k s'" "U \<Longrightarrow> \<not> stop_flag (wenv s')" by simp_all
  next
    fix s r s' assume I: "?I s" and turn: "worker_turn ?h mi s = Inr (r, s')"
    from turn show "ended p k F U mi r s'"
    proof (cases rule: worker_turn_Inr)
      case test
      with env [OF I] show ?thesis by (auto simp: ended_def)
    next
      case (leave s1)
      with it [of s1 "Inr Leave" s'] env [OF I] show ?thesis by (auto simp: ended_def)
    next
      case (raise s1 x)
      with it [of s1 "Inl x" s'] env [OF I] show ?thesis by (auto simp: ended_def)
    qed
  qed
qed

end

context unit_walk
begin

abbreviation walking :: "'p \<Rightarrow> nat \<Rightarrow> bool \<Rightarrow> ('a obj, checkpoint_obj, 'u) wstate \<Rightarrow> bool" where
  "walking p k U s \<equiv> on_walk p k s \<and> (U \<longrightarrow> \<not> stop_flag (wenv s))"

lemma start_walking:
  assumes F: "F \<or> calm_host h"
    and ld: "loads h e (resume_point (point p) k)" "k \<le> length (units p)"
    and U: "U \<Longrightarrow> unstopped (fetch_host fi h) \<and> \<not> stop_flag e"
  shows "triple (\<lambda>s. s = worker_init e) (worker_start (fetch_host fi h)) (\<lambda>_. walking p k U)
    (\<lambda>x. ended p k F U mi (Inl x))"
  unfolding triple_def
proof (intro allI impI)
  let ?h = "fetch_host fi h"
  fix s :: "('a obj, checkpoint_obj, 'b) wstate" and r s'
  assume s: "s = worker_init e" and run: "worker_start ?h s = (r, s')"
  have "\<not> stop_flag (wenv s')" if U
  proof -
    from U [OF that] have hk: "host_keeps (\<lambda>s. \<not> stop_flag (wenv s)) ?h" by (simp add: unstopped_def)
    have "keeps (\<lambda>s. \<not> stop_flag (wenv s)) (worker_start ?h)" unfolding worker_start_def
      by (intro keeps_ebind keeps_emod hk_emit [OF hk] hk_calls(4) [OF hk]) simp
    from keeps_run [OF this run] U [OF that] s show ?thesis by (simp add: worker_init_def)
  qed
  then show "(\<forall>a. r = Inr a \<longrightarrow> walking p k U s') \<and> (\<forall>x. r = Inl x \<longrightarrow> ended p k F U mi (Inl x) s')"
    using triple_Inr [OF start_walk [OF ld F] s, of fi _ s'] triple_Inl [OF start_walk [OF ld F] s, of fi _ s'] run
    by (auto simp: ended_def intro: on_walkI)
qed

lemma run_on_walk:
  assumes run: "worker_run (fetch_host fi h) mi e = Some (r, s)" and ok: "startable mi e"
    and fi: "runs p fi" and F: "F \<or> calm_intent fi \<and> calm_host h"
    and ld: "loads h e (resume_point (point p) k)" "k \<le> length (units p)"
    and U: "U \<Longrightarrow> unstopped (fetch_host fi h) \<and> \<not> stop_flag e"
  shows "\<exists>q. ended p k F U mi q s \<and> (\<forall>w. r = Inr w \<longrightarrow> q = Inr ())"
proof -
  have st: "triple (\<lambda>s. s = worker_init e) (worker_start (fetch_host fi h)) (\<lambda>_. walking p k U)
      (\<lambda>x. ended p k F U mi (Inl x))"
    by (rule start_walking [OF _ ld U]) (use F in auto)
  have turns: "loop_rule (fetch_host fi h) mi (walking p k U) (ended p k F U mi)"
    by (rule loop_walk [OF fi F]) (simp add: U)
  from worker_run_rule [OF run ok st turns ended_quiet] show ?thesis by blast
qed

text \<open>In order: the units delivered are those that follow the loaded checkpoint, without a gap.\<close>

lemma run_in_order:
  assumes "worker_run (fetch_host fi h) mi e = Some (r, s)" "startable mi e" "runs p fi"
    and "loads h e (resume_point (point p) k)" "k \<le> length (units p)"
  shows "\<exists>m. k \<le> m \<and> m \<le> length (units p) \<and> rev (delivered (calls s)) = drop k (take m (units p)) \<and>
    checkpoint s = resume_point (point p) m"
  using run_on_walk [OF assms(1-3) _ assms(4,5), of True False]
  by (auto simp: ended_def on_walk_def walked_def)

lemma drop_take_self: "k \<le> length xs \<Longrightarrow> drop k (take (length xs) xs) = drop k xs"
  by simp

text \<open>Completely: a run that ends by itself has delivered every unit.\<close>

lemma run_complete:
  assumes "worker_run (fetch_host fi h) None e = Some (Inr w, s)" "startable None e" "runs p fi"
    and "loads h e (resume_point (point p) k)" "k \<le> length (units p)"
    and "unstopped (fetch_host fi h)" "\<not> stop_flag e"
  shows "rev (delivered (calls s)) = drop k (units p) \<and> checkpoint s = resume_point (point p) (length (units p))"
  using run_on_walk [OF assms(1-3) _ assms(4,5), of True True] assms(6,7)
  by (auto simp: ended_def walked_def may_iterate_def)

text \<open>And it ends: without faults every iteration delivers one more unit.\<close>

definition units_left :: "'p \<Rightarrow> nat \<Rightarrow> ('a obj, checkpoint_obj, 'u) wstate \<Rightarrow> nat" where
  "units_left p k s = length (units p) - k - length (delivered (calls s))"

lemma units_left_at: "at_unit p k m s \<Longrightarrow> units_left p k s = length (units p) - m"
  by (simp add: units_left_def walked_def)

lemma calm_body_returns:
  assumes fi: "runs p fi" and calm: "calm_intent fi" "calm_host h"
    and ld: "loads h e (resume_point (point p) k)" "k \<le> length (units p)"
  shows "\<exists>t. worker_body (fetch_host fi h) None (worker_init e) = Some (Inr (), t)"
proof -
  let ?h = "fetch_host fi h"
  have F: "False \<or> calm_intent fi \<and> calm_host h" "False \<or> calm_host h" using calm by auto
  have st: "triple (\<lambda>s. s = worker_init e) (worker_start ?h) (\<lambda>_. walking p k False)
      (\<lambda>x. ended p k False False None (Inl x))"
    by (rule start_walking [OF F(2) ld]) simp
  have turns: "loop_rule ?h None (walking p k False) (ended p k False False None)"
    by (rule loop_walk [OF fi F(1)]) simp
  obtain q0 s0 where s0: "worker_start ?h (worker_init e) = (q0, s0)" by (cases "worker_start ?h (worker_init e)")
  have "\<exists>t. worker_body ?h None (worker_init e) = Some t"
  proof (cases q0)
    case (Inr u)
    have "\<exists>t. iterate (worker_turn ?h None) s0 = Some t"
    proof (rule iterate_terminates [where I = "on_walk p k" and \<mu> = "units_left p k"])
      show "on_walk p k s0" using triple_Inr [OF st refl] s0 Inr by auto
      fix s s' assume I: "on_walk p k s" and turn: "worker_turn ?h None s = Inl s'"
      from turn obtain s1 where s1: "s1 = s\<lparr>wenv := others (timing ?h) (wenv s)\<rparr>"
        and it: "worker_iteration ?h s1 = (Inr GoOn, s')" by (rule worker_turn_Inl)
      from I s1 obtain m where m: "at_unit p k m s1" by (auto simp: on_walk_def)
      from triple_Inr [OF triple_iteration [OF fi F(1)] m it]
      have "on_walk p k s'" "m < length (units p)" "at_unit p k (Suc m) s'" by auto
      moreover from m s1 have "at_unit p k m s" by simp
      ultimately show "on_walk p k s' \<and> units_left p k s' < units_left p k s"
        using units_left_at by (metis Suc_diff_Suc lessI)
    qed
    with s0 Inr show ?thesis by (simp add: worker_body_def)
  qed (simp add: worker_body_def s0)
  then obtain q t where body: "worker_body ?h None (worker_init e) = Some (q, t)" by auto
  from worker_body_rule [OF body refl st turns] have "\<not> isl q" by (auto simp: ended_def)
  with body show ?thesis by (cases q) auto
qed

lemma calm_run_returns:
  assumes fi: "runs p fi" and calm: "calm_intent fi" "calm_host h" and ok: "startable None e"
    and ld: "loads h e (resume_point (point p) k)" "k \<le> length (units p)"
  shows "\<exists>w s. worker_run (fetch_host fi h) None e = Some (Inr w, s)"
proof -
  let ?h = "fetch_host fi h"
  obtain t where body: "worker_body ?h None (worker_init e) = Some (Inr (), t)"
    using calm_body_returns [OF fi calm ld] by blast
  have "quietly (worker_release ?h)" unfolding worker_release_def
    by (intro quietly_ebind calm_emit quietly_pure) (simp add: calm calm_fetch_host)
  then obtain u s where "worker_release ?h t = (Inr u, s)"
    by (cases "worker_release ?h t"; cases "fst (worker_release ?h t)") (auto dest: quietly_run)
  with ok body show ?thesis by (auto simp: worker_run_def startable_def efinally_def)
qed

end

section \<open>SequencePlanner meets the contract\<close>

definition seq_point :: "'a sequence_planner \<Rightarrow> nat \<Rightarrow> cursor" where
  "seq_point p i = \<lparr>cur_kind = sq_kind p, cur_value = projr (sq_encode p (sq_units p ! i))\<rparr>"

definition seq_wf :: "'a sequence_planner \<Rightarrow> bool" where
  "seq_wf p \<longleftrightarrow> \<not> blank (sq_kind p) \<and> (\<forall>i < length (sq_units p). \<exists>v. sq_encode p (sq_units p ! i) = Inr v \<and>
     \<not> blank v \<and> map_of (sq_index p) v = Some i)"

lemma index_units_keeps:
  "index_units k enc i us d = Inr d' \<Longrightarrow> v \<in> set (dict_keys d) \<Longrightarrow> map_of d' v = map_of d v"
proof (induction us arbitrary: i d)
  case (Cons u us)
  from Cons.prems(1) obtain v' where "v' \<notin> set (dict_keys d)"
    and rest: "index_units k enc (Suc i) us (AList.update v' i d) = Inr d'"
    by (auto simp: sbind_Inr split: if_splits)
  with Cons.IH [OF rest] Cons.prems(2) show ?case by auto
qed simp

lemma index_units_finds:
  "index_units k enc i us d = Inr d' \<Longrightarrow> j < length us \<Longrightarrow>
     \<exists>v. enc (us ! j) = Inr v \<and> \<not> blank v \<and> map_of d' v = Some (i + j)"
proof (induction us arbitrary: i d j)
  case (Cons u us)
  from Cons.prems(1) obtain v where v: "enc u = Inr v" "\<not> blank v"
    and rest: "index_units k enc (Suc i) us (AList.update v i d) = Inr d'"
    by (auto simp: sbind_Inr make_cursor_Inr cursor_wf_def split: if_splits)
  show ?case
  proof (cases j)
    case 0
    with v index_units_keeps [OF rest, of v] show ?thesis by simp
  next
    case (Suc j')
    with Cons.IH [OF rest, of j'] Cons.prems(2) show ?thesis by simp
  qed
qed simp

text \<open>A planner that was constructed is well formed, and walks the units in the order asked for.\<close>

lemma make_sequence_planner_wf:
  assumes "make_sequence_planner us kind enc order = Inr p"
  shows "seq_wf p \<and> sq_units p = (if order = ''reverse'' then rev us else us)"
proof -
  from assms obtain d k ix where "parse_sequence_order order = Inr d" "\<not> blank k"
    and ix: "index_units k enc 0 (if d = REVERSE then rev us else us) [] = Inr ix"
    and p: "p = \<lparr>sq_kind = k, sq_encode = enc, sq_units = (if d = REVERSE then rev us else us), sq_index = ix\<rparr>"
    by (auto simp: make_sequence_planner_def sbind_Inr Let_def split: option.splits if_splits)
  with index_units_finds [OF ix] show ?thesis
    by (auto simp: seq_wf_def parse_sequence_order_def split: if_splits)
qed

lemma seq_wf_unit:
  assumes "seq_wf p" "i < length (sq_units p)"
  shows "sq_encode p (sq_units p ! i) = Inr (cur_value (seq_point p i))" "cursor_wf (seq_point p i)"
    "map_of (sq_index p) (cur_value (seq_point p i)) = Some i" "cur_kind (seq_point p i) = sq_kind p"
  using assms by (fastforce simp: seq_wf_def seq_point_def cursor_wf_def)+

lemma seq_continue: "seq_wf p \<Longrightarrow> i < length (sq_units p) \<Longrightarrow>
    sequence_continue p i = Inr (StepDecision (Typed CONTINUE) (FetchPlan (sq_units p ! i) (seq_point p i)))"
  using seq_wf_unit [of p i]
  by (auto simp: sequence_continue_def Let_def sbind_Inr make_cursor_Inr)

lemma seq_lookup: "seq_wf p \<Longrightarrow> i < length (sq_units p) \<Longrightarrow> sequence_lookup p (seq_point p i) = Inr i"
  using seq_wf_unit [of p i] by (simp add: sequence_lookup_def require_kind_def)

interpretation seq: unit_walk seq_wf sq_units seq_point sequence_plan sequence_after
proof (unfold_locales, goal_cases)
  case (1 p i)
  then show ?case by (rule seq_wf_unit(2))
next
  case (6 p i y u)
  then show ?case by (auto simp: sequence_after_def require_plan_def seq_lookup)
qed (auto simp: sequence_plan_def seq_continue seq_lookup)

section \<open>Properties\<close>

text \<open>The fetch intent of a constructed sequence planner.\<close>

definition sequence_intent ::
  "'a sequence_planner \<Rightarrow> ('a, 'u) fetch_intent \<Rightarrow> bool" where
  "sequence_intent p fi \<longleftrightarrow> (\<exists>fetcher persist ex.
     make_fetch_intent fetcher persist (sequence_plan p) (sequence_after p) ex = Inr fi)"

lemma sequence_intent_runs: "seq_wf p \<Longrightarrow> sequence_intent p fi \<Longrightarrow> seq.runs p fi"
  by (auto simp: sequence_intent_def make_fetch_intent_def seq.runs_def split: if_splits)

text \<open>
  C8. A fetch run walks its units in order, whatever fails: the units whose work was persisted and
  checkpointed are a gapless segment of the planned order that starts right behind the
  checkpoint loaded, and the checkpoint the run leaves is the one behind that segment.
\<close>

theorem fetch_walk_in_order:
  assumes "make_sequence_planner us kind enc order = Inr p" "sequence_intent p fi"
    and "worker_run (fetch_host fi h) mi e = Some (r, s)" "startable mi e"
    and "loads h e (resume_point (seq_point p) k)" "k \<le> length us"
  shows "\<exists>m. k \<le> m \<and> m \<le> length us \<and>
    rev (delivered (calls s)) = drop k (take m (if order = ''reverse'' then rev us else us)) \<and>
    checkpoint s = resume_point (seq_point p) m"
proof -
  from make_sequence_planner_wf [OF assms(1)] have p: "seq_wf p"
    "sq_units p = (if order = ''reverse'' then rev us else us)" by auto
  then have "length (sq_units p) = length us" by simp
  with seq.run_in_order [OF assms(3,4) sequence_intent_runs [OF p(1) assms(2)] assms(5)] assms(6) p(2)
  show ?thesis by simp
qed

text \<open>
  C20. A fetch run over a sequence finishes: when the consumer's callbacks and the store do not fail
  and nobody requests a stop, \<^verbatim>\<open>run()\<close> returns and every unit behind the loaded checkpoint has been
  persisted and checkpointed, each exactly once.
\<close>

theorem fetch_walk_finishes:
  assumes "make_sequence_planner us kind enc order = Inr p" "sequence_intent p fi"
    and "calm_intent fi" "calm_host h" "unstopped (fetch_host fi h)"
    and "startable None e" "\<not> stop_flag e"
    and "loads h e (resume_point (seq_point p) k)" "k \<le> length us"
  shows "\<exists>w s. worker_run (fetch_host fi h) None e = Some (Inr w, s) \<and>
    rev (delivered (calls s)) = drop k (if order = ''reverse'' then rev us else us) \<and>
    checkpoint s = resume_point (seq_point p) (length us)"
proof -
  from make_sequence_planner_wf [OF assms(1)] have p: "seq_wf p"
    "sq_units p = (if order = ''reverse'' then rev us else us)" by auto
  then have len: "k \<le> length (sq_units p)" "length (sq_units p) = length us" using assms(9) by simp_all
  note fi = sequence_intent_runs [OF p(1) assms(2)]
  obtain w s where run: "worker_run (fetch_host fi h) None e = Some (Inr w, s)"
    using seq.calm_run_returns [OF fi assms(3,4,6,8) len(1)] by blast
  from seq.run_complete [OF run assms(6) fi assms(8) len(1) assms(5,7)] run p(2) len(2)
  show ?thesis by simp
qed

section \<open>A walk over three pages\<close>

definition page_encode :: "string obj \<Rightarrow> exc + string" where
  "page_encode u = (case u of Opaque s \<Rightarrow> Inr s | _ \<Rightarrow> Inr ''other'')"

definition pages :: "string obj list" where
  "pages = [Opaque ''1'', Opaque ''2'', Opaque ''3'']"

definition page_planner :: "string sequence_planner" where
  "page_planner = \<lparr>sq_kind = ''page'', sq_encode = page_encode, sq_units = rev pages,
     sq_index = [(''3'', 0), (''2'', 1), (''1'', 2)]\<rparr>"

text \<open>The world of the consumer: the checkpoint of a store in memory, and what was persisted.\<close>

type_synonym page_world = "checkpoint_obj option \<times> string obj list"

definition page_fetch :: "string obj \<Rightarrow> (page_world env, string obj) eff" where
  "page_fetch u = eret u"

definition page_persist :: "string obj \<Rightarrow> string obj \<Rightarrow> (page_world env, unit) eff" where
  "page_persist y p = emod (\<lambda>e. e\<lparr>user := (fst (user e), snd (user e) @ [y])\<rparr>)"

definition page_intent :: "(string, page_world) fetch_intent" where
  "page_intent = \<lparr>fi_fetch = page_fetch, fi_persist = page_persist, fi_plan = sequence_plan page_planner,
     fi_after = sequence_after page_planner, fi_exhausted = IDLE\<rparr>"

definition page_host :: "(string obj, checkpoint_obj, page_world) worker_host" where
  "page_host = \<lparr>
     i_plan = (\<lambda>_. eret PlannedNone), i_fetch = (\<lambda>p. eret p), i_transform = (\<lambda>y p. eret y),
     i_output = None, i_persist = (\<lambda>y p. eret ()), i_checkpoint = None,
     cp_load = eget (\<lambda>e. fst (user e)),
     cp_save = (\<lambda>c. emod (\<lambda>e. e\<lparr>user := (c, snd (user e))\<rparr>)),
     backoff = \<lparr>initial_seconds = 1, maximum_seconds = 60, multiplier = 2, idle_seconds = 5,
        max_consecutive_failures = None\<rparr>,
     heartbeat = None,
     timing = \<lparr>sleeper = TimeSleep, event_wait = (\<lambda>_ e. e), others = (\<lambda>e. e)\<rparr>,
     now = eret ''2024-01-01T00:00:00+00:00'', type_name = (\<lambda>_. '''')\<rparr>"

definition page_env :: "page_world env" where
  "page_env = \<lparr>stop_flag = False, run_locked = False, user = (None, [])\<rparr>"

lemma page_planner_made: "make_sequence_planner pages (JStr ''page'') page_encode ''reverse'' = Inr page_planner"
proof -
  have "\<not> blank ''page''" "\<not> blank ''1''" "\<not> blank ''2''" "\<not> blank ''3''" by code_simp+
  then show ?thesis
    by (simp add: make_sequence_planner_def parse_sequence_order_def page_planner_def pages_def
        page_encode_def make_cursor_def require_text_def dict_keys_def Let_def)
qed

lemma page_intent_made: "sequence_intent page_planner page_intent"
  unfolding sequence_intent_def page_intent_def make_fetch_intent_def
  by (intro exI [of _ page_fetch] exI [of _ page_persist] exI [of _ IDLE]) simp

lemma page_calm: "calm_intent page_intent" "calm_host page_host"
  by (simp_all add: calm_intent_def calm_host_def page_intent_def page_host_def page_fetch_def
      page_persist_def quietly_pure host_wait_def)

lemma page_start: "startable None page_env" "\<not> stop_flag page_env"
    "loads page_host page_env (resume_point (seq_point page_planner) 0)"
  by (simp_all add: startable_def page_env_def loads_def page_host_def resume_point_def eff_apply)

lemma keeps_running_call:
  assumes "\<And>e. \<not> stop_flag e \<Longrightarrow> \<not> stop_flag (snd (m e))"
  shows "keeps (\<lambda>s :: ('o, 'c, 'u) wstate. \<not> stop_flag (wenv s)) (in_env m)"
    and "keeps (\<lambda>s :: ('o, 'c, 'u) wstate. \<not> stop_flag (wenv s)) (wcall c m)"
proof -
  show "keeps (\<lambda>s :: ('o, 'c, 'u) wstate. \<not> stop_flag (wenv s)) (in_env m)"
  proof (rule keeps_runI)
    fix s :: "('o, 'c, 'u) wstate" and r s'
    assume "in_env m s = (r, s')" "\<not> stop_flag (wenv s)"
    with in_env_run [of m s r s'] assms [of "wenv s"] show "\<not> stop_flag (wenv s')" by auto
  qed
  show "keeps (\<lambda>s :: ('o, 'c, 'u) wstate. \<not> stop_flag (wenv s)) (wcall c m)"
  proof (rule keeps_runI)
    fix s :: "('o, 'c, 'u) wstate" and r s'
    assume "wcall c m s = (r, s')" "\<not> stop_flag (wenv s)"
    with wcall_run [of c m s r s'] assms [of "wenv s"] show "\<not> stop_flag (wenv s')" by auto
  qed
qed

lemma page_unstopped: "unstopped (fetch_host page_intent page_host)"
  unfolding unstopped_def host_keeps_def fetch_host_fields worker_wait_def
  by (auto intro!: keeps_running_call
      simp: page_host_def page_intent_def page_fetch_def page_persist_def fetch_fetch_def fetch_persist_def
        require_plan_def stop_is_set_def host_wait_def eff_defs fetch_host_def
      split: obj.splits prod.splits sum.splits)

theorem fetch_walk_in_order_witness:
  "\<exists>r s m. worker_run (fetch_host page_intent page_host) (Some 2) page_env = Some (r, s) \<and>
     rev (delivered (calls s)) = take m [Opaque ''3'', Opaque ''2'', Opaque ''1'']"
proof -
  have ok: "startable (Some 2) page_env" by (simp add: startable_def page_env_def)
  obtain r s where run: "worker_run (fetch_host page_intent page_host) (Some 2) page_env = Some (r, s)"
    using worker_run_bounded [of 2 page_env "fetch_host page_intent page_host"] ok by auto
  from fetch_walk_in_order [OF page_planner_made page_intent_made run ok page_start(3)] run
  show ?thesis by (auto simp: pages_def)
qed

theorem fetch_walk_finishes_witness:
  "\<exists>w s. worker_run (fetch_host page_intent page_host) None page_env = Some (Inr w, s) \<and>
     rev (delivered (calls s)) = [Opaque ''3'', Opaque ''2'', Opaque ''1'']"
  using fetch_walk_finishes [OF page_planner_made page_intent_made page_calm page_unstopped page_start]
  by (auto simp: pages_def)

end
