(* ===== verification/Window.thy ===== *)
theory Window
  imports Prelude
begin

text \<open>
  \<^verbatim>\<open>window.py\<close>: one-day windows over an inclusive range of dates. A \<^verbatim>\<open>date\<close> is its proleptic
  ordinal, between those of \<^verbatim>\<open>date.min\<close> and \<^verbatim>\<open>date.max\<close>. A generator is the list of what it yields
  with the exception that ends it, if one does.
\<close>

section \<open>Dates\<close>

datatype date = Date (toordinal: int)

instantiation date :: linorder
begin

definition less_eq_date :: "date \<Rightarrow> date \<Rightarrow> bool" where
  "less_eq_date d e \<longleftrightarrow> toordinal d \<le> toordinal e"

definition less_date :: "date \<Rightarrow> date \<Rightarrow> bool" where
  "less_date d e \<longleftrightarrow> toordinal d < toordinal e"

instance
  by standard (auto simp: less_eq_date_def less_date_def intro: date.expand)

end

definition date_min :: date where "date_min = Date 1"
definition date_max :: date where "date_max = Date 3652059"

definition date_ok :: "date \<Rightarrow> bool" where
  "date_ok d \<longleftrightarrow> date_min \<le> d \<and> d \<le> date_max"

text \<open>\<^verbatim>\<open>d + timedelta(days=n)\<close>\<close>

definition add_days :: "date \<Rightarrow> int \<Rightarrow> exc + date" where
  "add_days d n = (let e = Date (toordinal d + n) in
     if date_ok e then Inr e else Inl (Exc OverflowError ''date value out of range''))"

lemma date_le_iff [simp]: "Date m \<le> Date n \<longleftrightarrow> m \<le> n" "Date m < Date n \<longleftrightarrow> m < n"
  by (simp_all add: less_eq_date_def less_date_def)

section \<open>Windows\<close>

datatype window_order = OLDEST_FIRST | NEWEST_FIRST

fun window_order_value :: "window_order \<Rightarrow> string" where
  "window_order_value OLDEST_FIRST = ''oldest_first''"
| "window_order_value NEWEST_FIRST = ''newest_first''"

text \<open>\<^verbatim>\<open>WindowOrder(order)\<close>, with its \<^verbatim>\<open>ValueError\<close> as the function rewords it\<close>

definition parse_order :: "string \<Rightarrow> exc + window_order" where
  "parse_order s =
     (if s = window_order_value OLDEST_FIRST then Inr OLDEST_FIRST
      else if s = window_order_value NEWEST_FIRST then Inr NEWEST_FIRST
      else Inl (Exc ValueError ''order must be one of: oldest_first, newest_first''))"

record day_window =
  win_start :: date
  win_end :: date

definition one_day :: "date \<Rightarrow> day_window" where
  "one_day d = \<lparr>win_start = d, win_end = d\<rparr>"

type_synonym 'a generator = "'a list \<times> exc option"

definition yield_then :: "'a \<Rightarrow> 'a generator \<Rightarrow> 'a generator" where
  "yield_then x g = (x # fst g, snd g)"

lemma yield_then_simps [simp]: "yield_then x (xs, e) = (x # xs, e)"
  by (simp add: yield_then_def)

lemma add_days_ordinal: "add_days d n = Inr e \<Longrightarrow> toordinal e = toordinal d + n"
  by (auto simp: add_days_def Let_def split: if_splits)

function days_up :: "date \<Rightarrow> date \<Rightarrow> day_window generator" where
  "days_up current end_date =
     (if current \<le> end_date
      then yield_then (one_day current) (case add_days current 1 of
             Inl x \<Rightarrow> ([], Some x) | Inr next \<Rightarrow> days_up next end_date)
      else ([], None))"
  by auto

termination
  by (relation "measure (\<lambda>(c, e). nat (toordinal e - toordinal c + 1))")
    (auto dest: add_days_ordinal simp: less_eq_date_def)

function days_down :: "date \<Rightarrow> date \<Rightarrow> day_window generator" where
  "days_down current start_date =
     (if start_date \<le> current
      then yield_then (one_day current) (case add_days current (- 1) of
             Inl x \<Rightarrow> ([], Some x) | Inr next \<Rightarrow> days_down next start_date)
      else ([], None))"
  by auto

termination
  by (relation "measure (\<lambda>(c, s). nat (toordinal c - toordinal s + 1))")
    (auto dest: add_days_ordinal simp: less_eq_date_def)

declare days_up.simps [simp del] days_down.simps [simp del]

definition split_range_into_days :: "date \<Rightarrow> date \<Rightarrow> string \<Rightarrow> day_window generator" where
  "split_range_into_days start end_date order =
     (case parse_order order of
        Inl x \<Rightarrow> ([], Some x)
      | Inr direction \<Rightarrow>
          if end_date < start then ([], None)
          else if direction = NEWEST_FIRST then days_down end_date start
          else days_up start end_date)"

section \<open>What it yields\<close>

definition days_between :: "date \<Rightarrow> date \<Rightarrow> day_window list" where
  "days_between s e = List.map (one_day \<circ> Date) [toordinal s..toordinal e]"

definition out_of_range :: exc where
  "out_of_range = Exc OverflowError ''date value out of range''"

lemma days_up_yields:
  assumes "date_ok s" "date_ok e"
  shows "days_up s e = (days_between s e, if s \<le> e \<and> e = date_max then Some out_of_range else None)"
  using assms
proof (induction s e rule: days_up.induct)
  case (1 s e)
  show ?case
  proof (cases "s \<le> e")
    case True
    obtain m where s: "s = Date m" by (cases s)
    obtain n where e: "e = Date n" by (cases e)
    from True have upto: "[m..n] = m # [m + 1..n]" by (simp add: s e upto_rec1)
    show ?thesis
    proof (cases "e = s \<and> e = date_max")
      case True
      then have "e = date_max" "s = date_max" by auto
      then show ?thesis
        by (subst days_up.simps)
          (simp add: days_between_def out_of_range_def add_days_def date_ok_def date_max_def one_day_def)
    next
      case False
      with True 1(2,3) have next_ok: "add_days s 1 = Inr (Date (m + 1))" "date_ok (Date (m + 1))"
        by (auto simp: add_days_def date_ok_def date_max_def date_min_def s e)
      from 1(1) [OF True next_ok(1,2) 1(3)] True False next_ok upto show ?thesis
        by (subst days_up.simps)
          (auto simp: days_between_def s e out_of_range_def add_days_def date_ok_def date_max_def)
    qed
  qed (subst days_up.simps, simp add: days_between_def less_eq_date_def)
qed

lemma days_down_yields:
  assumes "date_ok s" "date_ok e"
  shows "days_down e s =
    (rev (days_between s e), if s \<le> e \<and> s = date_min then Some out_of_range else None)"
  using assms
proof (induction e s rule: days_down.induct)
  case (1 e s)
  show ?case
  proof (cases "s \<le> e")
    case True
    obtain m where s: "s = Date m" by (cases s)
    obtain n where e: "e = Date n" by (cases e)
    from True have upto: "[m..n] = [m..n - 1] @ [n]" by (simp add: s e upto_rec2)
    show ?thesis
    proof (cases "e = s \<and> s = date_min")
      case True
      then have "s = date_min" "e = date_min" by auto
      then show ?thesis
        by (subst days_down.simps)
          (simp add: days_between_def out_of_range_def add_days_def date_ok_def date_min_def one_day_def)
    next
      case False
      with True 1(2,3) have next_ok: "add_days e (- 1) = Inr (Date (n - 1))" "date_ok (Date (n - 1))"
        by (auto simp: add_days_def date_ok_def date_max_def date_min_def s e)
      from 1(1) [OF True next_ok(1) 1(2) next_ok(2)] True False next_ok upto show ?thesis
        by (subst days_down.simps)
          (auto simp: days_between_def s e out_of_range_def add_days_def date_ok_def date_min_def)
    qed
  qed (subst days_down.simps, simp add: days_between_def less_eq_date_def)
qed

text \<open>
  C39. A range is cut into exactly its days, in the order asked for and each once; a range that
  touches the end of the calendar in the direction of the walk yields all its days too, and then
  raises.
\<close>

theorem split_range_covers:
  assumes "date_ok s" "date_ok e"
  shows "split_range_into_days s e ''oldest_first'' =
      (days_between s e, if s \<le> e \<and> e = date_max then Some out_of_range else None) \<and>
    split_range_into_days s e ''newest_first'' =
      (rev (days_between s e), if s \<le> e \<and> s = date_min then Some out_of_range else None)"
  using days_up_yields [OF assms] days_down_yields [OF assms]
  by (auto simp: split_range_into_days_def parse_order_def days_between_def less_date_def less_eq_date_def)

lemma set_days_between: "set (days_between s e) = {one_day d | d. s \<le> d \<and> d \<le> e}"
proof -
  have "d \<in> Date ` {toordinal s..toordinal e}" if "s \<le> d" "d \<le> e" for d
    using that by (cases d) (auto simp: less_eq_date_def)
  then show ?thesis by (auto simp: days_between_def less_eq_date_def)
qed

lemma distinct_days_between: "distinct (days_between s e)"
  by (auto simp: days_between_def distinct_map one_day_def inj_on_def)

theorem split_range_covers_witness:
  "split_range_into_days (Date 738886) (Date 738888) ''oldest_first'' =
     (List.map (one_day \<circ> Date) [738886, 738887, 738888], None) \<and>
   split_range_into_days (Date 3652058) date_max ''oldest_first'' =
     (List.map (one_day \<circ> Date) [3652058, 3652059], Some out_of_range)"
proof -
  have ok: "date_ok (Date 738886)" "date_ok (Date 738888)" "date_ok (Date 3652058)" "date_ok date_max"
    by (simp_all add: date_ok_def date_min_def date_max_def)
  have "[738886..738888] = [738886, 738887, 738888 :: int]" "[3652058..3652059] = [3652058, 3652059 :: int]"
    by (simp_all add: upto_rec1)
  with split_range_covers [OF ok(1,2)] split_range_covers [OF ok(3,4)] show ?thesis
    by (simp add: days_between_def date_max_def)
qed

end
