(* ===== verification/Registries.thy ===== *)
theory Registries
  imports PyValues "HOL-Library.List_Lexorder" "HOL-Library.Char_ord"
begin

text \<open>
  The two registries, \<^verbatim>\<open>registry.py\<close> and \<^verbatim>\<open>ProviderRegistry\<close> of \<^verbatim>\<open>providers.py\<close>, and the contract
  both keep: a name is registered once, for ever, and is found again. Strings are ordered by code
  points, as Python sorts them.
\<close>

section \<open>Registry\<close>

type_synonym 'e registry = "(string, 'e) dict"

text \<open>\<open>attr\<close> is \<^verbatim>\<open>getattr(entry, "name", None)\<close>.\<close>

definition registry_key :: "('e \<Rightarrow> string option) \<Rightarrow> 'e \<Rightarrow> string option \<Rightarrow> string option" where
  "registry_key attr entry name = (case name of Some n \<Rightarrow> Some n | None \<Rightarrow> attr entry)"

definition registry_register ::
  "('e \<Rightarrow> string option) \<Rightarrow> 'e \<Rightarrow> string option \<Rightarrow> ('e registry, 'e) eff" where
  "registry_register attr entry name =
     (case registry_key attr entry name of
        None \<Rightarrow> eraise (Exc ValueError ''entry has no 'name' attribute and no explicit name was provided'')
      | Some key \<Rightarrow>
          if key = [] then eraise (Exc ValueError ''entry has no 'name' attribute and no explicit name was provided'')
          else ebind (eget (\<lambda>d. key \<in> set (dict_keys d))) (\<lambda>known.
               if known then eraise (Exc KeyError (''Datasource '' @ repr_str key @ '' is already registered''))
               else ebind (emod (AList.update key entry)) (\<lambda>_. eret entry)))"

definition registry_get :: "'e registry \<Rightarrow> string \<Rightarrow> exc + 'e" where
  "registry_get d name = (case map_of d name of
     None \<Rightarrow> Inl (Exc KeyError (''Datasource '' @ repr_str name @ '' is not registered''))
   | Some e \<Rightarrow> Inr e)"

definition registry_contains :: "'e registry \<Rightarrow> string \<Rightarrow> bool" where
  "registry_contains d name \<longleftrightarrow> name \<in> set (dict_keys d)"

definition registry_len :: "'e registry \<Rightarrow> nat" where
  "registry_len d = length d"

definition registry_names :: "'e registry \<Rightarrow> string list" where
  "registry_names d = sort (dict_keys d)"

definition registry_items :: "'e registry \<Rightarrow> (string \<times> 'e) list" where
  "registry_items d = sort_key fst d"

definition registry_iter :: "'e registry \<Rightarrow> 'e list" where
  "registry_iter d = List.map snd (registry_items d)"

section \<open>ProviderRegistry\<close>

definition lower :: "char \<Rightarrow> bool" where
  "lower c \<longleftrightarrow> 97 \<le> char_code c \<and> char_code c \<le> 122"

definition ident_char :: "char \<Rightarrow> bool" where
  "ident_char c \<longleftrightarrow> lower c \<or> is_digit c \<or> c = CHR ''_''"

definition ident :: "string \<Rightarrow> bool" where
  "ident s \<longleftrightarrow> s \<noteq> [] \<and> lower (hd s) \<and> list_all ident_char (tl s)"

fun split_dots :: "string \<Rightarrow> string list" where
  "split_dots [] = [[]]"
| "split_dots (c # s) = (if c = CHR ''.'' then [] # split_dots s
     else (c # hd (split_dots s)) # tl (split_dots s))"

definition dotted_name :: "string \<Rightarrow> bool" where
  "dotted_name s \<longleftrightarrow> 2 \<le> length (split_dots s) \<and> list_all ident (split_dots s)"

text \<open>
  \<^verbatim>\<open>_NAME_RE.match\<close>: the \<^verbatim>\<open>$\<close> of the pattern also matches before a newline that ends the string.
\<close>

definition provider_name_ok :: "string \<Rightarrow> bool" where
  "provider_name_ok s \<longleftrightarrow> dotted_name s \<or>
     (s \<noteq> [] \<and> last s = CHR 0x0A \<and> dotted_name (butlast s))"

record 'f provider_registry =
  by_name :: "(string, 'f) dict"
  by_category :: "(string, string list) dict"

definition no_providers :: "'f provider_registry" where
  "no_providers = \<lparr>by_name = [], by_category = []\<rparr>"

definition provider_register :: "string \<Rightarrow> 'f \<Rightarrow> string \<Rightarrow> ('f provider_registry, unit) eff" where
  "provider_register name fn category =
     (if name = [] \<or> \<not> provider_name_ok name
      then eraise (Exc RegistryError (''invalid provider name: '' @ repr_str name))
      else if category = [] \<or> blank category
      then eraise (Exc RegistryError ''provider category must be non-empty'')
      else ebind (eget (\<lambda>r. name \<in> set (dict_keys (by_name r)))) (\<lambda>known.
        if known then eraise (Exc RegistryError (''duplicate provider: '' @ name))
        else emod (\<lambda>r. r\<lparr>by_name := AList.update name fn (by_name r),
               by_category := AList.update category
                 (dict_get (by_category r) category [] @ [name]) (by_category r)\<rparr>)))"

definition provider_has :: "'f provider_registry \<Rightarrow> string \<Rightarrow> bool" where
  "provider_has r name \<longleftrightarrow> name \<in> set (dict_keys (by_name r))"

definition provider_get :: "'f provider_registry \<Rightarrow> string \<Rightarrow> exc + 'f" where
  "provider_get r name = (case map_of (by_name r) name of
     None \<Rightarrow> Inl (Exc RegistryError (''unknown provider: '' @ name)) | Some f \<Rightarrow> Inr f)"

definition names_by_category :: "'f provider_registry \<Rightarrow> string \<Rightarrow> string list" where
  "names_by_category r category = sort (dict_get (by_category r) category [])"

definition provider_keys :: "'f provider_registry \<Rightarrow> string list" where
  "provider_keys r = sort (dict_keys (by_name r))"

definition provider_items :: "'f provider_registry \<Rightarrow> (string \<times> 'f) list" where
  "provider_items r = List.map (\<lambda>n. (n, the (map_of (by_name r) n))) (provider_keys r)"

definition provider_values :: "'f provider_registry \<Rightarrow> 'f list" where
  "provider_values r = List.map (\<lambda>n. the (map_of (by_name r) n)) (provider_keys r)"

definition provider_len :: "'f provider_registry \<Rightarrow> nat" where
  "provider_len r = length (by_name r)"

section \<open>The contract of a registry\<close>

text \<open>\<open>put x\<close> registers the request \<open>x\<close>, under the key \<open>key x\<close>.\<close>

locale keyed_registry =
  fixes wf :: "'r \<Rightarrow> bool" and key :: "'x \<Rightarrow> string" and entry :: "'x \<Rightarrow> 'e"
    and put :: "'x \<Rightarrow> ('r, 'a) eff" and find :: "'r \<Rightarrow> string \<Rightarrow> exc + 'e" and names :: "'r \<Rightarrow> string list"
  assumes put_ok: "wf r \<Longrightarrow> put x r = (Inr a, r') \<Longrightarrow>
      wf r' \<and> isl (find r (key x)) \<and> find r' (key x) = Inr (entry x) \<and>
      (\<forall>n. n \<noteq> key x \<longrightarrow> isl (find r' n) = isl (find r n) \<and> (\<forall>e. find r' n = Inr e \<longleftrightarrow> find r n = Inr e))"
    and put_raises: "put x r = (Inl y, r') \<Longrightarrow> r' = r"
    and names_ok: "wf r \<Longrightarrow> set (names r) = {n. \<not> isl (find r n)} \<and> sorted (names r) \<and> distinct (names r)"
begin

text \<open>A sequence of registrations, each one caught if it raises.\<close>

fun puts :: "'x list \<Rightarrow> 'r \<Rightarrow> 'r" where
  "puts [] r = r"
| "puts (x # xs) r = puts xs (snd (put x r))"

lemma put_keeps: "wf r \<Longrightarrow> wf (snd (put x r)) \<and> (\<forall>n e. find r n = Inr e \<longrightarrow> find (snd (put x r)) n = Inr e)"
proof (cases "put x r")
  case (Pair q r')
  assume "wf r"
  with Pair show ?thesis
    by (cases q) (auto dest: put_raises, (metis isl_def put_ok sum.distinct(1))+)
qed

lemma puts_keeps: "wf r \<Longrightarrow> wf (puts xs r) \<and> (\<forall>n e. find r n = Inr e \<longrightarrow> find (puts xs r) n = Inr e)"
proof (induction xs arbitrary: r)
  case (Cons x xs)
  with put_keeps [of r x] Cons.IH [of "snd (put x r)"] show ?case by auto
qed simp

lemma registered_for_ever:
  assumes "wf r" "put x r = (Inr a, r')"
  shows "find (puts xs r') (key x) = Inr (entry x) \<and> key x \<in> set (names (puts xs r'))"
proof -
  from put_ok [OF assms] have "wf r'" "find r' (key x) = Inr (entry x)" by auto
  with puts_keeps [of r' xs] have "wf (puts xs r')" "find (puts xs r') (key x) = Inr (entry x)" by auto
  with names_ok [of "puts xs r'"] show ?thesis by auto
qed

lemma never_twice:
  assumes "wf r" "put x r = (Inr a, r')" "key y = key x"
  shows "\<exists>z. put y (puts xs r') = (Inl z, puts xs r')"
proof (cases "put y (puts xs r')")
  case (Pair q s)
  have r': "wf r'" using put_ok [OF assms(1,2)] by simp
  show ?thesis
  proof (cases q)
    case (Inl z)
    with Pair put_raises [of y "puts xs r'" z s] show ?thesis by simp
  next
    case (Inr b)
    with Pair have "isl (find (puts xs r') (key y))"
      using put_ok [of "puts xs r'" y b s] puts_keeps [OF r', of xs] by simp
    with registered_for_ever [OF assms(1,2), of xs] assms(3) show ?thesis by simp
  qed
qed

end

section \<open>Both registries keep it\<close>

lemma registry_register_Inr:
  "registry_register attr e n d = (Inr a, d') \<longleftrightarrow>
     (\<exists>key. registry_key attr e n = Some key \<and> key \<noteq> [] \<and> key \<notin> set (dict_keys d) \<and>
        a = e \<and> d' = AList.update key e d)"
  by (auto simp: registry_register_def run_Inr eff_defs split: option.splits)

lemma registry_register_Inl: "registry_register attr e n d = (Inl y, d') \<Longrightarrow> d' = d"
  by (auto simp: registry_register_def eff_defs split: option.splits if_splits)

lemma registry_get_update:
  "registry_get (AList.update k e d) n = (if n = k then Inr e else registry_get d n)"
  by (simp add: registry_get_def)

lemma registry_get_isl: "isl (registry_get d n) \<longleftrightarrow> n \<notin> set (dict_keys d)"
  by (auto simp: registry_get_def simp flip: map_of_None_keys split: option.split)

interpretation plain: keyed_registry dict_wf "\<lambda>(e, n). the (registry_key attr e n)" fst
    "\<lambda>(e, n). registry_register attr e n" registry_get registry_names
  for attr :: "'e \<Rightarrow> string option"
proof (unfold_locales, goal_cases)
  case (1 r x a r')
  then show ?case
    by (cases x) (auto simp: registry_register_Inr registry_get_update registry_get_isl)
next
  case (2 x r y r')
  then show ?case by (cases x) (auto dest: registry_register_Inl)
next
  case (3 r)
  then show ?case by (auto simp: registry_names_def registry_get_isl dict_wf_def)
qed

text \<open>
  The category lists partition the registered names: the invariant of \<^verbatim>\<open>ProviderRegistry\<close>.
\<close>

definition providers_wf :: "'f provider_registry \<Rightarrow> bool" where
  "providers_wf r \<longleftrightarrow> dict_wf (by_name r) \<and>
     (\<forall>c. distinct (dict_get (by_category r) c [])) \<and>
     (\<forall>n. n \<in> set (dict_keys (by_name r)) \<longleftrightarrow> (\<exists>c. n \<in> set (dict_get (by_category r) c []))) \<and>
     (\<forall>n c d. n \<in> set (dict_get (by_category r) c []) \<longrightarrow> n \<in> set (dict_get (by_category r) d []) \<longrightarrow> c = d)"

lemma dict_get_update: "dict_get (AList.update k v d) j x = (if j = k then v else dict_get d j x)"
  by (simp add: dict_get_def)

lemma providers_wf_empty: "providers_wf no_providers"
  by (simp add: providers_wf_def no_providers_def dict_wf_def dict_keys_def dict_get_def)

lemma provider_register_Inr:
  "provider_register n f c r = (Inr a, r') \<longleftrightarrow>
     n \<noteq> [] \<and> provider_name_ok n \<and> c \<noteq> [] \<and> \<not> blank c \<and> n \<notin> set (dict_keys (by_name r)) \<and>
     r' = r\<lparr>by_name := AList.update n f (by_name r),
            by_category := AList.update c (dict_get (by_category r) c [] @ [n]) (by_category r)\<rparr>"
  by (auto simp: provider_register_def eff_defs)

lemma provider_register_Inl: "provider_register n f c r = (Inl y, r') \<Longrightarrow> r' = r"
  by (auto simp: provider_register_def eff_defs split: if_splits)

lemma providers_wf_register:
  assumes "providers_wf r" "provider_register n f c r = (Inr a, r')"
  shows "providers_wf r'"
proof -
  from assms(2) have new: "n \<notin> set (dict_keys (by_name r))" by (simp add: provider_register_Inr)
  with assms(1) have "\<And>d. n \<notin> set (dict_get (by_category r) d [])" by (auto simp: providers_wf_def)
  with assms show ?thesis
    unfolding providers_wf_def provider_register_Inr
    by (auto simp: dict_get_update split: if_splits) (metis (full_types))
qed

lemma provider_get_isl: "isl (provider_get r n) \<longleftrightarrow> n \<notin> set (dict_keys (by_name r))"
  by (auto simp: provider_get_def simp flip: map_of_None_keys split: option.split)

lemma provider_get_update:
  "provider_get (r\<lparr>by_name := AList.update k f (by_name r), by_category := cs\<rparr>) n =
     (if n = k then Inr f else provider_get r n)"
  by (simp add: provider_get_def)

interpretation provider: keyed_registry providers_wf fst "\<lambda>(n, f, c). f"
    "\<lambda>(n, f, c). provider_register n f c" provider_get provider_keys
proof (unfold_locales, goal_cases)
  case (1 r x a r')
  then show ?case
    using providers_wf_register [of r "fst x" "fst (snd x)" "snd (snd x)" a r']
    by (cases x) (auto simp: provider_register_Inr provider_get_update provider_get_isl)
next
  case (2 x r y r')
  then show ?case by (cases x) (auto dest: provider_register_Inl)
next
  case (3 r)
  then show ?case by (auto simp: provider_keys_def provider_get_isl providers_wf_def dict_wf_def)
qed

section \<open>Names\<close>

lemma split_dots_not_Nil [simp]: "split_dots s \<noteq> []"
  by (induction s rule: split_dots.induct) auto

lemma ident_char_not_dot: "ident_char c \<Longrightarrow> c \<noteq> CHR ''.''"
  by (auto simp: ident_char_def lower_def is_digit_def char_code_def)

lemma ident_no_dot: "ident s \<Longrightarrow> CHR ''.'' \<notin> set s"
  using ident_char_not_dot by (cases s) (auto simp: ident_def list_all_iff ident_char_def)

lemma split_dots_append: "CHR ''.'' \<notin> set s \<Longrightarrow> split_dots (s @ CHR ''.'' # t) = s # split_dots t"
  and split_dots_ident: "CHR ''.'' \<notin> set s \<Longrightarrow> split_dots s = [s]"
  by (induction s) auto

lemma split_dots_join: "parts \<noteq> [] \<Longrightarrow> list_all ident parts \<Longrightarrow> split_dots (join ''.'' parts) = parts"
proof (induction parts rule: induct_list012)
  case (3 x y zs)
  then show ?case by (simp add: split_dots_append ident_no_dot)
qed (simp_all add: split_dots_ident ident_no_dot)

lemma join_Cons: "xs \<noteq> [] \<Longrightarrow> join sep (x # xs) = x @ sep @ join sep xs"
  by (cases xs) auto

lemma join_first: "join sep ((c # x) # xs) = c # join sep (x # xs)"
  by (cases xs) auto

lemma join_split_dots: "join ''.'' (split_dots s) = s"
proof (induction s rule: split_dots.induct)
  case (2 c s)
  then show ?case
    by (cases "split_dots s") (auto simp: join_Cons join_first)
qed simp

text \<open>
  The allowlist of provider names: at least two dotted parts, each a lower-case letter followed
  by lower-case letters, digits and underscores, and possibly one newline behind them.
\<close>

theorem provider_name_shape:
  "provider_name_ok s \<longleftrightarrow> (\<exists>parts. 2 \<le> length parts \<and> list_all ident parts \<and>
     (s = join ''.'' parts \<or> s = join ''.'' parts @ [CHR 0x0A]))"
proof -
  have d: "dotted_name t \<longleftrightarrow> (\<exists>parts. 2 \<le> length parts \<and> list_all ident parts \<and> t = join ''.'' parts)" for t
    using join_split_dots [of t] split_dots_join unfolding dotted_name_def
    by (metis list.size(3) not_numeral_le_zero)
  have "(s \<noteq> [] \<and> last s = CHR 0x0A \<and> dotted_name (butlast s)) \<longleftrightarrow> (\<exists>t. s = t @ [CHR 0x0A] \<and> dotted_name t)"
    by (metis append_butlast_last_id butlast_snoc last_snoc snoc_eq_iff_butlast)
  then show ?thesis unfolding provider_name_ok_def d by blast
qed

section \<open>Properties\<close>

text \<open>Registrations in order, each one caught if it raises.\<close>

fun register_all :: "(string \<times> 'f \<times> string) list \<Rightarrow> 'f provider_registry \<Rightarrow> 'f provider_registry" where
  "register_all [] r = r"
| "register_all ((n, f, c) # xs) r = register_all xs (snd (provider_register n f c r))"

lemma register_all_puts: "register_all xs r = provider.puts xs r"
  by (induction xs r rule: register_all.induct) auto

text \<open>
  Registered once, for ever: after a provider was registered, whatever else is registered, its
  name still maps to its callable and is listed, a second registration of the name raises and
  changes nothing, and the categories partition the names.
\<close>

theorem provider_registered_for_ever:
  assumes "provider_register n f c (register_all xs no_providers) = (Inr a, r)"
  shows "provider_get (register_all ys r) n = Inr f \<and> n \<in> set (provider_keys (register_all ys r)) \<and>
    (\<exists>z. provider_register n g d (register_all ys r) = (Inl z, register_all ys r)) \<and>
    n \<in> set (names_by_category (register_all ys r) c) \<and>
    (\<forall>d. n \<in> set (names_by_category (register_all ys r) d) \<longrightarrow> d = c)"
proof -
  have wf: "providers_wf (register_all xs no_providers)"
    using provider.puts_keeps [OF providers_wf_empty, of xs] by (simp add: register_all_puts)
  have reg: "(\<lambda>(n, f, c). provider_register n f c) (n, f, c) (register_all xs no_providers) = (Inr a, r)"
    using assms by simp
  have r: "providers_wf r" by (rule providers_wf_register [OF wf assms])
  have cat: "n \<in> set (dict_get (by_category r) c [])" "provider_get r n = Inr f"
    using assms by (auto simp: provider_register_Inr provider_get_def)
  have grows: "n \<in> set (dict_get (by_category s) c []) \<Longrightarrow> n \<in> set (dict_get (by_category (register_all ys s)) c [])"
    for s :: "'a provider_registry"
  proof (induction ys arbitrary: s)
    case (Cons y ys)
    obtain m g d where y: "y = (m, g, d)" by (cases y)
    obtain q s' where q: "provider_register m g d s = (q, s')" by (cases "provider_register m g d s")
    then have "n \<in> set (dict_get (by_category s') c [])"
      using Cons.prems by (cases q) (auto dest: provider_register_Inl simp: provider_register_Inr dict_get_update)
    with Cons.IH y q show ?case by simp
  qed simp
  have wf': "providers_wf (register_all ys r)"
    using provider.puts_keeps [OF r, of ys] by (simp add: register_all_puts)
  from grows [OF cat(1)] wf' have "n \<in> set (names_by_category (register_all ys r) c)"
    "\<forall>d. n \<in> set (names_by_category (register_all ys r) d) \<longrightarrow> d = c"
    by (auto simp: names_by_category_def providers_wf_def)
  moreover have "\<exists>z. provider_register n g d (register_all ys r) = (Inl z, register_all ys r)"
    using provider.never_twice [OF wf reg, of "(n, g, d)" ys] by (simp add: register_all_puts)
  ultimately show ?thesis
    using provider.registered_for_ever [OF wf reg, of ys] unfolding register_all_puts fst_conv prod.case
    by blast
qed

theorem provider_registered_for_ever_witness:
  "\<exists>r. provider_register ''fetch.mock'' (1 :: nat) ''fetcher'' no_providers = (Inr (), r) \<and>
     provider_get (register_all [(''diff.by_id'', 2, ''diff''), (''fetch.mock'', 3, ''fetcher'')] r) ''fetch.mock'' = Inr 1"
proof -
  have "provider_name_ok ''fetch.mock''" "\<not> blank ''fetcher''" by code_simp+
  then obtain r where r: "provider_register ''fetch.mock'' (1 :: nat) ''fetcher'' no_providers = (Inr (), r)"
    by (auto simp: provider_register_def eff_defs no_providers_def dict_keys_def)
  from provider_registered_for_ever [of "''fetch.mock''" 1 "''fetcher''" "[]" "()" r
      "[(''diff.by_id'', 2, ''diff''), (''fetch.mock'', 3, ''fetcher'')]"] r
  show ?thesis by simp
qed

end
