(* ===== verification/Ledger.thy ===== *)
theory Ledger
  imports AtomicFile
begin

text \<open>
  \<^verbatim>\<open>ledger.py\<close>: discovered items and evidence with their JSON forms, the summary of a window, and
  \<^verbatim>\<open>write_window\<close> on the directory model of \<open>AtomicFile\<close>. The documents of the directory are the
  values the code serialises.
\<close>

section \<open>Items and evidence\<close>

record discovered_item =
  di_source_id :: string
  di_status :: string
  di_url :: "string option"
  di_metadata :: "(string, json) dict"

text \<open>\<^verbatim>\<open>x or {}\<close>, then \<^verbatim>\<open>isinstance(x, Mapping)\<close>\<close>

definition or_empty :: "json \<Rightarrow> json" where
  "or_empty v = (if truthy v then v else JObj [])"

definition item_from_json :: "(string, json) dict \<Rightarrow> exc + discovered_item" where
  "item_from_json raw =
     (case as_str (dict_get raw ''source_id'' JNull) of
        None \<Rightarrow> Inl (Exc ValidationError ''DiscoveredItem requires a non-empty source_id'')
      | Some source_id \<Rightarrow>
          if blank source_id then Inl (Exc ValidationError ''DiscoveredItem requires a non-empty source_id'')
          else (case as_str (dict_get raw ''status'' JNull) of
             None \<Rightarrow> Inl (Exc ValidationError ''DiscoveredItem requires a status string'')
           | Some status \<Rightarrow>
               if status = [] then Inl (Exc ValidationError ''DiscoveredItem requires a status string'')
               else Inr \<lparr>di_source_id = source_id, di_status = status,
                      di_url = as_str (dict_get raw ''url'' JNull),
                      di_metadata = (case or_empty (dict_get raw ''metadata'' JNull) of
                          JObj d \<Rightarrow> d | _ \<Rightarrow> [])\<rparr>))"

definition item_as_dict :: "discovered_item \<Rightarrow> (string, json) dict" where
  "item_as_dict i =
     [(''source_id'', JStr (di_source_id i)), (''status'', JStr (di_status i)),
      (''metadata'', JObj (di_metadata i))] @
     (case di_url i of None \<Rightarrow> [] | Some u \<Rightarrow> [(''url'', JStr u)])"

record evidence =
  ev_run_id :: string
  ev_captured_at :: string
  ev_payload :: "(string, json) dict"

definition evidence_capture :: "('s, string) eff \<Rightarrow> string \<Rightarrow> (string, json) dict \<Rightarrow> ('s, evidence) eff" where
  "evidence_capture now run_id payload =
     ebind now (\<lambda>ts. eret \<lparr>ev_run_id = run_id, ev_captured_at = ts, ev_payload = payload\<rparr>)"

definition evidence_from_json :: "(string, json) dict \<Rightarrow> exc + evidence" where
  "evidence_from_json raw =
     (case as_str (dict_get raw ''run_id'' JNull) of
        None \<Rightarrow> Inl (Exc ValidationError ''Evidence requires a non-empty run_id'')
      | Some run_id \<Rightarrow>
          if blank run_id then Inl (Exc ValidationError ''Evidence requires a non-empty run_id'')
          else (case as_str (dict_get raw ''captured_at'' JNull) of
             None \<Rightarrow> Inl (Exc ValidationError ''Evidence requires a captured_at timestamp'')
           | Some captured_at \<Rightarrow>
               if blank captured_at then Inl (Exc ValidationError ''Evidence requires a captured_at timestamp'')
               else (case or_empty (dict_get raw ''payload'' JNull) of
                   JObj payload \<Rightarrow> Inr \<lparr>ev_run_id = run_id, ev_captured_at = captured_at, ev_payload = payload\<rparr>
                 | _ \<Rightarrow> Inl (Exc ValidationError ''Evidence payload must be a mapping''))))"

definition evidence_as_dict :: "evidence \<Rightarrow> (string, json) dict" where
  "evidence_as_dict e = [(''run_id'', JStr (ev_run_id e)), (''captured_at'', JStr (ev_captured_at e)),
     (''payload'', JObj (ev_payload e))]"

definition item_wf :: "discovered_item \<Rightarrow> bool" where
  "item_wf i \<longleftrightarrow> \<not> blank (di_source_id i) \<and> di_status i \<noteq> []"

definition evidence_wf :: "evidence \<Rightarrow> bool" where
  "evidence_wf e \<longleftrightarrow> \<not> blank (ev_run_id e) \<and> \<not> blank (ev_captured_at e)"

lemma or_empty_obj [simp]: "or_empty (JObj d) = JObj d"
  by (simp add: or_empty_def)

text \<open>
  Items and evidence survive their JSON form: what is read back from the form of a record is the
  record, exactly when the reader's checks hold of it, and whatever is read satisfies the checks.
\<close>

theorem ledger_records_roundtrip:
  "(item_from_json (item_as_dict i) = Inr i \<longleftrightarrow> item_wf i) \<and>
   (evidence_from_json (evidence_as_dict e) = Inr e \<longleftrightarrow> evidence_wf e) \<and>
   (\<forall>raw j. item_from_json raw = Inr j \<longrightarrow> item_from_json (item_as_dict j) = Inr j) \<and>
   (\<forall>raw f. evidence_from_json raw = Inr f \<longrightarrow> evidence_from_json (evidence_as_dict f) = Inr f)"
proof -
  have i: "item_from_json (item_as_dict i) = Inr i \<longleftrightarrow> item_wf i" for i
    by (cases "di_url i")
      (auto simp: item_from_json_def item_as_dict_def item_wf_def dict_get_def dict_keys_def)
  have e: "evidence_from_json (evidence_as_dict e) = Inr e \<longleftrightarrow> evidence_wf e" for e
    by (auto simp: evidence_from_json_def evidence_as_dict_def evidence_wf_def dict_get_def)
  have "item_from_json raw = Inr j \<Longrightarrow> item_wf j" for raw j
    by (auto simp: item_from_json_def item_wf_def split: option.splits if_splits)
  moreover have "evidence_from_json raw = Inr f \<Longrightarrow> evidence_wf f" for raw f
    by (auto simp: evidence_from_json_def evidence_wf_def split: option.splits if_splits json.splits)
  ultimately show ?thesis by (simp add: i e)
qed

lemma ledger_records_roundtrip_witness:
  "let raw = [(''status'', JStr ''merged''), (''url'', JNull), (''source_id'', JStr ''a'')];
       i = \<lparr>di_source_id = ''a'', di_status = ''merged'', di_url = None, di_metadata = []\<rparr>;
       doc = [(''payload'', JNull), (''captured_at'', JStr ''now''), (''run_id'', JStr ''r'')];
       e = \<lparr>ev_run_id = ''r'', ev_captured_at = ''now'', ev_payload = []\<rparr>
   in item_from_json raw = Inr i \<and> item_from_json (item_as_dict i) = Inr i \<and>
      evidence_from_json doc = Inr e \<and> evidence_from_json (evidence_as_dict e) = Inr e"
proof -
  define raw where "raw = [(''status'', JStr ''merged''), (''url'', JNull), (''source_id'', JStr ''a'')]"
  define doc where "doc = [(''payload'', JNull), (''captured_at'', JStr ''now''), (''run_id'', JStr ''r'')]"
  have i: "item_from_json raw = Inr \<lparr>di_source_id = ''a'', di_status = ''merged'', di_url = None, di_metadata = []\<rparr>"
    and e: "evidence_from_json doc = Inr \<lparr>ev_run_id = ''r'', ev_captured_at = ''now'', ev_payload = []\<rparr>"
    unfolding raw_def doc_def by code_simp+
  with ledger_records_roundtrip show ?thesis
    unfolding Let_def raw_def doc_def by blast
qed

section \<open>The summary\<close>

record ledger_summary =
  ls_discovered :: nat
  ls_fetched :: nat
  ls_merged :: nat
  ls_failed :: nat
  ls_skipped :: nat
  ls_pending :: nat

definition summary_as_dict :: "ledger_summary \<Rightarrow> (string, nat) dict" where
  "summary_as_dict s = [(''discovered'', ls_discovered s), (''fetched'', ls_fetched s),
     (''merged'', ls_merged s), (''failed'', ls_failed s), (''skipped'', ls_skipped s),
     (''pending'', ls_pending s)]"

text \<open>\<^verbatim>\<open>setattr(summary, item.status, getattr(summary, item.status) + 1)\<close>\<close>

definition count_status :: "string \<Rightarrow> ledger_summary \<Rightarrow> ledger_summary" where
  "count_status st s =
     (if st = ''fetched'' then s\<lparr>ls_fetched := ls_fetched s + 1\<rparr>
      else if st = ''merged'' then s\<lparr>ls_merged := ls_merged s + 1\<rparr>
      else if st = ''failed'' then s\<lparr>ls_failed := ls_failed s + 1\<rparr>
      else if st = ''skipped'' then s\<lparr>ls_skipped := ls_skipped s + 1\<rparr>
      else if st = ''pending'' then s\<lparr>ls_pending := ls_pending s + 1\<rparr>
      else s)"

definition summarize :: "discovered_item list \<Rightarrow> ledger_summary" where
  "summarize items = fold (\<lambda>i. count_status (di_status i)) items
     \<lparr>ls_discovered = length items, ls_fetched = 0, ls_merged = 0, ls_failed = 0, ls_skipped = 0,
      ls_pending = 0\<rparr>"

definition with_status :: "string \<Rightarrow> discovered_item list \<Rightarrow> nat" where
  "with_status st items = length (filter (\<lambda>i. di_status i = st) items)"

lemma with_status_Cons [simp]:
  "with_status st (i # is) = (if di_status i = st then 1 else 0) + with_status st is"
  "with_status st [] = 0"
  by (simp_all add: with_status_def)

lemma fold_count_status:
  "fold (\<lambda>i. count_status (di_status i)) items s =
     s\<lparr>ls_fetched := ls_fetched s + with_status ''fetched'' items,
       ls_merged := ls_merged s + with_status ''merged'' items,
       ls_failed := ls_failed s + with_status ''failed'' items,
       ls_skipped := ls_skipped s + with_status ''skipped'' items,
       ls_pending := ls_pending s + with_status ''pending'' items\<rparr>"
  by (induction items arbitrary: s) (auto simp: count_status_def)

lemma summarize_counts:
  "summarize items = \<lparr>ls_discovered = length items, ls_fetched = with_status ''fetched'' items,
     ls_merged = with_status ''merged'' items, ls_failed = with_status ''failed'' items,
     ls_skipped = with_status ''skipped'' items, ls_pending = with_status ''pending'' items\<rparr>"
  by (simp add: summarize_def fold_count_status)

lemma summary_bounded:
  "ls_fetched (summarize items) + ls_merged (summarize items) + ls_failed (summarize items) +
   ls_skipped (summarize items) + ls_pending (summarize items) \<le> ls_discovered (summarize items)"
  by (induction items) (auto simp: summarize_counts)

section \<open>write_window\<close>

text \<open>The two documents of a window: the JSON lines and the summary.\<close>

datatype ledger_doc = ItemLines "(string, json) dict list" | SummaryDoc "(string, nat) dict"

definition tmp_name :: "string \<Rightarrow> string \<Rightarrow> string" where
  "tmp_name name pid = name @ ''.'' @ pid @ ''.tmp''"

definition lines_name :: "string \<Rightarrow> string" where
  "lines_name run_id = run_id @ ''.jsonl''"

definition write_window :: "string \<Rightarrow> string \<Rightarrow> discovered_item list \<Rightarrow> (ledger_doc fsys, ledger_summary) eff" where
  "write_window pid run_id items =
     ebind (syscall d_nothing) (\<lambda>_.
     ebind (ledger_atomic_write (tmp_name (lines_name run_id) pid) (lines_name run_id)
              (ItemLines (List.map item_as_dict items))) (\<lambda>_.
     ebind (ledger_atomic_write (tmp_name ''summary.json'' pid) ''summary.json''
              (SummaryDoc (summary_as_dict (summarize items)))) (\<lambda>_.
     eret (summarize items))))"

section \<open>The order of the two writes\<close>

text \<open>A write under one name leaves every file under another name alone.\<close>

definition bystander :: "string \<Rightarrow> string \<Rightarrow> 'd disk \<Rightarrow> 'd disk \<Rightarrow> bool" where
  "bystander tmp n d0 d \<longleftrightarrow> disk_wf d \<and> entries d n = entries d0 n \<and> entries_synced d n = entries_synced d0 n \<and>
     (\<forall>i. entries d0 n = Some i \<or> entries_synced d0 n = Some i \<longrightarrow>
        data d i = data d0 i \<and> data_synced d i = data_synced d0 i \<and> entries d tmp \<noteq> Some i)"

lemma bystander_same:
  "bystander tmp n d0 d \<Longrightarrow> visible d n = visible d0 n \<and> (\<forall>x. may_survive d n x = may_survive d0 n x)"
proof -
  assume b: "bystander tmp n d0 d"
  then have "visible d n = visible d0 n" by (cases "entries d0 n") (auto simp: bystander_def visible_def)
  moreover have "may_survive d n x = may_survive d0 n x" for x
    using b entry_survives_cong [of "entries d0 n" d d0 x] entry_survives_cong [of "entries_synced d0 n" d d0 x]
    by (auto simp: bystander_def may_survive_def)
  ultimately show ?thesis by blast
qed

lemma bystander_open:
  assumes "bystander tmp n d0 d" "tmp \<noteq> n" "d_open_write tmp d = Inr (i, d')"
  shows "bystander tmp n d0 d' \<and> holds_tmp tmp i d'"
proof (cases "entries d tmp")
  case None
  with assms(3) have d': "d' = snd (fresh_file tmp d)" "i = next_ino d" by (auto simp: fresh_file_def)
  have "entries d0 n \<noteq> Some (next_ino d)" "entries_synced d0 n \<noteq> Some (next_ino d)"
    using assms(1) by (auto simp: bystander_def disk_wf_def) (metis less_irrefl)+
  with assms(1,2) show ?thesis
    by (auto simp: d' fresh_file_def bystander_def holds_tmp_def disk_wf_def less_Suc_eq)
next
  case (Some j)
  with assms show ?thesis by (auto simp: bystander_def holds_tmp_def disk_wf_def)
qed

lemma bystander_set: "bystander tmp n d0 d \<Longrightarrow> holds_tmp tmp i d \<Longrightarrow>
    bystander tmp n d0 (d\<lparr>data := (data d)(i := x), data_synced := (data_synced d)(i := b)\<rparr>)"
  by (auto simp: bystander_def holds_tmp_def disk_wf_def)

lemma bystander_replace: "bystander tmp n d0 d \<Longrightarrow> holds_tmp tmp i d \<Longrightarrow> tmp \<noteq> n \<Longrightarrow> t \<noteq> n \<Longrightarrow>
    bystander tmp n d0 (d\<lparr>entries := (entries d)(t := Some i, tmp := None)\<rparr>)"
  by (auto simp: bystander_def holds_tmp_def disk_wf_def)

lemma bystander_unlink: "bystander tmp n d0 d \<Longrightarrow> tmp \<noteq> n \<Longrightarrow>
    bystander tmp n d0 (d\<lparr>entries := (entries d)(tmp := None)\<rparr>)"
  by (auto simp: bystander_def disk_wf_def)

lemma ledger_write_bystander:
  assumes "tmp \<noteq> n" "t \<noteq> n"
  shows "triple (on_disks (bystander tmp n d0) ds0) (ledger_atomic_write tmp t c)
    (\<lambda>_. on_disks (bystander tmp n d0) ds0) (\<lambda>_. on_disks (bystander tmp n d0) ds0)"
proof -
  let ?B = "on_disks (bystander tmp n d0) ds0"
  let ?H = "\<lambda>i s. ?B s \<and> holds_tmp tmp i (disk s)"
  have op: "triple ?B (syscall (d_open_write tmp)) (\<lambda>i. ?H i) (\<lambda>_. ?B)"
    by (rule triple_pre [OF triple_disks [where P = "\<lambda>_. True"]], rule bystander_open [OF _ assms(1)]) auto
  have set: "triple (?H i) (syscall (d_set i x)) (\<lambda>_. ?H i) (\<lambda>_. ?B)" for i x
    by (rule triple_disks) (auto intro: bystander_set simp: holds_tmp_def)
  have wr: "triple (?H i) (write_all i c) (\<lambda>_. ?H i) (\<lambda>_. ?B)" for i
    unfolding write_all_def by (rule triple_ebind [OF set set])
  have sync: "triple (?H i) (syscall (d_fsync i)) (\<lambda>_. ?H i) (\<lambda>_. ?B)" for i
  proof (rule triple_disks)
    fix d d' :: "'a disk" and a :: unit
    assume H: "holds_tmp tmp i d" "bystander tmp n d0 d" and f: "d_fsync i d = Inr (a, d')"
    from bystander_set [OF H(2,1), where x = "data d i" and b = True] f H(1)
    show "bystander tmp n d0 d' \<and> holds_tmp tmp i d'" by (auto simp: holds_tmp_def fun_upd_idem)
  qed
  have repl: "triple (?H i) (syscall (d_replace tmp t)) (\<lambda>_. ?B) (\<lambda>_. ?B)" for i
    by (rule triple_conseq [OF triple_disks [where P = "holds_tmp tmp i" and Q = "\<lambda>_ _. True"]])
      (auto dest: bystander_replace [OF _ _ assms] simp: holds_tmp_def)
  have unl: "triple ?B (syscall (d_unlink tmp)) (\<lambda>_. ?B) (\<lambda>_. ?B)"
    by (rule triple_conseq [OF triple_disks [where P = "\<lambda>_. True" and Q = "\<lambda>_ _. True"]])
      (auto dest!: bystander_unlink [OF _ assms(1)] split: option.splits)
  have fin: "triple ?B (ebind (eget (\<lambda>s. entries (disk s) tmp \<noteq> None)) (\<lambda>there. ewhen there (syscall (d_unlink tmp))))
      (\<lambda>_. ?B) (\<lambda>_. ?B)"
  proof (rule triple_ebind)
    show "triple ?B (eget (\<lambda>s. entries (disk s) tmp \<noteq> None)) (\<lambda>_. ?B) (\<lambda>_. ?B)" by (rule triple_eget)
    show "triple ?B (ewhen there (syscall (d_unlink tmp))) (\<lambda>_. ?B) (\<lambda>_. ?B)" for there
      using unl by (cases there) (auto simp: ewhen_def intro: triple_eret)
  qed
  show ?thesis unfolding ledger_atomic_write_def
    by (rule triple_efinally [OF triple_ebind [OF op triple_ebind [OF wr triple_ebind [OF sync repl]]] fin fin])
qed

lemma ledger_write_leaves:
  assumes "bystander tmp n (disk s) (disk s)" "tmp \<noteq> n" "t \<noteq> n" "ledger_atomic_write tmp t c s = (r, s')"
  shows "on_disks (bystander tmp n (disk s)) (seen s) s'"
proof -
  have start: "on_disks (bystander tmp n (disk s)) (seen s) s" using assms(1) by (simp add: on_disks_def)
  from triple_Inr [OF ledger_write_bystander [OF assms(2,3)] start] triple_Inl [OF ledger_write_bystander [OF assms(2,3)] start]
  show ?thesis using assms(4) by (cases r) auto
qed

lemma on_disks_seen: "on_disks G ds0 s \<Longrightarrow> d \<in> set (seen s) \<Longrightarrow> d \<in> set ds0 \<or> G d"
  and on_disks_now: "on_disks G ds0 s \<Longrightarrow> G (disk s)"
  by (auto simp: on_disks_def)

lemma nothing_disk: "syscall d_nothing s = (r, s') \<Longrightarrow> disk s' = disk s \<and> set (seen s') \<subseteq> insert (disk s) (set (seen s))"
  by (auto simp: syscall_def Let_def split: if_splits)

text \<open>No temporary file of this process is left from an earlier run.\<close>

definition no_leftovers :: "string \<Rightarrow> string \<Rightarrow> 'd disk \<Rightarrow> bool" where
  "no_leftovers pid run_id d \<longleftrightarrow> disk_wf d \<and> entries d (tmp_name (lines_name run_id) pid) = None \<and>
     entries d (tmp_name ''summary.json'' pid) = None"

lemma window_names:
  "lines_name r \<noteq> ''summary.json''" "tmp_name n pid \<noteq> lines_name r" "tmp_name n pid \<noteq> ''summary.json''"
  "tmp_name (lines_name r) pid \<noteq> tmp_name ''summary.json'' pid"
proof -
  show ne: "lines_name r \<noteq> ''summary.json''"
  proof
    assume "lines_name r = ''summary.json''"
    then have "last (lines_name r) = last ''summary.json''" by simp
    then show False by (simp add: lines_name_def)
  qed
  have "last (tmp_name n pid) \<noteq> last (lines_name r)" "last (tmp_name n pid) \<noteq> last ''summary.json''"
    by (simp_all add: tmp_name_def lines_name_def)
  then show "tmp_name n pid \<noteq> lines_name r" "tmp_name n pid \<noteq> ''summary.json''" by metis+
  from ne show "tmp_name (lines_name r) pid \<noteq> tmp_name ''summary.json'' pid"
    by (simp add: tmp_name_def)
qed

lemma no_entry_bystander: "disk_wf d \<Longrightarrow> entries d tmp = None \<Longrightarrow> bystander tmp n d d"
  and no_entry_ready: "disk_wf d \<Longrightarrow> entries d tmp = None \<Longrightarrow> tmp \<noteq> t \<Longrightarrow> ready tmp t d"
  by (auto simp: bystander_def ready_def)

text \<open>The states a reader of the window's folder can meet.\<close>

definition window_state ::
  "string \<Rightarrow> discovered_item list \<Rightarrow> ledger_doc disk \<Rightarrow> ledger_doc disk \<Rightarrow> bool" where
  "window_state run_id items d0 d \<longleftrightarrow>
     (let lines = Some (Whole (ItemLines (List.map item_as_dict items)));
          summary = Some (Whole (SummaryDoc (summary_as_dict (summarize items)))) in
      visible d (lines_name run_id) = visible d0 (lines_name run_id) \<and>
        visible d ''summary.json'' = visible d0 ''summary.json'' \<or>
      visible d (lines_name run_id) = lines \<and>
        (visible d ''summary.json'' = visible d0 ''summary.json'' \<or> visible d ''summary.json'' = summary))"

lemma first_write:
  assumes "no_leftovers pid run_id (disk s)"
    and "ledger_atomic_write (tmp_name (lines_name run_id) pid) (lines_name run_id)
       (ItemLines (List.map item_as_dict items)) s = (r, s')"
  shows "on_disks (window_state run_id items (disk s)) (seen s) s'"
    and "r = Inr u \<Longrightarrow> visible (disk s') (lines_name run_id) = Some (Whole (ItemLines (List.map item_as_dict items))) \<and>
       visible (disk s') ''summary.json'' = visible (disk s) ''summary.json'' \<and>
       disk_wf (disk s') \<and> entries (disk s') (tmp_name ''summary.json'' pid) = None"
proof -
  let ?t1 = "tmp_name (lines_name run_id) pid" and ?t2 = "tmp_name ''summary.json'' pid"
  from assms(1) have wf: "disk_wf (disk s)" and e: "entries (disk s) ?t1 = None" "entries (disk s) ?t2 = None"
    by (simp_all add: no_leftovers_def)
  have rd: "ready ?t1 (lines_name run_id) (disk s)" by (rule no_entry_ready [OF wf e(1) window_names(2)])
  note safe = ledger_file.run_safe [OF rd assms(2)]
  have b1: "on_disks (bystander ?t1 ''summary.json'' (disk s)) (seen s) s'"
    by (rule ledger_write_leaves [OF no_entry_bystander [OF wf e(1)] window_names(3,1) assms(2)])
  have b2: "on_disks (bystander ?t1 ?t2 (disk s)) (seen s) s'"
    by (rule ledger_write_leaves [OF no_entry_bystander [OF wf e(1)] window_names(4) window_names(2) [symmetric] assms(2)])
  from safe b1 show "on_disks (window_state run_id items (disk s)) (seen s) s'"
    unfolding all_safe_on on_disks_def
    by (fastforce simp: window_state_def target_safe_def Let_def dest!: bystander_same)
  assume r: "r = Inr u"
  from ledger_file.returns_installed [OF rd] assms(2) r
    bystander_same [OF on_disks_now [OF b1]] on_disks_now [OF b2] e(2)
  show "visible (disk s') (lines_name run_id) = Some (Whole (ItemLines (List.map item_as_dict items))) \<and>
       visible (disk s') ''summary.json'' = visible (disk s) ''summary.json'' \<and>
       disk_wf (disk s') \<and> entries (disk s') (tmp_name ''summary.json'' pid) = None"
    by (auto simp: installed_def bystander_def)
qed

lemma second_write:
  assumes "disk_wf (disk s)" "entries (disk s) (tmp_name ''summary.json'' pid) = None"
    and lines: "visible (disk s) (lines_name run_id) = Some (Whole (ItemLines (List.map item_as_dict items)))"
    and "visible (disk s) ''summary.json'' = visible d0 ''summary.json''"
    and "ledger_atomic_write (tmp_name ''summary.json'' pid) ''summary.json''
       (SummaryDoc (summary_as_dict (summarize items))) s = (r, s')"
  shows "on_disks (window_state run_id items d0) (seen s) s'"
    and "r = Inr u \<Longrightarrow> visible (disk s') (lines_name run_id) = visible (disk s) (lines_name run_id) \<and>
       visible (disk s') ''summary.json'' = Some (Whole (SummaryDoc (summary_as_dict (summarize items))))"
proof -
  let ?t = "tmp_name ''summary.json'' pid"
  have rd: "ready ?t ''summary.json'' (disk s)" by (rule no_entry_ready [OF assms(1,2) window_names(3)])
  note safe = ledger_file.run_safe [OF rd assms(5)]
  have b: "on_disks (bystander ?t (lines_name run_id) (disk s)) (seen s) s'"
    by (rule ledger_write_leaves [OF no_entry_bystander [OF assms(1,2)] window_names(2) window_names(1) [symmetric] assms(5)])
  from safe b assms(3,4) show "on_disks (window_state run_id items d0) (seen s) s'"
    unfolding all_safe_on on_disks_def
    by (fastforce simp: window_state_def target_safe_def Let_def dest!: bystander_same)
  assume "r = Inr u"
  with ledger_file.returns_installed [OF rd] assms(5) bystander_same [OF on_disks_now [OF b]]
  show "visible (disk s') (lines_name run_id) = visible (disk s) (lines_name run_id) \<and>
       visible (disk s') ''summary.json'' = Some (Whole (SummaryDoc (summary_as_dict (summarize items))))"
    by (auto simp: installed_def)
qed

section \<open>The window\<close>

text \<open>
  C9. A reader of the ledger never meets a summary without the items it counts: on every disk
  \<^verbatim>\<open>write_window\<close> goes through, whatever system call fails, both files are the old ones, or the
  items file is the whole new one and the summary is the old or the whole new one. When it
  returns, both are new and the summary it returns counts the items.
\<close>

theorem write_window_ordered:
  assumes "no_leftovers pid run_id (disk s)" "seen s = []" "write_window pid run_id items s = (r, s')"
  shows "(\<forall>d \<in> set (seen s'). window_state run_id items (disk s) d) \<and>
    (\<forall>w. r = Inr w \<longrightarrow>
       visible (disk s') (lines_name run_id) = Some (Whole (ItemLines (List.map item_as_dict items))) \<and>
       visible (disk s') ''summary.json'' = Some (Whole (SummaryDoc (summary_as_dict w))) \<and>
       ls_discovered w = length items \<and> ls_fetched w = with_status ''fetched'' items \<and>
       ls_failed w = with_status ''failed'' items)"
proof -
  let ?W = "window_state run_id items (disk s)"
  obtain q1 s1 where mk: "syscall d_nothing s = (q1, s1)" by (cases "syscall d_nothing s")
  with nothing_disk [OF mk] assms(2) have s1: "disk s1 = disk s" "set (seen s1) \<subseteq> {disk s}" by auto
  have W0: "?W (disk s)" by (simp add: window_state_def Let_def)
  show ?thesis
  proof (cases q1)
    case (Inl x)
    with mk assms(3) have "r = Inl x" "s' = s1" by (auto simp: write_window_def ebind_Inl)
    with s1 W0 show ?thesis by auto
  next
    case (Inr a)
    obtain q2 s2 where w1: "ledger_atomic_write (tmp_name (lines_name run_id) pid) (lines_name run_id)
       (ItemLines (List.map item_as_dict items)) s1 = (q2, s2)" by (metis surj_pair)
    have left: "no_leftovers pid run_id (disk s1)" using assms(1) s1 by simp
    note f = first_write [OF left w1, unfolded s1(1)]
    have W2: "\<forall>d \<in> set (seen s2). ?W d" using on_disks_seen [OF f(1)] s1(2) W0 by auto
    show ?thesis
    proof (cases q2)
      case (Inl x)
      with mk Inr w1 assms(3) have "r = Inl x" "s' = s2" by (auto simp: write_window_def ebind_Inr ebind_Inl)
      with W2 show ?thesis by auto
    next
      case q2: (Inr b)
      obtain q3 s3 where w2: "ledger_atomic_write (tmp_name ''summary.json'' pid) ''summary.json''
         (SummaryDoc (summary_as_dict (summarize items))) s2 = (q3, s3)" by (metis surj_pair)
      from f(2) [OF q2] have g: "disk_wf (disk s2)" "entries (disk s2) (tmp_name ''summary.json'' pid) = None"
        "visible (disk s2) (lines_name run_id) = Some (Whole (ItemLines (List.map item_as_dict items)))"
        "visible (disk s2) ''summary.json'' = visible (disk s) ''summary.json''" by auto
      note h = second_write [OF g w2]
      from mk Inr w1 q2 w2 assms(3) have r: "s' = s3" "r = (case q3 of Inl x \<Rightarrow> Inl x | Inr _ \<Rightarrow> Inr (summarize items))"
        by (auto simp: write_window_def ebind_Inr ebind_def eret_def split: sum.splits)
      have "\<forall>d \<in> set (seen s3). ?W d" using on_disks_seen [OF h(1)] W2 by auto
      with r h(2) g(3) show ?thesis by (cases q3) (auto simp: summarize_counts)
    qed
  qed
qed

text \<open>A window of two items in an empty folder, with the rename of the summary failing.\<close>

definition empty_folder :: "bool list \<Rightarrow> ledger_doc fsys" where
  "empty_folder fs = \<lparr>disk = \<lparr>entries = (\<lambda>_. None), entries_synced = (\<lambda>_. None), data = (\<lambda>_. Torn),
     data_synced = (\<lambda>_. False), next_ino = 0\<rparr>, faults = fs, seen = []\<rparr>"

definition two_items :: "discovered_item list" where
  "two_items = [\<lparr>di_source_id = ''a'', di_status = ''fetched'', di_url = None, di_metadata = []\<rparr>,
     \<lparr>di_source_id = ''b'', di_status = ''failed'', di_url = None, di_metadata = []\<rparr>]"

lemma demo_window: "(case write_window ''7'' ''run'' two_items (empty_folder (replicate 10 False @ [True])) of
    (r, s) \<Rightarrow> (isl r, length (seen s))) = (True, 11)"
  by code_simp

theorem write_window_ordered_witness:
  "\<exists>r s. write_window ''7'' ''run'' two_items (empty_folder (replicate 10 False @ [True])) = (r, s) \<and>
     isl r \<and> length (seen s) = 11 \<and> (\<forall>d \<in> set (seen s). window_state ''run'' two_items (disk (empty_folder [])) d)"
proof -
  let ?s = "empty_folder (replicate 10 False @ [True])"
  obtain r s where run: "write_window ''7'' ''run'' two_items ?s = (r, s)" by (metis surj_pair)
  have "no_leftovers ''7'' ''run'' (disk ?s)" "seen ?s = []" "disk ?s = disk (empty_folder [])"
    by (simp_all add: no_leftovers_def empty_folder_def disk_wf_def)
  with write_window_ordered [of "''7''" "''run''" ?s two_items r s] run demo_window
  show ?thesis by auto
qed

end
