(* ===== verification/Reports.thy ===== *)
theory Reports
  imports PyValues
begin

text \<open>
  \<^verbatim>\<open>completeness.py\<close> and \<^verbatim>\<open>report.py\<close>: counts per layer, the completeness report and the report of
  an ingest run, with their dictionary forms. Fields the code takes from JSON without a check are
  JSON values; \<open>fr\<close> prints a float.
\<close>

section \<open>Layers\<close>

record layer_coverage =
  lc_layer :: string
  lc_truth :: int
  lc_present :: int

definition missing_count :: "layer_coverage \<Rightarrow> int" where
  "missing_count l = max (lc_truth l - lc_present l) 0"

definition layer_as_dict :: "layer_coverage \<Rightarrow> (string, json) dict" where
  "layer_as_dict l = [(''layer'', JStr (lc_layer l)), (''truth_count'', JInt (lc_truth l)),
     (''present_count'', JInt (lc_present l)), (''missing_count'', JInt (missing_count l))]"

section \<open>CompletenessReport\<close>

record completeness_report =
  cr_layers :: "(string, layer_coverage) dict"
  cr_present :: json
  cr_truth :: json

text \<open>A value of the \<^verbatim>\<open>layers\<close> argument.\<close>

datatype layer_value = Covered layer_coverage | Plain json

fun normalize_layer :: "(rat \<Rightarrow> string) \<Rightarrow> string \<times> layer_value \<Rightarrow> exc + string \<times> layer_coverage" where
  "normalize_layer fr (name, Covered l) = Inr (name, l)"
| "normalize_layer fr (name, Plain v) =
     (case as_int v of
        Some n \<Rightarrow> Inr (name, \<lparr>lc_layer = name, lc_truth = n, lc_present = n\<rparr>)
      | None \<Rightarrow> (case v of
          JObj d \<Rightarrow>
            sbind (py_int (dict_get d ''truth_count'' (dict_get d ''truth'' (JInt 0)))) (\<lambda>t.
            sbind (py_int (dict_get d ''present_count'' (dict_get d ''present'' (JInt 0)))) (\<lambda>p.
            Inr (name, \<lparr>lc_layer = py_str fr (dict_get d ''layer'' (JStr name)), lc_truth = t, lc_present = p\<rparr>)))
        | _ \<Rightarrow> Inl (Exc ValidationError (''invalid layer coverage for '' @ repr_str name))))"

definition make_completeness ::
  "(rat \<Rightarrow> string) \<Rightarrow> (string, layer_value) dict \<Rightarrow> json \<Rightarrow> json \<Rightarrow> exc + completeness_report" where
  "make_completeness fr layers present truth =
     sbind (smap (normalize_layer fr) layers) (\<lambda>ls.
     Inr \<lparr>cr_layers = ls, cr_present = present, cr_truth = truth\<rparr>)"

definition completeness_ratio :: "completeness_report \<Rightarrow> exc + rat option" where
  "completeness_ratio r =
     (if py_number (cr_truth r) = Some 0 then Inr None
      else case (py_number (cr_present r), py_number (cr_truth r)) of
        (Some p, Some t) \<Rightarrow> Inr (Some (p / t))
      | _ \<Rightarrow> Inl (Exc TypeError ''unsupported operand type(s) for /''))"

definition layer_fraction :: "completeness_report \<Rightarrow> string \<Rightarrow> exc + rat" where
  "layer_fraction r layer = (case map_of (cr_layers r) layer of
     None \<Rightarrow> Inl (Exc ValidationError (''unknown completeness layer: '' @ layer))
   | Some c \<Rightarrow> Inr (if lc_truth c = 0 then 0 else of_int (lc_present c) / of_int (lc_truth c)))"

definition completeness_as_dict :: "completeness_report \<Rightarrow> exc + (string, json) dict" where
  "completeness_as_dict r =
     sbind (completeness_ratio r) (\<lambda>q.
     Inr [(''layers'', JObj (List.map (\<lambda>(n, l). (n, JObj (layer_as_dict l))) (cr_layers r))),
          (''present'', cr_present r), (''truth'', cr_truth r),
          (''ratio'', case q of None \<Rightarrow> JNull | Some x \<Rightarrow> JFloat x)])"

definition completeness_from_dict :: "(rat \<Rightarrow> string) \<Rightarrow> (string, json) dict \<Rightarrow> exc + completeness_report" where
  "completeness_from_dict fr d = (case dict_get d ''layers'' (JObj []) of
     JObj layers \<Rightarrow> make_completeness fr (List.map (\<lambda>(n, v). (n, Plain v)) layers)
       (dict_get d ''present'' (JInt 0)) (dict_get d ''truth'' (JInt 0))
   | _ \<Rightarrow> Inl (Exc AttributeError ''object has no attribute items''))"

definition layers_from_names :: "string list \<Rightarrow> (string, layer_coverage) dict" where
  "layers_from_names names =
     dict_update [] (List.map (\<lambda>n. (n, \<lparr>lc_layer = n, lc_truth = 0, lc_present = 0\<rparr>)) names)"

section \<open>IngestReport\<close>

record ingest_report =
  ir_source_name :: json
  ir_status :: json
  ir_windows :: json
  ir_windows_processed :: json
  ir_records_fetched :: json
  ir_diff :: json
  ir_completeness :: "completeness_report option"
  ir_retries_used :: json
  ir_rate_limit_waits :: json
  ir_warnings :: json
  ir_source_digest :: json
  ir_kit_version :: json

text \<open>\<^verbatim>\<open>list(x)\<close>\<close>

fun py_list :: "json \<Rightarrow> exc + json list" where
  "py_list (JList xs) = Inr xs"
| "py_list (JStr s) = Inr (List.map (\<lambda>c. JStr [c]) s)"
| "py_list (JObj d) = Inr (List.map (\<lambda>(k, v). JStr k) d)"
| "py_list _ = Inl (Exc TypeError ''object is not iterable'')"

definition report_as_dict :: "ingest_report \<Rightarrow> exc + (string, json) dict" where
  "report_as_dict r =
     sbind (case ir_completeness r of None \<Rightarrow> Inr JNull
            | Some c \<Rightarrow> sbind (completeness_as_dict c) (\<lambda>d. Inr (JObj d))) (\<lambda>completeness.
     sbind (py_list (ir_windows r)) (\<lambda>windows.
     sbind (py_list (ir_warnings r)) (\<lambda>warnings.
     Inr [(''source'', ir_source_name r), (''source_name'', ir_source_name r), (''status'', ir_status r),
          (''windows'', JList windows), (''windows_processed'', ir_windows_processed r),
          (''records_fetched'', ir_records_fetched r), (''diff'', ir_diff r),
          (''completeness'', completeness), (''retries_used'', ir_retries_used r),
          (''rate_limit_waits'', ir_rate_limit_waits r), (''warnings'', JList warnings),
          (''source_digest'', ir_source_digest r), (''kit_version'', ir_kit_version r)])))"

text \<open>\<open>version\<close> is the version of the installed package.\<close>

definition report_from_dict ::
  "(rat \<Rightarrow> string) \<Rightarrow> string \<Rightarrow> (string, json) dict \<Rightarrow> exc + ingest_report" where
  "report_from_dict fr version d =
     sbind (case dict_get d ''completeness'' (JObj []) of
         JNull \<Rightarrow> Inr None
       | JObj c \<Rightarrow> sbind (completeness_from_dict fr c) (\<lambda>r. Inr (Some r))
       | _ \<Rightarrow> Inl (Exc AttributeError ''object has no attribute get'')) (\<lambda>completeness.
     Inr \<lparr>ir_source_name = dict_get d ''source_name'' (dict_get d ''source'' (JStr [])),
          ir_status = dict_get d ''status'' (JStr ''ok''), ir_windows = dict_get d ''windows'' (JList []),
          ir_windows_processed = dict_get d ''windows_processed'' (JInt 0),
          ir_records_fetched = dict_get d ''records_fetched'' (JInt 0),
          ir_diff = dict_get d ''diff'' (JObj []), ir_completeness = completeness,
          ir_retries_used = dict_get d ''retries_used'' (JInt 0),
          ir_rate_limit_waits = dict_get d ''rate_limit_waits'' (JInt 0),
          ir_warnings = dict_get d ''warnings'' (JList []),
          ir_source_digest = dict_get d ''source_digest'' (JStr []),
          ir_kit_version = dict_get d ''kit_version'' (JStr version)\<rparr>)"

section \<open>Round trips\<close>

lemma normalize_layer_dict: "normalize_layer fr (n, Plain (JObj (layer_as_dict l))) = Inr (n, l)"
  by (simp add: layer_as_dict_def dict_get_def)

lemma normalize_layers_dict:
  "smap (normalize_layer fr) (List.map ((\<lambda>(n, v). (n, Plain v)) \<circ> (\<lambda>(n, l). (n, JObj (layer_as_dict l)))) ls) = Inr ls"
  by (induction ls) (auto simp del: normalize_layer.simps simp: normalize_layer_dict)

lemma completeness_roundtrip:
  "completeness_as_dict r = Inr d \<Longrightarrow> completeness_from_dict fr d = Inr r"
  by (auto simp: completeness_as_dict_def completeness_from_dict_def sbind_Inr dict_get_def
      make_completeness_def normalize_layers_dict)

text \<open>
  An ingest report survives its dictionary form: reading the dictionary of a report gives the
  report back, with its windows and warnings as lists, whatever version reads it.
\<close>

lemma report_dict_roundtrip:
  assumes "report_as_dict r = Inr d"
  shows "\<exists>ws xs. py_list (ir_windows r) = Inr ws \<and> py_list (ir_warnings r) = Inr xs \<and>
    report_from_dict fr version d = Inr (r\<lparr>ir_windows := JList ws, ir_warnings := JList xs\<rparr>)"
proof -
  from assms obtain c ws xs where
    c: "(case ir_completeness r of None \<Rightarrow> Inr JNull
         | Some c \<Rightarrow> sbind (completeness_as_dict c) (\<lambda>d. Inr (JObj d))) = Inr c"
    and l: "py_list (ir_windows r) = Inr ws" "py_list (ir_warnings r) = Inr xs"
    and d: "d = [(''source'', ir_source_name r), (''source_name'', ir_source_name r), (''status'', ir_status r),
          (''windows'', JList ws), (''windows_processed'', ir_windows_processed r),
          (''records_fetched'', ir_records_fetched r), (''diff'', ir_diff r),
          (''completeness'', c), (''retries_used'', ir_retries_used r),
          (''rate_limit_waits'', ir_rate_limit_waits r), (''warnings'', JList xs),
          (''source_digest'', ir_source_digest r), (''kit_version'', ir_kit_version r)]"
    by (auto simp: report_as_dict_def sbind_Inr)
  have "(case c of JNull \<Rightarrow> Inr None
       | JObj c \<Rightarrow> sbind (completeness_from_dict fr c) (\<lambda>r. Inr (Some r))
       | _ \<Rightarrow> Inl (Exc AttributeError ''object has no attribute get'')) = Inr (ir_completeness r)"
    using c by (cases "ir_completeness r") (auto simp: sbind_Inr completeness_roundtrip)
  then show ?thesis using l by (simp add: report_from_dict_def d dict_get_def)
qed

text \<open>The counts of a layer: nothing is missing exactly when at least the truth is present.\<close>

lemma missing_count_spec: "0 \<le> missing_count l" "missing_count l = 0 \<longleftrightarrow> lc_truth l \<le> lc_present l"
  by (auto simp: missing_count_def)

end
