(* ===== verification/Profiles.thy ===== *)
theory Profiles
  imports Registries Reports FleetWorld
begin

text \<open>
  \<^verbatim>\<open>profile.py\<close>: the profile of a source, loaded from a folder and checked against a provider
  registry. Documents are parsed by \<open>loads\<close> and, where the extra is installed, by \<open>yaml\<close>. Keys
  of dictionaries are strings; a list of pairs with other keys is refused here.
\<close>

section \<open>Files of a profile folder\<close>

text \<open>A name of the file system; \<open>Refused\<close> is a file that cannot be opened.\<close>

datatype fs_node = Absent | TextFile string | BinaryFile | Folder | Refused io_class

type_synonym path = "string list"

fun file_text :: "fs_node \<Rightarrow> exc + string" where
  "file_text Absent = Inl (Exc FileNotFoundError ''No such file or directory'')"
| "file_text (TextFile s) = Inr s"
| "file_text BinaryFile = Inl (Exc UnicodeDecodeError ''invalid start byte'')"
| "file_text Folder = Inl (io_exc IsDir)"
| "file_text (Refused c) = Inl (io_exc c)"

definition is_file :: "fs_node \<Rightarrow> bool" where
  "is_file f \<longleftrightarrow> f \<noteq> Absent \<and> f \<noteq> Folder"

text \<open>\<^verbatim>\<open>PurePath.suffix\<close> of a name\<close>

definition name_suffix :: "string \<Rightarrow> string" where
  "name_suffix n = (let e = takeWhile (\<lambda>c. c \<noteq> CHR ''.'') (rev n) in
     if e \<noteq> [] \<and> length e + 1 < length n then CHR ''.'' # rev e else [])"

definition path_suffix :: "path \<Rightarrow> string" where
  "path_suffix p = (if p = [] then [] else name_suffix (last p))"

definition path_text :: "path \<Rightarrow> string" where
  "path_text p = CHR ''/'' # join ''/'' p"

section \<open>SourceProfile\<close>

record source_profile =
  pf_name :: string
  pf_source_type :: string
  pf_providers :: "(string, json) dict"
  pf_policies :: "(string, json) dict"
  pf_status_vocabulary :: "json list"
  pf_layers :: "json list"
  pf_markdown :: "(string, string) dict"

definition profile_error :: "string \<Rightarrow> exc" where
  "profile_error msg = Exc ProfileError msg"

definition provider_entry_ok :: "string \<times> json \<Rightarrow> bool" where
  "provider_entry_ok e = (case e of (k, v) \<Rightarrow> \<not> blank k \<and> (case as_str v of None \<Rightarrow> False | Some s \<Rightarrow> \<not> blank s))"

text \<open>\<^verbatim>\<open>SourceProfile.__post_init__\<close>\<close>

definition make_profile :: "source_profile \<Rightarrow> exc + source_profile" where
  "make_profile p =
     (if blank (pf_name p) then Inl (profile_error ''profile name must be non-empty'')
      else if blank (pf_source_type p) then Inl (profile_error ''source_type must be non-empty'')
      else if pf_providers p = [] then Inl (profile_error ''providers must be non-empty'')
      else if \<not> list_all provider_entry_ok (pf_providers p)
        then Inl (profile_error ''provider names must be non-empty strings'')
      else Inr p)"

definition digest_payload :: "source_profile \<Rightarrow> json" where
  "digest_payload p = JObj [(''name'', JStr (pf_name p)), (''source_type'', JStr (pf_source_type p)),
     (''providers'', JObj (pf_providers p)), (''policies'', JObj (pf_policies p)),
     (''status_vocabulary'', JList (pf_status_vocabulary p)),
     (''completeness_layers'', JList (pf_layers p))]"

section \<open>Loading\<close>

definition profile_string :: "(string, json) dict \<Rightarrow> string \<Rightarrow> exc + string" where
  "profile_string raw key = (case as_str (dict_get raw key JNull) of
     None \<Rightarrow> Inl (profile_error (key @ '' must be a non-empty string''))
   | Some s \<Rightarrow> if blank s then Inl (profile_error (key @ '' must be a non-empty string'')) else Inr s)"

definition profile_providers :: "(rat \<Rightarrow> string) \<Rightarrow> json \<Rightarrow> exc + (string, json) dict" where
  "profile_providers fr raw = (case raw of
     JObj d \<Rightarrow> if d = [] then Inl (profile_error ''providers must be a non-empty object'')
       else Inr (List.map (\<lambda>(k, v). (k, JStr (py_str fr v))) d)
   | _ \<Rightarrow> Inl (profile_error ''providers must be a non-empty object''))"

text \<open>\<^verbatim>\<open>dict(x)\<close>\<close>

fun pair_item :: "json \<Rightarrow> exc + string \<times> json" where
  "pair_item (JList [JStr k, v]) = Inr (k, v)"
| "pair_item (JStr [a, b]) = Inr ([a], JStr [b])"
| "pair_item (JObj [(a, v), (b, w)]) = Inr (a, JStr b)"
| "pair_item (JList xs) = Inl (Exc (if length xs = 2 then TypeError else ValueError)
     ''dictionary update sequence element has the wrong length'')"
| "pair_item (JStr s) = Inl (Exc ValueError ''dictionary update sequence element has the wrong length'')"
| "pair_item (JObj d) = Inl (Exc ValueError ''dictionary update sequence element has the wrong length'')"
| "pair_item _ = Inl (Exc TypeError ''cannot convert dictionary update sequence element to a sequence'')"

fun py_dict :: "json \<Rightarrow> exc + (string, json) dict" where
  "py_dict (JObj d) = Inr d"
| "py_dict (JList xs) = sbind (smap pair_item xs) (\<lambda>ps. Inr (dict_update [] ps))"
| "py_dict (JStr s) = sbind (smap (\<lambda>c. pair_item (JStr [c])) s) (\<lambda>ps. Inr (dict_update [] ps))"
| "py_dict _ = Inl (Exc TypeError ''object is not iterable'')"

definition or_else :: "json \<Rightarrow> json \<Rightarrow> json" where
  "or_else v w = (if truthy v then v else w)"

definition load_yaml :: "(string \<Rightarrow> exc + json) option \<Rightarrow> fs_node \<Rightarrow> exc + json" where
  "load_yaml yaml f = (case yaml of
     None \<Rightarrow> Inl (profile_error
       ''YAML profiles require the 'profiles' extra: pip install datasource-kit[profiles]'')
   | Some parse \<Rightarrow> sbind (file_text f) parse)"

text \<open>The document of a profile, and the folder its notes are in.\<close>

definition profile_path :: "(path \<Rightarrow> fs_node) \<Rightarrow> path \<Rightarrow> exc + path \<times> path" where
  "profile_path fs source =
     (if is_file (fs source) then Inr (source, butlast source)
      else if fs (source @ [''source.json'']) \<noteq> Absent then Inr (source @ [''source.json''], source)
      else if fs (source @ [''source.yaml'']) \<noteq> Absent then Inr (source @ [''source.yaml''], source)
      else Inl (profile_error (''no source.json or source.yaml in '' @ path_text source)))"

definition profile_document ::
  "(string \<Rightarrow> exc + json) \<Rightarrow> (string \<Rightarrow> exc + json) option \<Rightarrow> (path \<Rightarrow> fs_node) \<Rightarrow> path \<Rightarrow> exc + json" where
  "profile_document loads yaml fs p =
     (case (if path_suffix p \<in> {''.yaml'', ''.yml''} then load_yaml yaml (fs p)
            else sbind (file_text (fs p)) loads) of
        Inl x \<Rightarrow> Inl (if instance_of x JSONDecodeError
          then profile_error (''invalid JSON in '' @ path_text p @ '': '' @ exc_msg x) else x)
      | Inr v \<Rightarrow> Inr v)"

definition profile_note :: "(path \<Rightarrow> fs_node) \<Rightarrow> path \<Rightarrow> string \<Rightarrow> exc + (string, string) dict" where
  "profile_note fs home name =
     (if fs (home @ [name @ ''.md'']) = Absent then Inr []
      else sbind (file_text (fs (home @ [name @ ''.md'']))) (\<lambda>s. Inr [(name, s)]))"

definition profile_of ::
  "(rat \<Rightarrow> string) \<Rightarrow> (string, json) dict \<Rightarrow> (string, string) dict \<Rightarrow> exc + source_profile" where
  "profile_of fr raw markdown =
     sbind (profile_string raw ''name'') (\<lambda>name.
     sbind (profile_string raw ''source_type'') (\<lambda>source_type.
     sbind (profile_providers fr (dict_get raw ''providers'' JNull)) (\<lambda>providers.
     sbind (py_dict (or_else (dict_get raw ''policies'' JNull) (JObj []))) (\<lambda>policies.
     sbind (py_list (or_else (dict_get raw ''status_vocabulary'' JNull) (JList []))) (\<lambda>vocabulary.
     sbind (py_list (or_else (dict_get raw ''completeness_layers'' JNull) (JList []))) (\<lambda>layers.
     make_profile \<lparr>pf_name = name, pf_source_type = source_type, pf_providers = providers,
       pf_policies = policies, pf_status_vocabulary = vocabulary, pf_layers = layers,
       pf_markdown = markdown\<rparr>))))))"

definition load_profile ::
  "(rat \<Rightarrow> string) \<Rightarrow> (string \<Rightarrow> exc + json) \<Rightarrow> (string \<Rightarrow> exc + json) option \<Rightarrow> (path \<Rightarrow> fs_node) \<Rightarrow> path \<Rightarrow>
   exc + source_profile" where
  "load_profile fr loads yaml fs source =
     sbind (profile_path fs source) (\<lambda>(p, home).
     sbind (profile_document loads yaml fs p) (\<lambda>raw. case raw of
       JObj d \<Rightarrow>
         sbind (profile_note fs home ''coverage'') (\<lambda>coverage.
         sbind (profile_note fs home ''identity'') (\<lambda>identity.
         profile_of fr d (coverage @ identity)))
     | _ \<Rightarrow> Inl (profile_error ''profile document must be an object'')))"

text \<open>\<^verbatim>\<open>validate_source\<close> with a \<^verbatim>\<open>ProviderRegistry\<close>\<close>

definition unknown_providers :: "'f provider_registry \<Rightarrow> (string, json) dict \<Rightarrow> string list" where
  "unknown_providers r providers = List.concat (List.map (\<lambda>(category, v). case as_str v of
     None \<Rightarrow> [] | Some name \<Rightarrow> if provider_has r name then [] else [category @ ''='' @ name]) providers)"

definition validate_source :: "source_profile \<Rightarrow> 'f provider_registry \<Rightarrow> exc + unit" where
  "validate_source p r = (let missing = unknown_providers r (pf_providers p) in
     if missing \<noteq> [] then Inl (profile_error (''unknown providers: '' @ join '', '' (sort missing)))
     else Inr ())"


section \<open>Properties\<close>

definition profile_wf :: "source_profile \<Rightarrow> bool" where
  "profile_wf p \<longleftrightarrow> \<not> blank (pf_name p) \<and> \<not> blank (pf_source_type p) \<and> pf_providers p \<noteq> [] \<and>
     list_all provider_entry_ok (pf_providers p)"

lemma make_profile_Inr: "make_profile p = Inr q \<longleftrightarrow> q = p \<and> profile_wf p"
  by (auto simp: make_profile_def profile_wf_def)

lemma profile_of_wf: "profile_of fr d n = Inr p \<Longrightarrow> profile_wf p"
  by (auto simp: profile_of_def sbind_Inr make_profile_Inr)


lemma unknown_providers_Nil:
  "unknown_providers r d = [] \<longleftrightarrow> list_all (\<lambda>(c, v). \<forall>n. as_str v = Some n \<longrightarrow> provider_has r n) d"
  by (auto simp: unknown_providers_def list_all_iff split: option.splits if_splits)

lemma entry_resolves:
  assumes "provider_entry_ok (c, v)"
  shows "(\<forall>n. as_str v = Some n \<longrightarrow> provider_has r n) \<longleftrightarrow> (\<exists>n f. v = JStr n \<and> provider_get r n = Inr f)"
  using assms by (auto simp: provider_entry_ok_def as_str_Some provider_has_def provider_get_def
      split: option.splits)

text \<open>
  A profile passes \<^verbatim>\<open>validate_source\<close> exactly when every provider it names is registered, and then every
  lookup the runtime makes of a name in it succeeds.
\<close>

lemma validate_iff_registered:
  assumes "profile_wf p"
  shows "validate_source p r = Inr () \<longleftrightarrow>
    list_all (\<lambda>(c, v). \<exists>n f. v = JStr n \<and> provider_get r n = Inr f) (pf_providers p)"
proof -
  from assms have "list_all (\<lambda>(c, v). \<forall>n. as_str v = Some n \<longrightarrow> provider_has r n) (pf_providers p) \<longleftrightarrow>
      list_all (\<lambda>(c, v). \<exists>n f. v = JStr n \<and> provider_get r n = Inr f) (pf_providers p)"
    by (intro list.pred_cong) (auto simp: profile_wf_def list_all_iff dest!: bspec entry_resolves [of _ _ r] split: prod.splits)
  then show ?thesis by (simp add: validate_source_def Let_def unknown_providers_Nil)
qed

text \<open>
  The loader promises \<^verbatim>\<open>ProfileError\<close>; policies that are not an object escape it, and a status
  vocabulary given as one string is taken apart into its characters.
\<close>

lemma policies_list_escapes:
  "profile_of fr [(''name'', JStr ''n''), (''source_type'', JStr ''t''),
     (''providers'', JObj [(''fetcher'', JStr ''fetch.mock'')]), (''policies'', JList [JInt 1])] [] =
   Inl (Exc TypeError ''cannot convert dictionary update sequence element to a sequence'')"
  by code_simp

lemma vocabulary_taken_apart:
  "profile_of fr [(''name'', JStr ''n''), (''source_type'', JStr ''t''),
     (''providers'', JObj [(''fetcher'', JStr ''fetch.mock'')]), (''status_vocabulary'', JStr ''ok'')] [] =
   Inr \<lparr>pf_name = ''n'', pf_source_type = ''t'', pf_providers = [(''fetcher'', JStr ''fetch.mock'')],
     pf_policies = [], pf_status_vocabulary = [JStr ''o'', JStr ''k''], pf_layers = [], pf_markdown = []\<rparr>"
  by code_simp


definition demo_profile_doc :: json where
  "demo_profile_doc = JObj [(''name'', JStr ''demo''), (''source_type'', JStr ''batch''),
     (''providers'', JObj [(''fetcher'', JStr ''fetch.mock''), (''store'', JInt 7)]),
     (''completeness_layers'', JList [JStr ''raw''])]"

definition demo_folder :: "path \<Rightarrow> fs_node" where
  "demo_folder p = (if p = [''demo''] then Folder
     else if p = [''demo'', ''source.json''] then TextFile ''document''
     else if p = [''demo'', ''identity.md''] then TextFile ''by id'' else Absent)"

definition demo_profile :: source_profile where
  "demo_profile = \<lparr>pf_name = ''demo'', pf_source_type = ''batch'',
     pf_providers = [(''fetcher'', JStr ''fetch.mock''), (''store'', JStr ''7'')],
     pf_policies = [], pf_status_vocabulary = [], pf_layers = [JStr ''raw''],
     pf_markdown = [(''identity'', ''by id'')]\<rparr>"

lemma demo_load: "load_profile (\<lambda>_. []) (\<lambda>_. Inr demo_profile_doc) None demo_folder [''demo''] = Inr demo_profile"
  by code_simp


end
