(* ===== verification/Builtins.thy ===== *)
theory Builtins
  imports Registries Reports Window
begin

text \<open>
  The built-in providers of \<^verbatim>\<open>providers.py\<close> and \<^verbatim>\<open>builtin_registry\<close>. A provider is called with
  values, and with the store objects of the process as its state: the lists of the in-memory
  stores and the \<^verbatim>\<open>records\<close> tables of the SQLite ones, each under its address. \<open>fr\<close> prints a float;
  \<open>iso_of\<close> and \<open>of_iso\<close> are \<^verbatim>\<open>date.isoformat\<close> and \<^verbatim>\<open>date.fromisoformat\<close>.
\<close>

section \<open>Objects of Python\<close>

text \<open>\<^verbatim>\<open>v[key]\<close>, \<^verbatim>\<open>v.get(key, default)\<close> and \<^verbatim>\<open>key in v\<close> for a string \<open>key\<close>\<close>

fun json_item :: "json \<Rightarrow> string \<Rightarrow> exc + json" where
  "json_item (JObj d) k = dict_item d k"
| "json_item _ k = Inl (Exc TypeError ''object is not subscriptable by a string'')"

fun json_get :: "json \<Rightarrow> string \<Rightarrow> json \<Rightarrow> exc + json" where
  "json_get (JObj d) k x = Inr (dict_get d k x)"
| "json_get _ k x = Inl (Exc AttributeError ''object has no attribute get'')"

fun substring :: "string \<Rightarrow> string \<Rightarrow> bool" where
  "substring s [] \<longleftrightarrow> s = []"
| "substring s (c # t) \<longleftrightarrow> take (length s) (c # t) = s \<or> substring s t"

fun json_in :: "string \<Rightarrow> json \<Rightarrow> exc + bool" where
  "json_in k (JObj d) = Inr (k \<in> set (dict_keys d))"
| "json_in k (JList xs) = Inr (list_ex (py_eq (JStr k)) xs)"
| "json_in k (JStr s) = Inr (substring k s)"
| "json_in k _ = Inl (Exc TypeError ''argument is not iterable'')"

section \<open>Windows, records and identifiers\<close>

definition window_by_day ::
  "(rat \<Rightarrow> string) \<Rightarrow> (string \<Rightarrow> exc + date) \<Rightarrow> (date \<Rightarrow> string) \<Rightarrow> json \<Rightarrow> exc + json list" where
  "window_by_day fr of_iso iso_of config =
     sbind (json_get config ''start'' (JStr ''2024-01-01'')) (\<lambda>s.
     sbind (of_iso (py_str fr s)) (\<lambda>start.
     sbind (json_get config ''end'' (JStr ''2024-01-03'')) (\<lambda>e.
     sbind (of_iso (py_str fr e)) (\<lambda>end_date.
     case split_range_into_days start end_date ''oldest_first'' of
       (ws, None) \<Rightarrow> Inr (List.map (\<lambda>w. JObj [(''date'', JStr (iso_of (win_start w)))]) ws)
     | (ws, Some x) \<Rightarrow> Inl x))))"

definition mock_record :: "string \<Rightarrow> json" where
  "mock_record day = JObj [(''id'', JStr (''rec-'' @ day @ ''-1'')), (''value'', JInt 42)]"

definition fetch_mock :: "(rat \<Rightarrow> string) \<Rightarrow> json \<Rightarrow> json \<Rightarrow> exc + json list" where
  "fetch_mock fr window config =
     sbind (json_get window ''date'' (JStr ''x'')) (\<lambda>day. Inr [mock_record (py_str fr day)])"

definition records_passthrough :: "json \<Rightarrow> json \<Rightarrow> exc + json list" where
  "records_passthrough raw config = py_list raw"

definition record_id :: "(rat \<Rightarrow> string) \<Rightarrow> json \<Rightarrow> json \<Rightarrow> exc + string" where
  "record_id fr record config =
     sbind (json_get config ''field'' (JStr ''id'')) (\<lambda>field.
     sbind (json_item record (py_str fr field)) (\<lambda>v. Inr (py_str fr v)))"

definition identity_by_field :: "(rat \<Rightarrow> string) \<Rightarrow> json \<Rightarrow> json \<Rightarrow> exc + string" where
  "identity_by_field fr record config = record_id fr record config"

section \<open>Differences\<close>

text \<open>The identifiers a set comprehension of \<^verbatim>\<open>_diff_by_id\<close> collects, with repetitions.\<close>

definition record_ids :: "(rat \<Rightarrow> string) \<Rightarrow> json \<Rightarrow> json list \<Rightarrow> exc + string list" where
  "record_ids fr config records =
     sbind (smap (\<lambda>record. sbind (json_in ''id'' record) (\<lambda>has.
       if has then sbind (record_id fr record config) (\<lambda>i. Inr [i]) else Inr [])) records)
     (\<lambda>ids. Inr (List.concat ids))"

definition sorted_ids :: "(string \<Rightarrow> bool) \<Rightarrow> string list \<Rightarrow> json" where
  "sorted_ids p ids = JList (List.map JStr (sort (remdups (filter p ids))))"

definition diff_by_id ::
  "(rat \<Rightarrow> string) \<Rightarrow> json list \<Rightarrow> json list \<Rightarrow> json \<Rightarrow> exc + (string, json) dict" where
  "diff_by_id fr fetched stored config =
     sbind (record_ids fr config fetched) (\<lambda>fetched_ids.
     sbind (record_ids fr config stored) (\<lambda>stored_ids.
     Inr [(''added'', sorted_ids (\<lambda>i. i \<notin> set stored_ids) fetched_ids),
          (''removed'', sorted_ids (\<lambda>i. i \<notin> set fetched_ids) stored_ids),
          (''unchanged'', sorted_ids (\<lambda>i. i \<in> set stored_ids) fetched_ids)]))"

definition diff_full_replace :: "json list \<Rightarrow> json list \<Rightarrow> json \<Rightarrow> (string, json) dict" where
  "diff_full_replace fetched stored config =
     [(''replaced'', JInt (int (length fetched))), (''previous'', JInt (int (length stored)))]"

definition assess_passthrough ::
  "(rat \<Rightarrow> string) \<Rightarrow> json list \<Rightarrow> json \<Rightarrow> json \<Rightarrow> exc + (string, json) dict" where
  "assess_passthrough fr records window config =
     sbind (json_get config ''status'' (JStr ''ok'')) (\<lambda>status.
     Inr [(''count'', JInt (int (length records))), (''status'', JStr (py_str fr status))])"

section \<open>Stores\<close>

text \<open>The objects of the process. \<open>kw_next\<close> is the address of the next one.\<close>

record 'c kit_world =
  kw_next :: nat
  kw_memory :: "nat \<Rightarrow> json list"
  kw_tables :: "nat \<Rightarrow> (string, string) dict"
  kw_outer :: 'c

text \<open>\<^verbatim>\<open>_InMemoryStoreDriver\<close>\<close>

definition in_memory_init :: "('c kit_world, nat) eff" where
  "in_memory_init w = (Inr (kw_next w),
     w\<lparr>kw_next := Suc (kw_next w), kw_memory := (kw_memory w)(kw_next w := [])\<rparr>)"

definition in_memory_load :: "nat \<Rightarrow> ('c kit_world, json list) eff" where
  "in_memory_load a = eget (\<lambda>w. kw_memory w a)"

definition in_memory_save :: "nat \<Rightarrow> json list \<Rightarrow> ('c kit_world, unit) eff" where
  "in_memory_save a records =
     emod (\<lambda>w. w\<lparr>kw_memory := (kw_memory w)(a := kw_memory w a @ records)\<rparr>)"

definition in_memory_upsert :: "nat \<Rightarrow> json list \<Rightarrow> ('c kit_world, json) eff" where
  "in_memory_upsert a records = ebind (in_memory_save a records) (\<lambda>_.
     eret (JObj [(''upserted'', JInt (int (length records)))]))"

definition in_memory_replace_all :: "nat \<Rightarrow> json list \<Rightarrow> ('c kit_world, json) eff" where
  "in_memory_replace_all a records =
     ebind (emod (\<lambda>w. w\<lparr>kw_memory := (kw_memory w)(a := records)\<rparr>)) (\<lambda>_.
     eret (JObj [(''replaced'', JInt (int (length records)))]))"

definition in_memory_existing_ids :: "(rat \<Rightarrow> string) \<Rightarrow> nat \<Rightarrow> ('c kit_world, string set) eff" where
  "in_memory_existing_ids fr a = ebind (in_memory_load a) (\<lambda>data.
     ebind (elift (record_ids fr (JObj []) data)) (\<lambda>ids. eret (set ids)))"

text \<open>
  \<^verbatim>\<open>_SQLiteStoreDriver\<close> on a private in-memory database. \<^verbatim>\<open>INSERT OR REPLACE\<close> deletes the row
  with the same identifier and appends the new one.
\<close>

definition sqlite_init :: "('c kit_world, nat) eff" where
  "sqlite_init w = (Inr (kw_next w),
     w\<lparr>kw_next := Suc (kw_next w), kw_tables := (kw_tables w)(kw_next w := [])\<rparr>)"

definition sqlite_load :: "nat \<Rightarrow> ('c kit_world, json list) eff" where
  "sqlite_load a = eget (\<lambda>w. List.map (\<lambda>(i, payload). JObj [(''id'', JStr i), (''payload'', JStr payload)]) (kw_tables w a))"

definition insert_or_replace :: "string \<Rightarrow> string \<Rightarrow> (string, string) dict \<Rightarrow> (string, string) dict" where
  "insert_or_replace i payload t = AList.delete i t @ [(i, payload)]"

fun sqlite_save :: "(rat \<Rightarrow> string) \<Rightarrow> nat \<Rightarrow> json list \<Rightarrow> ('c kit_world, unit) eff" where
  "sqlite_save fr a [] = eret ()"
| "sqlite_save fr a (record # records) =
     ebind (elift (json_item record ''id'')) (\<lambda>i.
     ebind (emod (\<lambda>w. w\<lparr>kw_tables := (kw_tables w)(a :=
       insert_or_replace (py_str fr i) (py_str fr record) (kw_tables w a))\<rparr>)) (\<lambda>_.
     sqlite_save fr a records))"

definition sqlite_upsert :: "(rat \<Rightarrow> string) \<Rightarrow> nat \<Rightarrow> json list \<Rightarrow> ('c kit_world, json) eff" where
  "sqlite_upsert fr a records = ebind (sqlite_save fr a records) (\<lambda>_.
     eret (JObj [(''upserted'', JInt (int (length records)))]))"

definition sqlite_replace_all :: "(rat \<Rightarrow> string) \<Rightarrow> nat \<Rightarrow> json list \<Rightarrow> ('c kit_world, json) eff" where
  "sqlite_replace_all fr a records =
     ebind (emod (\<lambda>w. w\<lparr>kw_tables := (kw_tables w)(a := [])\<rparr>)) (\<lambda>_.
     ebind (sqlite_save fr a records) (\<lambda>_.
     eret (JObj [(''replaced'', JInt (int (length records)))])))"

definition sqlite_existing_ids :: "nat \<Rightarrow> ('c kit_world, string set) eff" where
  "sqlite_existing_ids a = eget (\<lambda>w. set (dict_keys (kw_tables w a)))"

section \<open>The registry\<close>

text \<open>A store as its clients see it; a store may lack an \<^verbatim>\<open>upsert\<close>.\<close>

record 'w store =
  sto_load :: "('w, json list) eff"
  sto_save :: "json list \<Rightarrow> ('w, unit) eff"
  sto_upsert :: "(json list \<Rightarrow> ('w, json) eff) option"
  sto_replace_all :: "json list \<Rightarrow> ('w, json) eff"

text \<open>A registered callable: a function of its positional arguments, or the class of a store.\<close>

datatype 'w provider = Callable "json list \<Rightarrow> ('w, json) eff" | Factory "('w, 'w store) eff"

definition wrong_arguments :: "exc + json" where
  "wrong_arguments = Inl (Exc TypeError ''wrong number of positional arguments'')"

definition pure_provider :: "(json list \<Rightarrow> exc + json) \<Rightarrow> 'w provider" where
  "pure_provider f = Callable (\<lambda>args. elift (f args))"

definition in_memory_store :: "nat \<Rightarrow> 'c kit_world store" where
  "in_memory_store a = \<lparr>sto_load = in_memory_load a, sto_save = in_memory_save a,
     sto_upsert = Some (in_memory_upsert a), sto_replace_all = in_memory_replace_all a\<rparr>"

definition sqlite_store :: "(rat \<Rightarrow> string) \<Rightarrow> nat \<Rightarrow> 'c kit_world store" where
  "sqlite_store fr a = \<lparr>sto_load = sqlite_load a, sto_save = sqlite_save fr a,
     sto_upsert = Some (sqlite_upsert fr a), sto_replace_all = sqlite_replace_all fr a\<rparr>"

definition builtin_providers ::
  "(rat \<Rightarrow> string) \<Rightarrow> (string \<Rightarrow> exc + date) \<Rightarrow> (date \<Rightarrow> string) \<Rightarrow> (string \<times> 'c kit_world provider \<times> string) list" where
  "builtin_providers fr of_iso iso_of =
     [(''window.by_day'', pure_provider (\<lambda>args. case args of
         [c] \<Rightarrow> map_sum id JList (window_by_day fr of_iso iso_of c) | _ \<Rightarrow> wrong_arguments), ''enumerator''),
      (''fetch.mock'', pure_provider (\<lambda>args. case args of
         [x, c] \<Rightarrow> map_sum id JList (fetch_mock fr x c) | _ \<Rightarrow> wrong_arguments), ''fetcher''),
      (''records.passthrough'', pure_provider (\<lambda>args. case args of
         [raw, c] \<Rightarrow> map_sum id JList (records_passthrough raw c) | _ \<Rightarrow> wrong_arguments), ''mapper''),
      (''diff.by_id'', pure_provider (\<lambda>args. case args of
         [f, s, c] \<Rightarrow> sbind (py_list f) (\<lambda>fetched. sbind (py_list s) (\<lambda>stored.
           map_sum id JObj (diff_by_id fr fetched stored c))) | _ \<Rightarrow> wrong_arguments), ''diff''),
      (''diff.full_replace'', pure_provider (\<lambda>args. case args of
         [f, s, c] \<Rightarrow> sbind (py_list f) (\<lambda>fetched. sbind (py_list s) (\<lambda>stored.
           Inr (JObj (diff_full_replace fetched stored c)))) | _ \<Rightarrow> wrong_arguments), ''diff''),
      (''assess.passthrough'', pure_provider (\<lambda>args. case args of
         [r, x, c] \<Rightarrow> sbind (py_list r) (\<lambda>records. map_sum id JObj (assess_passthrough fr records x c))
         | _ \<Rightarrow> wrong_arguments), ''assess''),
      (''identity.by_field'', pure_provider (\<lambda>args. case args of
         [r, c] \<Rightarrow> map_sum id JStr (identity_by_field fr r c) | _ \<Rightarrow> wrong_arguments), ''identity''),
      (''store.in_memory'', Factory (ebind in_memory_init (\<lambda>a. eret (in_memory_store a))), ''store''),
      (''store.sqlite'', Factory (ebind sqlite_init (\<lambda>a. eret (sqlite_store fr a))), ''store'')]"

definition builtin_registry ::
  "(rat \<Rightarrow> string) \<Rightarrow> (string \<Rightarrow> exc + date) \<Rightarrow> (date \<Rightarrow> string) \<Rightarrow> 'c kit_world provider provider_registry" where
  "builtin_registry fr of_iso iso_of =
     snd (emap (\<lambda>(name, f, category). provider_register name f category)
       (builtin_providers fr of_iso iso_of) no_providers)"


section \<open>What the registry holds\<close>

lemma update_new: "k \<notin> set (dict_keys d) \<Longrightarrow> AList.update k v d = d @ [(k, v)]"
  by (induction d) (auto simp: dict_keys_def)

lemma emap_register:
  assumes "list_all (\<lambda>(n, f, c). n \<noteq> [] \<and> provider_name_ok n \<and> c \<noteq> [] \<and> \<not> blank c) xs"
    and "distinct (dict_keys (by_name r) @ List.map fst xs)"
  shows "\<exists>us r'. emap (\<lambda>(n, f, c). provider_register n f c) xs r = (Inr us, r') \<and>
    by_name r' = by_name r @ List.map (\<lambda>(n, f, c). (n, f)) xs"
  using assms
proof (induction xs arbitrary: r)
  case (Cons x xs)
  obtain n f c where x: "x = (n, f, c)" by (cases x)
  with Cons.prems have new: "n \<notin> set (dict_keys (by_name r))" by auto
  let ?r = "r\<lparr>by_name := AList.update n f (by_name r),
     by_category := AList.update c (dict_get (by_category r) c [] @ [n]) (by_category r)\<rparr>"
  have reg: "provider_register n f c r = (Inr (), ?r)"
    using Cons.prems x new by (simp add: provider_register_Inr)
  have upd: "by_name ?r = by_name r @ [(n, f)]"
    using new by (simp add: update_new)
  have "distinct (dict_keys (by_name ?r) @ List.map fst xs)"
    using Cons.prems(2) unfolding upd by (auto simp: x dict_keys_def)
  with Cons.IH [of ?r] Cons.prems(1) x obtain us r' where
    "emap (\<lambda>(n, f, c). provider_register n f c) xs ?r = (Inr us, r')"
    "by_name r' = by_name ?r @ List.map (\<lambda>(n, f, c). (n, f)) xs" by auto
  with reg upd show ?case by (simp add: x ebind_def eret_def)
qed (simp add: eret_def)

lemma two_parts_ok: "ident a \<Longrightarrow> ident b \<Longrightarrow> provider_name_ok (a @ CHR ''.'' # b)"
  using split_dots_join [of "[a, b]"] by (simp add: provider_name_ok_def dotted_name_def)

lemma builtin_idents:
  "ident ''window''"
  "ident ''by_day''"
  "ident ''fetch''"
  "ident ''mock''"
  "ident ''records''"
  "ident ''passthrough''"
  "ident ''diff''"
  "ident ''by_id''"
  "ident ''full_replace''"
  "ident ''assess''"
  "ident ''identity''"
  "ident ''by_field''"
  "ident ''store''"
  "ident ''in_memory''"
  "ident ''sqlite''"
  by code_simp+

lemma builtin_names_ok:
  "provider_name_ok ''window.by_day''"
  "provider_name_ok ''fetch.mock''"
  "provider_name_ok ''records.passthrough''"
  "provider_name_ok ''diff.by_id''"
  "provider_name_ok ''diff.full_replace''"
  "provider_name_ok ''assess.passthrough''"
  "provider_name_ok ''identity.by_field''"
  "provider_name_ok ''store.in_memory''"
  "provider_name_ok ''store.sqlite''"
  using two_parts_ok [of "''window''" "''by_day''"]
  using two_parts_ok [of "''fetch''" "''mock''"]
  using two_parts_ok [of "''records''" "''passthrough''"]
  using two_parts_ok [of "''diff''" "''by_id''"]
  using two_parts_ok [of "''diff''" "''full_replace''"]
  using two_parts_ok [of "''assess''" "''passthrough''"]
  using two_parts_ok [of "''identity''" "''by_field''"]
  using two_parts_ok [of "''store''" "''in_memory''"]
  using two_parts_ok [of "''store''" "''sqlite''"]
  by (simp_all add: builtin_idents)

lemma builtin_categories_ok:
  "\<not> blank ''enumerator''"
  "\<not> blank ''fetcher''"
  "\<not> blank ''mapper''"
  "\<not> blank ''diff''"
  "\<not> blank ''assess''"
  "\<not> blank ''identity''"
  "\<not> blank ''store''"
  by (simp_all add: py_isspace_def char_code_def)

lemma builtin_registrations:
  "(\<exists>us. fst (emap (\<lambda>(n, f, c). provider_register n f c)
      (builtin_providers fr of_iso iso_of :: (string \<times> 'c kit_world provider \<times> string) list) no_providers) = Inr us) \<and>
   by_name (builtin_registry fr of_iso iso_of :: 'c kit_world provider provider_registry) =
     List.map (\<lambda>(n, f, c). (n, f)) (builtin_providers fr of_iso iso_of)"
proof -
  let ?ps = "builtin_providers fr of_iso iso_of :: (string \<times> 'c kit_world provider \<times> string) list"
  have ok: "list_all (\<lambda>(n, f, c). n \<noteq> [] \<and> provider_name_ok n \<and> c \<noteq> [] \<and> \<not> blank c) ?ps"
    unfolding builtin_providers_def by (simp add: builtin_names_ok builtin_categories_ok del: blank_Cons)
  have "distinct (dict_keys (by_name (no_providers :: 'c kit_world provider provider_registry)) @ List.map fst ?ps)"
    by (simp add: no_providers_def dict_keys_def builtin_providers_def)
  from emap_register [OF ok this] show ?thesis
    by (auto simp: builtin_registry_def no_providers_def)
qed

lemma builtin_get: "provider_get (builtin_registry fr of_iso iso_of) n =
   (case map_of (List.map (\<lambda>(n, f, c). (n, f)) (builtin_providers fr of_iso iso_of)) n of
      None \<Rightarrow> Inl (Exc RegistryError (''unknown provider: '' @ n)) | Some f \<Rightarrow> Inr f)"
  by (simp add: provider_get_def builtin_registrations)


section \<open>The difference of two record sets\<close>

definition id_list :: "json \<Rightarrow> string list" where
  "id_list v = (case v of JList xs \<Rightarrow> List.map (\<lambda>x. case x of JStr s \<Rightarrow> s | _ \<Rightarrow> []) xs | _ \<Rightarrow> [])"

lemma id_list_sorted: "id_list (sorted_ids p ids) = sort (remdups (filter p ids))"
  by (simp add: id_list_def sorted_ids_def comp_def)

text \<open>
  \<^verbatim>\<open>diff.by_id\<close> reports exactly the difference: its three lists are sorted and without repetition, no
  identifier is in two of them, and together with the stored identifiers they determine the
  fetched ones: taking away the removed and adding the added turns the stored set into the fetched.
\<close>

theorem diff_by_id_exact:
  assumes "diff_by_id fr fetched stored config = Inr d"
  shows "\<exists>f s a r u. record_ids fr config fetched = Inr f \<and> record_ids fr config stored = Inr s \<and>
    d = [(''added'', a), (''removed'', r), (''unchanged'', u)] \<and>
    (\<forall>v \<in> {a, r, u}. sorted (id_list v) \<and> distinct (id_list v)) \<and>
    set (id_list a) \<inter> set (id_list r) = {} \<and> set (id_list a) \<inter> set (id_list u) = {} \<and>
    set (id_list r) \<inter> set (id_list u) = {} \<and>
    set f = set s - set (id_list r) \<union> set (id_list a) \<and> set (id_list u) = set f \<inter> set s"
proof -
  from assms obtain f s where ids: "record_ids fr config fetched = Inr f" "record_ids fr config stored = Inr s"
    and d: "d = [(''added'', sorted_ids (\<lambda>i. i \<notin> set s) f), (''removed'', sorted_ids (\<lambda>i. i \<notin> set f) s),
          (''unchanged'', sorted_ids (\<lambda>i. i \<in> set s) f)]"
    by (auto simp: diff_by_id_def sbind_Inr)
  then show ?thesis
    by (intro exI [of _ f] exI [of _ s] exI [of _ "sorted_ids (\<lambda>i. i \<notin> set s) f"]
        exI [of _ "sorted_ids (\<lambda>i. i \<notin> set f) s"] exI [of _ "sorted_ids (\<lambda>i. i \<in> set s) f"])
      (auto simp: id_list_sorted)
qed

text \<open>
  The comprehension asks whether a record has an \<^verbatim>\<open>id\<close> but reads the configured field: a record
  without that field raises \<^verbatim>\<open>KeyError\<close>, and one with the field but no \<^verbatim>\<open>id\<close> is passed over.
\<close>

lemma diff_by_id_wrong_guard:
  "diff_by_id fr [JObj [(''id'', JInt 1)]] [] (JObj [(''field'', JStr ''key'')]) = Inl (Exc KeyError (repr_str ''key''))"
  "diff_by_id fr [JObj [(''key'', JInt 1)]] [] (JObj [(''field'', JStr ''key'')]) =
     Inr [(''added'', JList []), (''removed'', JList []), (''unchanged'', JList [])]"
  by (simp_all add: diff_by_id_def record_ids_def record_id_def dict_get_def dict_keys_def dict_item_def sorted_ids_def)

theorem diff_by_id_exact_witness:
  "\<exists>a r u. diff_by_id (\<lambda>_. []) [mock_record ''b'', mock_record ''a'', mock_record ''b''] [mock_record ''c''] (JObj []) =
      Inr [(''added'', a), (''removed'', r), (''unchanged'', u)] \<and> set (id_list a) \<inter> set (id_list r) = {}"
proof -
  obtain d where d: "diff_by_id (\<lambda>_. []) [mock_record ''b'', mock_record ''a'', mock_record ''b''] [mock_record ''c''] (JObj []) = Inr d"
    by (simp add: diff_by_id_def record_ids_def record_id_def mock_record_def dict_get_def dict_keys_def dict_item_def)
  from diff_by_id_exact [OF d] d show ?thesis by auto
qed

section \<open>The contract of a store\<close>

text \<open>A record the runtime hands to a store: an object with an \<^verbatim>\<open>id\<close>.\<close>

definition with_id :: "json \<Rightarrow> bool" where
  "with_id v = (case v of JObj d \<Rightarrow> ''id'' \<in> set (dict_keys d) | _ \<Rightarrow> False)"

definition id_of :: "(rat \<Rightarrow> string) \<Rightarrow> json \<Rightarrow> string" where
  "id_of fr v = (case v of JObj d \<Rightarrow> py_str fr (dict_get d ''id'' JNull) | _ \<Rightarrow> [])"

datatype store_op = Upsert "json list" | ReplaceAll "json list"

fun store_op_records :: "store_op \<Rightarrow> json list" where
  "store_op_records (Upsert rs) = rs"
| "store_op_records (ReplaceAll rs) = rs"

text \<open>The specification: a set of identifiers.\<close>

fun spec_step :: "(rat \<Rightarrow> string) \<Rightarrow> string set \<Rightarrow> store_op \<Rightarrow> string set" where
  "spec_step fr S (Upsert rs) = S \<union> id_of fr ` set rs"
| "spec_step fr S (ReplaceAll rs) = id_of fr ` set rs"

locale record_store =
  fixes fr :: "rat \<Rightarrow> string" and ok :: "nat \<Rightarrow> 'w \<Rightarrow> bool" and ids :: "nat \<Rightarrow> 'w \<Rightarrow> string set"
    and create :: "('w, nat) eff" and upsert replace_all :: "nat \<Rightarrow> json list \<Rightarrow> ('w, json) eff"
  assumes create_ok: "\<exists>a w'. create w = (Inr a, w') \<and> ok a w' \<and> ids a w' = {}"
    and upsert_ok: "ok a w \<Longrightarrow> list_all with_id rs \<Longrightarrow>
      \<exists>v w'. upsert a rs w = (Inr v, w') \<and> ok a w' \<and> ids a w' = ids a w \<union> id_of fr ` set rs"
    and replace_ok: "ok a w \<Longrightarrow> list_all with_id rs \<Longrightarrow>
      \<exists>v w'. replace_all a rs w = (Inr v, w') \<and> ok a w' \<and> ids a w' = id_of fr ` set rs"
begin

fun step :: "nat \<Rightarrow> store_op \<Rightarrow> ('w, json) eff" where
  "step a (Upsert rs) = upsert a rs"
| "step a (ReplaceAll rs) = replace_all a rs"

lemma refines:
  "ok a w \<Longrightarrow> list_all (\<lambda>x. list_all with_id (store_op_records x)) xs \<Longrightarrow>
     \<exists>vs w'. emap (step a) xs w = (Inr vs, w') \<and> ok a w' \<and> ids a w' = foldl (spec_step fr) (ids a w) xs"
proof (induction xs arbitrary: w)
  case (Cons x xs)
  have "\<exists>v w1. step a x w = (Inr v, w1) \<and> ok a w1 \<and> ids a w1 = spec_step fr (ids a w) x"
    using Cons.prems upsert_ok [OF Cons.prems(1)] replace_ok [OF Cons.prems(1)] by (cases x) simp_all
  then obtain v w1 where "step a x w = (Inr v, w1)" "ok a w1" "ids a w1 = spec_step fr (ids a w) x" by blast
  with Cons.IH [of w1] Cons.prems(2) show ?case by (auto simp: ebind_def eret_def)
qed (simp add: eret_def)

text \<open>A fresh store and a session on it.\<close>

lemma session_refines:
  assumes "list_all (\<lambda>x. list_all with_id (store_op_records x)) xs"
  shows "\<exists>a w1 vs w'. create w = (Inr a, w1) \<and> emap (step a) xs w1 = (Inr vs, w') \<and> ok a w' \<and>
    ids a w' = foldl (spec_step fr) {} xs"
proof -
  from create_ok obtain a w1 where "create w = (Inr a, w1)" "ok a w1" "ids a w1 = {}" by blast
  with refines [OF _ assms] show ?thesis by fastforce
qed

end

section \<open>Both stores keep it\<close>

lemma not_None_keys: "(\<exists>v. map_of d k = Some v) \<longleftrightarrow> k \<in> set (dict_keys d)"
  by (metis map_of_None_keys not_None_eq)

lemma with_id_item: "with_id v \<Longrightarrow> json_in ''id'' v = Inr True \<and>
    (\<exists>x. json_item v ''id'' = Inr x \<and> py_str fr x = id_of fr v)"
  by (cases v) (auto simp: with_id_def dict_item_def id_of_def dict_get_def simp: not_None_keys split: option.split)

lemma record_ids_with_id:
  assumes "json_get config ''field'' (JStr ''id'') = Inr (JStr ''id'')"
  shows "list_all with_id rs \<Longrightarrow> record_ids fr config rs = Inr (List.map (id_of fr) rs)"
proof (induction rs)
  case (Cons r rs)
  from Cons.prems with_id_item [of r fr] Cons.IH assms show ?case
    by (auto simp: record_ids_def record_id_def sbind_Inr)
qed (simp add: record_ids_def)

definition memory_ok :: "nat \<Rightarrow> 'c kit_world \<Rightarrow> bool" where
  "memory_ok a w \<longleftrightarrow> list_all with_id (kw_memory w a)"

definition memory_ids :: "(rat \<Rightarrow> string) \<Rightarrow> nat \<Rightarrow> 'c kit_world \<Rightarrow> string set" where
  "memory_ids fr a w = id_of fr ` set (kw_memory w a)"

lemma in_memory_existing: "memory_ok a w \<Longrightarrow> in_memory_existing_ids fr a w = (Inr (memory_ids fr a w), w)"
  by (simp add: in_memory_existing_ids_def in_memory_load_def memory_ok_def memory_ids_def eff_defs record_ids_with_id dict_get_def)

interpretation memory: record_store fr memory_ok "memory_ids fr" in_memory_init in_memory_upsert in_memory_replace_all
  for fr :: "rat \<Rightarrow> string"
  by unfold_locales
    (auto simp: in_memory_init_def in_memory_upsert_def in_memory_save_def in_memory_replace_all_def memory_ok_def
      memory_ids_def eff_defs)

definition table_ids :: "nat \<Rightarrow> 'c kit_world \<Rightarrow> string set" where
  "table_ids a w = set (dict_keys (kw_tables w a))"

lemma keys_insert_or_replace: "set (dict_keys (insert_or_replace i p t)) = insert i (set (dict_keys t))"
  by (auto simp: insert_or_replace_def dict_keys_def delete_keys)

lemma sqlite_save_ids: "list_all with_id rs \<Longrightarrow>
   \<exists>w'. sqlite_save fr a rs w = (Inr (), w') \<and> table_ids a w' = table_ids a w \<union> id_of fr ` set rs"
proof (induction rs arbitrary: w)
  case (Cons r rs)
  then obtain x where x: "json_item r ''id'' = Inr x" "py_str fr x = id_of fr r"
    using with_id_item [of r fr] by auto
  let ?w = "w\<lparr>kw_tables := (kw_tables w)(a := insert_or_replace (py_str fr x) (py_str fr r) (kw_tables w a))\<rparr>"
  from Cons.IH [of ?w] Cons.prems obtain w' where
    "sqlite_save fr a rs ?w = (Inr (), w')" "table_ids a w' = table_ids a ?w \<union> id_of fr ` set rs" by auto
  with x show ?case by (auto simp: eff_defs table_ids_def keys_insert_or_replace)
qed (simp add: eff_defs)

interpretation sqlite: record_store fr "\<lambda>_ _. True" table_ids sqlite_init "sqlite_upsert fr" "sqlite_replace_all fr"
  for fr :: "rat \<Rightarrow> string"
proof (unfold_locales, goal_cases)
  case (1 w)
  then show ?case by (simp add: sqlite_init_def table_ids_def dict_keys_def)
next
  case (2 a w rs)
  from sqlite_save_ids [OF 2(2), of fr a w] show ?case by (auto simp: sqlite_upsert_def eff_defs)
next
  case (3 a w rs)
  let ?w = "w\<lparr>kw_tables := (kw_tables w)(a := [])\<rparr>"
  from sqlite_save_ids [OF 3(2), of fr a ?w] show ?case
    by (auto simp: sqlite_replace_all_def eff_defs table_ids_def dict_keys_def)
qed


text \<open>A session on a fresh store, and the identifiers it holds in the end.\<close>

definition memory_op :: "nat \<Rightarrow> store_op \<Rightarrow> ('c kit_world, json) eff" where
  "memory_op a x = (case x of Upsert rs \<Rightarrow> in_memory_upsert a rs | ReplaceAll rs \<Rightarrow> in_memory_replace_all a rs)"

definition sqlite_op :: "(rat \<Rightarrow> string) \<Rightarrow> nat \<Rightarrow> store_op \<Rightarrow> ('c kit_world, json) eff" where
  "sqlite_op fr a x = (case x of Upsert rs \<Rightarrow> sqlite_upsert fr a rs | ReplaceAll rs \<Rightarrow> sqlite_replace_all fr a rs)"

definition memory_session :: "(rat \<Rightarrow> string) \<Rightarrow> store_op list \<Rightarrow> ('c kit_world, string set) eff" where
  "memory_session fr xs = ebind in_memory_init (\<lambda>a.
     ebind (emap (memory_op a) xs) (\<lambda>_. in_memory_existing_ids fr a))"

definition sqlite_session :: "(rat \<Rightarrow> string) \<Rightarrow> store_op list \<Rightarrow> ('c kit_world, string set) eff" where
  "sqlite_session fr xs = ebind sqlite_init (\<lambda>a.
     ebind (emap (sqlite_op fr a) xs) (\<lambda>_. sqlite_existing_ids a))"

lemma memory_op_step: "memory_op a = memory.step a"
  by (auto simp: memory_op_def fun_eq_iff split: store_op.split)

lemma sqlite_op_step: "sqlite_op fr a = sqlite.step fr a"
  by (auto simp: sqlite_op_def fun_eq_iff split: store_op.split)

text \<open>
  C35. The two stores implement the same set of identifiers: after any sequence of upserts and replacements
  of records with an \<^verbatim>\<open>id\<close> on a fresh store, both report exactly the identifiers of the records since
  the last replacement, and neither raises.
\<close>

theorem stores_refine_id_set:
  assumes "list_all (\<lambda>x. list_all with_id (store_op_records x)) xs"
  shows "fst (memory_session fr xs w) = Inr (foldl (spec_step fr) {} xs) \<and>
    fst (sqlite_session fr xs w) = Inr (foldl (spec_step fr) {} xs)"
proof
  from memory.session_refines [OF assms, of w fr] obtain a w1 vs w' where
    "in_memory_init w = (Inr a, w1)" "emap (memory_op a) xs w1 = (Inr vs, w')" "memory_ok a w'"
    "memory_ids fr a w' = foldl (spec_step fr) {} xs" unfolding memory_op_step by blast
  then show "fst (memory_session fr xs w) = Inr (foldl (spec_step fr) {} xs)"
    by (simp add: memory_session_def ebind_def in_memory_existing)
  from sqlite.session_refines [OF assms, of w fr] obtain a w1 vs w' where
    "sqlite_init w = (Inr a, w1)" "emap (sqlite_op fr a) xs w1 = (Inr vs, w')"
    "table_ids a w' = foldl (spec_step fr) {} xs" unfolding sqlite_op_step by blast
  then show "fst (sqlite_session fr xs w) = Inr (foldl (spec_step fr) {} xs)"
    by (simp add: sqlite_session_def ebind_def sqlite_existing_ids_def eget_def table_ids_def)
qed

definition demo_shop :: "rat kit_world" where
  "demo_shop = \<lparr>kw_next = 0, kw_memory = (\<lambda>_. []), kw_tables = (\<lambda>_. []), kw_outer = 0\<rparr>"

theorem stores_refine_id_set_witness:
  "fst (sqlite_session (\<lambda>_. []) [Upsert [mock_record ''a'', mock_record ''b''], ReplaceAll [mock_record ''a''],
     Upsert [mock_record ''a'']] demo_shop) = Inr {''rec-a-1''}"
proof -
  have "list_all (\<lambda>x. list_all with_id (store_op_records x))
     [Upsert [mock_record ''a'', mock_record ''b''], ReplaceAll [mock_record ''a''], Upsert [mock_record ''a'']]"
    by (simp add: mock_record_def with_id_def dict_keys_def)
  from stores_refine_id_set [OF this, of "\<lambda>_. []" demo_shop] show ?thesis
    by (simp add: mock_record_def id_of_def dict_get_def)
qed

text \<open>
  What the stores do not agree on: the in-memory store keeps a record once for every upsert, and
  the SQLite store gives back the text of a record instead of the record.
\<close>

lemma in_memory_upsert_appends:
  "kw_memory (snd (in_memory_upsert a rs (snd (in_memory_upsert a rs w)))) a = kw_memory w a @ rs @ rs"
  by (simp add: in_memory_upsert_def in_memory_save_def eff_defs)

lemma sqlite_load_text: "fst (sqlite_load 0 (snd (sqlite_upsert (\<lambda>_. []) 0 [mock_record ''a''] demo_shop))) =
    Inr [JObj [(''id'', JStr ''rec-a-1''), (''payload'', JStr (py_repr (\<lambda>_. []) (mock_record ''a'')))]]"
  by (simp add: sqlite_load_def sqlite_upsert_def mock_record_def dict_item_def insert_or_replace_def demo_shop_def
      py_str_def eff_defs)

lemma fresh_stores_empty:
  "in_memory_init w = (Inr a, w') \<Longrightarrow> in_memory_load a w' = (Inr [], w')"
  "sqlite_init w = (Inr a, w') \<Longrightarrow> sqlite_load a w' = (Inr [], w')"
  by (auto simp: in_memory_init_def in_memory_load_def sqlite_init_def sqlite_load_def eff_defs)

end
