(* ===== verification/RateLimit.thy ===== *)
theory RateLimit
  imports Prelude
begin

text \<open>
  \<^verbatim>\<open>ratelimit.py\<close>: the token bucket. One round of \<^verbatim>\<open>acquire\<close> under the bucket's lock is a function
  of the bucket and the clock; \<^verbatim>\<open>acquire\<close> iterates it with sleeps in between. Floats are rationals.
\<close>

section \<open>The bucket\<close>

record token_bucket =
  tb_rate :: rat
  tb_capacity :: rat
  tb_tokens :: rat
  tb_last :: rat

definition first_given :: "'a option \<Rightarrow> 'a option \<Rightarrow> 'a option" where
  "first_given x y = (case x of None \<Rightarrow> y | Some v \<Rightarrow> Some v)"

definition make_bucket ::
  "rat option \<Rightarrow> rat option \<Rightarrow> rat option \<Rightarrow> rat option \<Rightarrow> rat \<Rightarrow> exc + token_bucket" where
  "make_bucket rate capacity rate_per_sec burst now =
     (case (first_given rate rate_per_sec, first_given capacity burst) of
        (Some r, Some c) \<Rightarrow>
          if r \<le> 0 \<or> c \<le> 0 then Inl (Exc ValueError ''rate and capacity must be positive'')
          else Inr \<lparr>tb_rate = r, tb_capacity = c, tb_tokens = c, tb_last = now\<rparr>
      | _ \<Rightarrow> Inl (Exc ValueError ''rate and capacity must be provided''))"

text \<open>\<open>None\<close>: the tokens were taken; \<open>Some w\<close>: sleep \<open>w\<close> seconds and try again.\<close>

definition bucket_attempt :: "token_bucket \<Rightarrow> rat \<Rightarrow> rat \<Rightarrow> rat option \<times> token_bucket" where
  "bucket_attempt b now amount =
     (let elapsed = now - tb_last b;
          have_now = min (tb_capacity b) (tb_tokens b + elapsed * tb_rate b);
          b' = b\<lparr>tb_tokens := have_now, tb_last := now\<rparr>
      in if amount \<le> have_now then (None, b'\<lparr>tb_tokens := have_now - amount\<rparr>)
         else (Some ((amount - have_now) / tb_rate b), b'))"

text \<open>\<^verbatim>\<open>time.monotonic\<close> and \<^verbatim>\<open>time.sleep\<close>\<close>

record 'w clockwork =
  monotonic :: "'w \<Rightarrow> rat"
  sleep :: "rat \<Rightarrow> 'w \<Rightarrow> 'w"

definition bucket_turn ::
  "'w clockwork \<Rightarrow> rat \<Rightarrow> token_bucket \<times> 'w \<times> rat \<Rightarrow> (token_bucket \<times> 'w \<times> rat) + (token_bucket \<times> 'w \<times> rat)" where
  "bucket_turn t amount = (\<lambda>(b, w, waited).
     case bucket_attempt b (monotonic t w) amount of
       (None, b') \<Rightarrow> Inr (b', w, waited)
     | (Some wait, b') \<Rightarrow> Inl (b', sleep t wait w, waited + wait))"

definition bucket_acquire ::
  "'w clockwork \<Rightarrow> rat \<Rightarrow> token_bucket \<Rightarrow> 'w \<Rightarrow> ((exc + rat) \<times> token_bucket \<times> 'w) option" where
  "bucket_acquire t amount b w =
     (if amount \<le> 0 then Some (Inl (Exc ValueError ''tokens must be positive''), b, w)
      else if tb_capacity b < amount
        then Some (Inl (Exc ValueError ''tokens cannot exceed capacity''), b, w)
      else map_option (\<lambda>(b', w', waited). (Inr waited, b', w'))
             (iterate (bucket_turn t amount) (b, w, 0)))"

definition bucket_wait ::
  "'w clockwork \<Rightarrow> rat \<Rightarrow> token_bucket \<Rightarrow> 'w \<Rightarrow> ((exc + unit) \<times> token_bucket \<times> 'w) option" where
  "bucket_wait t amount b w =
     map_option (\<lambda>(r, s). (map_sum id (\<lambda>_. ()) r, s)) (bucket_acquire t amount b w)"

section \<open>The invariant\<close>

definition bucket_wf :: "token_bucket \<Rightarrow> bool" where
  "bucket_wf b \<longleftrightarrow> 0 < tb_rate b \<and> 0 < tb_capacity b \<and> 0 \<le> tb_tokens b \<and> tb_tokens b \<le> tb_capacity b"

lemma make_bucket_wf: "make_bucket r c r' c' now = Inr b \<Longrightarrow>
    bucket_wf b \<and> tb_tokens b = tb_capacity b \<and> tb_last b = now"
  by (auto simp: make_bucket_def bucket_wf_def split: option.splits if_splits)

lemma refill_nonneg: "bucket_wf b \<Longrightarrow> tb_last b \<le> now \<Longrightarrow> 0 \<le> (now - tb_last b) * tb_rate b"
  by (simp add: bucket_wf_def)

lemma bucket_attempt_wf:
  assumes "bucket_wf b" "tb_last b \<le> now" "0 < amount" "bucket_attempt b now amount = (r, b')"
  shows "bucket_wf b'" "tb_last b' = now" "tb_rate b' = tb_rate b" "tb_capacity b' = tb_capacity b"
  using assms refill_nonneg [OF assms(1,2)]
  by (auto simp: bucket_attempt_def bucket_wf_def Let_def min_def split: if_splits)

text \<open>What a round adds to the tokens still held and the tokens handed out.\<close>

definition taken :: "rat option \<Rightarrow> rat \<Rightarrow> rat" where
  "taken r amount = (if r = None then amount else 0)"

lemma bucket_attempt_budget:
  assumes "bucket_attempt b now amount = (r, b')"
  shows "tb_tokens b' + taken r amount \<le> tb_tokens b + (now - tb_last b) * tb_rate b"
  using assms by (auto simp: bucket_attempt_def taken_def Let_def split: if_splits)

section \<open>Many threads\<close>

text \<open>
  The rounds of all threads are serialised by the lock: a history of pairs of the clock read and the
  amount wanted. \<open>granted\<close> sums the tokens handed out.
\<close>

fun granted :: "token_bucket \<Rightarrow> (rat \<times> rat) list \<Rightarrow> rat" where
  "granted b [] = 0"
| "granted b ((now, amount) # xs) =
     (case bucket_attempt b now amount of (r, b') \<Rightarrow> taken r amount + granted b' xs)"

fun after_rounds :: "token_bucket \<Rightarrow> (rat \<times> rat) list \<Rightarrow> token_bucket" where
  "after_rounds b [] = b"
| "after_rounds b ((now, amount) # xs) = after_rounds (snd (bucket_attempt b now amount)) xs"

fun rounds_ok :: "rat \<Rightarrow> (rat \<times> rat) list \<Rightarrow> bool" where
  "rounds_ok t [] = True"
| "rounds_ok t ((now, amount) # xs) = (t \<le> now \<and> 0 < amount \<and> rounds_ok now xs)"

text \<open>The last clock read of a history that began at \<open>t\<close>.\<close>

fun last_read :: "rat \<Rightarrow> (rat \<times> rat) list \<Rightarrow> rat" where
  "last_read t [] = t"
| "last_read t ((now, amount) # xs) = last_read now xs"

lemma last_read_append [simp]: "last_read t (xs @ ys) = last_read (last_read t xs) ys"
  by (induction t xs rule: last_read.induct) auto

lemma granted_budget:
  assumes "bucket_wf b" "rounds_ok (tb_last b) xs"
  shows "bucket_wf (after_rounds b xs) \<and> tb_rate (after_rounds b xs) = tb_rate b \<and>
    tb_capacity (after_rounds b xs) = tb_capacity b \<and>
    tb_last (after_rounds b xs) = last_read (tb_last b) xs \<and>
    tb_tokens (after_rounds b xs) + granted b xs
      \<le> tb_tokens b + (last_read (tb_last b) xs - tb_last b) * tb_rate b"
  using assms
proof (induction xs arbitrary: b)
  case (Cons x xs)
  obtain now amount where x: "x = (now, amount)" by (cases x)
  obtain r b' where r: "bucket_attempt b now amount = (r, b')" by (cases "bucket_attempt b now amount")
  from Cons.prems x have ok: "tb_last b \<le> now" "0 < amount" by simp_all
  note wf = bucket_attempt_wf [OF Cons.prems(1) ok r]
  have ih: "bucket_wf (after_rounds b' xs) \<and> tb_rate (after_rounds b' xs) = tb_rate b' \<and>
    tb_capacity (after_rounds b' xs) = tb_capacity b' \<and>
    tb_last (after_rounds b' xs) = last_read (tb_last b') xs \<and>
    tb_tokens (after_rounds b' xs) + granted b' xs
      \<le> tb_tokens b' + (last_read (tb_last b') xs - tb_last b') * tb_rate b'"
    using Cons.prems x wf by (intro Cons.IH) simp_all
  with bucket_attempt_budget [OF r] wf show ?case
    by (simp add: x r algebra_simps)
qed (simp add: bucket_wf_def)

lemma rounds_ok_append: "rounds_ok t (xs @ ys) \<longleftrightarrow> rounds_ok t xs \<and> rounds_ok (last_read t xs) ys"
  by (induction t xs rule: last_read.induct) auto

lemma granted_append: "granted b (xs @ ys) = granted b xs + granted (after_rounds b xs) ys"
  by (induction b xs rule: granted.induct) (auto split: prod.splits)

section \<open>Properties\<close>


text \<open>One thread alone.\<close>

lemma acquire_lone:
  assumes wf: "bucket_wf b" and past: "tb_last b \<le> monotonic t w"
    and amount: "0 < amount" "amount \<le> tb_capacity b"
    and time: "\<And>d w. 0 \<le> d \<Longrightarrow> monotonic t w + d \<le> monotonic t (sleep t d w)"
  shows "\<exists>waited b' w'. bucket_acquire t amount b w = Some (Inr waited, b', w') \<and>
    waited = max 0 ((amount - min (tb_capacity b) (tb_tokens b + (monotonic t w - tb_last b) * tb_rate b))
               / tb_rate b) \<and>
    waited \<le> amount / tb_rate b \<and> bucket_wf b' \<and>
    tb_last b' = monotonic t w' \<and> tb_rate b' = tb_rate b \<and> tb_capacity b' = tb_capacity b \<and>
    monotonic t w \<le> monotonic t w'"
proof -
  let ?now = "monotonic t w"
  let ?have = "min (tb_capacity b) (tb_tokens b + (?now - tb_last b) * tb_rate b)"
  have rate: "0 < tb_rate b" and have0: "0 \<le> ?have"
    using wf refill_nonneg [OF wf past] by (auto simp: bucket_wf_def)
  obtain r b1 where r: "bucket_attempt b ?now amount = (r, b1)" by (cases "bucket_attempt b ?now amount")
  note wf1 = bucket_attempt_wf [OF wf past amount(1) r]
  show ?thesis
  proof (cases "amount \<le> ?have")
    case True
    with r have "r = None" by (auto simp: bucket_attempt_def Let_def split: if_splits)
    with r have "bucket_turn t amount (b, w, 0) = Inr (b1, w, 0)" by (simp add: bucket_turn_def)
    then have "bucket_acquire t amount b w = Some (Inr 0, b1, w)"
      using amount by (simp add: bucket_acquire_def iterate_Inr)
    moreover from True rate have "(amount - ?have) / tb_rate b \<le> 0" by (simp add: divide_le_0_iff)
    ultimately show ?thesis using wf1 amount rate by (intro exI [of _ 0] exI [of _ b1] exI [of _ w]) (simp add: max_def)
  next
    case False
    let ?wait = "(amount - ?have) / tb_rate b"
    let ?w1 = "sleep t ?wait w"
    have r': "r = Some ?wait" "tb_tokens b1 = ?have"
      using False r by (auto simp: bucket_attempt_def Let_def split: if_splits)
    have wait: "0 \<le> ?wait" using False rate by (intro divide_nonneg_pos) auto
    from time [OF this, of w] have t1: "?now + ?wait \<le> monotonic t ?w1" .
    with wait have "?now \<le> monotonic t ?w1" by linarith
    with wf1 have past1: "tb_last b1 \<le> monotonic t ?w1" by simp
    obtain r2 b2 where r2: "bucket_attempt b1 (monotonic t ?w1) amount = (r2, b2)" by (cases "bucket_attempt b1 (monotonic t ?w1) amount")
    have "?wait * tb_rate b \<le> (monotonic t ?w1 - tb_last b1) * tb_rate b"
      using t1 wf1(2) rate by (intro mult_right_mono) linarith+
    then have "amount \<le> min (tb_capacity b1) (tb_tokens b1 + (monotonic t ?w1 - tb_last b1) * tb_rate b1)"
      using rate amount wf1 r' by simp
    with r2 have "r2 = None" by (auto simp: bucket_attempt_def Let_def split: if_splits)
    with r r' r2 have "iterate (bucket_turn t amount) (b, w, 0) = Some (b2, ?w1, ?wait)"
      by (simp add: iterate_Inl [of _ _ "(b1, ?w1, ?wait)"] iterate_Inr bucket_turn_def)
    then have "bucket_acquire t amount b w = Some (Inr ?wait, b2, ?w1)"
      using amount by (simp add: bucket_acquire_def)
    moreover have "?wait \<le> amount / tb_rate b" using rate have0 by (simp add: divide_right_mono)
    moreover from wait t1 have "?now \<le> monotonic t ?w1" by linarith
    ultimately show ?thesis using wait bucket_attempt_wf [OF wf1(1) past1 amount(1) r2] wf1
      by (intro exI [of _ ?wait] exI [of _ b2] exI [of _ ?w1]) (simp add: max_def)
  qed
qed

text \<open>
  \<^verbatim>\<open>acquire\<close> of a lone thread returns: when sleeping lets at least the requested time pass, it
  sleeps at most once, for exactly the time the missing tokens take to come in, and never longer
  than the whole amount would take.
\<close>

theorem acquire_returns:
  assumes wf: "bucket_wf b" and past: "tb_last b \<le> monotonic t w"
    and amount: "0 < amount" "amount \<le> tb_capacity b"
    and time: "\<And>d w. 0 \<le> d \<Longrightarrow> monotonic t w + d \<le> monotonic t (sleep t d w)"
  shows "\<exists>waited b' w'. bucket_acquire t amount b w = Some (Inr waited, b', w') \<and>
    waited = max 0 ((amount - min (tb_capacity b) (tb_tokens b + (monotonic t w - tb_last b) * tb_rate b))
               / tb_rate b) \<and>
    waited \<le> amount / tb_rate b \<and> bucket_wf b'"
  using acquire_lone [OF assms] by blast

text \<open>Two threads that want three tokens each from a bucket of five, one per second.\<close>

definition bucket5 :: token_bucket where
  "bucket5 = \<lparr>tb_rate = 1, tb_capacity = 5, tb_tokens = 5, tb_last = 0\<rparr>"

lemma make_bucket5: "make_bucket (Some 1) None None (Some 5) 0 = Inr bucket5"
  by (simp add: make_bucket_def bucket5_def first_given_def)

definition plain_time :: "rat clockwork" where
  "plain_time = \<lparr>monotonic = id, sleep = (\<lambda>d w. w + d)\<rparr>"


theorem acquire_returns_witness:
  "\<exists>b w. bucket_acquire plain_time 2 (bucket5\<lparr>tb_tokens := 0\<rparr>) 0 = Some (Inr 2, b, w)"
  using acquire_returns [of "bucket5\<lparr>tb_tokens := 0\<rparr>" plain_time 0 2]
  by (auto simp: bucket5_def plain_time_def bucket_wf_def)

end
