(* ===== verification/Retry.thy ===== *)
theory Retry
  imports PyValues
begin

text \<open>
  \<^verbatim>\<open>retry.py\<close>: calling a function up to \<^verbatim>\<open>retries\<close> times with a linear or exponential delay
  between the attempts. The function and \<^verbatim>\<open>time.sleep\<close> are computations on a state of the caller.
\<close>

section \<open>Operations\<close>

record retry_policy =
  rp_retries :: int
  rp_backoff_seconds :: rat
  rp_backoff :: string
  rp_max_backoff :: "rat option"
  rp_retry_on :: "exc_class list"

text \<open>\<^verbatim>\<open>_delay_seconds\<close>; any backoff but \<^verbatim>\<open>"linear"\<close> is exponential.\<close>

definition delay_seconds :: "retry_policy \<Rightarrow> nat \<Rightarrow> exc + rat" where
  "delay_seconds p attempt =
     (case float_times_int (rp_backoff_seconds p)
        (if rp_backoff p = ''linear'' then attempt + 1 else 2 ^ attempt) of
        Inl x \<Rightarrow> Inl x
      | Inr delay \<Rightarrow> Inr (case rp_max_backoff p of None \<Rightarrow> delay | Some m \<Rightarrow> min delay m))"

definition time_sleep :: "(rat \<Rightarrow> ('s, unit) eff) \<Rightarrow> rat \<Rightarrow> ('s, unit) eff" where
  "time_sleep sleep d =
     (if d < 0 then eraise (Exc ValueError ''sleep length must be non-negative'') else sleep d)"

text \<open>The \<^verbatim>\<open>for\<close> loop from attempt \<open>i\<close> on, with the number of attempts left.\<close>

fun retry_loop ::
  "retry_policy \<Rightarrow> (rat \<Rightarrow> ('s, unit) eff) \<Rightarrow> ('s, 'a) eff \<Rightarrow> nat \<Rightarrow> nat \<Rightarrow> ('s, 'a) eff" where
  "retry_loop p sleep fn i 0 = eraise (Exc AssertionError ''unreachable'')"
| "retry_loop p sleep fn i (Suc n) =
     (if n = 0 then fn
      else ebind (etry (\<lambda>x. caught_by x (rp_retry_on p))
             (ebind fn (\<lambda>v. eret (Some v)))
             (\<lambda>_. ebind (elift (delay_seconds p i)) (\<lambda>d.
                  ebind (time_sleep sleep d) (\<lambda>_. eret None))))
           (\<lambda>r. case r of Some v \<Rightarrow> eret v | None \<Rightarrow> retry_loop p sleep fn (Suc i) n))"

definition retry_call ::
  "retry_policy \<Rightarrow> (rat \<Rightarrow> ('s, unit) eff) \<Rightarrow> ('s, 'a) eff \<Rightarrow> ('s, 'a) eff" where
  "retry_call p sleep fn = retry_loop p sleep fn 0 (nat (rp_retries p))"

definition retry_decorator ::
  "retry_policy \<Rightarrow> (rat \<Rightarrow> ('s, unit) eff) \<Rightarrow> ('x \<Rightarrow> ('s, 'a) eff) \<Rightarrow> 'x \<Rightarrow> ('s, 'a) eff" where
  "retry_decorator p sleep fn args = retry_call p sleep (fn args)"

section \<open>A function with a script\<close>

text \<open>
  The behaviour of a function over its successive calls is a list of outcomes. The state also
  records what \<^verbatim>\<open>time.sleep\<close> was asked for.
\<close>

type_synonym 'a script = "(exc + 'a) list \<times> rat list"

definition scripted :: "('a script, 'a) eff" where
  "scripted s = (case fst s of
     [] \<Rightarrow> (Inl (Exc RuntimeError ''script exhausted''), s) | r # rs \<Rightarrow> (r, (rs, snd s)))"

definition log_sleep :: "rat \<Rightarrow> ('a script, unit) eff" where
  "log_sleep d = emod (\<lambda>(rs, ds). (rs, ds @ [d]))"

definition retryable :: "retry_policy \<Rightarrow> exc + 'a \<Rightarrow> bool" where
  "retryable p r = (case r of Inl x \<Rightarrow> caught_by x (rp_retry_on p) | Inr _ \<Rightarrow> False)"

text \<open>The attempts before the one whose outcome \<^verbatim>\<open>retry\<close> reports.\<close>

definition failed_attempts :: "retry_policy \<Rightarrow> (exc + 'a) list \<Rightarrow> nat \<Rightarrow> nat" where
  "failed_attempts p rs n = length (takeWhile (retryable p) (take (n - 1) rs))"

definition sane_delays :: "retry_policy \<Rightarrow> nat \<Rightarrow> (nat \<Rightarrow> rat) \<Rightarrow> bool" where
  "sane_delays p n d \<longleftrightarrow> (\<forall>i < n. delay_seconds p i = Inr (d i) \<and> 0 \<le> d i)"

lemma sane_delaysD: "sane_delays p n d \<Longrightarrow> i < n \<Longrightarrow> delay_seconds p i = Inr (d i) \<and> 0 \<le> d i"
  by (simp add: sane_delays_def)

lemma retry_loop_step:
  assumes "n \<noteq> 0" "retryable p r" "delay_seconds p i = Inr d" "0 \<le> d"
  shows "retry_loop p log_sleep scripted i (Suc n) (r # rs, ds) =
    retry_loop p log_sleep scripted (Suc i) n (rs, ds @ [d])"
  using assms by (auto simp: eff_defs scripted_def retryable_def time_sleep_def log_sleep_def
      split: sum.splits)

lemma retry_loop_stop:
  assumes "n = 0 \<or> \<not> retryable p r"
  shows "retry_loop p log_sleep scripted i (Suc n) (r # rs, ds) = (r, (rs, ds))"
  using assms by (auto simp: eff_defs scripted_def retryable_def split: sum.splits)

lemma retry_loop_script:
  assumes "0 < n" "n \<le> length rs" "sane_delays p (i + n) d"
  shows "retry_loop p log_sleep scripted i n (rs, ds) =
    (let k = failed_attempts p rs n in (rs ! k, (drop (Suc k) rs, ds @ List.map d [i..<i + k])))"
  using assms
proof (induction n arbitrary: i rs ds)
  case (Suc n)
  from Suc.prems obtain r rs' where rs: "rs = r # rs'" by (cases rs) auto
  show ?case
  proof (cases "n \<noteq> 0 \<and> retryable p r")
    case True
    then have k: "failed_attempts p rs (Suc n) = Suc (failed_attempts p rs' n)"
      by (cases n) (auto simp: failed_attempts_def rs)
    from True sane_delaysD [OF Suc.prems(3), of i] have
      "retry_loop p log_sleep scripted i (Suc n) (rs, ds) =
       retry_loop p log_sleep scripted (Suc i) n (rs', ds @ [d i])"
      unfolding rs by (intro retry_loop_step) auto
    also have "\<dots> = (let k = failed_attempts p rs' n in
        (rs' ! k, (drop (Suc k) rs', (ds @ [d i]) @ List.map d [Suc i..<Suc i + k])))"
      using True Suc.prems by (intro Suc.IH) (auto simp: rs)
    finally show ?thesis using k unfolding rs by (simp add: Let_def upt_conv_Cons del: upt_Suc retry_loop.simps)
  next
    case False
    then have "failed_attempts p rs (Suc n) = 0" by (cases n) (auto simp: failed_attempts_def rs)
    with False retry_loop_stop [of n p r i rs' ds] show ?thesis by (auto simp: rs Let_def)
  qed
qed simp

section \<open>Properties\<close>

text \<open>
  C38. \<^verbatim>\<open>retry\<close> reports the first outcome that is not an exception to retry on, or that of the last
  attempt: it calls the function exactly that often and sleeps the delays of the policy between
  the calls, in order.
\<close>

theorem retry_reports_first_final:
  assumes "1 \<le> rp_retries p" "nat (rp_retries p) \<le> length rs" "sane_delays p (nat (rp_retries p)) d"
  shows "retry_call p log_sleep scripted (rs, []) =
    (let k = failed_attempts p rs (nat (rp_retries p))
     in (rs ! k, (drop (Suc k) rs, List.map d [0..<k])))"
  using retry_loop_script [of "nat (rp_retries p)" rs p 0 d "[]"] assms
  by (simp add: retry_call_def)

text \<open>The delays of a policy with a nonnegative base and cap, up to 1024 attempts.\<close>

lemma linear_delay: "rp_backoff p = ''linear'' \<Longrightarrow> of_nat (i + 1) < float_limit \<Longrightarrow> rp_max_backoff p = None \<Longrightarrow>
    delay_seconds p i = Inr (rp_backoff_seconds p * of_nat (i + 1))"
  by (simp add: delay_seconds_def float_times_int_def)

lemma pow2_below_limit: "i < 1024 \<Longrightarrow> (2 :: rat) ^ i < float_limit"
proof -
  assume "i < 1024"
  then have "(2 :: rat) ^ i \<le> 2 ^ 1023" by (intro power_increasing) auto
  also have "(2 :: rat) ^ 1023 < float_limit" by (simp add: float_limit_def)
  finally show ?thesis .
qed

lemma delay_seconds_capped:
  assumes "i < 1024" "0 \<le> rp_backoff_seconds p" "\<forall>m. rp_max_backoff p = Some m \<longrightarrow> 0 \<le> m"
  shows "\<exists>d. delay_seconds p i = Inr d \<and> 0 \<le> d \<and> (\<forall>m. rp_max_backoff p = Some m \<longrightarrow> d \<le> m)"
proof -
  have "i + 1 \<le> 2 ^ i" by (induction i) auto
  then have "of_nat (i + 1) \<le> (2 :: rat) ^ i"
    by (metis of_nat_le_iff of_nat_numeral of_nat_power)
  with pow2_below_limit [OF assms(1)] have "of_nat (i + 1) < float_limit" by linarith
  with pow2_below_limit [OF assms(1)] assms(2,3) show ?thesis
    by (auto simp: delay_seconds_def float_times_int_def not_le split: option.split)
qed

lemma sane_policy:
  assumes "n \<le> 1024" "0 \<le> rp_backoff_seconds p" "\<forall>m. rp_max_backoff p = Some m \<longrightarrow> 0 \<le> m"
  shows "sane_delays p n (\<lambda>i. projr (delay_seconds p i))"
  using delay_seconds_capped [of _ p] assms unfolding sane_delays_def by (metis less_le_trans sum.sel(2))

text \<open>
  With \<^verbatim>\<open>retries\<close> not positive the function is never called: the line marked unreachable runs.
\<close>

theorem retry_nonpositive_unreachable:
  "rp_retries p \<le> 0 \<Longrightarrow> retry_call p sleep fn = eraise (Exc AssertionError ''unreachable'')"
  by (simp add: retry_call_def)

text \<open>Two failures, then a value, under the default policy.\<close>

definition default_policy :: retry_policy where
  "default_policy = \<lparr>rp_retries = 3, rp_backoff_seconds = 6 / 5, rp_backoff = ''linear'',
     rp_max_backoff = None, rp_retry_on = [Exception]\<rparr>"

theorem retry_reports_first_final_witness:
  "retry_call default_policy log_sleep scripted
     ([Inl (Exc OSError ''a''), Inl (Exc OSError ''b''), Inr (7 :: nat)], []) =
   (Inr 7, ([], [6 / 5, 12 / 5]))"
proof -
  let ?rs = "[Inl (Exc OSError ''a''), Inl (Exc OSError ''b''), Inr (7 :: nat)]"
  have k: "failed_attempts default_policy ?rs 3 = 2"
    by (simp add: failed_attempts_def retryable_def default_policy_def subclass_of_def numeral_2_eq_2 numeral_3_eq_3)
  have d: "sane_delays default_policy 3 (\<lambda>i. projr (delay_seconds default_policy i))"
    by (rule sane_policy) (simp_all add: default_policy_def)
  have "projr (delay_seconds default_policy 0) = 6 / 5" "projr (delay_seconds default_policy 1) = 12 / 5"
    by (simp_all add: linear_delay default_policy_def float_limit_def)
  with retry_reports_first_final [of default_policy ?rs "\<lambda>i. projr (delay_seconds default_policy i)"] k d
  show ?thesis by (simp add: default_policy_def numeral_2_eq_2)
qed

end
