(* ===== verification/Ingest.thy ===== *)
theory Ingest
  imports RateLimit Retry Reports
begin

text \<open>
  \<^verbatim>\<open>runtime.py\<close>: \<^verbatim>\<open>run_ingest\<close> from the point where the profile is validated and its providers are
  looked up. The providers are computations on a world \<open>'w\<close>; the throttle is the token bucket of
  \<open>RateLimit\<close>, the retries are those of \<open>Retry\<close>. A run that never returns, because its throttle
  never lets it pass, has the value \<open>None\<close>. \<open>fr\<close> and \<open>sf\<close> are the conversions of floats to text and
  back.
\<close>

section \<open>Policies\<close>

text \<open>\<^verbatim>\<open>float(x)\<close>\<close>

definition py_float :: "(string \<Rightarrow> rat option) \<Rightarrow> json \<Rightarrow> exc + rat" where
  "py_float sf v = (case v of
     JStr s \<Rightarrow> (case sf s of Some q \<Rightarrow> Inr q | None \<Rightarrow> Inl (Exc ValueError ''could not convert string to float''))
   | _ \<Rightarrow> (case py_number v of Some q \<Rightarrow> Inr q
           | None \<Rightarrow> Inl (Exc TypeError ''float() argument must be a string or a real number'')))"

definition as_policy :: "json \<Rightarrow> (string, json) dict" where
  "as_policy raw = (case raw of JObj d \<Rightarrow> d | _ \<Rightarrow> [])"

definition ingest_bucket :: "(string \<Rightarrow> rat option) \<Rightarrow> json \<Rightarrow> rat \<Rightarrow> exc + token_bucket" where
  "ingest_bucket sf raw now =
     (let d = as_policy raw in
      sbind (py_float sf (dict_get d ''rate'' (dict_get d ''rate_per_sec'' (JFloat 1000000)))) (\<lambda>rate.
      sbind (py_float sf (dict_get d ''capacity'' (dict_get d ''burst'' (JFloat 1000000)))) (\<lambda>capacity.
      make_bucket (Some rate) (Some capacity) None None now)))"

definition ingest_retry_policy :: "(rat \<Rightarrow> string) \<Rightarrow> (string \<Rightarrow> rat option) \<Rightarrow> json \<Rightarrow> exc + retry_policy" where
  "ingest_retry_policy fr sf raw =
     (let d = as_policy raw in
      sbind (py_int (dict_get d ''retries'' (JInt 1))) (\<lambda>retries.
      sbind (py_float sf (dict_get d ''backoff_seconds'' (JFloat 0))) (\<lambda>backoff_seconds.
      sbind (py_float sf (dict_get d ''max_backoff_seconds'' (JFloat 0))) (\<lambda>cap.
      Inr \<lparr>rp_retries = retries, rp_backoff_seconds = backoff_seconds,
           rp_backoff = py_str fr (dict_get d ''backoff'' (JStr ''exponential'')),
           rp_max_backoff = Some cap, rp_retry_on = [Exception]\<rparr>))))"

section \<open>Records\<close>

definition valid_record :: "json \<Rightarrow> bool" where
  "valid_record v = (case v of JObj d \<Rightarrow> truthy (dict_get d ''id'' JNull) | _ \<Rightarrow> False)"

definition valid_records :: "json list \<Rightarrow> json list \<times> json list" where
  "valid_records rs = (filter valid_record rs, filter (\<lambda>r. \<not> valid_record r) rs)"

definition ingest_completeness :: "string list \<Rightarrow> int \<Rightarrow> completeness_report option" where
  "ingest_completeness layers n =
     (if layers = [] then None
      else Some \<lparr>cr_layers = dict_update []
          (List.map (\<lambda>l. (l, \<lparr>lc_layer = l, lc_truth = n, lc_present = n\<rparr>)) layers),
        cr_present = JInt n, cr_truth = JInt n\<rparr>)"

section \<open>The run\<close>

text \<open>The resolved providers. The store may lack an \<^verbatim>\<open>upsert\<close>.\<close>

record 'w ingest_providers =
  ip_enumerate :: "json \<Rightarrow> ('w, json list) eff"
  ip_fetch :: "json \<Rightarrow> json \<Rightarrow> ('w, json list) eff"
  ip_map :: "json list \<Rightarrow> json \<Rightarrow> ('w, json list) eff"
  ip_diff :: "json list \<Rightarrow> json list \<Rightarrow> json \<Rightarrow> ('w, (string, json) dict) eff"
  ip_assess :: "json list \<Rightarrow> json \<Rightarrow> json \<Rightarrow> ('w, (string, json) dict) eff"
  st_load :: "('w, json list) eff"
  st_save :: "json list \<Rightarrow> ('w, unit) eff"
  st_upsert :: "(json list \<Rightarrow> ('w, unit) eff) option"
  st_replace_all :: "json list \<Rightarrow> ('w, unit) eff"

record ingest_source =
  is_name :: json
  is_policies :: "(string, json) dict"
  is_layers :: "string list"
  is_digest :: json

text \<open>The local variables of the loop over the windows.\<close>

record 'w ingest =
  in_bucket :: token_bucket
  in_warnings :: "string list"
  in_reports :: "json list"
  in_fetched :: "json list"
  in_retries :: nat
  in_waits :: rat
  in_world :: 'w

definition policy :: "ingest_source \<Rightarrow> string \<Rightarrow> json" where
  "policy src key = dict_get (is_policies src) key (JObj [])"

text \<open>\<^verbatim>\<open>fetch_once\<close> counts its calls.\<close>

definition fetch_once :: "('w, 'a) eff \<Rightarrow> (nat \<times> 'w, 'a) eff" where
  "fetch_once m = (\<lambda>(n, w). case m w of (r, w') \<Rightarrow> (r, (Suc n, w')))"

definition lift_sleep :: "'w clockwork \<Rightarrow> rat \<Rightarrow> (nat \<times> 'w, unit) eff" where
  "lift_sleep t d = emod (\<lambda>(n, w). (n, sleep t d w))"

definition in_w :: "('w, 'a) eff \<Rightarrow> ('w ingest, 'a) eff" where
  "in_w m s = (case m (in_world s) of (r, w) \<Rightarrow> (r, s\<lparr>in_world := w\<rparr>))"

text \<open>What a mapped window adds to the run.\<close>

definition ingest_keep :: "(rat \<Rightarrow> string) \<Rightarrow> json \<Rightarrow> json list \<Rightarrow> json list \<Rightarrow> 'w ingest \<Rightarrow> 'w ingest" where
  "ingest_keep fr window raw mapped s =
     (let (valid, invalid) = valid_records mapped in
      s\<lparr>in_warnings := in_warnings s @ (if invalid = [] then [] else
          [nat_str (length invalid) @ '' invalid record(s) in '' @ py_str fr window]),
        in_fetched := in_fetched s @ valid,
        in_reports := in_reports s @
          [JObj [(''window'', window), (''fetched'', JInt (int (length raw))),
             (''persistable'', JInt (int (length valid))), (''invalid'', JInt (int (length invalid)))]]\<rparr>)"

text \<open>The body of the \<^verbatim>\<open>try\<close> behind the throttle.\<close>

definition ingest_window_body ::
  "(rat \<Rightarrow> string) \<Rightarrow> 'w clockwork \<Rightarrow> 'w ingest_providers \<Rightarrow> ingest_source \<Rightarrow> retry_policy \<Rightarrow> json \<Rightarrow>
   ('w ingest, unit) eff" where
  "ingest_window_body fr t p src rp window =
     ebind (\<lambda>s. case retry_call rp (lift_sleep t) (fetch_once (ip_fetch p window (policy src ''fetcher''))) (0, in_world s) of
         (r, (n, w)) \<Rightarrow> (map_sum id (\<lambda>raw. (raw, n)) r, s\<lparr>in_world := w\<rparr>)) (\<lambda>(raw, attempts).
     ebind (emod (\<lambda>s. s\<lparr>in_retries := in_retries s + (attempts - 1)\<rparr>)) (\<lambda>_.
     ebind (in_w (ip_map p raw (policy src ''mapper''))) (\<lambda>mapped.
     emod (ingest_keep fr window raw mapped))))"

text \<open>One window: an \<^verbatim>\<open>Exception\<close> anywhere costs a warning.\<close>

definition ingest_failed :: "(rat \<Rightarrow> string) \<Rightarrow> json \<Rightarrow> exc \<Rightarrow> ('w ingest, unit) eff" where
  "ingest_failed fr window x = emod (\<lambda>s. s\<lparr>in_warnings := in_warnings s @
     [''window '' @ py_repr fr window @ '' failed: '' @ exc_msg x]\<rparr>)"

definition ingest_window ::
  "(rat \<Rightarrow> string) \<Rightarrow> 'w clockwork \<Rightarrow> 'w ingest_providers \<Rightarrow> ingest_source \<Rightarrow> retry_policy \<Rightarrow> json \<Rightarrow>
   'w ingest \<Rightarrow> ((exc + unit) \<times> 'w ingest) option" where
  "ingest_window fr t p src rp window s =
     map_option (\<lambda>(r, b, w).
       etry (\<lambda>x. instance_of x Exception)
         (ebind (elift r) (\<lambda>waited.
          ebind (emod (\<lambda>s. s\<lparr>in_waits := in_waits s + waited\<rparr>)) (\<lambda>_.
          ingest_window_body fr t p src rp window)))
         (ingest_failed fr window)
         (s\<lparr>in_bucket := b, in_world := w\<rparr>))
     (bucket_acquire t 1 (in_bucket s) (in_world s))"

fun ingest_windows ::
  "(rat \<Rightarrow> string) \<Rightarrow> 'w clockwork \<Rightarrow> 'w ingest_providers \<Rightarrow> ingest_source \<Rightarrow> retry_policy \<Rightarrow> json list \<Rightarrow>
   'w ingest \<Rightarrow> ((exc + unit) \<times> 'w ingest) option" where
  "ingest_windows fr t p src rp [] s = Some (Inr (), s)"
| "ingest_windows fr t p src rp (x # xs) s =
     (case ingest_window fr t p src rp x s of
        None \<Rightarrow> None
      | Some (Inl e, s') \<Rightarrow> Some (Inl e, s')
      | Some (Inr _, s') \<Rightarrow> ingest_windows fr t p src rp xs s')"

text \<open>Storing what was fetched; an \<^verbatim>\<open>Exception\<close> of the store is wrapped.\<close>

definition ingest_persist :: "'w ingest_providers \<Rightarrow> json list \<Rightarrow> (string, json) dict \<Rightarrow> ('w, unit) eff" where
  "ingest_persist p fetched diff =
     etry (\<lambda>x. instance_of x Exception)
       (if ''replaced'' \<in> set (dict_keys diff) then st_replace_all p fetched
        else (case st_upsert p of Some upsert \<Rightarrow> upsert fetched | None \<Rightarrow> st_save p fetched))
       (\<lambda>x. eraise (Exc RuntimeStepError (''persist failed: '' @ exc_msg x)))"

definition ingest_report_of ::
  "(rat \<Rightarrow> string) \<Rightarrow> string \<Rightarrow> ingest_source \<Rightarrow> json list \<Rightarrow> 'w ingest \<Rightarrow> (string, json) dict \<Rightarrow>
   (string, json) dict \<Rightarrow> exc + ingest_report" where
  "ingest_report_of fr version src windows s diff assessment =
     sbind (py_int (dict_get assessment ''count'' (JInt 0))) (\<lambda>n.
     Inr \<lparr>ir_source_name = is_name src,
          ir_status = JStr (py_str fr (dict_get assessment ''status''
             (JStr (if in_warnings s = [] then ''ok'' else ''partial'')))),
          ir_windows = JList (in_reports s), ir_windows_processed = JInt (int (length windows)),
          ir_records_fetched = JInt (int (length (in_fetched s))), ir_diff = JObj diff,
          ir_completeness = ingest_completeness (is_layers src) n,
          ir_retries_used = JInt (int (in_retries s)), ir_rate_limit_waits = JFloat (in_waits s),
          ir_warnings = JList (List.map JStr (in_warnings s)), ir_source_digest = is_digest src,
          ir_kit_version = JStr version\<rparr>)"

text \<open>What follows the loop: diff, persist, assess, report.\<close>

definition ingest_finish ::
  "(rat \<Rightarrow> string) \<Rightarrow> string \<Rightarrow> 'w ingest_providers \<Rightarrow> ingest_source \<Rightarrow> json list \<Rightarrow> json list \<Rightarrow>
   ('w ingest, ingest_report) eff" where
  "ingest_finish fr version p src stored windows =
     ebind (eget in_fetched) (\<lambda>fetched.
     ebind (in_w (ip_diff p fetched stored (policy src ''diff''))) (\<lambda>diff.
     ebind (in_w (ingest_persist p fetched diff)) (\<lambda>_.
     ebind (if windows = [] then eret []
            else in_w (ip_assess p fetched (last windows) (policy src ''assess''))) (\<lambda>assessment.
     ebind (eget id) (\<lambda>s.
     elift (ingest_report_of fr version src windows s diff assessment))))))"

definition ingest_start ::
  "(rat \<Rightarrow> string) \<Rightarrow> (string \<Rightarrow> rat option) \<Rightarrow> 'w clockwork \<Rightarrow> 'w ingest_providers \<Rightarrow> ingest_source \<Rightarrow>
   ('w, json list \<times> json list \<times> token_bucket \<times> retry_policy) eff" where
  "ingest_start fr sf t p src =
     ebind (st_load p) (\<lambda>stored.
     ebind (ip_enumerate p (policy src ''enumerator'')) (\<lambda>windows.
     ebind (eget (monotonic t)) (\<lambda>now.
     ebind (elift (ingest_bucket sf (policy src ''rate_limit'') now)) (\<lambda>throttle.
     ebind (elift (ingest_retry_policy fr sf (policy src ''retry''))) (\<lambda>rp.
     eret (stored, windows, throttle, rp))))))"

definition ingest_init :: "token_bucket \<Rightarrow> 'w \<Rightarrow> 'w ingest" where
  "ingest_init b w = \<lparr>in_bucket = b, in_warnings = [], in_reports = [], in_fetched = [], in_retries = 0,
     in_waits = 0, in_world = w\<rparr>"

definition ingest_run ::
  "(rat \<Rightarrow> string) \<Rightarrow> (string \<Rightarrow> rat option) \<Rightarrow> string \<Rightarrow> 'w clockwork \<Rightarrow> 'w ingest_providers \<Rightarrow> ingest_source \<Rightarrow>
   'w \<Rightarrow> ((exc + ingest_report) \<times> 'w) option" where
  "ingest_run fr sf version t p src w =
     (case ingest_start fr sf t p src w of
        (Inl x, w') \<Rightarrow> Some (Inl x, w')
      | (Inr (stored, windows, throttle, rp), w') \<Rightarrow>
          (case ingest_windows fr t p src rp windows (ingest_init throttle w') of
             None \<Rightarrow> None
           | Some (Inl x, s) \<Rightarrow> Some (Inl x, in_world s)
           | Some (Inr _, s) \<Rightarrow> (case ingest_finish fr version p src stored windows s of
               (r, s') \<Rightarrow> Some (r, in_world s'))))"

end
