(* ===== verification/IngestProps.thy ===== *)
theory IngestProps
  imports Ingest
begin

text \<open>
  What an ingest run guarantees: its report accounts for every window and every record, and as
  long as the providers raise only \<^verbatim>\<open>Exception\<close>s the loop over the windows ends and a failing window
  costs nothing but itself.
\<close>

section \<open>Accounting\<close>

text \<open>The number a window report claims to have kept.\<close>

definition persistable :: "json \<Rightarrow> int" where
  "persistable v = (case v of JObj d \<Rightarrow> (case as_int (dict_get d ''persistable'' JNull) of Some n \<Rightarrow> n | None \<Rightarrow> 0) | _ \<Rightarrow> 0)"

definition accounts :: "nat \<Rightarrow> 'w ingest \<Rightarrow> bool" where
  "accounts n s \<longleftrightarrow> sum_list (List.map persistable (in_reports s)) = int (length (in_fetched s)) \<and>
     list_all valid_record (in_fetched s) \<and>
     length (in_reports s) \<le> n \<and> n \<le> length (in_reports s) + length (in_warnings s)"

text \<open>What a window leaves of the records and reports of the windows before it.\<close>

definition extends :: "'w ingest \<Rightarrow> 'w ingest \<Rightarrow> bool" where
  "extends s s' \<longleftrightarrow> (\<exists>rs fs ws. in_reports s' = in_reports s @ rs \<and> in_fetched s' = in_fetched s @ fs \<and>
     in_warnings s' = in_warnings s @ ws)"

lemma extends_refl [simp]: "extends s s"
  by (simp add: extends_def)

lemma extends_trans: "extends s t \<Longrightarrow> extends t u \<Longrightarrow> extends s u"
  by (auto simp: extends_def)

lemma persistable_report:
  "persistable (JObj [(''window'', w), (''fetched'', f), (''persistable'', JInt n), (''invalid'', i)]) = n"
  by (simp add: persistable_def dict_get_def)

lemma window_body_account:
  assumes "ingest_window_body fr t p src rp x s = (r, s')"
  shows "extends s s' \<and> (isl r \<longrightarrow> in_reports s' = in_reports s \<and> in_fetched s' = in_fetched s \<and> in_warnings s' = in_warnings s) \<and>
    (\<not> isl r \<longrightarrow> (\<exists>(raw :: json list) mapped n. in_fetched s' = in_fetched s @ filter valid_record mapped \<and>
       in_reports s' = in_reports s @ [JObj [(''window'', x), (''fetched'', JInt (int (length raw))),
         (''persistable'', JInt (int (length (filter valid_record mapped)))), (''invalid'', JInt n)]]))"
  using assms unfolding ingest_window_body_def in_w_def
  by (auto simp: extends_def ebind_def emod_def ingest_keep_def valid_records_def split: prod.splits sum.splits) blast

lemma window_account:
  assumes "ingest_window fr t p src rp x s = Some (r, s')" "accounts n s"
  shows "extends s s' \<and> (\<not> isl r \<longrightarrow> accounts (Suc n) s')"
proof -
  from assms(1) obtain q b w where acq: "bucket_acquire t 1 (in_bucket s) (in_world s) = Some (q, b, w)"
    and run: "etry (\<lambda>x. instance_of x Exception)
         (ebind (elift q) (\<lambda>waited. ebind (emod (\<lambda>s. s\<lparr>in_waits := in_waits s + waited\<rparr>)) (\<lambda>_.
          ingest_window_body fr t p src rp x))) (ingest_failed fr x) (s\<lparr>in_bucket := b, in_world := w\<rparr>) = (r, s')"
    by (auto simp: ingest_window_def)
  let ?s = "s\<lparr>in_bucket := b, in_world := w\<rparr>"
  show ?thesis
  proof (cases q)
    case (Inl e)
    with run assms(2) show ?thesis
      by (auto simp: etry_def ebind_def elift_def ingest_failed_def emod_def accounts_def extends_def split: if_splits)
  next
    case (Inr waited)
    let ?s1 = "?s\<lparr>in_waits := in_waits ?s + waited\<rparr>"
    obtain r1 s1 where body: "ingest_window_body fr t p src rp x ?s1 = (r1, s1)" by (metis surj_pair)
    note acc = window_body_account [OF body]
    from run Inr body have "etry (\<lambda>x. instance_of x Exception) (\<lambda>_. (r1, s1)) (ingest_failed fr x) ?s1 = (r, s')"
      by (simp add: etry_def ebind_def elift_def emod_def)
    with acc assms(2) show ?thesis
      by (cases r1) (auto simp: etry_def ingest_failed_def emod_def accounts_def extends_def list_all_iff
          persistable_report split: if_splits)
  qed
qed

lemma windows_account:
  "ingest_windows fr t p src rp xs s = Some (r, s') \<Longrightarrow> accounts n s \<Longrightarrow>
     extends s s' \<and> (\<not> isl r \<longrightarrow> accounts (n + length xs) s')"
proof (induction xs arbitrary: s n)
  case (Cons x xs)
  from Cons.prems(1) obtain q s1 where w: "ingest_window fr t p src rp x s = Some (q, s1)"
    by (auto split: option.splits)
  note a = window_account [OF w Cons.prems(2)]
  show ?case
  proof (cases q)
    case (Inl e)
    with a w Cons.prems(1) show ?thesis by auto
  next
    case (Inr u)
    with w Cons.prems(1) have "ingest_windows fr t p src rp xs s1 = Some (r, s')" by simp
    with Cons.IH [of s1 "Suc n"] a Inr show ?thesis by (auto intro: extends_trans)
  qed
qed simp

section \<open>Providers that raise only exceptions\<close>

text \<open>\<open>tame c m\<close>: \<open>m\<close> raises only \<^verbatim>\<open>Exception\<close>s and never turns the clock \<open>c\<close> back.\<close>

definition tame :: "('w \<Rightarrow> rat) \<Rightarrow> ('w, 'a) eff \<Rightarrow> bool" where
  "tame c m \<longleftrightarrow> (\<forall>w r w'. m w = (r, w') \<longrightarrow> c w \<le> c w' \<and> (\<forall>x. r = Inl x \<longrightarrow> instance_of x Exception))"

lemma tameD: "tame c m \<Longrightarrow> m w = (r, w') \<Longrightarrow> c w \<le> c w' \<and> (\<forall>x. r = Inl x \<longrightarrow> instance_of x Exception)"
  by (simp add: tame_def)

lemma tame_pure: "tame c (eret v)" "tame c (eraise (Exc k m)) \<longleftrightarrow> subclass_of k Exception"
  "tame c (elift q) \<longleftrightarrow> (\<forall>x. q = Inl x \<longrightarrow> instance_of x Exception)"
  by (auto simp: tame_def eff_defs)

lemma tame_ebind: "tame c m \<Longrightarrow> (\<And>v. tame c (f v)) \<Longrightarrow> tame c (ebind m f)"
  unfolding tame_def ebind_def by (force split: prod.splits sum.splits intro: order_trans)

lemma tame_etry: "tame c m \<Longrightarrow> (\<And>x. tame c (h x)) \<Longrightarrow> tame c (etry q m h)"
  unfolding tame_def etry_def by (force split: prod.splits sum.splits if_splits intro: order_trans)

lemma delay_seconds_exception: "delay_seconds p i = Inl x \<Longrightarrow> instance_of x Exception"
  by (auto simp: delay_seconds_def float_times_int_def subclass_of_def split: if_splits sum.splits)

lemma tame_time_sleep: "(\<And>d. 0 \<le> d \<Longrightarrow> tame c (sl d)) \<Longrightarrow> tame c (time_sleep sl d)"
  by (simp add: time_sleep_def tame_pure subclass_of_def)

lemma tame_retry_loop:
  assumes "tame c fn" "\<And>d. 0 \<le> d \<Longrightarrow> tame c (sl d)"
  shows "tame c (retry_loop rp sl fn i n)"
proof (induction n arbitrary: i)
  case (Suc n)
  have "tame c (case r of Some v \<Rightarrow> eret v | None \<Rightarrow> retry_loop rp sl fn (Suc i) n)" for r
    by (cases r) (simp_all add: tame_pure Suc.IH)
  then show ?case using assms
    by (auto intro!: tame_ebind tame_etry tame_time_sleep simp: tame_pure dest: delay_seconds_exception)
qed (simp add: tame_pure subclass_of_def)

definition clock_advances :: "'w clockwork \<Rightarrow> bool" where
  "clock_advances t \<longleftrightarrow> (\<forall>d w. 0 \<le> d \<longrightarrow> monotonic t w + d \<le> monotonic t (sleep t d w))"

definition tame_providers :: "'w clockwork \<Rightarrow> 'w ingest_providers \<Rightarrow> bool" where
  "tame_providers t p \<longleftrightarrow> (\<forall>x c. tame (monotonic t) (ip_fetch p x c)) \<and> (\<forall>r c. tame (monotonic t) (ip_map p r c))"

lemma tame_fetch_once: "tame c m \<Longrightarrow> tame (\<lambda>(n, w). c w) (fetch_once m)"
  unfolding tame_def fetch_once_def by (auto split: prod.splits)

lemma tame_lift_sleep: "clock_advances t \<Longrightarrow> 0 \<le> d \<Longrightarrow> tame (\<lambda>(n, w). monotonic t w) (lift_sleep t d)"
  unfolding tame_def lift_sleep_def clock_advances_def by (auto simp: emod_def) (metis add_increasing2 order_refl order_trans)

text \<open>The throttle between two windows.\<close>

definition throttle_ok :: "'w clockwork \<Rightarrow> 'w ingest \<Rightarrow> bool" where
  "throttle_ok t s \<longleftrightarrow> bucket_wf (in_bucket s) \<and> tb_last (in_bucket s) \<le> monotonic t (in_world s)"

lemma body_tame:
  assumes "tame_providers t p" "clock_advances t" "ingest_window_body fr t p src rp x s = (r, s')"
  shows "monotonic t (in_world s) \<le> monotonic t (in_world s') \<and> in_bucket s' = in_bucket s \<and>
    (\<forall>y. r = Inl y \<longrightarrow> instance_of y Exception)"
proof -
  let ?fetch = "retry_call rp (lift_sleep t) (fetch_once (ip_fetch p x (policy src ''fetcher'')))"
  have retry: "tame (\<lambda>(n, w). monotonic t w) ?fetch"
    unfolding retry_call_def using assms(1,2)
    by (intro tame_retry_loop tame_fetch_once tame_lift_sleep) (auto simp: tame_providers_def)
  obtain q n w where q: "?fetch (0, in_world s) = (q, (n, w))" by (metis surj_pair)
  from tameD [OF retry q] have w: "monotonic t (in_world s) \<le> monotonic t w" "\<And>y. q = Inl y \<Longrightarrow> instance_of y Exception"
    by auto
  show ?thesis
  proof (cases q)
    case (Inl y)
    with q w assms(3) show ?thesis by (auto simp: ingest_window_body_def ebind_def)
  next
    case (Inr raw)
    obtain q2 w2 where m: "ip_map p raw (policy src ''mapper'') w = (q2, w2)" by (metis surj_pair)
    from assms(1) have "tame (monotonic t) (ip_map p raw (policy src ''mapper''))" by (simp add: tame_providers_def)
    from tameD [OF this m] have "monotonic t w \<le> monotonic t w2" "\<And>y. q2 = Inl y \<Longrightarrow> instance_of y Exception" by auto
    with q w Inr m assms(3) show ?thesis
      by (cases q2) (auto simp: ingest_window_body_def ebind_def emod_def in_w_def ingest_keep_def valid_records_def)
  qed
qed

lemma acquire_exception: "bucket_acquire t a b w = Some (Inl x, b', w') \<Longrightarrow>
    instance_of x Exception \<and> b' = b \<and> w' = w"
  by (auto simp: bucket_acquire_def subclass_of_def split: if_splits)

lemma window_returns:
  assumes "tame_providers t p" "clock_advances t" "throttle_ok t s"
  shows "\<exists>s'. ingest_window fr t p src rp x s = Some (Inr (), s') \<and> throttle_ok t s'"
proof -
  obtain q b w where acq: "bucket_acquire t 1 (in_bucket s) (in_world s) = Some (q, b, w)"
    and b: "bucket_wf b" "tb_last b \<le> monotonic t w" "\<And>y. q = Inl y \<Longrightarrow> instance_of y Exception"
  proof (cases "1 \<le> tb_capacity (in_bucket s)")
    case True
    have time: "\<And>d w. 0 \<le> d \<Longrightarrow> monotonic t w + d \<le> monotonic t (sleep t d w)"
      using assms(2) by (simp add: clock_advances_def)
    from assms(3) have wf: "bucket_wf (in_bucket s)" "tb_last (in_bucket s) \<le> monotonic t (in_world s)"
      by (simp_all add: throttle_ok_def)
    from acquire_lone [OF wf _ True time] that show thesis by fastforce
  next
    case False
    then have "bucket_acquire t 1 (in_bucket s) (in_world s) =
        Some (Inl (Exc ValueError ''tokens cannot exceed capacity''), in_bucket s, in_world s)"
      by (simp add: bucket_acquire_def)
    with that assms(3) show thesis by (auto simp: throttle_ok_def subclass_of_def)
  qed
  show ?thesis
  proof (cases q)
    case (Inl y)
    with acq b show ?thesis
      by (auto simp: ingest_window_def etry_def ebind_def elift_def ingest_failed_def emod_def throttle_ok_def)
  next
    case (Inr waited)
    let ?s1 = "s\<lparr>in_bucket := b, in_world := w, in_waits := in_waits s + waited\<rparr>"
    obtain r1 s1 where body: "ingest_window_body fr t p src rp x ?s1 = (r1, s1)" by (metis surj_pair)
    from body_tame [OF assms(1,2) body] b(1,2) have "throttle_ok t s1" "\<And>y. r1 = Inl y \<Longrightarrow> instance_of y Exception"
      by (auto simp: throttle_ok_def)
    with acq Inr body show ?thesis
      by (cases r1) (auto simp: ingest_window_def etry_def ebind_def elift_def ingest_failed_def emod_def throttle_ok_def)
  qed
qed

lemma windows_return:
  assumes "tame_providers t p" "clock_advances t" "throttle_ok t s"
  shows "\<exists>s'. ingest_windows fr t p src rp xs s = Some (Inr (), s')"
  using assms(3)
proof (induction xs arbitrary: s)
  case (Cons x xs)
  from window_returns [OF assms(1,2) Cons.prems] obtain s1 where
    "ingest_window fr t p src rp x s = Some (Inr (), s1)" "throttle_ok t s1" by blast
  with Cons.IH [of s1] show ?case by simp
qed simp

section \<open>Properties\<close>

lemma accounts_init: "accounts 0 (ingest_init b w)"
  by (simp add: accounts_def ingest_init_def)


text \<open>
  C34. A failing window costs only itself: when the providers raise nothing but \<^verbatim>\<open>Exception\<close>s and the
  clock runs, the loop over the windows always ends normally, with every window reported or
  warned about, whatever windows fail; so the run reaches diff, store and report.
\<close>

theorem ingest_survives_windows:
  assumes "tame_providers t p" "clock_advances t"
    and "ingest_start fr sf t p src w = (Inr (stored, windows, throttle, rp), w0)"
  shows "\<exists>s. ingest_windows fr t p src rp windows (ingest_init throttle w0) = Some (Inr (), s) \<and>
    accounts (length windows) s \<and>
    ingest_run fr sf version t p src w =
      (case ingest_finish fr version p src stored windows s of (r, s') \<Rightarrow> Some (r, in_world s'))"
proof -
  from assms(3) have b: "ingest_bucket sf (policy src ''rate_limit'') (monotonic t w0) = Inr throttle"
    unfolding ingest_start_def by (auto simp: run_Inr elim!: ebind_InrE)
  then have "throttle_ok t (ingest_init throttle w0)"
    by (auto simp: ingest_bucket_def Let_def sbind_Inr throttle_ok_def ingest_init_def dest!: make_bucket_wf)
  from windows_return [OF assms(1,2) this] obtain s where
    s: "ingest_windows fr t p src rp windows (ingest_init throttle w0) = Some (Inr (), s)" by blast
  with windows_account [OF s accounts_init] assms(3) show ?thesis
    by (auto simp: ingest_run_def split: prod.split)
qed

text \<open>
  The retry policy read from a profile without a cap waits for nothing: the missing cap counts
  as zero.
\<close>

theorem default_cap_kills_backoff:
  assumes "ingest_retry_policy fr sf (JObj d) = Inr rp" "''max_backoff_seconds'' \<notin> set (dict_keys d)"
    and "0 \<le> rp_backoff_seconds rp" "i < 1024"
  shows "delay_seconds rp i = Inr 0"
proof -
  have "dict_get d ''max_backoff_seconds'' (JFloat 0) = JFloat 0"
    using assms(2) by (simp add: dict_get_def flip: map_of_None_keys)
  with assms(1) have cap: "rp_max_backoff rp = Some 0"
    by (auto simp: ingest_retry_policy_def Let_def as_policy_def sbind_Inr py_float_def)
  with delay_seconds_capped [OF assms(4,3)] show ?thesis by fastforce
qed

section \<open>A small run\<close>

text \<open>
  Three windows, the second of which always fails. The world is a clock and the store.
\<close>

type_synonym demo_world = "rat \<times> json list"

definition demo_time :: "demo_world clockwork" where
  "demo_time = \<lparr>monotonic = fst, sleep = (\<lambda>d w. (fst w + d, snd w))\<rparr>"

definition demo_record :: "json \<Rightarrow> json" where
  "demo_record x = JObj [(''id'', x)]"

definition demo_providers :: "demo_world ingest_providers" where
  "demo_providers = \<lparr>
     ip_enumerate = (\<lambda>c. eret [JInt 1, JInt 2, JInt 3]),
     ip_fetch = (\<lambda>x c. if x = JInt 2 then eraise (Exc TransportError ''down'') else eret [demo_record x, JNull]),
     ip_map = (\<lambda>raw c. eret raw),
     ip_diff = (\<lambda>f s c. eret []),
     ip_assess = (\<lambda>f x c. eret [(''count'', JInt (int (length f)))]),
     st_load = eget snd,
     st_save = (\<lambda>rs. emod (\<lambda>w. (fst w, snd w @ rs))),
     st_upsert = None,
     st_replace_all = (\<lambda>rs. emod (\<lambda>w. (fst w, rs)))\<rparr>"

definition demo_source :: ingest_source where
  "demo_source = \<lparr>is_name = JStr ''demo'', is_policies = [(''rate_limit'', JObj [(''rate'', JInt 1), (''capacity'', JInt 1)]),
     (''retry'', JObj [(''retries'', JInt 1)])], is_layers = [''raw''], is_digest = JStr ''''\<rparr>"

lemma demo_ingest:
  "map_option (\<lambda>(r, w). (map_sum id (\<lambda>rep. (ir_status rep, ir_records_fetched rep, ir_rate_limit_waits rep)) r, w))
     (ingest_run (\<lambda>_. []) (\<lambda>_. None) ''1'' demo_time demo_providers demo_source (0, [])) =
   Some (Inr (JStr ''partial'', JInt 2, JFloat 2), (2, [demo_record (JInt 1), demo_record (JInt 3)]))"
  by code_simp


lemma demo_tame: "tame_providers demo_time demo_providers" "clock_advances demo_time"
  by (auto simp: tame_providers_def demo_providers_def tame_pure subclass_of_def clock_advances_def demo_time_def)

theorem ingest_survives_windows_witness:
  "\<exists>s rp b. ingest_windows (\<lambda>_. []) demo_time demo_providers demo_source rp [JInt 1, JInt 2, JInt 3]
      (ingest_init b (0, [])) = Some (Inr (), s) \<and> accounts 3 s"
proof -
  obtain stored windows throttle rp w0 where
    st: "ingest_start (\<lambda>_. []) (\<lambda>_. None) demo_time demo_providers demo_source (0, []) = (Inr (stored, windows, throttle, rp), w0)"
    and "windows = [JInt 1, JInt 2, JInt 3]" "w0 = (0, [])"
    by (simp add: ingest_start_def demo_providers_def demo_time_def demo_source_def eff_defs ingest_bucket_def
        ingest_retry_policy_def policy_def as_policy_def dict_get_def py_float_def make_bucket_def first_given_def)
  with ingest_survives_windows [OF demo_tame st] show ?thesis
    by (auto simp: numeral_3_eq_3 simp del: ingest_windows.simps) blast
qed

end
