(* ===== verification/Runtime.thy ===== *)
theory Runtime
  imports Profiles Builtins IngestProps
begin

text \<open>
  \<^verbatim>\<open>run_ingest\<close> of \<^verbatim>\<open>runtime.py\<close> from its arguments on: the registry it falls back to, loading and
  validating the profile, the lookup of the providers a profile names, the store it opens, and
  then the run of \<open>Ingest\<close>. A provider is called with values and answers with one; the values of the
  types \<^verbatim>\<open>protocols.py\<close> declares (lists of windows and records, dictionaries) are passed on, and a
  value of another type ends the call with \<^verbatim>\<open>TypeError\<close>. Layers are strings, as their declaration says.
\<close>

section \<open>The surroundings of a run\<close>

text \<open>
  The functions of Python's library that a run uses: \<^verbatim>\<open>str\<close> and \<^verbatim>\<open>float\<close> between floats and text,
  \<^verbatim>\<open>date.fromisoformat\<close> and \<^verbatim>\<open>isoformat\<close>, \<^verbatim>\<open>json.loads\<close>, \<^verbatim>\<open>json.dumps\<close> with sorted keys, the hexadecimal
  SHA-256 of an encoded text, and \<^verbatim>\<open>yaml.safe_load\<close> where the extra is installed. Then the files and
  the version of the package.
\<close>

record pyenv =
  pe_fr :: "rat \<Rightarrow> string"
  pe_sf :: "string \<Rightarrow> rat option"
  pe_of_iso :: "string \<Rightarrow> exc + date"
  pe_iso_of :: "date \<Rightarrow> string"
  pe_loads :: "string \<Rightarrow> exc + json"
  pe_dumps :: "json \<Rightarrow> string"
  pe_sha256 :: "string \<Rightarrow> string"
  pe_yaml :: "(string \<Rightarrow> exc + json) option"
  pe_files :: "path \<Rightarrow> fs_node"
  pe_version :: string

definition profile_digest :: "pyenv \<Rightarrow> source_profile \<Rightarrow> string" where
  "profile_digest env p = take 16 (pe_sha256 env (pe_dumps env (digest_payload p)))"

section \<open>Arguments\<close>

datatype source_arg = SourcePath path | ProfileArg source_profile

text \<open>\<^verbatim>\<open>registry or builtin_registry()\<close>: a registry has a length, so an empty one is false.\<close>

definition effective_registry ::
  "pyenv \<Rightarrow> 'c kit_world provider provider_registry option \<Rightarrow> 'c kit_world provider provider_registry" where
  "effective_registry env registry = (case registry of
     None \<Rightarrow> builtin_registry (pe_fr env) (pe_of_iso env) (pe_iso_of env)
   | Some r \<Rightarrow> if provider_len r \<noteq> 0 then r else builtin_registry (pe_fr env) (pe_of_iso env) (pe_iso_of env))"

definition given_profile :: "pyenv \<Rightarrow> source_arg \<Rightarrow> exc + source_profile" where
  "given_profile env source = (case source of
     ProfileArg p \<Rightarrow> Inr p
   | SourcePath s \<Rightarrow> load_profile (pe_fr env) (pe_loads env) (pe_yaml env) (pe_files env) s)"

text \<open>\<^verbatim>\<open>registry[providers[category]]\<close>\<close>

definition named_provider ::
  "'f provider_registry \<Rightarrow> source_profile \<Rightarrow> string \<Rightarrow> exc + 'f" where
  "named_provider r p category =
     sbind (dict_item (pf_providers p) category) (\<lambda>v. case as_str v of
       Some name \<Rightarrow> provider_get r name
     | None \<Rightarrow> Inl (Exc RegistryError ''unknown provider''))"

section \<open>Calling a provider\<close>

definition call_provider :: "'w provider \<Rightarrow> json list \<Rightarrow> ('w, json) eff" where
  "call_provider p args = (case p of
     Callable f \<Rightarrow> f args
   | Factory _ \<Rightarrow> eraise (Exc TypeError ''wrong number of positional arguments''))"

definition as_list :: "json \<Rightarrow> exc + json list" where
  "as_list v = (case v of JList xs \<Rightarrow> Inr xs | _ \<Rightarrow> Inl (Exc TypeError ''expected a list''))"

definition as_dict :: "json \<Rightarrow> exc + (string, json) dict" where
  "as_dict v = (case v of JObj d \<Rightarrow> Inr d | _ \<Rightarrow> Inl (Exc TypeError ''expected a dictionary''))"

definition list_call :: "'w provider \<Rightarrow> json list \<Rightarrow> ('w, json list) eff" where
  "list_call p args = ebind (call_provider p args) (\<lambda>v. elift (as_list v))"

definition dict_call :: "'w provider \<Rightarrow> json list \<Rightarrow> ('w, (string, json) dict) eff" where
  "dict_call p args = ebind (call_provider p args) (\<lambda>v. elift (as_dict v))"

text \<open>\<^verbatim>\<open>store_factory()\<close>; what a plain callable returns is no store and fails at \<^verbatim>\<open>load\<close>.\<close>

definition open_store :: "'w provider \<Rightarrow> ('w, 'w store) eff" where
  "open_store p = (case p of
     Factory create \<Rightarrow> create
   | Callable f \<Rightarrow> ebind (f []) (\<lambda>_. eraise (Exc AttributeError ''object has no attribute load'')))"

definition discard :: "('w, json) eff \<Rightarrow> ('w, unit) eff" where
  "discard m = ebind m (\<lambda>_. eret ())"

text \<open>The named providers and the opened store, as the run uses them.\<close>

definition bound_providers ::
  "'w provider \<Rightarrow> 'w provider \<Rightarrow> 'w provider \<Rightarrow> 'w provider \<Rightarrow> 'w provider \<Rightarrow> 'w store \<Rightarrow> 'w ingest_providers" where
  "bound_providers enumerator fetcher mapper differ assessor store = \<lparr>
     ip_enumerate = (\<lambda>c. list_call enumerator [c]),
     ip_fetch = (\<lambda>x c. list_call fetcher [x, c]),
     ip_map = (\<lambda>raw c. list_call mapper [JList raw, c]),
     ip_diff = (\<lambda>f s c. dict_call differ [JList f, JList s, c]),
     ip_assess = (\<lambda>f x c. dict_call assessor [JList f, x, c]),
     st_load = sto_load store, st_save = sto_save store,
     st_upsert = map_option (\<lambda>upsert rs. discard (upsert rs)) (sto_upsert store),
     st_replace_all = (\<lambda>rs. discard (sto_replace_all store rs))\<rparr>"

definition ingest_source_of :: "pyenv \<Rightarrow> source_profile \<Rightarrow> ingest_source" where
  "ingest_source_of env p = \<lparr>is_name = JStr (pf_name p), is_policies = pf_policies p,
     is_layers = List.map (py_str (pe_fr env)) (pf_layers p), is_digest = JStr (profile_digest env p)\<rparr>"

section \<open>run\_ingest\<close>

text \<open>Everything before the store is opened: a failure here has touched nothing.\<close>

definition ingest_setup ::
  "pyenv \<Rightarrow> source_arg \<Rightarrow> 'c kit_world provider provider_registry option \<Rightarrow>
   exc + source_profile \<times> ('c kit_world store \<Rightarrow> 'c kit_world ingest_providers) \<times> 'c kit_world provider" where
  "ingest_setup env source registry =
     (let r = effective_registry env registry in
      sbind (given_profile env source) (\<lambda>p.
      sbind (validate_source p r) (\<lambda>_.
      sbind (named_provider r p ''enumerator'') (\<lambda>enumerator.
      sbind (named_provider r p ''fetcher'') (\<lambda>fetcher.
      sbind (named_provider r p ''mapper'') (\<lambda>mapper.
      sbind (named_provider r p ''diff'') (\<lambda>differ.
      sbind (named_provider r p ''assess'') (\<lambda>assessor.
      sbind (named_provider r p ''store'') (\<lambda>store_factory.
      Inr (p, bound_providers enumerator fetcher mapper differ assessor, store_factory))))))))))"

definition run_ingest ::
  "pyenv \<Rightarrow> 'c kit_world clockwork \<Rightarrow> source_arg \<Rightarrow> 'c kit_world provider provider_registry option \<Rightarrow>
   'c kit_world \<Rightarrow> ((exc + ingest_report) \<times> 'c kit_world) option" where
  "run_ingest env t source registry w =
     (case ingest_setup env source registry of
        Inl x \<Rightarrow> Some (Inl x, w)
      | Inr (p, providers, store_factory) \<Rightarrow>
          (case open_store store_factory w of
             (Inl x, w') \<Rightarrow> Some (Inl x, w')
           | (Inr store, w') \<Rightarrow>
               ingest_run (pe_fr env) (pe_sf env) (pe_version env) t (providers store) (ingest_source_of env p) w'))"


section \<open>A window that goes well\<close>

lemma retry_call_returns: "0 < rp_retries rp \<Longrightarrow> fn s = (Inr v, s') \<Longrightarrow> retry_call rp sl fn s = (Inr v, s')"
  by (cases "nat (rp_retries rp)") (auto simp: retry_call_def ebind_def etry_def eret_def)

text \<open>The clock of the process runs beside the stores.\<close>

definition kit_clock :: "'c clockwork \<Rightarrow> 'c kit_world clockwork" where
  "kit_clock c = \<lparr>monotonic = (\<lambda>w. monotonic c (kw_outer w)),
     sleep = (\<lambda>d w. w\<lparr>kw_outer := sleep c d (kw_outer w)\<rparr>)\<rparr>"

definition stores :: "'c kit_world \<Rightarrow> nat \<times> (nat \<Rightarrow> json list) \<times> (nat \<Rightarrow> (string, string) dict)" where
  "stores w = (kw_next w, kw_memory w, kw_tables w)"

lemma kit_clock_advances: "clock_advances c \<Longrightarrow> clock_advances (kit_clock c)"
  by (simp add: clock_advances_def kit_clock_def)

lemma acquire_keeps_stores:
  assumes "bucket_acquire (kit_clock c) a b w = Some (q, b', w')"
  shows "stores w' = stores w"
proof -
  have "stores (fst (snd r)) = stores w" if "iterate (bucket_turn (kit_clock c) a) (b, w, 0) = Some r" for r
    by (rule iterate_rule [OF that, where I = "\<lambda>s. stores (fst (snd s)) = stores w"])
      (auto simp: bucket_turn_def stores_def kit_clock_def split: prod.splits option.splits)
  with assms show ?thesis by (fastforce simp: bucket_acquire_def split: if_splits)
qed

text \<open>What windows that go well add to a run: \<open>raw x\<close> is what the fetcher gives for the window \<open>x\<close>.\<close>

definition good_report :: "json \<Rightarrow> json list \<Rightarrow> json" where
  "good_report x raw = JObj [(''window'', x), (''fetched'', JInt (int (length raw))),
     (''persistable'', JInt (int (length raw))), (''invalid'', JInt 0)]"

definition went_well :: "json list \<Rightarrow> (json \<Rightarrow> json list) \<Rightarrow> 'c kit_world ingest \<Rightarrow> 'c kit_world ingest \<Rightarrow> bool" where
  "went_well xs raw s s' \<longleftrightarrow> in_fetched s' = in_fetched s @ List.concat (List.map raw xs) \<and>
     in_reports s' = in_reports s @ List.map (\<lambda>x. good_report x (raw x)) xs \<and> in_warnings s' = in_warnings s \<and>
     in_retries s' = in_retries s \<and> stores (in_world s') = stores (in_world s)"

lemma window_goes_well:
  assumes c: "clock_advances c" and s: "throttle_ok (kit_clock c) s" "1 \<le> tb_capacity (in_bucket s)"
    and fetch: "ip_fetch p x (policy src ''fetcher'') = eret (raw x)"
    and mapper: "ip_map p (raw x) (policy src ''mapper'') = eret (raw x)"
    and raw: "list_all valid_record (raw x)" and rp: "0 < rp_retries rp"
  shows "\<exists>s'. ingest_window fr (kit_clock c) p src rp x s = Some (Inr (), s') \<and> went_well [x] raw s s' \<and>
    throttle_ok (kit_clock c) s' \<and> 1 \<le> tb_capacity (in_bucket s')"
proof -
  let ?t = "kit_clock c"
  from s(1) have wf: "bucket_wf (in_bucket s)" "tb_last (in_bucket s) \<le> monotonic ?t (in_world s)"
    by (simp_all add: throttle_ok_def)
  have "\<And>d w. 0 \<le> d \<Longrightarrow> monotonic ?t w + d \<le> monotonic ?t (sleep ?t d w)"
    using kit_clock_advances [OF c] by (simp add: clock_advances_def)
  from acquire_lone [OF wf _ s(2) this] obtain waited b w where
    acq: "bucket_acquire ?t 1 (in_bucket s) (in_world s) = Some (Inr waited, b, w)"
    and b: "bucket_wf b" "tb_last b = monotonic ?t w" "tb_capacity b = tb_capacity (in_bucket s)" by auto
  from acquire_keeps_stores [OF acq] have w: "stores w = stores (in_world s)" .
  have valid: "filter valid_record (raw x) = raw x" "filter (\<lambda>r. \<not> valid_record r) (raw x) = []"
    using raw by (auto simp: list_all_iff filter_empty_conv)
  have retry: "retry_call rp (lift_sleep ?t) (fetch_once (eret (raw x))) (0, w) = (Inr (raw x), (1, w))"
    by (rule retry_call_returns [OF rp]) (simp add: fetch_once_def eret_def)
  define s1 where "s1 = s\<lparr>in_bucket := b, in_world := w, in_waits := in_waits s + waited\<rparr>"
  have in_s1: "in_world s1 = w" "in_bucket s1 = b" "in_fetched s1 = in_fetched s" "in_reports s1 = in_reports s"
    "in_warnings s1 = in_warnings s" "in_retries s1 = in_retries s" by (simp_all add: s1_def)
  let ?s = "ingest_keep fr x (raw x) (raw x) s1"
  have "ingest_window_body fr ?t p src rp x s1 = (Inr (), ?s)"
    by (simp add: ingest_window_body_def fetch retry mapper in_w_def eff_defs in_s1)
      (simp flip: in_s1(1) in_s1(6))
  then have "ingest_window fr ?t p src rp x s = Some (Inr (), ?s)"
    by (simp add: ingest_window_def acq etry_def ebind_def elift_def emod_def s1_def)
  moreover have "went_well [x] raw s ?s \<and> throttle_ok ?t ?s \<and> 1 \<le> tb_capacity (in_bucket ?s)"
    using b s(2) w by (simp add: ingest_keep_def valid_records_def valid went_well_def good_report_def throttle_ok_def in_s1)
  ultimately show ?thesis by blast
qed

lemma windows_go_well:
  assumes "clock_advances c" "throttle_ok (kit_clock c) s" "1 \<le> tb_capacity (in_bucket s)" "0 < rp_retries rp"
    and "\<And>x. x \<in> set xs \<Longrightarrow> ip_fetch p x (policy src ''fetcher'') = eret (raw x) \<and>
      ip_map p (raw x) (policy src ''mapper'') = eret (raw x) \<and> list_all valid_record (raw x)"
  shows "\<exists>s'. ingest_windows fr (kit_clock c) p src rp xs s = Some (Inr (), s') \<and> went_well xs raw s s'"
  using assms(2,3,5)
proof (induction xs arbitrary: s)
  case (Cons x xs)
  have x: "ip_fetch p x (policy src ''fetcher'') = eret (raw x)"
    "ip_map p (raw x) (policy src ''mapper'') = eret (raw x)" "list_all valid_record (raw x)"
    using Cons.prems(3) [of x] by simp_all
  from window_goes_well [where raw = raw, OF assms(1) Cons.prems(1,2) x assms(4)] obtain s1 where
    w: "ingest_window fr (kit_clock c) p src rp x s = Some (Inr (), s1)" "went_well [x] raw s s1"
    and s1: "throttle_ok (kit_clock c) s1" "1 \<le> tb_capacity (in_bucket s1)" by blast
  from Cons.IH [OF s1] Cons.prems(3) obtain s' where
    "ingest_windows fr (kit_clock c) p src rp xs s1 = Some (Inr (), s')" "went_well xs raw s1 s'" by auto
  with w show ?case by (auto simp: went_well_def)
qed (simp add: went_well_def)


section \<open>The built-in chain\<close>

definition builtin_chain :: "(string, json) dict" where
  "builtin_chain = [(''enumerator'', JStr ''window.by_day''), (''fetcher'', JStr ''fetch.mock''),
     (''mapper'', JStr ''records.passthrough''), (''diff'', JStr ''diff.by_id''),
     (''assess'', JStr ''assess.passthrough''), (''store'', JStr ''store.in_memory'')]"

text \<open>A window of \<^verbatim>\<open>window.by_day\<close> and the records of \<^verbatim>\<open>fetch.mock\<close> for it.\<close>

definition day_window_value :: "pyenv \<Rightarrow> date \<Rightarrow> json" where
  "day_window_value env d = JObj [(''date'', JStr (pe_iso_of env d))]"

definition window_records :: "pyenv \<Rightarrow> json \<Rightarrow> json list" where
  "window_records env x = (case fetch_mock (pe_fr env) x JNull of Inr rs \<Rightarrow> rs | Inl _ \<Rightarrow> [])"

definition day_records :: "pyenv \<Rightarrow> date list \<Rightarrow> json list" where
  "day_records env days = List.map (\<lambda>d. mock_record (pe_iso_of env d)) days"

definition day_ids :: "pyenv \<Rightarrow> date list \<Rightarrow> string list" where
  "day_ids env days = List.map (\<lambda>d. ''rec-'' @ pe_iso_of env d @ ''-1'') days"

definition days_of :: "date \<Rightarrow> date \<Rightarrow> date list" where
  "days_of s e = List.map Date [toordinal s..toordinal e]"

lemma window_records_day: "window_records env (day_window_value env d) = [mock_record (pe_iso_of env d)]"
  by (simp add: window_records_def day_window_value_def fetch_mock_def dict_get_def)

lemma concat_window_records:
  "List.concat (List.map (window_records env) (List.map (day_window_value env) days)) = day_records env days"
  by (induction days) (simp_all add: window_records_day day_records_def)

lemma day_records_ids: "list_all with_id (day_records env days)"
  "List.map (id_of fr) (day_records env days) = day_ids env days"
  by (auto simp: day_records_def day_ids_def mock_record_def with_id_def id_of_def dict_get_def dict_keys_def list_all_iff)

lemma mock_record_valid: "valid_record (mock_record d)"
  by (simp add: mock_record_def valid_record_def dict_get_def)

lemma chain_validates:
  assumes "pf_providers p = builtin_chain"
  shows "validate_source p (builtin_registry fr of_iso iso_of) = Inr ()"
  by (simp add: validate_source_def unknown_providers_def assms builtin_chain_def provider_has_def
      builtin_registrations builtin_providers_def dict_keys_def)

lemma call_pure:
  "list_call (pure_provider f) args = elift (sbind (f args) as_list)"
  "dict_call (pure_provider f) args = elift (sbind (f args) as_dict)"
  by (auto simp: list_call_def dict_call_def call_provider_def pure_provider_def eff_defs sbind_def split: sum.split)

lemma as_map_sum: "sbind (map_sum id JList r) as_list = r" "sbind (map_sum id JObj q) as_dict = q"
  by (cases r; simp add: as_list_def) (cases q; simp add: as_dict_def)

text \<open>What the chain binds, for a store in memory.\<close>

definition chain_bound :: "pyenv \<Rightarrow> nat \<Rightarrow> 'c kit_world ingest_providers" where
  "chain_bound env a = \<lparr>
     ip_enumerate = (\<lambda>c. elift (window_by_day (pe_fr env) (pe_of_iso env) (pe_iso_of env) c)),
     ip_fetch = (\<lambda>x c. elift (fetch_mock (pe_fr env) x c)),
     ip_map = (\<lambda>raw c. eret raw),
     ip_diff = (\<lambda>f s c. elift (diff_by_id (pe_fr env) f s c)),
     ip_assess = (\<lambda>f x c. elift (assess_passthrough (pe_fr env) f x c)),
     st_load = in_memory_load a, st_save = in_memory_save a,
     st_upsert = Some (\<lambda>rs. discard (in_memory_upsert a rs)),
     st_replace_all = (\<lambda>rs. discard (in_memory_replace_all a rs))\<rparr>"

lemma elift_Inr_eret: "elift (Inr v) = eret v"
  by (simp add: fun_eq_iff eff_defs)

lemma chain_setup:
  assumes "given_profile env source = Inr p" "pf_providers p = builtin_chain"
  shows "\<exists>b f. ingest_setup env source None = Inr (p, b, f) \<and>
    open_store f = ebind in_memory_init (\<lambda>a. eret (in_memory_store a)) \<and> (\<forall>a. b (in_memory_store a) = chain_bound env a)"
proof -
  have item: "dict_item (pf_providers p) c = (case map_of builtin_chain c of None \<Rightarrow> Inl (Exc KeyError (repr_str c)) | Some v \<Rightarrow> Inr v)" for c
    by (simp add: dict_item_def assms(2))
  show ?thesis
    by (simp add: ingest_setup_def assms(1) effective_registry_def Let_def chain_validates [OF assms(2)]
        named_provider_def item builtin_chain_def builtin_get builtin_providers_def open_store_def
        bound_providers_def call_pure as_map_sum chain_bound_def in_memory_store_def records_passthrough_def
        as_list_def elift_Inr_eret)
qed


text \<open>
  The policies of a profile under which the chain can run: the dates of the enumerator, a throttle
  of at least one token, at least one attempt, identifiers under \<^verbatim>\<open>id\<close>.
\<close>

definition chain_policies :: "pyenv \<Rightarrow> source_profile \<Rightarrow> date \<Rightarrow> date \<Rightarrow> json \<Rightarrow> bool" where
  "chain_policies env p s e status \<longleftrightarrow>
     (\<exists>a b. json_get (dict_get (pf_policies p) ''enumerator'' (JObj [])) ''start'' (JStr ''2024-01-01'') = Inr a \<and>
        json_get (dict_get (pf_policies p) ''enumerator'' (JObj [])) ''end'' (JStr ''2024-01-03'') = Inr b \<and>
        pe_of_iso env (py_str (pe_fr env) a) = Inr s \<and> pe_of_iso env (py_str (pe_fr env) b) = Inr e) \<and>
     (\<forall>now. \<exists>b. ingest_bucket (pe_sf env) (dict_get (pf_policies p) ''rate_limit'' (JObj [])) now = Inr b \<and> 1 \<le> tb_capacity b) \<and>
     (\<exists>rp. ingest_retry_policy (pe_fr env) (pe_sf env) (dict_get (pf_policies p) ''retry'' (JObj [])) = Inr rp \<and> 0 < rp_retries rp) \<and>
     json_get (dict_get (pf_policies p) ''diff'' (JObj [])) ''field'' (JStr ''id'') = Inr (JStr ''id'') \<and>
     json_get (dict_get (pf_policies p) ''assess'' (JObj [])) ''status'' (JStr ''ok'') = Inr status"

lemma chain_windows:
  assumes "chain_policies env p s e status" "date_ok s" "date_ok e" "e \<noteq> date_max"
  shows "window_by_day (pe_fr env) (pe_of_iso env) (pe_iso_of env) (dict_get (pf_policies p) ''enumerator'' (JObj [])) =
    Inr (List.map (day_window_value env) (days_of s e))"
proof -
  have "split_range_into_days s e ''oldest_first'' = (days_between s e, None)"
    using days_up_yields [OF assms(2,3)] assms(4)
    by (auto simp: split_range_into_days_def parse_order_def days_between_def less_date_def less_eq_date_def)
  then show ?thesis using assms(1)
    by (auto simp: window_by_day_def chain_policies_def days_between_def days_of_def day_window_value_def one_day_def)
qed

lemma chain_fetch: "ip_fetch (chain_bound env a) (day_window_value env d) k = eret [mock_record (pe_iso_of env d)]"
  by (simp add: chain_bound_def day_window_value_def fetch_mock_def dict_get_def elift_Inr_eret)

lemma chain_loop:
  assumes c: "clock_advances c" and pol: "chain_policies env p s e status" and rp: "0 < rp_retries rp"
    and b: "bucket_wf b" "tb_last b = monotonic (kit_clock c) w" "1 \<le> tb_capacity b"
  shows "\<exists>s'. ingest_windows fr (kit_clock c) (chain_bound env a) (ingest_source_of env p) rp
      (List.map (day_window_value env) days) (ingest_init b w) = Some (Inr (), s') \<and>
    in_fetched s' = day_records env days \<and> in_warnings s' = [] \<and> in_retries s' = 0 \<and> stores (in_world s') = stores w \<and>
    in_reports s' = List.map (\<lambda>d. good_report (day_window_value env d) [mock_record (pe_iso_of env d)]) days"
proof -
  have "throttle_ok (kit_clock c) (ingest_init b w)" "1 \<le> tb_capacity (in_bucket (ingest_init b w))"
    using b by (simp_all add: throttle_ok_def ingest_init_def)
  moreover have "ip_fetch (chain_bound env a) x k = eret (window_records env x) \<and>
      ip_map (chain_bound env a) (window_records env x) m = eret (window_records env x) \<and>
      list_all valid_record (window_records env x)"
    if "x \<in> set (List.map (day_window_value env) days)" for x k m
    using that by (auto simp: chain_fetch window_records_day mock_record_valid) (simp_all add: chain_bound_def)
  ultimately obtain s' where "ingest_windows fr (kit_clock c) (chain_bound env a) (ingest_source_of env p) rp
      (List.map (day_window_value env) days) (ingest_init b w) = Some (Inr (), s')"
    "went_well (List.map (day_window_value env) days) (window_records env) (ingest_init b w) s'"
    using windows_go_well [OF c _ _ rp, of "ingest_init b w" "List.map (day_window_value env) days"
        "chain_bound env a" "ingest_source_of env p" "window_records env" fr] by blast
  then show ?thesis
    by (intro exI [of _ s']) (simp add: went_well_def concat_window_records ingest_init_def comp_def window_records_day
        day_records_def)
qed

lemma chain_diff:
  assumes "chain_policies env p s e status"
  shows "diff_by_id (pe_fr env) (day_records env days) [] (dict_get (pf_policies p) ''diff'' (JObj [])) =
    Inr [(''added'', sorted_ids (\<lambda>_. True) (day_ids env days)), (''removed'', JList []), (''unchanged'', JList [])]"
proof -
  have f: "json_get (dict_get (pf_policies p) ''diff'' (JObj [])) ''field'' (JStr ''id'') = Inr (JStr ''id'')"
    using assms by (simp add: chain_policies_def)
  from record_ids_with_id [OF f day_records_ids(1)] record_ids_with_id [OF f, of "[]"] show ?thesis
    by (simp add: diff_by_id_def day_records_ids(2) sorted_ids_def)
qed


text \<open>The report of such a run.\<close>

definition chain_report :: "pyenv \<Rightarrow> source_profile \<Rightarrow> date \<Rightarrow> date \<Rightarrow> json \<Rightarrow> rat \<Rightarrow> ingest_report" where
  "chain_report env p s e status waits = \<lparr>
      ir_source_name = JStr (pf_name p), ir_status = JStr (py_str (pe_fr env) status),
      ir_windows = JList (List.map (\<lambda>d. good_report (day_window_value env d) [mock_record (pe_iso_of env d)]) (days_of s e)),
      ir_windows_processed = JInt (toordinal e - toordinal s + 1),
      ir_records_fetched = JInt (toordinal e - toordinal s + 1),
      ir_diff = JObj [(''added'', JList (List.map JStr (sort (remdups (day_ids env (days_of s e)))))),
         (''removed'', JList []), (''unchanged'', JList [])],
      ir_completeness = ingest_completeness (List.map (py_str (pe_fr env)) (pf_layers p)) (toordinal e - toordinal s + 1),
      ir_retries_used = JInt 0, ir_rate_limit_waits = JFloat waits, ir_warnings = JList [],
      ir_source_digest = JStr (profile_digest env p), ir_kit_version = JStr (pe_version env)\<rparr>"

lemma chain_returns:
  fixes w :: "'c kit_world"
  assumes "given_profile env source = Inr p" "pf_providers p = builtin_chain"
    and "chain_policies env p s e status" "date_ok s" "date_ok e" "s \<le> e" "e \<noteq> date_max" "clock_advances c"
  shows "\<exists>waits w'. run_ingest env (kit_clock c) source None w = Some (Inr (chain_report env p s e status waits), w') \<and>
    stores w' = (Suc (kw_next w), (kw_memory w)(kw_next w := day_records env (days_of s e)), kw_tables w)"
proof -
  let ?days = "days_of s e" and ?a = "kw_next w" and ?src = "ingest_source_of env p" and ?t = "kit_clock c"
  let ?p = "chain_bound env ?a" and ?ws = "List.map (day_window_value env) (days_of s e)"
  let ?w = "w\<lparr>kw_next := Suc ?a, kw_memory := (kw_memory w)(?a := [])\<rparr>"
  have n: "int (length ?days) = toordinal e - toordinal s + 1" "?ws \<noteq> []"
    using assms(6) by (simp_all add: days_of_def less_eq_date_def)
  have src: "policy ?src k = dict_get (pf_policies p) k (JObj [])" for k
    by (simp add: policy_def ingest_source_of_def)
  obtain b rp where b: "ingest_bucket (pe_sf env) (policy ?src ''rate_limit'') (monotonic ?t ?w) = Inr b" "1 \<le> tb_capacity b"
    and rp: "ingest_retry_policy (pe_fr env) (pe_sf env) (policy ?src ''retry'') = Inr rp" "0 < rp_retries rp"
    using assms(3) unfolding chain_policies_def src by blast
  have wf: "bucket_wf b" "tb_last b = monotonic ?t ?w"
    using b(1) by (auto simp: ingest_bucket_def Let_def sbind_Inr dest: make_bucket_wf)
  have start: "ingest_start (pe_fr env) (pe_sf env) ?t ?p ?src ?w = (Inr ([], ?ws, b, rp), ?w)"
    using b(1) rp(1) chain_windows [OF assms(3,4,5,7)]
    by (simp add: ingest_start_def chain_bound_def in_memory_load_def src eff_defs)
  obtain s' where loop: "ingest_windows (pe_fr env) ?t ?p ?src rp ?ws (ingest_init b ?w) = Some (Inr (), s')"
    and s': "in_fetched s' = day_records env ?days" "in_warnings s' = []" "in_retries s' = 0" "stores (in_world s') = stores ?w"
      "in_reports s' = List.map (\<lambda>d. good_report (day_window_value env d) [mock_record (pe_iso_of env d)]) ?days"
    using chain_loop [OF assms(8,3) rp(2) wf b(2)] by blast
  have assess: "assess_passthrough (pe_fr env) (day_records env ?days) (last ?ws) (policy ?src ''assess'') =
      Inr [(''count'', JInt (int (length ?days))), (''status'', JStr (py_str (pe_fr env) status))]"
    using assms(3) by (simp add: assess_passthrough_def chain_policies_def src day_records_def)
  let ?w2 = "(in_world s')\<lparr>kw_memory := (kw_memory (in_world s'))(?a := kw_memory (in_world s') ?a @ day_records env ?days)\<rparr>"
  obtain rep where fin: "ingest_finish (pe_fr env) (pe_version env) ?p ?src [] ?ws s' = (Inr rep, s'\<lparr>in_world := ?w2\<rparr>)"
    and rep: "ingest_report_of (pe_fr env) (pe_version env) ?src ?ws (s'\<lparr>in_world := ?w2\<rparr>)
      [(''added'', sorted_ids (\<lambda>_. True) (day_ids env ?days)), (''removed'', JList []), (''unchanged'', JList [])]
      [(''count'', JInt (int (length ?days))), (''status'', JStr (py_str (pe_fr env) status))] = Inr rep"
    using chain_diff [OF assms(3), of ?days] assess n(2) s'(1)
    by (simp add: ingest_finish_def chain_bound_def src in_w_def ingest_persist_def discard_def in_memory_upsert_def
        in_memory_save_def dict_keys_def ingest_report_of_def dict_get_def eff_defs)
  from chain_setup [OF assms(1,2)] obtain bind and f :: "'c kit_world provider"
    where set: "ingest_setup env source None = Inr (p, bind, f)"
    "open_store f = ebind in_memory_init (\<lambda>a. eret (in_memory_store a))" "\<And>a. bind (in_memory_store a) = chain_bound env a"
    by blast
  have "run_ingest env ?t source None w = Some (Inr rep, ?w2)"
    by (simp add: run_ingest_def set in_memory_init_def ebind_def eret_def ingest_run_def start loop fin)
  moreover have "stores ?w2 = (Suc ?a, (kw_memory w)(?a := day_records env ?days), kw_tables w)"
    using s'(4) by (simp add: stores_def)
  moreover have "rep = chain_report env p s e status (in_waits s')"
    using rep s' n by (simp add: chain_report_def ingest_report_of_def dict_get_def ingest_source_of_def sorted_ids_def day_records_def)
  ultimately show ?thesis by blast
qed

text \<open>
  C11. The whole ingest of the built-in chain, from a source given as a profile or a folder: for policies
  that parse and a range of \<open>n\<close> days that ends before the last day of the calendar, the run returns,
  however long the throttle makes it wait; its report has one window and one record for every day
  and no warning, every record is reported as added, and the new in-memory store holds exactly the
  fetched records in the order of the days, while the stores of other runs are untouched.
\<close>

theorem ingest_chain_complete:
  fixes w :: "'c kit_world"
  assumes "given_profile env source = Inr p" "pf_providers p = builtin_chain"
    and "chain_policies env p s e status" "date_ok s" "date_ok e" "s \<le> e" "e \<noteq> date_max" "clock_advances c"
  shows "\<exists>waits w'. run_ingest env (kit_clock c) source None w = Some (Inr \<lparr>
      ir_source_name = JStr (pf_name p), ir_status = JStr (py_str (pe_fr env) status),
      ir_windows = JList (List.map (\<lambda>d. good_report (day_window_value env d) [mock_record (pe_iso_of env d)]) (days_of s e)),
      ir_windows_processed = JInt (toordinal e - toordinal s + 1),
      ir_records_fetched = JInt (toordinal e - toordinal s + 1),
      ir_diff = JObj [(''added'', JList (List.map JStr (sort (remdups (day_ids env (days_of s e)))))),
         (''removed'', JList []), (''unchanged'', JList [])],
      ir_completeness = ingest_completeness (List.map (py_str (pe_fr env)) (pf_layers p)) (toordinal e - toordinal s + 1),
      ir_retries_used = JInt 0, ir_rate_limit_waits = JFloat waits, ir_warnings = JList [],
      ir_source_digest = JStr (profile_digest env p), ir_kit_version = JStr (pe_version env)\<rparr>, w') \<and>
    stores w' = (Suc (kw_next w), (kw_memory w)(kw_next w := day_records env (days_of s e)), kw_tables w)"
  using chain_returns [OF assms] unfolding chain_report_def .

section \<open>Before anything runs\<close>

definition run_categories :: "string list" where
  "run_categories = [''enumerator'', ''fetcher'', ''mapper'', ''diff'', ''assess'', ''store'']"

definition entry_registered :: "'f provider_registry \<Rightarrow> string \<times> json \<Rightarrow> bool" where
  "entry_registered r = (\<lambda>(c, v). \<exists>n f. v = JStr n \<and> provider_get r n = Inr f)"

lemma named_provider_found:
  assumes "list_all (entry_registered r) (pf_providers p)"
  shows "(\<exists>f. named_provider r p c = Inr f) \<longleftrightarrow> c \<in> set (dict_keys (pf_providers p))"
    and "named_provider r p c = Inl x \<Longrightarrow> exc_cls x = KeyError"
proof -
  show "(\<exists>f. named_provider r p c = Inr f) \<longleftrightarrow> c \<in> set (dict_keys (pf_providers p))"
    "named_provider r p c = Inl x \<Longrightarrow> exc_cls x = KeyError"
  proof (atomize (full), cases "map_of (pf_providers p) c")
    case None
    then have "named_provider r p c = Inl (Exc KeyError (repr_str c))"
      by (simp add: named_provider_def dict_item_def del: map_of_None_keys)
    with None show "((\<exists>f. named_provider r p c = Inr f) \<longleftrightarrow> c \<in> set (dict_keys (pf_providers p))) \<and>
      (named_provider r p c = Inl x \<longrightarrow> exc_cls x = KeyError)"
      by auto
  next
    case (Some v)
    with assms obtain n f where "v = JStr n" "provider_get r n = Inr f"
      by (auto simp: list_all_iff entry_registered_def dest!: map_of_SomeD)
    moreover from Some have "c \<in> set (dict_keys (pf_providers p))"
      by (metis map_of_None_keys option.distinct(1))
    ultimately show "((\<exists>f. named_provider r p c = Inr f) \<longleftrightarrow> c \<in> set (dict_keys (pf_providers p))) \<and>
      (named_provider r p c = Inl x \<longrightarrow> exc_cls x = KeyError)"
      using Some by (simp add: named_provider_def dict_item_def)
  qed
qed

lemma setup_found:
  assumes "given_profile env source = Inr p" "validate_source p r = Inr ()" "provider_len r \<noteq> 0"
    and all: "list_all (entry_registered r) (pf_providers p)"
  shows "(\<exists>b f. ingest_setup env source (Some r) = Inr (p, b, f)) \<longleftrightarrow> set run_categories \<subseteq> set (dict_keys (pf_providers p))"
    and "ingest_setup env source (Some r) = Inl x \<Longrightarrow> exc_cls x = KeyError"
  using assms(1,2,3) named_provider_found(1) [OF all, symmetric] named_provider_found(2) [OF all]
  by (auto simp: ingest_setup_def effective_registry_def run_categories_def sbind_Inr sbind_Inl)

text \<open>
  C16. With an allowlist of its own, a run starts only when every provider the profile names is on the list
  and the profile names one for each of the six steps. Otherwise it raises, \<^verbatim>\<open>ProfileError\<close> for a name
  that is not on the list and \<^verbatim>\<open>KeyError\<close> for a step without a provider, before any provider is
  called or any store opened.
\<close>

theorem run_ingest_allowlist:
  assumes "given_profile env source = Inr p" "profile_wf p" "provider_len r \<noteq> 0"
  shows "((\<exists>b f. ingest_setup env source (Some r) = Inr (p, b, f)) \<longleftrightarrow>
      list_all (entry_registered r) (pf_providers p) \<and> set run_categories \<subseteq> set (dict_keys (pf_providers p))) \<and>
    (\<not> list_all (entry_registered r) (pf_providers p) \<longrightarrow>
      (\<exists>msg. run_ingest env t source (Some r) w = Some (Inl (profile_error msg), w))) \<and>
    (list_all (entry_registered r) (pf_providers p) \<and> \<not> set run_categories \<subseteq> set (dict_keys (pf_providers p)) \<longrightarrow>
      (\<exists>x. run_ingest env t source (Some r) w = Some (Inl x, w) \<and> exc_cls x = KeyError))"
proof (cases "list_all (entry_registered r) (pf_providers p)")
  case True
  then have "validate_source p r = Inr ()"
    using validate_iff_registered [OF assms(2), of r] by (simp add: entry_registered_def)
  note found = setup_found [OF assms(1) this assms(3) True]
  show ?thesis
  proof (cases "ingest_setup env source (Some r)")
    case (Inl x)
    with found True show ?thesis by (auto simp: run_ingest_def)
  next
    case (Inr q)
    with assms(1) obtain b f where "q = (p, b, f)"
      by (auto simp: ingest_setup_def Let_def sbind_Inr)
    with Inr found(1) True show ?thesis by auto
  qed
next
  case False
  then have "validate_source p r \<noteq> Inr ()"
    using validate_iff_registered [OF assms(2), of r] by (simp add: entry_registered_def)
  then obtain msg where "validate_source p r = Inl (profile_error msg)"
    by (auto simp: validate_source_def Let_def split: if_splits)
  with assms(1,3) have "ingest_setup env source (Some r) = Inl (profile_error msg)"
    by (simp add: ingest_setup_def effective_registry_def)
  with False show ?thesis by (auto simp: run_ingest_def)
qed

text \<open>An empty allowlist is no allowlist: the built-in providers are used instead.\<close>

lemma empty_allowlist_ignored: "run_ingest env t source (Some no_providers) w = run_ingest env t source None w"
  by (simp add: run_ingest_def ingest_setup_def effective_registry_def no_providers_def provider_len_def)

section \<open>A run of the shipped demo profile\<close>

text \<open>Dates are written as their ordinals here, and floats not at all.\<close>

definition demo_pyenv :: pyenv where
  "demo_pyenv = \<lparr>pe_fr = (\<lambda>_. []), pe_sf = (\<lambda>_. None),
     pe_of_iso = (\<lambda>s. case parse_int s of Some i \<Rightarrow> Inr (Date i) | None \<Rightarrow> Inl (Exc ValueError ''Invalid isoformat string'')),
     pe_iso_of = (\<lambda>d. int_str (toordinal d)), pe_loads = (\<lambda>_. Inr JNull), pe_dumps = (\<lambda>_. ''''),
     pe_sha256 = (\<lambda>_. ''0123456789abcdef0123''), pe_yaml = None, pe_files = (\<lambda>_. Absent), pe_version = ''0.15.0''\<rparr>"

definition demo_scraper :: source_profile where
  "demo_scraper = \<lparr>pf_name = ''demo-scraper'', pf_source_type = ''scraper'', pf_providers = builtin_chain,
     pf_policies = [(''enumerator'', JObj [(''start'', JStr (int_str 738886)), (''end'', JStr (int_str 738888))]),
       (''rate_limit'', JObj [(''rate'', JFloat 5), (''capacity'', JFloat 5)]),
       (''retry'', JObj [(''retries'', JInt 3)])],
     pf_status_vocabulary = [], pf_layers = [JStr ''records''], pf_markdown = []\<rparr>"

lemma demo_policy:
  "dict_get (pf_policies demo_scraper) ''enumerator'' (JObj []) = JObj [(''start'', JStr (int_str 738886)), (''end'', JStr (int_str 738888))]"
  "dict_get (pf_policies demo_scraper) ''rate_limit'' (JObj []) = JObj [(''rate'', JFloat 5), (''capacity'', JFloat 5)]"
  "dict_get (pf_policies demo_scraper) ''retry'' (JObj []) = JObj [(''retries'', JInt 3)]"
  "dict_get (pf_policies demo_scraper) ''diff'' (JObj []) = JObj []"
  "dict_get (pf_policies demo_scraper) ''assess'' (JObj []) = JObj []"
  by (simp_all add: demo_scraper_def dict_get_def)

lemma demo_dates: "pe_of_iso demo_pyenv (pe_iso_of demo_pyenv d) = Inr d"
  by (simp add: demo_pyenv_def parse_int_str)

lemma demo_throttle: "ingest_bucket sf (JObj [(''rate'', JFloat 5), (''capacity'', JFloat 5)]) now =
    Inr \<lparr>tb_rate = 5, tb_capacity = 5, tb_tokens = 5, tb_last = now\<rparr>"
  by (simp add: ingest_bucket_def as_policy_def dict_get_def py_float_def make_bucket_def first_given_def)

lemma demo_retry: "\<exists>rp. ingest_retry_policy fr sf (JObj [(''retries'', JInt 3)]) = Inr rp \<and> 0 < rp_retries rp"
  by (simp add: ingest_retry_policy_def as_policy_def dict_get_def py_float_def)

lemma demo_policies: "chain_policies demo_pyenv demo_scraper (Date 738886) (Date 738888) (JStr ''ok'')"
  unfolding chain_policies_def demo_policy demo_throttle
  using demo_dates [of "Date 738886"] demo_dates [of "Date 738888"]
  by (intro conjI demo_retry) (simp_all add: dict_get_def demo_pyenv_def)

theorem ingest_chain_complete_witness:
  "\<exists>rep w'. run_ingest demo_pyenv (kit_clock plain_time) (ProfileArg demo_scraper) None demo_shop =
      Some (Inr rep, w') \<and> ir_records_fetched rep = JInt 3 \<and> ir_status rep = JStr ''ok''"
proof -
  have ok: "given_profile demo_pyenv (ProfileArg demo_scraper) = Inr demo_scraper" "pf_providers demo_scraper = builtin_chain"
    by (simp_all add: given_profile_def demo_scraper_def)
  have days: "date_ok (Date 738886)" "date_ok (Date 738888)" "Date 738886 \<le> Date 738888" "Date 738888 \<noteq> date_max"
    by (simp_all add: date_ok_def date_min_def date_max_def)
  have c: "clock_advances plain_time" by (simp add: clock_advances_def plain_time_def)
  show ?thesis
    using ingest_chain_complete [OF ok demo_policies days c, of "demo_shop"] by auto
qed

theorem run_ingest_allowlist_witness:
  "\<exists>msg. run_ingest demo_pyenv (kit_clock plain_time) (ProfileArg demo_scraper)
     (Some \<lparr>by_name = [(''fetch.mock'', Callable (\<lambda>_. eret JNull))], by_category = []\<rparr>) demo_shop =
     Some (Inl (profile_error msg), demo_shop)"
proof -
  let ?r = "\<lparr>by_name = [(''fetch.mock'', Callable (\<lambda>_. eret JNull))], by_category = []\<rparr> :: rat kit_world provider provider_registry"
  have "given_profile demo_pyenv (ProfileArg demo_scraper) = Inr demo_scraper"
    by (simp add: given_profile_def)
  moreover have "profile_wf demo_scraper"
    by (simp add: profile_wf_def demo_scraper_def builtin_chain_def provider_entry_ok_def py_isspace_def char_code_def)
  moreover have "provider_len ?r \<noteq> 0" by (simp add: provider_len_def)
  moreover have "\<not> list_all (entry_registered ?r) (pf_providers demo_scraper)"
    by (simp add: demo_scraper_def builtin_chain_def entry_registered_def provider_get_def)
  ultimately show ?thesis using run_ingest_allowlist [of demo_pyenv "ProfileArg demo_scraper" demo_scraper ?r] by blast
qed


text \<open>The retry policy of the profile in the README: none of its keys is read.\<close>

lemma readme_retry_ignored:
  "ingest_retry_policy fr sf (JObj [(''attempts'', JInt 3), (''base_delay'', JFloat 0), (''max_delay'', JFloat 0)]) =
     ingest_retry_policy fr sf (JObj [])"
  "map_sum id rp_retries (ingest_retry_policy fr sf (JObj [])) = Inr 1"
  by (simp_all add: ingest_retry_policy_def as_policy_def dict_get_def py_float_def)

end
