(* ===== verification/Commands.thy ===== *)
theory Commands
  imports Runtime
begin

text \<open>
  The command line, \<^verbatim>\<open>cli.py\<close>, from the parsed arguments on, and the files reports are kept in
  (\<^verbatim>\<open>save_json\<close> and \<^verbatim>\<open>load_json\<close> of \<^verbatim>\<open>report.py\<close>). A command reads and writes files, prints lines and
  has an exit code; a run that never returns has the value \<open>None\<close>.
\<close>

section \<open>Surroundings\<close>

text \<open>
  What the commands use beside a run: \<^verbatim>\<open>json.dumps\<close> with an indentation and without, the format
  \<^verbatim>\<open>.2%\<close>, the path an argument denotes, where the package keeps its examples and the path of a
  name in there.
\<close>

record clienv = pyenv +
  ce_dumps_indent :: "json \<Rightarrow> string"
  ce_dumps :: "json \<Rightarrow> string"
  ce_percent :: "rat \<Rightarrow> string"
  ce_path :: "string \<Rightarrow> path"
  ce_examples :: path
  ce_example :: "string \<Rightarrow> path"

record 'c cli_world =
  cw_kit :: "'c kit_world"
  cw_files :: "path \<Rightarrow> fs_node"
  cw_out :: "string list"
  cw_err :: "string list"

definition say :: "string \<Rightarrow> ('c cli_world, unit) eff" where
  "say line = emod (\<lambda>w. w\<lparr>cw_out := cw_out w @ [line]\<rparr>)"

definition complain :: "string \<Rightarrow> ('c cli_world, unit) eff" where
  "complain line = emod (\<lambda>w. w\<lparr>cw_err := cw_err w @ [line]\<rparr>)"

fun say_all :: "string list \<Rightarrow> ('c cli_world, unit) eff" where
  "say_all [] = eret ()"
| "say_all (line # lines) = ebind (say line) (\<lambda>_. say_all lines)"

section \<open>Report files\<close>

text \<open>\<^verbatim>\<open>Path.write_text\<close>\<close>

definition write_text :: "path \<Rightarrow> string \<Rightarrow> ('c cli_world, unit) eff" where
  "write_text p text w = (case cw_files w p of
     Folder \<Rightarrow> (Inl (io_exc IsDir), w)
   | Refused c \<Rightarrow> (Inl (io_exc c), w)
   | _ \<Rightarrow> if cw_files w (butlast p) = Folder
       then (Inr (), w\<lparr>cw_files := (cw_files w)(p := TextFile text)\<rparr>)
       else (Inl (Exc FileNotFoundError ''No such file or directory''), w))"

definition save_json :: "clienv \<Rightarrow> ingest_report \<Rightarrow> path \<Rightarrow> ('c cli_world, unit) eff" where
  "save_json env r p = ebind (elift (report_as_dict r)) (\<lambda>d. write_text p (ce_dumps_indent env (JObj d)))"

definition load_json :: "clienv \<Rightarrow> path \<Rightarrow> ('c cli_world, ingest_report) eff" where
  "load_json env p =
     ebind (eget (\<lambda>w. file_text (cw_files w p))) (\<lambda>r.
     ebind (elift (sbind r (pe_loads env))) (\<lambda>raw. case raw of
       JObj d \<Rightarrow> elift (report_from_dict (pe_fr env) (pe_version env) d)
     | _ \<Rightarrow> eraise (Exc AttributeError ''object has no attribute get'')))"

section \<open>Commands\<close>

definition cmd_validate :: "clienv \<Rightarrow> string \<Rightarrow> ('c cli_world, int) eff" where
  "cmd_validate env source =
     ebind (eget (\<lambda>w. load_profile (pe_fr env) (pe_loads env) (pe_yaml env) (cw_files w) (ce_path env source))) (\<lambda>r.
     ebind (elift r) (\<lambda>p.
     ebind (elift (validate_source p (builtin_registry (pe_fr env) (pe_of_iso env) (pe_iso_of env) ::
       'c kit_world provider provider_registry))) (\<lambda>_.
     ebind (say ''OK'') (\<lambda>_. eret 0))))"

text \<open>A run from the command line, which may not return.\<close>

definition cli_ingest ::
  "clienv \<Rightarrow> 'c kit_world clockwork \<Rightarrow> path \<Rightarrow> 'c cli_world \<Rightarrow> ((exc + ingest_report) \<times> 'c cli_world) option" where
  "cli_ingest env t source w = map_option (\<lambda>(r, k). (r, w\<lparr>cw_kit := k\<rparr>))
     (run_ingest (pyenv.truncate env\<lparr>pe_files := cw_files w\<rparr>) t (SourcePath source) None (cw_kit w))"

definition and_then :: "((exc + 'a) \<times> 's) option \<Rightarrow> ('a \<Rightarrow> ('s, 'b) eff) \<Rightarrow> ((exc + 'b) \<times> 's) option" where
  "and_then m f = map_option (\<lambda>(r, s). case r of Inl x \<Rightarrow> (Inl x, s) | Inr a \<Rightarrow> f a s) m"

text \<open>The end of \<^verbatim>\<open>_cmd_run\<close> and \<^verbatim>\<open>_cmd_examples_run\<close>: an empty \<open>--out\<close> counts as none.\<close>

definition put_report :: "clienv \<Rightarrow> string option \<Rightarrow> ingest_report \<Rightarrow> ('c cli_world, int) eff" where
  "put_report env out report = (case out of
     Some f \<Rightarrow> if f \<noteq> [] then ebind (save_json env report (ce_path env f)) (\<lambda>_.
         ebind (say (''report written to '' @ f)) (\<lambda>_. eret 0))
       else ebind (elift (report_as_dict report)) (\<lambda>d. ebind (say (ce_dumps_indent env (JObj d))) (\<lambda>_. eret 0))
   | None \<Rightarrow> ebind (elift (report_as_dict report)) (\<lambda>d. ebind (say (ce_dumps_indent env (JObj d))) (\<lambda>_. eret 0)))"

definition cmd_run ::
  "clienv \<Rightarrow> 'c kit_world clockwork \<Rightarrow> string \<Rightarrow> string option \<Rightarrow> 'c cli_world \<Rightarrow> ((exc + int) \<times> 'c cli_world) option" where
  "cmd_run env t source out w = and_then (cli_ingest env t (ce_path env source) w) (put_report env out)"

definition cmd_examples_run ::
  "clienv \<Rightarrow> 'c kit_world clockwork \<Rightarrow> string \<Rightarrow> string option \<Rightarrow> 'c cli_world \<Rightarrow> ((exc + int) \<times> 'c cli_world) option" where
  "cmd_examples_run env t name out w =
     (let source = ce_example env name in
      if cw_files w source = Absent
      then Some (ebind (complain (''error: example '' @ CHR 0x27 # name @ CHR 0x27 # '' not found under '' @
             path_text (ce_examples env))) (\<lambda>_. eret 1) w)
      else and_then (cli_ingest env t source w) (put_report env out))"

text \<open>The lines of \<^verbatim>\<open>coverage report\<close> behind the counts.\<close>

definition coverage_lines :: "clienv \<Rightarrow> completeness_report \<Rightarrow> exc + string list" where
  "coverage_lines env c =
     sbind (completeness_ratio c) (\<lambda>ratio.
     Inr ((case ratio of None \<Rightarrow> [] | Some q \<Rightarrow> [''ratio:             '' @ ce_percent env q]) @
       List.map (\<lambda>(layer, l). ''  layer['' @ layer @ '']: '' @ int_str (lc_present l) @ ''/'' @ int_str (lc_truth l))
         (cr_layers c)))"

definition cmd_coverage_report :: "clienv \<Rightarrow> string \<Rightarrow> ('c cli_world, int) eff" where
  "cmd_coverage_report env f =
     ebind (load_json env (ce_path env f)) (\<lambda>r.
     ebind (say_all [''source: '' @ py_str (pe_fr env) (ir_source_name r),
       ''windows_processed: '' @ py_str (pe_fr env) (ir_windows_processed r),
       ''records_fetched:   '' @ py_str (pe_fr env) (ir_records_fetched r),
       ''diff:              '' @ ce_dumps env (ir_diff r)]) (\<lambda>_.
     case ir_completeness r of
       None \<Rightarrow> ebind (say ''completeness:      none'') (\<lambda>_. eret 0)
     | Some c \<Rightarrow>
         ebind (say_all [''present:           '' @ py_str (pe_fr env) (cr_present c),
           ''truth:             '' @ py_str (pe_fr env) (cr_truth c)]) (\<lambda>_.
         ebind (elift (coverage_lines env c)) (\<lambda>lines.
         ebind (say_all lines) (\<lambda>_. eret 0)))))"

definition cmd_explain :: "clienv \<Rightarrow> string \<Rightarrow> ('c cli_world, int) eff" where
  "cmd_explain env f =
     ebind (load_json env (ce_path env f)) (\<lambda>r.
     ebind (say_all [''source_name:      '' @ py_str (pe_fr env) (ir_source_name r),
       ''kit_version:      '' @ py_str (pe_fr env) (ir_kit_version r),
       ''source_digest:    '' @ py_str (pe_fr env) (ir_source_digest r),
       ''retries_used:     '' @ py_str (pe_fr env) (ir_retries_used r),
       ''rate_limit_waits: '' @ py_str (pe_fr env) (ir_rate_limit_waits r)]) (\<lambda>_.
     if truthy (ir_warnings r)
     then ebind (say ''warnings:'') (\<lambda>_.
          ebind (elift (py_list (ir_warnings r))) (\<lambda>ws.
          ebind (say_all (List.map (\<lambda>w. ''  - '' @ py_str (pe_fr env) w) ws)) (\<lambda>_. eret 0)))
     else eret 0))"

section \<open>main\<close>

datatype command =
    Validate string | Run string "string option" | CoverageReport string | Explain string
  | ExamplesRun string "string option"

fun dispatch ::
  "clienv \<Rightarrow> 'c kit_world clockwork \<Rightarrow> command \<Rightarrow> 'c cli_world \<Rightarrow> ((exc + int) \<times> 'c cli_world) option" where
  "dispatch env t (Validate source) w = Some (cmd_validate env source w)"
| "dispatch env t (Run source out) w = cmd_run env t source out w"
| "dispatch env t (CoverageReport f) w = Some (cmd_coverage_report env f w)"
| "dispatch env t (Explain f) w = Some (cmd_explain env f w)"
| "dispatch env t (ExamplesRun name out) w = cmd_examples_run env t name out w"

text \<open>Both \<^verbatim>\<open>except\<close> clauses do the same; \<^verbatim>\<open>ProfileError\<close> is a \<^verbatim>\<open>DatasourceKitError\<close>.\<close>

definition kit_failure :: "exc \<Rightarrow> ('c cli_world, int) eff" where
  "kit_failure x = ebind (complain (''error: '' @ exc_msg x)) (\<lambda>_. eret 1)"

definition main ::
  "clienv \<Rightarrow> 'c kit_world clockwork \<Rightarrow> command \<Rightarrow> 'c cli_world \<Rightarrow> ((exc + int) \<times> 'c cli_world) option" where
  "main env t cmd w = map_option (\<lambda>(r, w'). case r of
       Inl x \<Rightarrow> if instance_of x ProfileError then kit_failure x w'
         else if instance_of x DatasourceKitError then kit_failure x w' else (Inl x, w')
     | Inr code \<Rightarrow> (Inr code, w'))
     (dispatch env t cmd w)"


section \<open>Exit codes\<close>

text \<open>A computation that leaves the error output alone, and one that ends with the code 0 besides.\<close>

definition errless :: "('c cli_world, 'a) eff \<Rightarrow> bool" where
  "errless m \<longleftrightarrow> (\<forall>s. cw_err (snd (m s)) = cw_err s)"

definition succeeds :: "('c cli_world, int) eff \<Rightarrow> bool" where
  "succeeds m \<longleftrightarrow> errless m \<and> (\<forall>s c s'. m s = (Inr c, s') \<longrightarrow> c = 0)"

named_theorems errless_intros

lemma errless_pure [errless_intros]: "errless (eret v)" "errless (eraise x)" "errless (eget f)" "errless (elift r)"
  by (simp_all add: errless_def eff_defs)

lemma errless_ebind [errless_intros]: "errless m \<Longrightarrow> (\<And>a. errless (f a)) \<Longrightarrow> errless (ebind m f)"
  unfolding errless_def ebind_def by (auto split: prod.split sum.split) (metis snd_conv)+

lemma errless_say [errless_intros]: "errless (say line)"
  by (simp add: errless_def say_def eff_defs)

lemma errless_say_all [errless_intros]: "errless (say_all lines)"
  by (induction lines) (auto intro: errless_intros)

lemma errless_files [errless_intros]: "errless (write_text p s)" "errless (save_json env r p)" "errless (load_json env p)"
proof -
  show w: "errless (write_text p s)" for p s
    by (auto simp: errless_def write_text_def split: fs_node.split)
  show "errless (save_json env r p)" by (simp add: save_json_def errless_ebind errless_pure w)
  show "errless (load_json env p)"
    unfolding load_json_def
    by (intro errless_intros, split json.split) (intro conjI allI impI errless_intros)
qed

lemma succeeds_ebind [errless_intros]: "errless m \<Longrightarrow> (\<And>a. succeeds (f a)) \<Longrightarrow> succeeds (ebind m f)"
  unfolding succeeds_def using errless_ebind [of m f] by (metis ebind_InrE)

lemma succeeds_eret [errless_intros]: "succeeds (eret 0)"
  by (simp add: succeeds_def errless_pure eret_def)

lemma put_report_succeeds [errless_intros]: "succeeds (put_report env out r)"
  unfolding put_report_def by (cases out; simp only: option.case split: if_split) (intro conjI impI errless_intros)+

lemma cmd_validate_succeeds [errless_intros]: "succeeds (cmd_validate env source)"
  unfolding cmd_validate_def by (intro errless_intros)

lemma cmd_coverage_report_succeeds [errless_intros]: "succeeds (cmd_coverage_report env f)"
  unfolding cmd_coverage_report_def
  by (intro errless_intros, split option.split) (intro conjI allI impI errless_intros)

lemma cmd_explain_succeeds [errless_intros]: "succeeds (cmd_explain env f)"
  unfolding cmd_explain_def
  by (intro errless_intros, split if_split) (intro conjI impI errless_intros)

lemma succeeds_run: "succeeds m \<Longrightarrow> m w = (r, w') \<Longrightarrow> cw_err w' = cw_err w \<and> (\<forall>c. r = Inr c \<longrightarrow> c = 0)"
  by (auto simp: succeeds_def errless_def) (metis snd_conv)

lemma and_then_succeeds:
  assumes "and_then (cli_ingest env t source w) f = Some (r, w')" "\<And>a. succeeds (f a)"
  shows "cw_err w' = cw_err w \<and> (\<forall>c. r = Inr c \<longrightarrow> c = 0)"
proof -
  from assms(1) obtain q k where q: "(case q of Inl x \<Rightarrow> (Inl x, w\<lparr>cw_kit := k\<rparr>) | Inr a \<Rightarrow> f a (w\<lparr>cw_kit := k\<rparr>)) = (r, w')"
    by (auto simp: and_then_def cli_ingest_def split: prod.splits)
  then show ?thesis
  proof (cases q)
    case (Inr a)
    with q succeeds_run [OF assms(2), of a "w\<lparr>cw_kit := k\<rparr>" r w'] show ?thesis by simp
  qed auto
qed

lemma dispatch_outcome:
  assumes "dispatch env t cmd w = Some (r, w')"
  shows "(cw_err w' = cw_err w \<and> (\<forall>c. r = Inr c \<longrightarrow> c = 0)) \<or> (r = Inr 1 \<and> (\<exists>line. cw_err w' = cw_err w @ [line]))"
proof (cases cmd)
  case (ExamplesRun name out)
  show ?thesis
  proof (cases "cw_files w (ce_example env name) = Absent")
    case True
    with assms ExamplesRun show ?thesis
      by (auto simp: cmd_examples_run_def complain_def eff_defs)
  next
    case False
    with assms ExamplesRun have "and_then (cli_ingest env t (ce_example env name) w) (put_report env out) = Some (r, w')"
      by (simp add: cmd_examples_run_def)
    from and_then_succeeds [OF this put_report_succeeds] show ?thesis by blast
  qed
next
  case (Run source out)
  with assms have "and_then (cli_ingest env t (ce_path env source) w) (put_report env out) = Some (r, w')"
    by (simp add: cmd_run_def)
  from and_then_succeeds [OF this put_report_succeeds] show ?thesis by blast
next
  case (Validate source)
  with assms succeeds_run [OF cmd_validate_succeeds, of env source w r w'] show ?thesis by simp
next
  case (CoverageReport f)
  with assms succeeds_run [OF cmd_coverage_report_succeeds, of env f w r w'] show ?thesis by simp
next
  case (Explain f)
  with assms succeeds_run [OF cmd_explain_succeeds, of env f w r w'] show ?thesis by simp
qed

text \<open>
  C37. The exit code of the command line says what happened: 0 with an untouched error output, 1 with exactly
  one line on it, and no failure of the package itself ever leaves \<^verbatim>\<open>main\<close> as an exception.
\<close>

theorem main_exit_code:
  assumes "main env t cmd w = Some (r, w')"
  shows "case r of
      Inr code \<Rightarrow> code = 0 \<and> cw_err w' = cw_err w \<or> code = 1 \<and> (\<exists>line. cw_err w' = cw_err w @ [line])
    | Inl x \<Rightarrow> \<not> instance_of x DatasourceKitError"
proof -
  from assms obtain q w1 where d: "dispatch env t cmd w = Some (q, w1)"
    and m: "(case q of Inl x \<Rightarrow> if instance_of x ProfileError then kit_failure x w1
         else if instance_of x DatasourceKitError then kit_failure x w1 else (Inl x, w1)
      | Inr code \<Rightarrow> (Inr code, w1)) = (r, w')"
    by (auto simp: main_def)
  show ?thesis
  proof (cases q)
    case (Inl x)
    with dispatch_outcome [OF d] have "cw_err w1 = cw_err w" by auto
    with m Inl show ?thesis
      by (auto simp: kit_failure_def complain_def eff_defs split: if_splits)
  next
    case (Inr code)
    with m dispatch_outcome [OF d] show ?thesis by auto
  qed
qed


section \<open>Reports on disk\<close>

lemma write_text_read: "write_text p s w = (Inr u, w') \<Longrightarrow> file_text (cw_files w' p) = Inr s \<and> cw_kit w' = cw_kit w"
  by (auto simp: write_text_def split: fs_node.splits if_splits)

lemma save_then_load:
  assumes json: "\<And>v. pe_loads env (ce_dumps_indent env v) = Inr v" and save: "save_json env r p w = (Inr u, w')"
  shows "\<exists>ws xs. py_list (ir_windows r) = Inr ws \<and> py_list (ir_warnings r) = Inr xs \<and>
    load_json env p w' = (Inr (r\<lparr>ir_windows := JList ws, ir_warnings := JList xs\<rparr>), w')"
proof -
  from save obtain d where d: "report_as_dict r = Inr d" "write_text p (ce_dumps_indent env (JObj d)) w = (Inr u, w')"
    unfolding save_json_def by (auto simp: run_Inr elim!: ebind_InrE)
  from report_dict_roundtrip [OF d(1)] write_text_read [OF d(2)] json show ?thesis
    by (fastforce simp: load_json_def eff_defs)
qed

lemma run_lists: "ingest_run fr sf version t p src w = Some (Inr rep, w') \<Longrightarrow>
    \<exists>ws xs. ir_windows rep = JList ws \<and> ir_warnings rep = JList xs"
  by (auto simp: ingest_run_def ingest_finish_def ingest_report_of_def run_Inr sbind_Inr
      split: prod.splits sum.splits option.splits elim!: ebind_InrE)

lemma run_ingest_lists: "run_ingest env t source r w = Some (Inr rep, w') \<Longrightarrow>
    \<exists>ws xs. ir_windows rep = JList ws \<and> ir_warnings rep = JList xs"
  by (auto simp: run_ingest_def split: sum.splits prod.splits dest: run_lists)

lemma main_zero: "main env t cmd w = Some (Inr 0, w') \<Longrightarrow> dispatch env t cmd w = Some (Inr 0, w')"
  by (cases "dispatch env t cmd w")
    (auto simp: main_def kit_failure_def complain_def eff_defs split: sum.splits if_splits)

text \<open>
  C36. A report saved by \<^verbatim>\<open>run --out\<close> is the report of the run: when the command ends with the code 0,
  \<^verbatim>\<open>run_ingest\<close> returned a report, and the file holds the JSON text of a dictionary that reads back as
  exactly this report, whatever version of the package reads it.
\<close>

theorem run_out_saves_report:
  assumes "main env t (Run source (Some f)) w = Some (Inr 0, w')" "f \<noteq> []"
  shows "\<exists>rep d. run_ingest (pyenv.truncate env\<lparr>pe_files := cw_files w\<rparr>) t (SourcePath (ce_path env source)) None (cw_kit w) =
      Some (Inr rep, cw_kit w') \<and>
    cw_files w' = (cw_files w)(ce_path env f := TextFile (ce_dumps_indent env (JObj d))) \<and>
    (\<forall>version. report_from_dict (pe_fr env) version d = Inr rep) \<and>
    cw_out w' = cw_out w @ [''report written to '' @ f]"
proof -
  let ?run = "run_ingest (pyenv.truncate env\<lparr>pe_files := cw_files w\<rparr>) t (SourcePath (ce_path env source)) None (cw_kit w)"
  from main_zero [OF assms(1)] obtain rep k where run: "?run = Some (Inr rep, k)"
    and put: "put_report env (Some f) rep (w\<lparr>cw_kit := k\<rparr>) = (Inr 0, w')"
    by (cases ?run) (auto simp: cmd_run_def and_then_def cli_ingest_def split: sum.splits prod.splits)
  from put assms(2) obtain u s where save: "save_json env rep (ce_path env f) (w\<lparr>cw_kit := k\<rparr>) = (Inr u, s)"
    and w': "w' = s\<lparr>cw_out := cw_out s @ [''report written to '' @ f]\<rparr>"
    by (auto simp: put_report_def say_def eff_defs split: prod.splits sum.splits)
  from save obtain d where d: "report_as_dict rep = Inr d"
    "write_text (ce_path env f) (ce_dumps_indent env (JObj d)) (w\<lparr>cw_kit := k\<rparr>) = (Inr u, s)"
    unfolding save_json_def by (auto simp: run_Inr elim!: ebind_InrE)
  from d(2) have "s = w\<lparr>cw_kit := k, cw_files := (cw_files w)(ce_path env f := TextFile (ce_dumps_indent env (JObj d)))\<rparr>"
    by (auto simp: write_text_def split: fs_node.splits if_splits)
  with run w' report_dict_roundtrip [OF d(1), of "pe_fr env"] run_ingest_lists [OF run] show ?thesis
    by (intro exI [of _ rep] exI [of _ d]) auto
qed

text \<open>
  \<^verbatim>\<open>validate\<close> accepts profiles that \<^verbatim>\<open>run\<close> cannot run: one that names no provider for some step passes,
  and the run then ends with a \<^verbatim>\<open>KeyError\<close>, which \<^verbatim>\<open>main\<close> does not catch.
\<close>

lemma window_by_day_found: "\<exists>f. provider_get (builtin_registry fr of_iso iso_of) ''window.by_day'' = Inr f"
  by (simp add: builtin_get builtin_providers_def)

lemma missing_step_validates:
  fixes w :: "'c kit_world"
  assumes "pf_providers p = [(''enumerator'', JStr ''window.by_day'')]" "given_profile env source = Inr p"
  shows "validate_source p (builtin_registry fr of_iso iso_of) = Inr ()"
    and "run_ingest env t source None w = Some (Inl (Exc KeyError (repr_str ''fetcher'')), w)"
proof -
  show ok: "validate_source p (builtin_registry fr of_iso iso_of) = Inr ()" for fr of_iso iso_of
    by (simp add: validate_source_def unknown_providers_def assms(1) provider_has_def builtin_registrations
        builtin_providers_def dict_keys_def)
  let ?r = "effective_registry env None :: 'c kit_world provider provider_registry"
  have "validate_source p ?r = Inr ()"
    by (simp add: effective_registry_def validate_source_def unknown_providers_def assms(1) provider_has_def
        builtin_registrations builtin_providers_def dict_keys_def)
  moreover have "\<exists>f. provider_get ?r ''window.by_day'' = Inr f"
    by (simp add: effective_registry_def window_by_day_found)
  ultimately show "run_ingest env t source None w = Some (Inl (Exc KeyError (repr_str ''fetcher'')), w)"
    by (auto simp add: run_ingest_def ingest_setup_def Let_def assms named_provider_def dict_item_def)
qed

section \<open>The shipped profile from the command line\<close>

definition demo_document :: json where
  "demo_document = JObj [(''name'', JStr ''demo-scraper''), (''source_type'', JStr ''scraper''),
     (''providers'', JObj builtin_chain), (''policies'', JObj (pf_policies demo_scraper)),
     (''completeness_layers'', JList [JStr ''records''])]"

definition demo_cli_env :: clienv where
  "demo_cli_env = pyenv.extend (demo_pyenv\<lparr>pe_loads := (\<lambda>_. Inr demo_document)\<rparr>)
    \<lparr>ce_dumps_indent = (\<lambda>_. ''text''), ce_dumps = (\<lambda>_. []), ce_percent = (\<lambda>_. []), ce_path = (\<lambda>s. [s]), ce_examples = [],
     ce_example = (\<lambda>s. [s])\<rparr>"

definition demo_cli :: "rat cli_world" where
  "demo_cli = \<lparr>cw_kit = demo_shop, cw_files = (\<lambda>p. if p = [] then Folder else if p = [''p''] then TextFile [] else Absent),
     cw_out = [], cw_err = []\<rparr>"

lemma demo_cli_profile:
  "load_profile (pe_fr demo_pyenv) (\<lambda>_. Inr demo_document) None
     (\<lambda>p. if p = [] then Folder else if p = [''p''] then TextFile [] else Absent) [''p''] = Inr demo_scraper"
  by (simp add: load_profile_def profile_path_def is_file_def profile_document_def path_suffix_def name_suffix_def
      profile_note_def demo_document_def profile_of_def profile_string_def profile_providers_def or_else_def
      dict_get_def builtin_chain_def make_profile_def provider_entry_ok_def py_isspace_def char_code_def
      demo_scraper_def)

lemma demo_cli_given:
  "given_profile (pyenv.truncate demo_cli_env\<lparr>pe_files := cw_files demo_cli\<rparr>) (SourcePath (ce_path demo_cli_env ''p'')) =
     Inr demo_scraper"
proof -
  have "pe_yaml demo_pyenv = None" by (simp add: demo_pyenv_def)
  then show ?thesis
    using demo_cli_profile by (simp add: given_profile_def demo_cli_env_def demo_cli_def pyenv.defs)
qed


lemma demo_cli_policies:
  "chain_policies (pyenv.truncate demo_cli_env\<lparr>pe_files := cw_files demo_cli\<rparr>) demo_scraper (Date 738886) (Date 738888) (JStr ''ok'')"
  using demo_policies by (simp add: chain_policies_def demo_cli_env_def pyenv.defs)

lemma demo_cli_run: "\<exists>rep k. cli_ingest demo_cli_env (kit_clock plain_time) (ce_path demo_cli_env ''p'') demo_cli =
    Some (Inr rep, demo_cli\<lparr>cw_kit := k\<rparr>) \<and> (\<exists>d. report_as_dict rep = Inr d)"
proof -
  have days: "date_ok (Date 738886)" "date_ok (Date 738888)" "Date 738886 \<le> Date 738888" "Date 738888 \<noteq> date_max"
    by (simp_all add: date_ok_def date_min_def date_max_def)
  have c: "clock_advances plain_time" by (simp add: clock_advances_def plain_time_def)
  have "pf_providers demo_scraper = builtin_chain" by (simp add: demo_scraper_def)
  from chain_returns [OF demo_cli_given this demo_cli_policies days c, of demo_shop] show ?thesis
    by (auto simp: cli_ingest_def demo_cli_def chain_report_def report_as_dict_def ingest_completeness_def
        completeness_as_dict_def completeness_ratio_def days_of_def demo_scraper_def)
qed

lemma demo_cli_main: "\<exists>w'. main demo_cli_env (kit_clock plain_time) (Run ''p'' (Some ''out'')) demo_cli = Some (Inr 0, w')"
proof -
  from demo_cli_run obtain rep k d where "cli_ingest demo_cli_env (kit_clock plain_time) (ce_path demo_cli_env ''p'') demo_cli =
      Some (Inr rep, demo_cli\<lparr>cw_kit := k\<rparr>)" "report_as_dict rep = Inr d" by blast
  then show ?thesis
    by (simp add: main_def cmd_run_def and_then_def put_report_def save_json_def write_text_def say_def eff_defs
        demo_cli_def demo_cli_env_def pyenv.defs)
qed

theorem run_out_saves_report_witness:
  "\<exists>w' rep d. main demo_cli_env (kit_clock plain_time) (Run ''p'' (Some ''out'')) demo_cli = Some (Inr 0, w') \<and>
     cw_files w' [''out''] = TextFile ''text'' \<and> report_from_dict (pe_fr demo_cli_env) ''1'' d = Inr rep"
proof -
  obtain w' where "main demo_cli_env (kit_clock plain_time) (Run ''p'' (Some ''out'')) demo_cli = Some (Inr 0, w')"
    using demo_cli_main by blast
  with run_out_saves_report [OF this] show ?thesis
    by (auto simp: demo_cli_env_def pyenv.defs)
qed

theorem main_exit_code_witness:
  "\<exists>line w'. main demo_cli_env (kit_clock plain_time) (ExamplesRun ''x'' None) demo_cli = Some (Inr 1, w') \<and> cw_err w' = [line]"
proof -
  obtain w' where run: "main demo_cli_env (kit_clock plain_time) (ExamplesRun ''x'' None) demo_cli = Some (Inr 1, w')"
    by (simp add: main_def cmd_examples_run_def demo_cli_def demo_cli_env_def complain_def eff_defs pyenv.defs)
  moreover from main_exit_code [OF run] have "\<exists>line. cw_err w' = [line]" by (simp add: demo_cli_def)
  ultimately show ?thesis by blast
qed

end
