(* ===== verification/Manifests.thy ===== *)
theory Manifests
  imports PyValues
begin

text \<open>
  \<^verbatim>\<open>manifest.py\<close> and \<^verbatim>\<open>inventory.py\<close>: the declarative description of a source, and the inventory of
  a fleet built by importing the manifest module of each source. \<open>importer\<close> is
  \<^verbatim>\<open>importlib.import_module\<close>; a module is the values of its attributes.
\<close>

section \<open>Manifests\<close>

definition quoted :: "string \<Rightarrow> string" where
  "quoted s = CHR 0x27 # s @ [CHR 0x27]"

definition EXECUTION_AUTONOMOUS :: string where
  "EXECUTION_AUTONOMOUS = ''autonomous''"

record execution_model =
  em_model :: string
  em_step_ref :: string

definition make_execution_model :: "string \<Rightarrow> string \<Rightarrow> exc + execution_model" where
  "make_execution_model label step_ref =
     (if label = [] then Inl (Exc ValueError ''ExecutionModel.model must be a non-empty label'')
      else Inr \<lparr>em_model = label, em_step_ref = step_ref\<rparr>)"

record source_contract =
  sc_source_truth :: string
  sc_enumeration_method :: string
  sc_evidence :: "string list"
  sc_identity_strategy :: string
  sc_diff_target :: string
  sc_coverage_unit :: string
  sc_notes :: string

record manifest =
  mf_name :: string
  mf_source_type :: string
  mf_priority :: int
  mf_jurisdiction :: string
  mf_implementation_status :: string
  mf_rate_limit :: "(string, rat) dict"
  mf_contract :: "source_contract option"
  mf_execution :: "execution_model option"

definition is_autonomous :: "manifest \<Rightarrow> bool" where
  "is_autonomous m = (case mf_execution m of None \<Rightarrow> False | Some e \<Rightarrow> em_model e = EXECUTION_AUTONOMOUS)"

definition execution_label :: "manifest \<Rightarrow> string" where
  "execution_label m = (case mf_execution m of None \<Rightarrow> [] | Some e \<Rightarrow> em_model e)"

text \<open>\<^verbatim>\<open>Manifest.__post_init__\<close>\<close>

definition make_manifest :: "manifest \<Rightarrow> exc + manifest" where
  "make_manifest m =
     (if is_autonomous m \<and> mf_contract m = None
      then Inl (Exc ValueError (''Autonomous datasource '' @ quoted (mf_name m) @ '' must declare a contract''))
      else Inr m)"

section \<open>Inventory\<close>

record inventory_entry =
  ie_name :: string
  ie_manifest :: manifest
  ie_is_autonomous :: bool
  ie_has_contract :: bool
  ie_execution_model :: string
  ie_rate_limit :: "(string, rat) dict"

definition entry_from_manifest :: "string \<Rightarrow> manifest \<Rightarrow> inventory_entry" where
  "entry_from_manifest name m = \<lparr>ie_name = name, ie_manifest = m, ie_is_autonomous = is_autonomous m,
     ie_has_contract = (mf_contract m \<noteq> None), ie_execution_model = execution_label m,
     ie_rate_limit = mf_rate_limit m\<rparr>"

text \<open>The value of an attribute: a manifest, or an object of another type.\<close>

datatype module_value = IsManifest manifest | Other string

type_synonym module = "string \<Rightarrow> module_value option"

definition inventory_error :: "string \<Rightarrow> exc" where
  "inventory_error msg = Exc InventoryError msg"

definition load_manifest :: "(string \<Rightarrow> exc + module) \<Rightarrow> string \<Rightarrow> string \<Rightarrow> exc + manifest" where
  "load_manifest importer module_path attr = (case importer module_path of
     Inl x \<Rightarrow> Inl (if instance_of x ImportError
       then inventory_error (''cannot import manifest module '' @ quoted module_path @ '': '' @ exc_msg x) else x)
   | Inr m \<Rightarrow> (case m attr of
       None \<Rightarrow> Inl (inventory_error (''manifest module '' @ quoted module_path @ '' has no attribute '' @ quoted attr))
     | Some (Other t) \<Rightarrow> Inl (inventory_error (quoted (module_path @ ''.'' @ attr) @ '' is '' @ t @ '', not a Manifest''))
     | Some (IsManifest c) \<Rightarrow> Inr c))"

definition module_path_of :: "string \<Rightarrow> string \<Rightarrow> string \<Rightarrow> string" where
  "module_path_of package submodule ds =
     package @ ''.'' @ ds @ (if submodule = [] then [] else ''.'' @ submodule)"

definition fleet_inventory ::
  "(string \<Rightarrow> exc + module) \<Rightarrow> string \<Rightarrow> string list \<Rightarrow> string \<Rightarrow> string \<Rightarrow> exc + inventory_entry list" where
  "fleet_inventory importer package datasources submodule attr =
     smap (\<lambda>ds. sbind (load_manifest importer (module_path_of package submodule ds) attr) (\<lambda>m.
       Inr (entry_from_manifest ds m))) datasources"

section \<open>Properties\<close>

text \<open>
  The inventory never disagrees with what runs: it has one entry per source, in the order asked for,
  each with the flags of the very manifest its module holds, and an autonomous source in it has
  a contract when its module built the manifest through the constructor. Every failure of a
  module that raises only \<^verbatim>\<open>ImportError\<close> is an \<^verbatim>\<open>InventoryError\<close>, and no source is skipped.
\<close>

definition module_agrees ::
  "(string \<Rightarrow> exc + module) \<Rightarrow> string \<Rightarrow> string \<Rightarrow> string \<Rightarrow> string \<Rightarrow> inventory_entry \<Rightarrow> bool" where
  "module_agrees importer package submodule attr ds e \<longleftrightarrow>
     (\<exists>m c. importer (module_path_of package submodule ds) = Inr m \<and> m attr = Some (IsManifest c) \<and>
        ie_name e = ds \<and> ie_manifest e = c \<and> ie_is_autonomous e = is_autonomous c \<and>
        ie_has_contract e = (mf_contract c \<noteq> None) \<and>
        (make_manifest c = Inr c \<longrightarrow> ie_is_autonomous e \<longrightarrow> ie_has_contract e))"

lemma load_manifest_Inr:
  "load_manifest importer p attr = Inr c \<longleftrightarrow> (\<exists>m. importer p = Inr m \<and> m attr = Some (IsManifest c))"
  by (auto simp: load_manifest_def split: sum.splits option.splits module_value.splits)

lemma load_manifest_Inl:
  "load_manifest importer p attr = Inl x \<Longrightarrow>
     exc_cls x = InventoryError \<or> (importer p = Inl x \<and> \<not> instance_of x ImportError)"
  by (auto simp: load_manifest_def inventory_error_def
      split: sum.splits option.splits module_value.splits if_splits)

lemma smap_Inl: "smap f xs = Inl x \<Longrightarrow> \<exists>y \<in> set xs. f y = Inl x"
  by (induction xs) (auto simp: sbind_Inl)

theorem fleet_inventory_agrees:
  assumes "\<And>p x. importer p = Inl x \<Longrightarrow> instance_of x ImportError"
  shows "case fleet_inventory importer package datasources submodule attr of
    Inr es \<Rightarrow> list_all2 (module_agrees importer package submodule attr) datasources es
  | Inl x \<Rightarrow> exc_cls x = InventoryError \<and>
      (\<exists>ds \<in> set datasources. load_manifest importer (module_path_of package submodule ds) attr = Inl x)"
proof (cases "fleet_inventory importer package datasources submodule attr")
  case (Inl x)
  then obtain ds where "ds \<in> set datasources" "load_manifest importer (module_path_of package submodule ds) attr = Inl x"
    unfolding fleet_inventory_def by (auto dest!: smap_Inl simp: sbind_Inl)
  with Inl assms load_manifest_Inl show ?thesis by fastforce
next
  case (Inr es)
  then have "list_all2 (module_agrees importer package submodule attr) datasources es"
    unfolding fleet_inventory_def smap_Inr
    by (auto elim!: list_all2_mono simp: sbind_Inr load_manifest_Inr module_agrees_def
        entry_from_manifest_def make_manifest_def)
  with Inr show ?thesis by simp
qed

definition demo_manifest :: manifest where
  "demo_manifest = \<lparr>mf_name = ''a'', mf_source_type = ''scraper'', mf_priority = 50, mf_jurisdiction = [],
     mf_implementation_status = ''active'', mf_rate_limit = [],
     mf_contract = Some \<lparr>sc_source_truth = ''s'', sc_enumeration_method = ''e'', sc_evidence = [],
       sc_identity_strategy = ''i'', sc_diff_target = ''d'', sc_coverage_unit = ''u'', sc_notes = []\<rparr>,
     mf_execution = Some \<lparr>em_model = ''autonomous'', em_step_ref = []\<rparr>\<rparr>"

definition demo_importer :: "string \<Rightarrow> exc + module" where
  "demo_importer p = (if p = ''pkg.a.manifest'' then Inr [''MANIFEST'' \<mapsto> IsManifest demo_manifest]
     else Inl (Exc ImportError ''No module named''))"

theorem fleet_inventory_agrees_witness:
  "list_all2 (module_agrees demo_importer ''pkg'' ''manifest'' ''MANIFEST'') [''a''] [entry_from_manifest ''a'' demo_manifest]"
proof -
  have "\<And>p x. demo_importer p = Inl x \<Longrightarrow> instance_of x ImportError"
    by (auto simp: demo_importer_def split: if_splits)
  from fleet_inventory_agrees [where importer = demo_importer and package = "''pkg''" and datasources = "[''a'']"
      and submodule = "''manifest''" and attr = "''MANIFEST''", OF this]
  have "case fleet_inventory demo_importer ''pkg'' [''a''] ''manifest'' ''MANIFEST'' of
      Inr es \<Rightarrow> list_all2 (module_agrees demo_importer ''pkg'' ''manifest'' ''MANIFEST'') [''a''] es | Inl x \<Rightarrow> False"
    by (simp add: fleet_inventory_def load_manifest_def module_path_of_def demo_importer_def split: sum.splits)
  then show ?thesis
    by (simp add: fleet_inventory_def load_manifest_def module_path_of_def demo_importer_def)
qed


text \<open>
  A module that fails to import with another exception, such as the \<^verbatim>\<open>ValueError\<close> of an autonomous
  manifest without a contract, is not reported as \<^verbatim>\<open>InventoryError\<close>.
\<close>

lemma import_failure_escapes:
  "fleet_inventory (\<lambda>_. Inl (Exc ValueError m)) package (ds # dss) submodule attr = Inl (Exc ValueError m)"
  by (simp add: fleet_inventory_def load_manifest_def subclass_of_def)

end
