(* ===== verification/Adapters.thy ===== *)
theory Adapters
  imports ControlPlane
begin

text \<open>
  \<^verbatim>\<open>execution.py\<close> and \<^verbatim>\<open>adapters/\<close>: the execution boundary with its inline backend and the one
  that hands the callback to a workflow engine, and the HTTP routes over the control plane. The engine
  and the web framework are not part of the repository: the engine is a parameter, and a route is
  a computation that may raise the framework's exception.
\<close>

section \<open>Execution backends\<close>

record execution_request =
  er_run_id :: string
  er_execution_id :: string
  er_inputs :: "(string, json) dict"
  er_metadata :: "(string, json) dict"

definition inline_execute :: "execution_request \<Rightarrow> ('s, 'a) eff \<Rightarrow> ('s, 'a) eff" where
  "inline_execute rq operation = operation"

text \<open>The keyword arguments of \<^verbatim>\<open>record_in_process\<close>\<close>

record ('s, 'a) recording =
  rc_db_path :: string
  rc_run_id :: string
  rc_process_id :: string
  rc_operation :: "('s, 'a) eff"
  rc_inputs :: "(string, json) dict"
  rc_metadata :: "(string, json) dict"

text \<open>The attribute of the imported module: missing, or a callable, or another object.\<close>

datatype ('s, 'a) engine_attribute = NoAttribute | NotCallable | RecordInProcess "('s, 'a) recording \<Rightarrow> ('s, 'a) eff"

record ('s, 'a) fala_backend =
  fb_db_path :: string
  fb_record :: "('s, 'a) recording \<Rightarrow> ('s, 'a) eff"

definition execution_install_hint :: string where
  "execution_install_hint =
     ''FalaExecutionBackend requires the 'fala' extra: pip install datasource-kit[fala]''"

definition execution_capability_error :: string where
  "execution_capability_error = ''FalaExecutionBackend requires Fala 0.7.28 or newer with the public record_in_process API''"

definition make_fala_backend :: "exc + ('s, 'a) engine_attribute \<Rightarrow> string \<Rightarrow> exc + ('s, 'a) fala_backend" where
  "make_fala_backend fala db_path = (case fala of
     Inl x \<Rightarrow> Inl (if instance_of x ImportError then Exc ImportError execution_install_hint else x)
   | Inr NoAttribute \<Rightarrow> Inl (Exc RuntimeError execution_capability_error)
   | Inr NotCallable \<Rightarrow> Inl (Exc RuntimeError execution_capability_error)
   | Inr (RecordInProcess f) \<Rightarrow> Inr \<lparr>fb_db_path = db_path, fb_record = f\<rparr>)"

definition fala_execute :: "('s, 'a) fala_backend \<Rightarrow> execution_request \<Rightarrow> ('s, 'a) eff \<Rightarrow> ('s, 'a) eff" where
  "fala_execute b rq operation = fb_record b \<lparr>rc_db_path = fb_db_path b, rc_run_id = er_run_id rq,
     rc_process_id = er_execution_id rq, rc_operation = operation, rc_inputs = er_inputs rq,
     rc_metadata = er_metadata rq\<rparr>"

section \<open>Routes\<close>

definition observation_as_dict :: "unit_observation \<Rightarrow> (string, json) dict" where
  "observation_as_dict ob = [(''unit'', JStr (ob_unit ob)), (''desired'', JStr (ob_desired ob)),
     (''actual'', JStr (ob_actual ob)), (''generation'', JInt (ob_generation ob)),
     (''pid'', case ob_pid ob of None \<Rightarrow> JNull | Some p \<Rightarrow> JInt p), (''heartbeat'', JObj (ob_heartbeat ob))]"

text \<open>\<^verbatim>\<open>HTTPException(404)\<close> of the framework\<close>

definition http_not_found :: "string \<Rightarrow> exc" where
  "http_not_found u = Exc (UserError ''HTTPException'' Exception) (''unknown worker unit: '' @ repr_str u)"

definition router_guard :: "string list \<Rightarrow> (string \<Rightarrow> 'a weff) \<Rightarrow> string \<Rightarrow> 'a weff" where
  "router_guard units action u = (if u \<notin> set units then eraise (http_not_found u) else action u)"

datatype route = GetWorkers | GetWorker string | PostPause string | PostResume string | PostEnable string | PostDisable string

fun router :: "int \<Rightarrow> (rat \<Rightarrow> string) \<Rightarrow> string list \<Rightarrow> route \<Rightarrow> json weff" where
  "router schema fr units GetWorkers =
     ebind (observe_fleet schema fr units) (\<lambda>obs. eret (JList (List.map (\<lambda>ob. JObj (observation_as_dict ob)) obs)))"
| "router schema fr units (GetWorker u) =
     ebind (router_guard units (observe_unit schema fr units) u) (\<lambda>ob. eret (JObj (observation_as_dict ob)))"
| "router schema fr units (PostPause u) =
     ebind (router_guard units (cp_pause schema units) u) (\<lambda>d. eret (JObj d))"
| "router schema fr units (PostResume u) =
     ebind (router_guard units (cp_resume schema units) u) (\<lambda>d. eret (JObj d))"
| "router schema fr units (PostEnable u) =
     ebind (router_guard units (cp_enable schema units) u) (\<lambda>d. eret (JObj d))"
| "router schema fr units (PostDisable u) =
     ebind (router_guard units (cp_disable schema units) u) (\<lambda>d. eret (JObj d))"


section \<open>What the routes do\<close>

fun route_unit :: "route \<Rightarrow> string option" where
  "route_unit GetWorkers = None"
| "route_unit (GetWorker u) = Some u"
| "route_unit (PostPause u) = Some u"
| "route_unit (PostResume u) = Some u"
| "route_unit (PostEnable u) = Some u"
| "route_unit (PostDisable u) = Some u"

fun reads_only :: "route \<Rightarrow> bool" where
  "reads_only GetWorkers = True"
| "reads_only (GetWorker u) = True"
| "reads_only _ = False"

text \<open>Nothing of the fleet has changed but the desired states of the units in \<open>us\<close>.\<close>

definition processes_kept :: "string set \<Rightarrow> world \<Rightarrow> world \<Rightarrow> bool" where
  "processes_kept us w0 w \<longleftrightarrow> launches w = launches w0 \<and> signals w = signals w0 \<and> handles w = handles w0 \<and>
     probes w = probes w0 \<and> lock_entry w = lock_entry w0 \<and>
     (\<forall>u. pid_entry (unit_dirs w u) = pid_entry (unit_dirs w0 u)) \<and>
     (\<forall>u. u \<notin> us \<longrightarrow> unit_dirs w u = unit_dirs w0 u)"

lemma processes_kept_refl [simp]: "processes_kept us w w"
  by (simp add: processes_kept_def)

lemma keeps_desired: "keeps (processes_kept {u} w0) (set_desired schema u d)"
proof -
  have "keeps (processes_kept {u} w0) (save_state u st)" for st
    unfolding save_state_def write_state_def
    by (auto simp: keeps_def processes_kept_def write_doc_def durable_step_def put_dir_def Let_def
        split: outcome.splits list.splits sum.splits)
  then show ?thesis
    unfolding set_desired_def Let_def by (intro keeps_if keeps_ebind keeps_pure keeps_load)
qed

lemma router_undeclared:
  "route_unit rt = Some u \<Longrightarrow> u \<notin> set units \<Longrightarrow> router schema fr units rt w = (Inl (http_not_found u), w)"
  by (cases rt) (auto simp: router_guard_def ebind_def eraise_def)

lemma router_declared:
  "u \<in> set units \<Longrightarrow> router schema fr units (GetWorker u) =
     ebind (observe_unit schema fr units u) (\<lambda>ob. eret (JObj (observation_as_dict ob)))"
  "u \<in> set units \<Longrightarrow> router schema fr units (PostPause u) = ebind (cp_pause schema units u) (\<lambda>d. eret (JObj d))"
  by (simp_all add: router_guard_def)

lemma keeps_guard: "(\<And>u. keeps I (action u)) \<Longrightarrow> keeps I (router_guard units action u)"
  by (simp add: router_guard_def keeps_pure)

lemma keeps_reads: "reads_only rt \<Longrightarrow> keeps I (router schema fr units rt)"
  by (cases rt) (auto simp: observe_fleet_def intro!: keeps_ebind keeps_emap keeps_guard keeps_observe_unit keeps_pure)

lemma keeps_writes:
  assumes "route_unit rt = Some u" "\<not> reads_only rt"
  shows "keeps (processes_kept {u} w0) (router schema fr units rt)"
proof -
  have "keeps (processes_kept {u} w0) (control_desired schema units d u)" for d
    unfolding control_desired_def require_unit_def by (intro keeps_ebind keeps_if keeps_pure keeps_desired)
  with assms show ?thesis
    by (cases rt) (auto simp: router_guard_def cp_pause_def cp_resume_def cp_enable_def cp_disable_def
        intro!: keeps_ebind keeps_pure)
qed




end
