(* ===== verification/Journal.thy ===== *)
theory Journal
  imports PyValues
begin

text \<open>
  \<^verbatim>\<open>journal.py\<close>: the \<^verbatim>\<open>update_log\<close> table of a batch updater. A database is its table, if it has
  been created, with the counter that \<^verbatim>\<open>AUTOINCREMENT\<close> keeps, and what of both is committed;
  another connection may hold the write lock. \<open>dumps\<close> is \<^verbatim>\<open>json.dumps\<close> without escapes, the clock
  gives \<^verbatim>\<open>now_utc()\<close>.
\<close>

record update_row =
  ur_id :: int
  ur_dataset :: string
  ur_last_update :: string
  ur_records_loaded :: int
  ur_status :: string
  ur_details :: string

record update_log =
  ul_rows :: "update_row list"
  ul_sequence :: int

text \<open>
  A statement or a commit may fail; a failed one changes nothing. An \<^verbatim>\<open>INSERT\<close> opens a transaction,
  and a \<^verbatim>\<open>CREATE\<close> outside of one is committed at once.
\<close>

record journal =
  jn_log :: "update_log option"
  jn_committed :: "update_log option"
  jn_open :: bool
  jn_failures :: "bool list"
  jn_now :: string

definition sql_error :: exc where
  "sql_error = Exc (UserError ''OperationalError'' Exception) ''database is locked''"

definition sql :: "(journal \<Rightarrow> journal) \<Rightarrow> (journal, unit) eff" where
  "sql f j = (let j1 = j\<lparr>jn_failures := tl (jn_failures j)\<rparr> in
     if jn_failures j \<noteq> [] \<and> hd (jn_failures j) then (Inl sql_error, j1) else (Inr (), f j1))"

definition commit :: "(journal, unit) eff" where
  "commit = sql (\<lambda>j. j\<lparr>jn_committed := jn_log j, jn_open := False\<rparr>)"

definition autocommit :: "journal \<Rightarrow> journal" where
  "autocommit j = (if jn_open j then j else j\<lparr>jn_committed := jn_log j\<rparr>)"

definition now_utc :: "(journal, string) eff" where
  "now_utc = eget jn_now"

text \<open>The table and its index, if they are missing.\<close>

definition created :: "journal \<Rightarrow> journal" where
  "created j = (case jn_log j of None \<Rightarrow> j\<lparr>jn_log := Some \<lparr>ul_rows = [], ul_sequence = 0\<rparr>\<rparr> | Some _ \<Rightarrow> j)"

definition ensure_update_log :: "(journal, unit) eff" where
  "ensure_update_log =
     ebind (sql (\<lambda>j. autocommit (created j))) (\<lambda>_.
     ebind (sql autocommit) (\<lambda>_. commit))"

definition insert_row :: "string \<Rightarrow> string \<Rightarrow> int \<Rightarrow> string \<Rightarrow> string \<Rightarrow> update_log \<Rightarrow> update_log" where
  "insert_row dataset now n status details l = \<lparr>ul_rows = ul_rows l @
      [\<lparr>ur_id = ul_sequence l + 1, ur_dataset = dataset, ur_last_update = now, ur_records_loaded = n,
        ur_status = status, ur_details = details\<rparr>], ul_sequence = ul_sequence l + 1\<rparr>"

definition record_update ::
  "(json \<Rightarrow> string) \<Rightarrow> string \<Rightarrow> json \<Rightarrow> string \<Rightarrow> (string, json) dict option \<Rightarrow> (journal, unit) eff" where
  "record_update dumps dataset records_loaded status details =
     ebind ensure_update_log (\<lambda>_.
     ebind now_utc (\<lambda>now.
     ebind (elift (py_int records_loaded)) (\<lambda>n.
     ebind (sql (\<lambda>j. j\<lparr>jn_open := True, jn_log := map_option
         (insert_row dataset now n status (dumps (JObj (case details of None \<Rightarrow> [] | Some d \<Rightarrow> d)))) (jn_log j)\<rparr>)) (\<lambda>_.
     commit))))"

section \<open>An append-only log\<close>

definition rows :: "update_log option \<Rightarrow> update_row list" where
  "rows l = (case l of None \<Rightarrow> [] | Some t \<Rightarrow> ul_rows t)"

text \<open>Identifiers increase, and the counter is never behind them.\<close>

definition log_wf :: "update_log \<Rightarrow> bool" where
  "log_wf l \<longleftrightarrow> sorted_wrt (<) (List.map ur_id (ul_rows l)) \<and> (\<forall>r \<in> set (ul_rows l). ur_id r \<le> ul_sequence l)"

lemma insert_row_wf: "log_wf l \<Longrightarrow> log_wf (insert_row d now n st details l)"
  by (auto simp: log_wf_def insert_row_def sorted_wrt_append)

definition journal_wf :: "journal \<Rightarrow> bool" where
  "journal_wf j \<longleftrightarrow> (\<forall>l. jn_log j = Some l \<longrightarrow> log_wf l) \<and> (\<not> jn_open j \<longrightarrow> jn_committed j = jn_log j)"

lemma keeps_sql: "(\<And>j. I j \<Longrightarrow> I (f j)) \<Longrightarrow> (\<And>j fs. I (j\<lparr>jn_failures := fs\<rparr>) = I j) \<Longrightarrow> keeps I (sql f)"
  by (auto simp: keeps_def sql_def Let_def)

lemma keeps_wf: "keeps journal_wf (record_update dumps dataset n status details)"
  unfolding record_update_def ensure_update_log_def commit_def now_utc_def
  by (intro keeps_ebind keeps_pure keeps_sql)
    (auto simp: journal_wf_def autocommit_def created_def log_wf_def insert_row_wf [unfolded log_wf_def] split: option.splits)

lemma sql_Inr: "sql f j = (Inr u, j') \<longleftrightarrow> j' = f (j\<lparr>jn_failures := tl (jn_failures j)\<rparr>) \<and> \<not> (jn_failures j \<noteq> [] \<and> hd (jn_failures j))"
  by (auto simp: sql_def Let_def)

text \<open>
  \<^verbatim>\<open>record_update\<close> that returns has committed exactly one new row, behind every row of the log, with an
  identifier larger than all of them; the table is created when it was missing.
\<close>

theorem record_update_appends:
  assumes "journal_wf j" "record_update dumps dataset v status details j = (Inr u, j')"
  shows "\<exists>n r. py_int v = Inr n \<and> rows (jn_committed j') = rows (jn_log j) @ [r] \<and>
    ur_dataset r = dataset \<and> ur_records_loaded r = n \<and> ur_status r = status \<and>
    ur_last_update r = jn_now j \<and> (\<forall>q \<in> set (rows (jn_log j)). ur_id q < ur_id r) \<and> \<not> jn_open j' \<and> journal_wf j'"
proof -
  from assms(2) obtain n j1 where n: "py_int v = Inr n"
    and e: "ensure_update_log j = (Inr (), j1)"
    and j': "jn_committed j' = map_option (insert_row dataset (jn_now j1) n status
         (dumps (JObj (case details of None \<Rightarrow> [] | Some d \<Rightarrow> d)))) (jn_log j1)" "\<not> jn_open j'"
    unfolding record_update_def commit_def now_utc_def by (auto simp: run_Inr sql_Inr elim!: ebind_InrE)
  from e obtain l where l: "jn_log j1 = Some l" "ul_rows l = rows (jn_log j)" "jn_now j1 = jn_now j"
    "jn_log j = None \<or> jn_log j = Some l"
    unfolding ensure_update_log_def commit_def
    by (auto simp: run_Inr sql_Inr autocommit_def created_def rows_def elim!: ebind_InrE split: option.splits if_splits)
  from assms(1) l(2,4) have "\<forall>q \<in> set (rows (jn_log j)). ur_id q \<le> ul_sequence l"
    by (auto simp: journal_wf_def log_wf_def rows_def)
  then have "\<forall>q \<in> set (rows (jn_log j)). ur_id q < ul_sequence l + 1" by auto
  with n j' l keeps_run [OF keeps_wf assms(2) assms(1)] show ?thesis
    by (simp add: rows_def insert_row_def)
qed

definition demo_journal :: journal where
  "demo_journal = \<lparr>jn_log = None, jn_committed = None, jn_open = False, jn_failures = [], jn_now = ''now''\<rparr>"

theorem record_update_appends_witness:
  "\<exists>j r. record_update (\<lambda>_. []) ''d'' (JInt 3) ''ok'' None demo_journal = (Inr (), j) \<and> rows (jn_committed j) = [r] \<and>
     ur_records_loaded r = 3"
proof -
  have wf: "journal_wf demo_journal" by (simp add: journal_wf_def demo_journal_def)
  have "fst (record_update (\<lambda>_. []) ''d'' (JInt 3) ''ok'' None demo_journal) = Inr ()" by code_simp
  then obtain j where run: "record_update (\<lambda>_. []) ''d'' (JInt 3) ''ok'' None demo_journal = (Inr (), j)"
    by (metis prod.collapse)
  from record_update_appends [OF wf run] run show ?thesis by (auto simp: demo_journal_def rows_def)
qed

text \<open>
  A commit that fails leaves the row in an open transaction: the next update commits both.
\<close>

lemma failed_commit_lingers:
  "let (r, j) = record_update (\<lambda>_. []) ''d'' (JInt 3) ''ok'' None (demo_journal\<lparr>jn_failures := [False, False, False, False, True]\<rparr>);
       (q, k) = record_update (\<lambda>_. []) ''d'' (JInt 3) ''ok'' None j
   in isl r \<and> \<not> isl q \<and> List.map ur_id (rows (jn_committed k)) = [1, 2]"
  by code_simp

end
