(* ===== verification/PosixTree.thy ===== *)
theory PosixTree
  imports FleetWorld
begin

text \<open>
  A POSIX file system as far as the clearance of legacy tombstones in \<^verbatim>\<open>fleet/process.py\<close> uses it:
  inodes with owner, mode and link count, directories, descriptors that name an inode, and
  advisory locks. A descriptor is the number of its inode. Every system call may fail, and
  \<open>past\<close> keeps every tree the run went through. File contents are an abstract type \<open>'b\<close>; devices,
  FIFOs and what a symbolic link points to are not modelled, a link is only refused.
\<close>

unbundle bit_operations_syntax

section \<open>Inodes and directories\<close>

datatype kind = Regular | Directory | Symlink

record 'b inode =
  in_kind :: kind
  in_uid :: nat
  in_mode :: nat
  in_nlink :: nat
  in_bytes :: 'b

record 'b tree =
  inodes :: "nat \<Rightarrow> 'b inode"
  names :: "nat \<Rightarrow> (string, nat) dict"
  names_synced :: "nat \<Rightarrow> (string, nat) dict"
  data_on_disk :: "nat \<Rightarrow> bool"
  next_inode :: nat

definition root_dir :: nat where
  "root_dir = 0"

definition entry_at :: "'b tree \<Rightarrow> nat \<Rightarrow> string \<Rightarrow> nat option" where
  "entry_at t d n = map_of (names t d) n"

record stat_result =
  st_ino :: nat
  st_kind :: kind
  st_uid :: nat
  st_mode :: nat
  st_nlink :: nat

definition stat_of :: "'b tree \<Rightarrow> nat \<Rightarrow> stat_result" where
  "stat_of t i = (let x = inodes t i in
     \<lparr>st_ino = i, st_kind = in_kind x, st_uid = in_uid x, st_mode = in_mode x, st_nlink = in_nlink x\<rparr>)"

lemma stat_of_simps [simp]:
  "st_ino (stat_of t i) = i" "st_kind (stat_of t i) = in_kind (inodes t i)"
  "st_uid (stat_of t i) = in_uid (inodes t i)" "st_mode (stat_of t i) = in_mode (inodes t i)"
  "st_nlink (stat_of t i) = in_nlink (inodes t i)"
  by (simp_all add: stat_of_def Let_def)

definition not_found :: "string \<Rightarrow> exc" where
  "not_found n = Exc FileNotFoundError n"

definition put_inode :: "nat \<Rightarrow> ('b inode \<Rightarrow> 'b inode) \<Rightarrow> 'b tree \<Rightarrow> 'b tree" where
  "put_inode i f t = t\<lparr>inodes := (inodes t)(i := f (inodes t i))\<rparr>"

definition put_names :: "nat \<Rightarrow> ((string, nat) dict \<Rightarrow> (string, nat) dict) \<Rightarrow> 'b tree \<Rightarrow> 'b tree" where
  "put_names d f t = t\<lparr>names := (names t)(d := f (names t d))\<rparr>"

section \<open>What the calls do\<close>

text \<open>\<^verbatim>\<open>os.open\<close> with \<^verbatim>\<open>O_RDONLY | O_DIRECTORY | O_NOFOLLOW\<close>, without \<^verbatim>\<open>O_DIRECTORY\<close>, and with \<^verbatim>\<open>O_RDWR\<close>\<close>

definition t_open_dir :: "nat \<Rightarrow> string \<Rightarrow> 'b tree \<Rightarrow> exc + nat \<times> 'b tree" where
  "t_open_dir d n t = (case entry_at t d n of
     None \<Rightarrow> Inl (not_found n)
   | Some i \<Rightarrow> if in_kind (inodes t i) = Directory then Inr (i, t) else Inl (io_exc NotDir))"

definition t_open_read :: "nat \<Rightarrow> string \<Rightarrow> 'b tree \<Rightarrow> exc + nat \<times> 'b tree" where
  "t_open_read d n t = (case entry_at t d n of
     None \<Rightarrow> Inl (not_found n)
   | Some i \<Rightarrow> if in_kind (inodes t i) = Symlink then Inl (io_exc IOFailure) else Inr (i, t))"

definition t_open_rw :: "nat \<Rightarrow> string \<Rightarrow> 'b tree \<Rightarrow> exc + nat \<times> 'b tree" where
  "t_open_rw d n t = (case entry_at t d n of
     None \<Rightarrow> Inl (not_found n)
   | Some i \<Rightarrow> (case in_kind (inodes t i) of
       Symlink \<Rightarrow> Inl (io_exc IOFailure) | Directory \<Rightarrow> Inl (io_exc IsDir) | Regular \<Rightarrow> Inr (i, t)))"

definition t_new :: "nat \<Rightarrow> string \<Rightarrow> 'b inode \<Rightarrow> 'b tree \<Rightarrow> exc + nat \<times> 'b tree" where
  "t_new d n x t = (if next_inode t \<le> d \<or> in_kind (inodes t d) \<noteq> Directory then Inl (io_exc NotDir)
     else if entry_at t d n \<noteq> None then Inl (Exc FileExistsError n)
     else let i = next_inode t in
       Inr (i, t\<lparr>inodes := (inodes t)(i := x), names := (names t)(d := AList.update n i (names t d), i := []),
          names_synced := (names_synced t)(i := []), data_on_disk := (data_on_disk t)(i := False),
          next_inode := i + 1\<rparr>))"

text \<open>\<^verbatim>\<open>os.open\<close> with \<^verbatim>\<open>O_CREAT | O_EXCL\<close> and mode \<^verbatim>\<open>0o600\<close>, \<^verbatim>\<open>os.mkdir\<close> with \<^verbatim>\<open>0o700\<close>\<close>

definition t_create :: "nat \<Rightarrow> 'b \<Rightarrow> nat \<Rightarrow> string \<Rightarrow> 'b tree \<Rightarrow> exc + nat \<times> 'b tree" where
  "t_create uid nothing d n = t_new d n
     \<lparr>in_kind = Regular, in_uid = uid, in_mode = 384, in_nlink = 1, in_bytes = nothing\<rparr>"

definition t_mkdir :: "nat \<Rightarrow> 'b \<Rightarrow> nat \<Rightarrow> string \<Rightarrow> 'b tree \<Rightarrow> exc + nat \<times> 'b tree" where
  "t_mkdir uid nothing d n = t_new d n
     \<lparr>in_kind = Directory, in_uid = uid, in_mode = 448, in_nlink = 2, in_bytes = nothing\<rparr>"

definition t_fstat :: "nat \<Rightarrow> 'b tree \<Rightarrow> exc + stat_result \<times> 'b tree" where
  "t_fstat i t = Inr (stat_of t i, t)"

definition t_stat :: "nat \<Rightarrow> string \<Rightarrow> 'b tree \<Rightarrow> exc + stat_result \<times> 'b tree" where
  "t_stat d n t = (case entry_at t d n of None \<Rightarrow> Inl (not_found n) | Some i \<Rightarrow> Inr (stat_of t i, t))"

fun resolve :: "'b tree \<Rightarrow> nat \<Rightarrow> string list \<Rightarrow> exc + nat" where
  "resolve t i [] = Inr i"
| "resolve t i (p # ps) = (if in_kind (inodes t i) \<noteq> Directory then Inl (io_exc NotDir)
     else case entry_at t i p of None \<Rightarrow> Inl (not_found p) | Some j \<Rightarrow> resolve t j ps)"

definition t_stat_path :: "string list \<Rightarrow> 'b tree \<Rightarrow> exc + stat_result \<times> 'b tree" where
  "t_stat_path ps t = (case resolve t root_dir ps of Inl x \<Rightarrow> Inl x | Inr i \<Rightarrow> Inr (stat_of t i, t))"

definition t_read :: "nat \<Rightarrow> 'b tree \<Rightarrow> exc + 'b \<times> 'b tree" where
  "t_read i t = (if in_kind (inodes t i) = Regular then Inr (in_bytes (inodes t i), t)
     else Inl (io_exc IsDir))"

definition t_write :: "nat \<Rightarrow> 'b \<Rightarrow> 'b tree \<Rightarrow> exc + unit \<times> 'b tree" where
  "t_write i b t = Inr ((), (put_inode i (\<lambda>x. x\<lparr>in_bytes := b\<rparr>) t)
     \<lparr>data_on_disk := (data_on_disk t)(i := False)\<rparr>)"

definition t_fchmod :: "nat \<Rightarrow> nat \<Rightarrow> nat \<Rightarrow> 'b tree \<Rightarrow> exc + unit \<times> 'b tree" where
  "t_fchmod uid i m t = (if uid = 0 \<or> uid = in_uid (inodes t i)
     then Inr ((), put_inode i (\<lambda>x. x\<lparr>in_mode := m\<rparr>) t) else Inl (io_exc Denied))"

definition t_fsync :: "nat \<Rightarrow> 'b tree \<Rightarrow> exc + unit \<times> 'b tree" where
  "t_fsync i t = Inr ((), t\<lparr>data_on_disk := (data_on_disk t)(i := True),
     names_synced := (names_synced t)(i := names t i)\<rparr>)"

definition t_link :: "nat \<Rightarrow> string \<Rightarrow> string \<Rightarrow> 'b tree \<Rightarrow> exc + unit \<times> 'b tree" where
  "t_link d a b t = (case entry_at t d a of
     None \<Rightarrow> Inl (not_found a)
   | Some i \<Rightarrow> if entry_at t d b \<noteq> None then Inl (Exc FileExistsError b)
       else if in_kind (inodes t i) = Directory then Inl (io_exc Denied)
       else Inr ((), put_inode i (\<lambda>x. x\<lparr>in_nlink := in_nlink x + 1\<rparr>) (put_names d (AList.update b i) t)))"

definition t_unlink :: "nat \<Rightarrow> string \<Rightarrow> 'b tree \<Rightarrow> exc + unit \<times> 'b tree" where
  "t_unlink d n t = (case entry_at t d n of
     None \<Rightarrow> Inl (not_found n)
   | Some i \<Rightarrow> if in_kind (inodes t i) = Directory then Inl (io_exc IsDir)
       else Inr ((), put_inode i (\<lambda>x. x\<lparr>in_nlink := in_nlink x - 1\<rparr>) (put_names d (AList.delete n) t)))"

definition t_listdir :: "nat \<Rightarrow> 'b tree \<Rightarrow> exc + string list \<times> 'b tree" where
  "t_listdir d t = Inr (dict_keys (names t d), t)"

section \<open>The machine\<close>

text \<open>
  \<open>troubles\<close> says of each coming call whether and how it fails, \<open>open_fds\<close> are the descriptors this
  process holds and \<open>flocked\<close> the inodes it has locked.
\<close>

record 'b machine =
  tree :: "'b tree"
  troubles :: "io_class option list"
  past :: "'b tree list"
  open_fds :: "nat list"
  flocked :: "nat list"
  uuid_count :: nat

type_synonym ('b, 'a) sys = "('b machine, 'a) eff"

definition call :: "('b tree \<Rightarrow> exc + 'a \<times> 'b tree) \<Rightarrow> ('b, 'a) sys" where
  "call f m = (let m1 = m\<lparr>troubles := tl (troubles m)\<rparr> in
     case (case troubles m of [] \<Rightarrow> None | x # _ \<Rightarrow> x) of
       Some c \<Rightarrow> (Inl (io_exc c), m1)
     | None \<Rightarrow> (case f (tree m) of
         Inl x \<Rightarrow> (Inl x, m1)
       | Inr (a, t) \<Rightarrow> (Inr a, m1\<lparr>tree := t, past := t # past m\<rparr>)))"

definition sys_open :: "('b tree \<Rightarrow> exc + nat \<times> 'b tree) \<Rightarrow> ('b, nat) sys" where
  "sys_open f = ebind (call f) (\<lambda>i. ebind (emod (\<lambda>m. m\<lparr>open_fds := i # open_fds m\<rparr>)) (\<lambda>_. eret i))"

text \<open>Closing a descriptor drops the lock taken through it.\<close>

definition sys_close :: "nat \<Rightarrow> ('b, unit) sys" where
  "sys_close i = emod (\<lambda>m. m\<lparr>open_fds := remove1 i (open_fds m), flocked := removeAll i (flocked m)\<rparr>)"

definition t_nothing :: "'b tree \<Rightarrow> exc + unit \<times> 'b tree" where
  "t_nothing t = Inr ((), t)"

definition sys_flock :: "nat \<Rightarrow> ('b, unit) sys" where
  "sys_flock i = ebind (call t_nothing) (\<lambda>_. emod (\<lambda>m. m\<lparr>flocked := i # flocked m\<rparr>))"

definition sys_funlock :: "nat \<Rightarrow> ('b, unit) sys" where
  "sys_funlock i = ebind (call t_nothing) (\<lambda>_. emod (\<lambda>m. m\<lparr>flocked := removeAll i (flocked m)\<rparr>))"

text \<open>\<^verbatim>\<open>uuid.uuid4().hex\<close>, from a supply\<close>

definition new_uuid :: "(nat \<Rightarrow> string) \<Rightarrow> ('b, string) sys" where
  "new_uuid supply = ebind (eget uuid_count) (\<lambda>n.
     ebind (emod (\<lambda>m. m\<lparr>uuid_count := n + 1\<rparr>)) (\<lambda>_. eret (supply n)))"

end
