(* ===== verification/LegacyClearance.thy ===== *)
theory LegacyClearance
  imports PosixTree "HOL-Library.Sublist"
begin

text \<open>
  Tombstones written before tokens existed: \<^verbatim>\<open>inspect_legacy_process_tombstone\<close> and
  \<^verbatim>\<open>clear_legacy_process_tombstone\<close> of \<^verbatim>\<open>fleet/process.py\<close>, call by call on \<open>PosixTree\<close>. The
  record \<open>lib\<close> has the standard library's encodings and hash on the type \<open>'b\<close> of file contents.
\<close>

unbundle bit_operations_syntax

section \<open>The standard library\<close>

record 'b lib =
  lb_dumps :: "json \<Rightarrow> 'b"
  lb_line :: "'b \<Rightarrow> 'b"
  lb_loads :: "'b \<Rightarrow> exc + json"
  lb_sha256 :: "'b \<Rightarrow> string"
  lb_size :: "'b \<Rightarrow> nat"
  lb_cut :: "'b \<Rightarrow> 'b"
  lb_nothing :: 'b
  lb_uuid :: "nat \<Rightarrow> string"
  lb_euid :: nat


section \<open>The trusted namespace\<close>

definition same_inode :: "stat_result \<Rightarrow> stat_result \<Rightarrow> bool" where
  "same_inode l r \<longleftrightarrow> st_ino l = st_ino r"

definition writable_by_others :: "stat_result \<Rightarrow> bool" where
  "writable_by_others st \<longleftrightarrow> st_mode st AND 18 \<noteq> 0"

definition sticky :: "stat_result \<Rightarrow> bool" where
  "sticky st \<longleftrightarrow> st_mode st AND 512 \<noteq> 0"

definition validate_trusted_directory :: "nat \<Rightarrow> stat_result \<Rightarrow> bool \<Rightarrow> exc + unit" where
  "validate_trusted_directory euid st unit_part =
     (if st_kind st \<noteq> Directory then
        Inl (tombstone_error ''clearance namespace component is not a directory'')
      else if unit_part then
        (if st_uid st \<noteq> euid \<or> writable_by_others st then
           Inl (tombstone_error ''unit directory must be euid-owned and not group/world writable'')
         else Inr ())
      else if st_uid st \<noteq> 0 \<and> st_uid st \<noteq> euid then
        Inl (tombstone_error ''clearance ancestor has an untrusted owner'')
      else if writable_by_others st \<and> \<not> (st_uid st = 0 \<and> sticky st) then
        Inl (tombstone_error ''clearance ancestor is group/world writable'')
      else Inr ())"

text \<open>\<^verbatim>\<open>except BaseException: os.close(fd); raise\<close> and \<^verbatim>\<open>finally: os.close(fd)\<close>\<close>

definition closing_on_error :: "nat \<Rightarrow> ('b, 'a) sys \<Rightarrow> ('b, 'a) sys" where
  "closing_on_error fd m = etry (\<lambda>_. True) m (\<lambda>x. ebind (sys_close fd) (\<lambda>_. eraise x))"

definition with_fd :: "nat \<Rightarrow> ('b, 'a) sys \<Rightarrow> ('b, 'a) sys" where
  "with_fd fd m = efinally m (sys_close fd)"

definition check_directory :: "'b lib \<Rightarrow> nat \<Rightarrow> bool \<Rightarrow> ('b, unit) sys" where
  "check_directory lib fd unit_part =
     ebind (call (t_fstat fd)) (\<lambda>st. elift (validate_trusted_directory (lb_euid lib) st unit_part))"

text \<open>The components of the absolute path below the root, opened one by one.\<close>

fun trusted_walk :: "'b lib \<Rightarrow> nat \<Rightarrow> string list \<Rightarrow> ('b, nat) sys" where
  "trusted_walk lib fd [] = eret fd"
| "trusted_walk lib fd (p # ps) =
     ebind (closing_on_error fd (sys_open (t_open_dir fd p))) (\<lambda>child.
     ebind (sys_close fd) (\<lambda>_.
     ebind (closing_on_error child (check_directory lib child (ps = []))) (\<lambda>_.
     trusted_walk lib child ps)))"

definition open_root :: "'b tree \<Rightarrow> exc + nat \<times> 'b tree" where
  "open_root t = Inr (root_dir, t)"

definition open_trusted_unit_directory :: "'b lib \<Rightarrow> string list \<Rightarrow> ('b, nat \<times> stat_result) sys" where
  "open_trusted_unit_directory lib parts =
     ebind (sys_open open_root) (\<lambda>root.
     ebind (closing_on_error root (check_directory lib root False)) (\<lambda>_.
     ebind (trusted_walk lib root parts) (\<lambda>fd.
     closing_on_error fd
       (ebind (call (t_fstat fd)) (\<lambda>st.
        ebind (call (t_stat_path parts)) (\<lambda>named.
        if \<not> same_inode st named then eraise (tombstone_error ''unit directory pathname identity changed'')
        else eret (fd, st)))))))"

definition bind_named :: "stat_result \<Rightarrow> ('b, stat_result) sys \<Rightarrow> string \<Rightarrow> ('b, unit) sys" where
  "bind_named opened named msg =
     ebind (etry (\<lambda>x. instance_of x FileNotFoundError) named (\<lambda>_. eraise (tombstone_error msg))) (\<lambda>st.
     if same_inode opened st then eret () else eraise (tombstone_error msg))"

text \<open>What a clearance holds open.\<close>

record namespace =
  ns_parts :: "string list"
  ns_dir :: nat
  ns_unit :: stat_result
  ns_lock :: stat_result
  ns_audit :: nat
  ns_audit_st :: stat_result

definition pid_name :: string where "pid_name = ''pid.json''"

definition lock_name :: string where "lock_name = ''.process.lock''"

definition audit_dir_name :: string where "audit_dir_name = ''legacy-process-clearance.audit.d''"

definition bind_clearance_namespace :: "namespace \<Rightarrow> ('b, unit) sys" where
  "bind_clearance_namespace ns =
     ebind (bind_named (ns_unit ns) (call (t_stat_path (ns_parts ns))) ''unit directory pathname identity changed'') (\<lambda>_.
     ebind (bind_named (ns_lock ns) (call (t_stat (ns_dir ns) lock_name)) ''unit lock pathname identity changed'') (\<lambda>_.
     ebind (bind_named (ns_audit_st ns) (call (t_stat (ns_dir ns) audit_dir_name)) ''audit directory pathname identity changed'') (\<lambda>_.
     ebind (call (t_fstat (ns_audit ns))) (\<lambda>st.
     if same_inode (ns_audit_st ns) st then eret ()
     else eraise (tombstone_error ''audit directory descriptor identity changed'')))))"

section \<open>Private files\<close>

definition read_regular_fd :: "'b lib \<Rightarrow> nat \<Rightarrow> nat \<Rightarrow> ('b, 'b) sys" where
  "read_regular_fd lib fd limit = ebind (call (t_read fd)) (\<lambda>raw.
     if limit < lb_size lib raw then eraise (tombstone_error ''tombstone is unreasonably large'') else eret raw)"

definition tombstone_limit :: nat where "tombstone_limit = 16777216"

definition audit_limit :: nat where "audit_limit = 8192"

definition safe_internal_basename :: "json \<Rightarrow> string \<Rightarrow> string \<Rightarrow> exc + string" where
  "safe_internal_basename name pre suf = (case as_str name of
     None \<Rightarrow> Inl (tombstone_error ''invalid internal clearance artifact name'')
   | Some s \<Rightarrow> if 255 < length s \<or> \<not> prefix pre s \<or> \<not> suffix suf s \<or> s = ''.'' \<or> s = ''..'' \<or> CHR ''/'' \<in> set s
       then Inl (tombstone_error ''invalid internal clearance artifact name'') else Inr s)"

definition private_ok :: "'b lib \<Rightarrow> bool \<Rightarrow> nat list \<Rightarrow> stat_result \<Rightarrow> stat_result \<Rightarrow> bool" where
  "private_ok lib dir allowed st named \<longleftrightarrow>
     st_kind st = (if dir then Directory else Regular) \<and> st_uid st = lb_euid lib \<and>
     (dir \<or> st_nlink st \<in> set allowed) \<and> st_mode st AND 63 = 0 \<and> same_inode st named"

definition open_private_named ::
  "'b lib \<Rightarrow> string \<Rightarrow> nat \<Rightarrow> bool \<Rightarrow> nat list \<Rightarrow> ('b, nat \<times> stat_result) sys" where
  "open_private_named lib name d dir allowed =
     ebind (sys_open (if dir then t_open_dir d name else t_open_read d name)) (\<lambda>fd.
     ebind (call (t_fstat fd)) (\<lambda>st.
     ebind (call (t_stat d name)) (\<lambda>named.
     if private_ok lib dir allowed st named then eret (fd, st)
     else ebind (sys_close fd) (\<lambda>_.
       eraise (tombstone_error ''clearance artifact must be private and named by its opened inode'')))))"

definition tmp_of :: "string \<Rightarrow> string" where
  "tmp_of u = ''.tmp-'' @ u"

definition atomic_private_json :: "'b lib \<Rightarrow> nat \<Rightarrow> string \<Rightarrow> json \<Rightarrow> ('b, unit) sys" where
  "atomic_private_json lib d final v =
     (let raw = lb_line lib (lb_dumps lib v) in
      if audit_limit < lb_size lib raw then eraise (tombstone_error ''clearance audit record is too large'')
      else ebind (new_uuid (lb_uuid lib)) (\<lambda>u. let tmp = tmp_of u in
        ebind (sys_open (t_create (lb_euid lib) (lb_nothing lib) d tmp)) (\<lambda>fd.
        efinally
          (ebind (call (t_write fd (lb_cut lib raw))) (\<lambda>_.
           ebind (call (t_write fd raw)) (\<lambda>_.
           ebind (call (t_fsync fd)) (\<lambda>_.
           ebind (call (t_fchmod (lb_euid lib) fd 384)) (\<lambda>_.
           ebind (call (t_fsync fd)) (\<lambda>_.
           ebind (call (t_link d tmp final)) (\<lambda>_.
           ebind (call (t_fsync d)) (\<lambda>_.
           ebind (call (t_stat d final)) (\<lambda>published.
           ebind (call (t_fstat fd)) (\<lambda>opened.
           if same_inode published opened then eret ()
           else eraise (tombstone_error ''published audit pathname identity changed'')))))))))))
          (ebind (sys_close fd) (\<lambda>_.
           etry (\<lambda>x. instance_of x FileNotFoundError)
             (ebind (call (t_unlink d tmp)) (\<lambda>_. call (t_fsync d))) (\<lambda>_. eret ()))))))"

definition is_hex :: "char \<Rightarrow> bool" where
  "is_hex c \<longleftrightarrow> c \<in> set ''0123456789abcdef''"

definition is_tmp_name :: "string \<Rightarrow> bool" where
  "is_tmp_name n \<longleftrightarrow> length n = 37 \<and> prefix ''.tmp-'' n \<and> list_all is_hex (drop 5 n)"

definition recover_audit_link :: "nat \<Rightarrow> stat_result \<Rightarrow> nat \<Rightarrow> ('b, unit) sys" where
  "recover_audit_link fd opened d =
     (if st_nlink opened \<noteq> 2 then eret ()
      else ebind (call (t_listdir d)) (\<lambda>entries.
       ebind (emap (\<lambda>n. if is_tmp_name n
            then ebind (call (t_stat d n)) (\<lambda>st. eret (if same_inode opened st then [n] else []))
            else eret []) entries) (\<lambda>found.
       case concat found of
         [n] \<Rightarrow> ebind (call (t_unlink d n)) (\<lambda>_.
           ebind (call (t_fsync d)) (\<lambda>_.
           ebind (call (t_fstat fd)) (\<lambda>st.
           if st_nlink st \<noteq> 1 then eraise (tombstone_error ''published audit has unexpected extra links'')
           else eret ())))
       | _ \<Rightarrow> eraise (tombstone_error ''published audit has unexpected extra links''))))"

text \<open>\<^verbatim>\<open>json.loads\<close> with its two errors renamed\<close>

definition loads_or :: "'b lib \<Rightarrow> 'b \<Rightarrow> string \<Rightarrow> exc + json" where
  "loads_or lib raw msg = (case lb_loads lib raw of
     Inl x \<Rightarrow> Inl (if caught_by x [UnicodeDecodeError, JSONDecodeError] then tombstone_error msg else x)
   | Inr v \<Rightarrow> Inr v)"

definition read_exact_audit :: "'b lib \<Rightarrow> nat \<Rightarrow> string \<Rightarrow> json \<Rightarrow> ('b, bool) sys" where
  "read_exact_audit lib d name expected =
     ebind (etry (\<lambda>x. instance_of x FileNotFoundError)
         (ebind (open_private_named lib name d False [1, 2]) (\<lambda>x. eret (Some x))) (\<lambda>_. eret None)) (\<lambda>r. case r of
       None \<Rightarrow> eret False
     | Some (fd, opened) \<Rightarrow> with_fd fd
         (ebind (recover_audit_link fd opened d) (\<lambda>_.
          ebind (read_regular_fd lib fd audit_limit) (\<lambda>raw.
          ebind (elift (loads_or lib raw ''clearance audit record is malformed'')) (\<lambda>actual.
          if \<not> py_eq actual expected then eraise (tombstone_error ''clearance audit record does not match request'')
          else ebind (call (t_stat d name)) (\<lambda>named.
            ebind (call (t_fstat fd)) (\<lambda>opened'.
            if same_inode named opened' then eret True
            else eraise (tombstone_error ''clearance audit pathname identity changed''))))))))"


section \<open>Inspection\<close>

record inspection =
  ins_path :: "string list"
  ins_sha256 :: string
  ins_generation :: "int option"
  ins_token_absent :: bool

definition as_true_int :: "json \<Rightarrow> int option" where
  "as_true_int v = (case v of JInt i \<Rightarrow> Some i | _ \<Rightarrow> None)"

definition inspection_of :: "string list \<Rightarrow> string \<Rightarrow> json option \<Rightarrow> inspection" where
  "inspection_of parts sha metadata = (case metadata of
     Some (JObj d) \<Rightarrow> \<lparr>ins_path = parts @ [pid_name], ins_sha256 = sha,
       ins_generation = as_true_int (dict_get d ''generation'' JNull),
       ins_token_absent = (''token'' \<notin> set (dict_keys d))\<rparr>
   | _ \<Rightarrow> \<lparr>ins_path = parts @ [pid_name], ins_sha256 = sha, ins_generation = None, ins_token_absent = False\<rparr>)"

definition inspect_tombstone :: "'b lib \<Rightarrow> string list \<Rightarrow> ('b, inspection) sys" where
  "inspect_tombstone lib parts =
     ebind (open_trusted_unit_directory lib parts) (\<lambda>(dir, unit_st). with_fd dir
       (ebind (etry (\<lambda>x. caught_by x [FileNotFoundError, PermissionError])
           (sys_open (t_open_read dir pid_name))
           (\<lambda>_. eraise (tombstone_error ''tombstone absent or unreadable''))) (\<lambda>fd. with_fd fd
         (ebind (call (t_fstat fd)) (\<lambda>opened.
          if st_kind opened \<noteq> Regular \<or> st_nlink opened \<noteq> 1
          then eraise (tombstone_error ''tombstone must be a regular single-link file'')
          else ebind (read_regular_fd lib fd tombstone_limit) (\<lambda>raw.
            ebind (call (t_stat dir pid_name)) (\<lambda>named.
            if \<not> same_inode opened named then eraise (tombstone_error ''tombstone pathname identity changed'')
            else ebind (bind_named unit_st (call (t_stat_path parts)) ''unit directory pathname identity changed'') (\<lambda>_.
              ebind (elift (case lb_loads lib raw of
                  Inl x \<Rightarrow> if instance_of x ValueError then Inr None else Inl x
                | Inr v \<Rightarrow> Inr (Some v))) (\<lambda>metadata.
              eret (inspection_of parts (lb_sha256 lib raw) metadata))))))))))"

text \<open>The public functions let only domain failures of the file system through.\<close>

definition domain_failures :: "string \<Rightarrow> ('b, 'a) sys \<Rightarrow> ('b, 'a) sys" where
  "domain_failures msg m = etry (\<lambda>x. instance_of x OSError) m (\<lambda>_. eraise (tombstone_error msg))"

definition inspect_legacy_process_tombstone :: "'b lib \<Rightarrow> string list \<Rightarrow> ('b, inspection) sys" where
  "inspect_legacy_process_tombstone lib parts =
     domain_failures ''tombstone namespace is absent or unreadable'' (inspect_tombstone lib parts)"

section \<open>The request\<close>

record request =
  rq_unit :: string
  rq_generation :: int
  rq_sha256 :: string
  rq_operator :: string
  rq_ticket :: string

definition utf8_length :: "string \<Rightarrow> nat" where
  "utf8_length s = sum_list (List.map (\<lambda>c. if char_code c < 128 then 1 else 2) s)"

definition bounded_text :: "json \<Rightarrow> nat \<Rightarrow> string \<Rightarrow> exc + string" where
  "bounded_text v limit label = (case as_str v of
     None \<Rightarrow> Inl (tombstone_error (''nonempty bounded '' @ label @ '' is required''))
   | Some s \<Rightarrow> if blank s \<or> limit < utf8_length s
       then Inl (tombstone_error (''nonempty bounded '' @ label @ '' is required'')) else Inr s)"

definition check_request ::
  "string \<Rightarrow> json \<Rightarrow> json \<Rightarrow> json \<Rightarrow> json \<Rightarrow> json \<Rightarrow> exc + request" where
  "check_request u generation sha asserted operator ticket =
     sbind (validate_unit u) (\<lambda>_.
     case as_true_int generation of
       None \<Rightarrow> Inl (tombstone_error ''generation must be an integer'')
     | Some g \<Rightarrow>
         if asserted \<noteq> JBool True then Inl (tombstone_error ''explicit workload-gone assertion is required'')
         else sbind (bounded_text operator 256 ''operator'') (\<lambda>who.
           sbind (bounded_text ticket 512 ''ticket'') (\<lambda>ti.
           case as_str sha of
             None \<Rightarrow> Inl (tombstone_error ''expected_sha256 must be a lowercase SHA-256 digest'')
           | Some s \<Rightarrow> if length s \<noteq> 64 \<or> \<not> list_all is_hex s
               then Inl (tombstone_error ''expected_sha256 must be a lowercase SHA-256 digest'')
               else Inr \<lparr>rq_unit = u, rq_generation = g, rq_sha256 = s, rq_operator = who, rq_ticket = ti\<rparr>)))"

definition index_fields :: "request \<Rightarrow> (string, json) dict" where
  "index_fields rq = [(''version'', JInt 2), (''unit'', JStr (rq_unit rq)),
     (''generation'', JInt (rq_generation rq)), (''operator'', JStr (rq_operator rq)),
     (''ticket'', JStr (rq_ticket rq)), (''tombstone_sha256'', JStr (rq_sha256 rq)),
     (''asserted_workload_fully_gone'', JBool True)]"

definition operation_id :: "'b lib \<Rightarrow> request \<Rightarrow> string" where
  "operation_id lib rq = lb_sha256 lib (lb_dumps lib (JObj (index_fields rq)))"

definition intent_name :: "'b lib \<Rightarrow> request \<Rightarrow> string" where
  "intent_name lib rq = ''intent-'' @ operation_id lib rq @ ''.json''"

definition complete_name :: "'b lib \<Rightarrow> request \<Rightarrow> string" where
  "complete_name lib rq = ''complete-'' @ operation_id lib rq @ ''.json''"

definition quarantine_name :: "request \<Rightarrow> string \<Rightarrow> string" where
  "quarantine_name rq u = ''.legacy-pid.'' @ rq_sha256 rq @ ''.'' @ u @ ''.quarantine''"

definition intent_record :: "'b lib \<Rightarrow> request \<Rightarrow> json \<Rightarrow> (string, json) dict" where
  "intent_record lib rq quarantine = index_fields rq @
     [(''event'', JStr ''legacy_tombstone_clearance_intent''),
      (''operation_id'', JStr (operation_id lib rq)), (''quarantine'', quarantine)]"

definition completion_record :: "(string, json) dict \<Rightarrow> json" where
  "completion_record intent =
     JObj (AList.update ''event'' (JStr ''legacy_tombstone_clearance_complete'') intent)"

section \<open>Clearance\<close>

definition open_unit_lock :: "'b lib \<Rightarrow> nat \<Rightarrow> ('b, nat) sys" where
  "open_unit_lock lib dir =
     ebind (etry (\<lambda>x. instance_of x OSError)
         (ebind (sys_open (t_create (lb_euid lib) (lb_nothing lib) dir lock_name)) (\<lambda>fd. eret (fd, True)))
         (\<lambda>x. if instance_of x FileExistsError
           then etry (\<lambda>x. instance_of x OSError)
             (ebind (sys_open (t_open_rw dir lock_name)) (\<lambda>fd. eret (fd, False)))
             (\<lambda>_. eraise (tombstone_error ''unit lock is absent or unreadable''))
           else eraise (tombstone_error ''unit lock could not be created''))) (\<lambda>(fd, created).
     ebind (ewhen created (etry (\<lambda>x. instance_of x OSError)
         (ebind (call (t_fchmod (lb_euid lib) fd 384)) (\<lambda>_.
          ebind (call (t_fsync fd)) (\<lambda>_. call (t_fsync dir))))
         (\<lambda>_. ebind (sys_close fd) (\<lambda>_.
            eraise (tombstone_error ''unit lock could not be durably published''))))) (\<lambda>_.
     eret fd))"

definition check_unit_lock :: "'b lib \<Rightarrow> nat \<Rightarrow> nat \<Rightarrow> ('b, stat_result) sys" where
  "check_unit_lock lib dir fd =
     ebind (call (t_fstat fd)) (\<lambda>st.
     ebind (call (t_stat dir lock_name)) (\<lambda>named.
     if private_ok lib False [1] st named then eret st
     else eraise (tombstone_error ''unit lock must be a private regular named file'')))"

definition open_audit_directory :: "'b lib \<Rightarrow> nat \<Rightarrow> ('b, nat \<times> stat_result) sys" where
  "open_audit_directory lib dir =
     ebind (etry (\<lambda>x. instance_of x FileExistsError)
         (ebind (call (t_mkdir (lb_euid lib) (lb_nothing lib) dir audit_dir_name)) (\<lambda>_. call (t_fsync dir)))
         (\<lambda>_. eret ())) (\<lambda>_.
     open_private_named lib audit_dir_name dir True [1])"

text \<open>The intent, its quarantine, and whether it was there already.\<close>

definition existing_intent ::
  "'b lib \<Rightarrow> nat \<Rightarrow> request \<Rightarrow> nat \<Rightarrow> ('b, (string, json) dict \<times> string) sys" where
  "existing_intent lib audit_fd rq fd =
     ebind (with_fd fd
       (ebind (read_regular_fd lib fd audit_limit) (\<lambda>raw.
        ebind (elift (loads_or lib raw ''clearance intent is malformed'')) (\<lambda>intent.
        ebind (call (t_fstat fd)) (\<lambda>ist.
        ebind (call (t_stat audit_fd (intent_name lib rq))) (\<lambda>named.
        if \<not> same_inode ist named then eraise (tombstone_error ''clearance intent pathname identity changed'')
        else eret intent)))))) (\<lambda>intent. case intent of
       JObj d \<Rightarrow>
         if \<not> py_eq (JObj d) (JObj (intent_record lib rq (dict_get d ''quarantine'' JNull)))
         then eraise (tombstone_error ''clearance intent does not match request'')
         else ebind (elift (safe_internal_basename (dict_get d ''quarantine'' JNull) ''.legacy-pid.'' ''.quarantine'')) (\<lambda>q.
           eret (d, q))
     | _ \<Rightarrow> eraise (tombstone_error ''clearance intent is malformed''))"

definition load_intent ::
  "'b lib \<Rightarrow> nat \<Rightarrow> request \<Rightarrow> string \<Rightarrow> ('b, (string, json) dict \<times> string \<times> bool) sys" where
  "load_intent lib audit_fd rq fresh =
     ebind (etry (\<lambda>x. instance_of x FileNotFoundError)
         (ebind (open_private_named lib (intent_name lib rq) audit_fd False [1, 2]) (\<lambda>(fd, st).
          ebind (recover_audit_link fd st audit_fd) (\<lambda>_. eret (Some fd)))) (\<lambda>_. eret None)) (\<lambda>r. case r of
       None \<Rightarrow> eret (intent_record lib rq (JStr fresh), fresh, False)
     | Some fd \<Rightarrow> ebind (existing_intent lib audit_fd rq fd) (\<lambda>(d, q). eret (d, q, True)))"

definition check_quarantine :: "'b lib \<Rightarrow> request \<Rightarrow> nat \<Rightarrow> string \<Rightarrow> ('b, unit) sys" where
  "check_quarantine lib rq fd msg =
     ebind (read_regular_fd lib fd tombstone_limit) (\<lambda>raw.
     if lb_sha256 lib raw \<noteq> rq_sha256 rq then eraise (tombstone_error msg) else eret ())"

definition audit_path :: "'b lib \<Rightarrow> namespace \<Rightarrow> request \<Rightarrow> string list" where
  "audit_path lib ns rq = ns_parts ns @ [audit_dir_name, complete_name lib rq]"

definition require_no_pid :: "nat \<Rightarrow> string \<Rightarrow> ('b, unit) sys" where
  "require_no_pid dir msg =
     ebind (etry (\<lambda>x. instance_of x FileNotFoundError)
         (ebind (call (t_stat dir pid_name)) (\<lambda>_. eret True)) (\<lambda>_. eret False)) (\<lambda>there.
     if there then eraise (tombstone_error msg) else eret ())"

text \<open>A completion that is there already.\<close>

definition already_completed ::
  "'b lib \<Rightarrow> namespace \<Rightarrow> request \<Rightarrow> string \<Rightarrow> ('b, string list) sys" where
  "already_completed lib ns rq quarantine =
     ebind (require_no_pid (ns_dir ns) ''completion exists while tombstone is present'') (\<lambda>_.
     ebind (open_private_named lib quarantine (ns_dir ns) False [1]) (\<lambda>(qfd, qst).
     ebind (with_fd qfd (check_quarantine lib rq qfd ''completed quarantine does not match'')) (\<lambda>_.
     ebind (bind_clearance_namespace ns) (\<lambda>_.
     ebind (call (t_stat (ns_audit ns) (complete_name lib rq))) (\<lambda>cst.
     ebind (bind_named cst (call (t_stat (ns_audit ns) (complete_name lib rq))) ''completion pathname identity changed'') (\<lambda>_.
     ebind (call (t_stat_path (audit_path lib ns rq))) (\<lambda>named.
     if same_inode cst named then eret (audit_path lib ns rq)
     else eraise (tombstone_error ''returned audit pathname identity changed''))))))))"


text \<open>The tombstone is a legacy record of exactly this unit and generation.\<close>

definition legacy_record :: "request \<Rightarrow> json \<Rightarrow> bool" where
  "legacy_record rq v = (case v of
     JObj d \<Rightarrow> ''token'' \<notin> set (dict_keys d) \<and> dict_get d ''unit'' JNull = JStr (rq_unit rq) \<and>
       dict_get d ''generation'' JNull = JInt (rq_generation rq)
   | _ \<Rightarrow> False)"

definition authorize_tombstone ::
  "'b lib \<Rightarrow> nat \<Rightarrow> request \<Rightarrow> string \<Rightarrow> bool \<Rightarrow> nat \<Rightarrow> ('b, stat_result) sys" where
  "authorize_tombstone lib dir rq quarantine existing fd =
     ebind (call (t_fstat fd)) (\<lambda>pst.
     ebind (read_regular_fd lib fd tombstone_limit) (\<lambda>raw.
     if st_kind pst \<noteq> Regular \<or> st_nlink pst \<notin> (if existing then {1, 2} else {1}) \<or> lb_sha256 lib raw \<noteq> rq_sha256 rq
     then eraise (tombstone_error ''tombstone identity or SHA-256 does not match'')
     else ebind (ewhen (st_nlink pst = 2)
         (bind_named pst (call (t_stat dir quarantine)) ''shared tombstone is not our recovery link'')) (\<lambda>_.
       ebind (elift (loads_or lib raw ''legacy tombstone is malformed'')) (\<lambda>v.
       if \<not> legacy_record rq v
       then eraise (tombstone_error ''tombstone is not tokenless exact legacy metadata'')
       else ebind (call (t_stat dir pid_name)) (\<lambda>path_st.
         if same_inode path_st pst then eret pst
         else eraise (tombstone_error ''tombstone pathname identity changed''))))))"

definition link_quarantine :: "nat \<Rightarrow> string \<Rightarrow> stat_result \<Rightarrow> ('b, unit) sys" where
  "link_quarantine dir quarantine pst =
     etry (\<lambda>x. instance_of x FileExistsError)
       (ebind (call (t_link dir pid_name quarantine)) (\<lambda>_. call (t_fsync dir)))
       (\<lambda>_. ebind (call (t_stat dir quarantine)) (\<lambda>qst.
          if same_inode qst pst then eret () else eraise (tombstone_error ''quarantine collision'')))"

definition retire_tombstone ::
  "'b lib \<Rightarrow> namespace \<Rightarrow> request \<Rightarrow> (string, json) dict \<Rightarrow> string \<Rightarrow> bool \<Rightarrow> nat \<Rightarrow> ('b, unit) sys" where
  "retire_tombstone lib ns rq intent quarantine existing fd =
     ebind (authorize_tombstone lib (ns_dir ns) rq quarantine existing fd) (\<lambda>pst.
     ebind (call (t_fchmod (lb_euid lib) fd 384)) (\<lambda>_.
     ebind (call (t_fsync fd)) (\<lambda>_.
     ebind (ewhen (\<not> existing)
         (atomic_private_json lib (ns_audit ns) (intent_name lib rq) (JObj intent))) (\<lambda>_.
     ebind (link_quarantine (ns_dir ns) quarantine pst) (\<lambda>_.
     ebind (open_private_named lib quarantine (ns_dir ns) False [1, 2]) (\<lambda>(qfd, qst).
     ebind (with_fd qfd
         (if \<not> same_inode qst pst then eraise (tombstone_error ''quarantine inode mismatch'')
          else call (t_fsync qfd))) (\<lambda>_.
     ebind (bind_clearance_namespace ns) (\<lambda>_.
     ebind (call (t_stat (ns_dir ns) pid_name)) (\<lambda>current.
     if \<not> same_inode pst current then eraise (tombstone_error ''tombstone pathname identity changed'')
     else ebind (call (t_unlink (ns_dir ns) pid_name)) (\<lambda>_. call (t_fsync (ns_dir ns))))))))))))"

definition retired_before :: "'b lib \<Rightarrow> namespace \<Rightarrow> request \<Rightarrow> string \<Rightarrow> bool \<Rightarrow> ('b, unit) sys" where
  "retired_before lib ns rq quarantine existing =
     (if \<not> existing then eraise (tombstone_error ''tombstone absent and no matching intent'')
      else ebind (open_private_named lib quarantine (ns_dir ns) False [1]) (\<lambda>(qfd, qst).
        with_fd qfd (check_quarantine lib rq qfd ''intended quarantine does not match'')))"

definition remove_tombstone ::
  "'b lib \<Rightarrow> namespace \<Rightarrow> request \<Rightarrow> (string, json) dict \<Rightarrow> string \<Rightarrow> bool \<Rightarrow> ('b, unit) sys" where
  "remove_tombstone lib ns rq intent quarantine existing =
     ebind (etry (\<lambda>x. instance_of x FileNotFoundError)
         (ebind (sys_open (t_open_read (ns_dir ns) pid_name)) (\<lambda>fd. eret (Some fd))) (\<lambda>_. eret None)) (\<lambda>r. case r of
       None \<Rightarrow> retired_before lib ns rq quarantine existing
     | Some fd \<Rightarrow> with_fd fd (retire_tombstone lib ns rq intent quarantine existing fd))"

definition publish_completion ::
  "'b lib \<Rightarrow> namespace \<Rightarrow> request \<Rightarrow> (string, json) dict \<Rightarrow> string \<Rightarrow> ('b, string list) sys" where
  "publish_completion lib ns rq intent quarantine =
     ebind (open_private_named lib quarantine (ns_dir ns) False [1]) (\<lambda>(qfd, qst).
     ebind (with_fd qfd
         (if st_nlink qst \<noteq> 1 then eraise (tombstone_error ''retired quarantine invariant failed'')
          else ebind (check_quarantine lib rq qfd ''retired quarantine invariant failed'') (\<lambda>_.
            call (t_fsync qfd)))) (\<lambda>_.
     ebind (atomic_private_json lib (ns_audit ns) (complete_name lib rq) (completion_record intent)) (\<lambda>_.
     ebind (require_no_pid (ns_dir ns) ''completion published while tombstone is present'') (\<lambda>_.
     ebind (bind_clearance_namespace ns) (\<lambda>_.
     ebind (open_private_named lib (complete_name lib rq) (ns_audit ns) False [1]) (\<lambda>(cfd, cst).
     with_fd cfd
       (ebind (call (t_stat_path (audit_path lib ns rq))) (\<lambda>named.
        if same_inode cst named then eret (audit_path lib ns rq)
        else eraise (tombstone_error ''returned audit pathname identity changed'')))))))))"

definition clear_in_audit :: "'b lib \<Rightarrow> namespace \<Rightarrow> request \<Rightarrow> ('b, string list) sys" where
  "clear_in_audit lib ns rq =
     ebind (bind_clearance_namespace ns) (\<lambda>_.
     ebind (new_uuid (lb_uuid lib)) (\<lambda>u. let fresh = quarantine_name rq u in
     ebind (elift (safe_internal_basename (JStr fresh) ''.legacy-pid.'' ''.quarantine'')) (\<lambda>_.
     ebind (load_intent lib (ns_audit ns) rq fresh) (\<lambda>(intent, quarantine, existing).
     ebind (read_exact_audit lib (ns_audit ns) (complete_name lib rq) (completion_record intent)) (\<lambda>completed.
     if completed then already_completed lib ns rq quarantine
     else ebind (remove_tombstone lib ns rq intent quarantine existing) (\<lambda>_.
       publish_completion lib ns rq intent quarantine))))))"

definition clear_under_lock ::
  "'b lib \<Rightarrow> string list \<Rightarrow> nat \<Rightarrow> stat_result \<Rightarrow> request \<Rightarrow> nat \<Rightarrow> ('b, string list) sys" where
  "clear_under_lock lib parts dir unit_st rq lock_fd =
     efinally
       (ebind (check_unit_lock lib dir lock_fd) (\<lambda>lst.
        ebind (sys_flock lock_fd) (\<lambda>_.
        ebind (open_audit_directory lib dir) (\<lambda>(audit_fd, audit_st).
        with_fd audit_fd (clear_in_audit lib
          \<lparr>ns_parts = parts, ns_dir = dir, ns_unit = unit_st, ns_lock = lst, ns_audit = audit_fd,
           ns_audit_st = audit_st\<rparr> rq)))))
       (efinally (sys_funlock lock_fd) (sys_close lock_fd))"

definition clear_legacy_locked ::
  "'b lib \<Rightarrow> string list \<Rightarrow> string \<Rightarrow> json \<Rightarrow> json \<Rightarrow> json \<Rightarrow> json \<Rightarrow> json \<Rightarrow> ('b, string list) sys" where
  "clear_legacy_locked lib parts u generation sha asserted operator ticket =
     ebind (elift (check_request u generation sha asserted operator ticket)) (\<lambda>rq.
     ebind (open_trusted_unit_directory lib parts) (\<lambda>(dir, unit_st).
     with_fd dir
       (ebind (open_unit_lock lib dir) (\<lambda>lock_fd. clear_under_lock lib parts dir unit_st rq lock_fd))))"

definition clear_legacy_process_tombstone ::
  "'b lib \<Rightarrow> string list \<Rightarrow> string \<Rightarrow> json \<Rightarrow> json \<Rightarrow> json \<Rightarrow> json \<Rightarrow> json \<Rightarrow> ('b, string list) sys" where
  "clear_legacy_process_tombstone lib parts u generation sha asserted operator ticket =
     domain_failures ''legacy tombstone namespace operation failed''
       (clear_legacy_locked lib parts u generation sha asserted operator ticket)"

end
