(* ===== verification/LegacyInvariants.thy ===== *)
theory LegacyInvariants
  imports LegacyClearance
begin

text \<open>
  What the clearance of a legacy tombstone may do to the tombstone, whatever system call fails and
  wherever power is lost: its file is reachable under its own name or a quarantine name on every
  disk that may be left, and its own name goes only once the clearance of exactly this file is on
  record.
\<close>

section \<open>Properties of every tree of a run\<close>

definition along :: "('b tree \<Rightarrow> bool) \<Rightarrow> ('b tree \<Rightarrow> bool) \<Rightarrow> 'b machine \<Rightarrow> bool" where
  "along G P m \<longleftrightarrow> P (tree m) \<and> G (tree m) \<and> (\<forall>t \<in> set (past m). G t)"

lemma along_fields [simp]:
  "along G P (m\<lparr>open_fds := a\<rparr>) = along G P m" "along G P (m\<lparr>flocked := b\<rparr>) = along G P m"
  "along G P (m\<lparr>uuid_count := c\<rparr>) = along G P m" "along G P (m\<lparr>troubles := d\<rparr>) = along G P m"
  by (simp_all add: along_def)

lemma call_cases:
  assumes "call f m = (r, m')"
  obtains (failed) x where "r = Inl x" "m' = m\<lparr>troubles := tl (troubles m)\<rparr>"
      "f (tree m) = Inl x \<or> (\<exists>c. x = io_exc c)"
  | (worked) a t where "r = Inr a" "f (tree m) = Inr (a, t)"
      "m' = m\<lparr>troubles := tl (troubles m), tree := t, past := t # past m\<rparr>"
  using assms by (auto simp: call_def Let_def split: option.splits sum.splits list.splits)

lemma triple_call:
  assumes "\<And>t a t'. G t \<Longrightarrow> P t \<Longrightarrow> f t = Inr (a, t') \<Longrightarrow> G t' \<and> Q a t'"
  shows "triple (along G P) (call f) (\<lambda>a. along G (Q a)) (\<lambda>_. along G P)"
  unfolding triple_def by (auto elim!: call_cases dest: assms simp: along_def)

lemma keeps_call:
  "(\<And>t a t'. G t \<Longrightarrow> P t \<Longrightarrow> f t = Inr (a, t') \<Longrightarrow> G t' \<and> P t') \<Longrightarrow> keeps (along G P) (call f)"
  by (rule triple_keeps) (rule triple_call)

text \<open>Calls that only look.\<close>

definition peeks :: "('b tree \<Rightarrow> exc + 'a \<times> 'b tree) \<Rightarrow> bool" where
  "peeks f \<longleftrightarrow> (\<forall>t a t'. f t = Inr (a, t') \<longrightarrow> t' = t)"

lemma peeks_calls [simp]:
  "peeks (t_open_dir d n)" "peeks (t_open_read d n)" "peeks (t_open_rw d n)" "peeks open_root"
  "peeks (t_fstat i)" "peeks (t_stat d n)" "peeks (t_stat_path ps)" "peeks (t_read i)"
  "peeks (t_listdir d)" "peeks t_nothing"
  by (auto simp: peeks_def t_open_dir_def t_open_read_def t_open_rw_def open_root_def t_fstat_def
      t_stat_def t_stat_path_def t_read_def t_listdir_def t_nothing_def
      split: option.splits sum.splits kind.splits if_splits)

lemma keeps_peek: "peeks f \<Longrightarrow> keeps (along G P) (call f)"
  by (rule keeps_call) (auto simp: peeks_def)

lemmas keeps_peeks [keeps_intros] = peeks_calls [THEN keeps_peek]

lemma keeps_sys_open [keeps_intros]: "keeps (along G P) (call f) \<Longrightarrow> keeps (along G P) (sys_open f)"
  by (auto simp: sys_open_def intro!: keeps_intros)

lemma keeps_handles [keeps_intros]:
  "keeps (along G P) (sys_close i)" "keeps (along G P) (sys_flock i)" "keeps (along G P) (sys_funlock i)"
  "keeps (along G P) (new_uuid f)"
  by (auto simp: sys_close_def sys_flock_def sys_funlock_def new_uuid_def intro!: keeps_intros)

lemma keeps_closing [keeps_intros]:
  "keeps (along G P) m \<Longrightarrow> keeps (along G P) (closing_on_error fd m)"
  "keeps (along G P) m \<Longrightarrow> keeps (along G P) (with_fd fd m)"
  "keeps (along G P) m \<Longrightarrow> keeps (along G P) (domain_failures msg m)"
  by (auto simp: closing_on_error_def with_fd_def domain_failures_def intro!: keeps_intros)

lemma keeps_open_by [keeps_intros]:
  "keeps (along G P) (sys_open (if dir then t_open_dir d n else t_open_read d n))"
  by (cases dir) (auto intro!: keeps_intros)

lemma keeps_bind_named [keeps_intros]: "keeps (along G P) m \<Longrightarrow> keeps (along G P) (bind_named st m msg)"
  by (auto simp: bind_named_def intro!: keeps_intros)

text \<open>The helpers that only look keep every property.\<close>

lemma keeps_trusted_walk [keeps_intros]: "keeps (along G P) (trusted_walk lib fd ps)"
  by (induction lib fd ps rule: trusted_walk.induct) (auto simp: check_directory_def intro!: keeps_intros)

lemma keeps_looks [keeps_intros]:
  "keeps (along G P) (open_trusted_unit_directory lib parts)"
  "keeps (along G P) (bind_clearance_namespace ns)"
  "keeps (along G P) (read_regular_fd lib fd limit)"
  "keeps (along G P) (open_private_named lib name d dir allowed)"
  "keeps (along G P) (check_unit_lock lib d fd)"
  "keeps (along G P) (require_no_pid d msg)"
  by (auto simp: open_trusted_unit_directory_def check_directory_def bind_clearance_namespace_def
      read_regular_fd_def open_private_named_def check_unit_lock_def require_no_pid_def intro!: keeps_intros)

lemma keeps_check_quarantine [keeps_intros]: "keeps (along G P) (check_quarantine lib rq fd msg)"
  by (auto simp: check_quarantine_def intro!: keeps_intros)

lemma keeps_case_json [keeps_intros]:
  "(\<And>d. keeps I (f d)) \<Longrightarrow> keeps I g \<Longrightarrow> keeps I (case v of JObj d \<Rightarrow> f d | _ \<Rightarrow> g)"
  by (cases v) auto

lemma keeps_case_prod [keeps_intros]: "(\<And>a b. keeps I (f a b)) \<Longrightarrow> keeps I (case x of (a, b) \<Rightarrow> f a b)"
  by (cases x) auto

lemma keeps_case_option [keeps_intros]:
  "keeps I f \<Longrightarrow> (\<And>a. keeps I (g a)) \<Longrightarrow> keeps I (case x of None \<Rightarrow> f | Some a \<Rightarrow> g a)"
  by (cases x) auto

lemma keeps_looks2 [keeps_intros]:
  "keeps (along G P) (existing_intent lib a rq fd)"
  "keeps (along G P) (already_completed lib ns rq q)"
  "keeps (along G P) (retired_before lib ns rq q e)"
  "keeps (along G P) (authorize_tombstone lib d rq q e fd)"
  by (auto simp: existing_intent_def already_completed_def retired_before_def authorize_tombstone_def
      intro!: keeps_intros)

section \<open>Properties that housekeeping keeps\<close>

definition tree_wf :: "'b tree \<Rightarrow> bool" where
  "tree_wf t \<longleftrightarrow> (\<forall>d n i. entry_at t d n = Some i \<longrightarrow> d < next_inode t \<and> i < next_inode t)"

definition quarantine_like :: "string \<Rightarrow> bool" where
  "quarantine_like n \<longleftrightarrow> prefix ''.legacy-pid.'' n \<and> suffix ''.quarantine'' n"

definition guarded :: "string \<Rightarrow> bool" where
  "guarded n \<longleftrightarrow> n = pid_name \<or> quarantine_like n"

definition tmp_like :: "string \<Rightarrow> bool" where
  "tmp_like n \<longleftrightarrow> prefix ''.tmp-'' n"

definition only_tmp :: "nat \<Rightarrow> 'b tree \<Rightarrow> bool" where
  "only_tmp i t \<longleftrightarrow> (\<forall>d n. entry_at t d n = Some i \<longrightarrow> tmp_like n)"

text \<open>
  What the clearance does besides moving the tombstone: it creates entries with other names, writes
  files no other name leads to, changes modes, syncs, and removes temporary names.
\<close>

inductive housekeeping :: "'b tree \<Rightarrow> 'b tree \<Rightarrow> bool" where
  hk_new: "t_new d n x t = Inr (i, t') \<Longrightarrow> \<not> guarded n \<Longrightarrow> housekeeping t t'"
| hk_write: "t_write i b t = Inr (u, t') \<Longrightarrow> only_tmp i t \<Longrightarrow> housekeeping t t'"
| hk_fchmod: "t_fchmod e i k t = Inr (u, t') \<Longrightarrow> housekeeping t t'"
| hk_fsync: "t_fsync i t = Inr (u, t') \<Longrightarrow> housekeeping t t'"
| hk_link: "t_link d a b t = Inr (u, t') \<Longrightarrow> \<not> guarded b \<Longrightarrow> housekeeping t t'"
| hk_unlink: "t_unlink d n t = Inr (u, t') \<Longrightarrow> tmp_like n \<Longrightarrow> housekeeping t t'"

definition robust :: "('b tree \<Rightarrow> bool) \<Rightarrow> bool" where
  "robust R \<longleftrightarrow> (\<forall>t. R t \<longrightarrow> tree_wf t) \<and> (\<forall>t t'. R t \<longrightarrow> housekeeping t t' \<longrightarrow> R t')"

lemma robust_wf: "robust R \<Longrightarrow> R t \<Longrightarrow> tree_wf t"
  and robust_step: "robust R \<Longrightarrow> R t \<Longrightarrow> housekeeping t t' \<Longrightarrow> R t'"
  unfolding robust_def by blast+

lemma robust_conj: "robust R \<Longrightarrow> robust S \<Longrightarrow> robust (\<lambda>t. R t \<and> S t)"
  unfolding robust_def by blast

lemma guarded_names [simp]:
  "\<not> guarded lock_name" "\<not> guarded audit_dir_name" "tmp_like n \<Longrightarrow> \<not> guarded n"
  "tmp_like (tmp_of u)" "\<not> guarded (intent_name lib rq)" "\<not> guarded (complete_name lib rq)"
  by (auto simp: guarded_def quarantine_like_def pid_name_def lock_name_def audit_dir_name_def
      tmp_like_def tmp_of_def intent_name_def complete_name_def prefix_def)

lemma is_tmp_name_like: "is_tmp_name n \<Longrightarrow> tmp_like n"
  by (simp add: is_tmp_name_def tmp_like_def)

lemma quarantine_name_like: "quarantine_like (quarantine_name rq u)"
  by (simp add: quarantine_like_def quarantine_name_def suffix_def)

text \<open>Effects of the calls on the entries\<close>

lemma entry_at_new:
  assumes "t_new d n x t = Inr (i, t')"
  obtains "i = next_inode t" "next_inode t' = next_inode t + 1" "entry_at t d n = None" "d < next_inode t"
    "in_kind (inodes t d) = Directory"
    "entry_at t' = (entry_at t)(d := (entry_at t d)(n \<mapsto> next_inode t), next_inode t := Map.empty)"
    "inodes t' = (inodes t)(next_inode t := x)" "names_synced t' = (names_synced t)(next_inode t := [])"
  using assms by (auto simp: t_new_def Let_def entry_at_def fun_eq_iff split: if_splits)

lemma entry_at_write:
  assumes "t_write i b t = Inr (u, t')"
  shows "entry_at t' = entry_at t" "names_synced t' = names_synced t" "next_inode t' = next_inode t"
    "inodes t' = (inodes t)(i := (inodes t i)\<lparr>in_bytes := b\<rparr>)"
  using assms by (auto simp: t_write_def put_inode_def entry_at_def fun_eq_iff)

lemma entry_at_fchmod:
  assumes "t_fchmod e i k t = Inr (u, t')"
  shows "entry_at t' = entry_at t" "names_synced t' = names_synced t" "next_inode t' = next_inode t"
    "inodes t' = (inodes t)(i := (inodes t i)\<lparr>in_mode := k\<rparr>)"
  using assms by (auto simp: t_fchmod_def put_inode_def entry_at_def fun_eq_iff split: if_splits)

lemma entry_at_fsync:
  assumes "t_fsync i t = Inr (u, t')"
  shows "entry_at t' = entry_at t" "next_inode t' = next_inode t" "inodes t' = inodes t"
    "names_synced t' = (names_synced t)(i := names t i)" "names t' = names t"
  using assms by (auto simp: t_fsync_def entry_at_def fun_eq_iff)

lemma entry_at_link:
  assumes "t_link d a b t = Inr (u, t')"
  obtains i where "entry_at t d a = Some i" "entry_at t d b = None"
    "entry_at t' = (entry_at t)(d := (entry_at t d)(b \<mapsto> i))" "names_synced t' = names_synced t"
    "next_inode t' = next_inode t"
    "inodes t' = (inodes t)(i := (inodes t i)\<lparr>in_nlink := in_nlink (inodes t i) + 1\<rparr>)"
  using assms by (auto simp: t_link_def put_inode_def put_names_def entry_at_def fun_eq_iff
      split: if_splits option.splits)

lemma entry_at_unlink:
  assumes "t_unlink d n t = Inr (u, t')"
  obtains i where "entry_at t d n = Some i"
    "entry_at t' = (entry_at t)(d := (entry_at t d)(n := None))" "names_synced t' = names_synced t"
    "next_inode t' = next_inode t"
    "inodes t' = (inodes t)(i := (inodes t i)\<lparr>in_nlink := in_nlink (inodes t i) - 1\<rparr>)"
  using assms by (auto simp: t_unlink_def put_inode_def put_names_def entry_at_def fun_eq_iff delete_conv
      split: if_splits option.splits)


lemma tree_wf_entry: "tree_wf t \<Longrightarrow> entry_at t d n = Some i \<Longrightarrow> d < next_inode t \<and> i < next_inode t"
  by (simp add: tree_wf_def)

text \<open>
  Housekeeping leaves an entry alone unless its name is a temporary one, and makes no guarded entry.
\<close>

lemma housekeeping_entry:
  assumes hk: "housekeeping t t'" and wf: "tree_wf t" and e: "entry_at t d n = Some i" "\<not> tmp_like n"
  shows "entry_at t' d n = Some i"
  using hk
proof (cases rule: housekeeping.cases)
  case (hk_new e k x j)
  with wf e tree_wf_entry [OF wf e(1)] show ?thesis by (auto elim!: entry_at_new)
qed (use e in \<open>auto simp: entry_at_write entry_at_fchmod entry_at_fsync elim!: entry_at_link entry_at_unlink\<close>)

lemma no_entry_beyond: "tree_wf t \<Longrightarrow> entry_at t (next_inode t) n = None"
  using tree_wf_entry [of t "next_inode t" n] by (cases "entry_at t (next_inode t) n") auto

lemma housekeeping_guarded:
  assumes hk: "housekeeping t t'" and wf: "tree_wf t" and n: "guarded n"
  shows "entry_at t' d n = entry_at t d n"
  using hk
proof (cases rule: housekeeping.cases)
  case (hk_new e k x j)
  with wf n no_entry_beyond [OF wf, of n] show ?thesis by (auto elim!: entry_at_new)
qed (use n in \<open>auto simp: entry_at_write entry_at_fchmod entry_at_fsync elim!: entry_at_link entry_at_unlink\<close>)

lemma housekeeping_bytes:
  assumes hk: "housekeeping t t'" and wf: "tree_wf t" and e: "entry_at t d n = Some i" "\<not> tmp_like n"
  shows "in_bytes (inodes t' i) = in_bytes (inodes t i) \<and> in_kind (inodes t' i) = in_kind (inodes t i)"
  using hk
proof (cases rule: housekeeping.cases)
  case (hk_new e k x j)
  with wf e tree_wf_entry [OF wf e(1)] show ?thesis by (auto elim!: entry_at_new)
next
  case (hk_write j b u)
  with e have "j \<noteq> i" by (auto simp: only_tmp_def)
  with hk_write show ?thesis by (simp add: entry_at_write)
qed (auto simp: entry_at_fchmod entry_at_fsync elim!: entry_at_link entry_at_unlink)

lemma tree_wf_housekeeping:
  assumes hk: "housekeeping t t'" and wf: "tree_wf t"
  shows "tree_wf t'"
  using hk
proof (cases rule: housekeeping.cases)
  case (hk_new e k x j)
  then show ?thesis using wf by (elim entry_at_new) (auto simp: tree_wf_def less_Suc_eq split: if_splits)
qed (use wf in \<open>auto simp: tree_wf_def entry_at_write entry_at_fchmod entry_at_fsync elim!: entry_at_link entry_at_unlink split: if_splits\<close>)


section \<open>The tombstone and its record\<close>

definition synced_at :: "'b tree \<Rightarrow> nat \<Rightarrow> string \<Rightarrow> nat option" where
  "synced_at t d n = map_of (names_synced t d) n"

text \<open>
  The file \<open>i\<close> with the bytes \<open>raw\<close> has a guarded name in the directory \<open>d\<close> that holds both now and
  on the disk: no power loss can take it.
\<close>

definition evidence :: "nat \<Rightarrow> nat \<Rightarrow> 'b \<Rightarrow> 'b tree \<Rightarrow> bool" where
  "evidence d i raw t \<longleftrightarrow> in_kind (inodes t i) = Regular \<and> in_bytes (inodes t i) = raw \<and>
     (\<exists>n. guarded n \<and> entry_at t d n = Some i \<and> synced_at t d n = Some i)"

definition quarantines_synced :: "nat \<Rightarrow> nat \<Rightarrow> 'b tree \<Rightarrow> bool" where
  "quarantines_synced d i t \<longleftrightarrow>
     (\<forall>n. quarantine_like n \<longrightarrow> entry_at t d n = Some i \<longrightarrow> synced_at t d n = Some i)"

definition intent_says :: "'b lib \<Rightarrow> request \<Rightarrow> string \<Rightarrow> 'b \<Rightarrow> bool" where
  "intent_says lib rq q b \<longleftrightarrow> (\<exists>e. (b = lb_line lib (lb_dumps lib (JObj e)) \<or> lb_loads lib b = Inr (JObj e)) \<and>
     py_eq (JObj e) (JObj (intent_record lib rq (JStr q))))"

text \<open>The audit directory \<open>a\<close> has the intent of the request, which names the quarantine \<open>q\<close>.\<close>

definition intent_in :: "'b lib \<Rightarrow> request \<Rightarrow> nat \<Rightarrow> string \<Rightarrow> 'b tree \<Rightarrow> bool" where
  "intent_in lib rq a q t \<longleftrightarrow>
     (\<exists>j. entry_at t a (intent_name lib rq) = Some j \<and> intent_says lib rq q (in_bytes (inodes t j)))"

definition on_record :: "'b lib \<Rightarrow> request \<Rightarrow> nat \<Rightarrow> nat \<Rightarrow> 'b tree \<Rightarrow> bool" where
  "on_record lib rq d i t \<longleftrightarrow> (\<exists>a q. entry_at t d audit_dir_name = Some a \<and> intent_in lib rq a q t \<and>
     quarantine_like q \<and> entry_at t d q = Some i)"

definition clearable :: "'b lib \<Rightarrow> request \<Rightarrow> 'b \<Rightarrow> bool" where
  "clearable lib rq raw \<longleftrightarrow> lb_sha256 lib raw = rq_sha256 rq \<and>
     (case lb_loads lib raw of Inl _ \<Rightarrow> False | Inr v \<Rightarrow> legacy_record rq v)"

definition tombstone_safe :: "'b lib \<Rightarrow> request \<Rightarrow> nat \<Rightarrow> nat \<Rightarrow> 'b \<Rightarrow> 'b tree \<Rightarrow> bool" where
  "tombstone_safe lib rq d i raw t \<longleftrightarrow> tree_wf t \<and> evidence d i raw t \<and>
     (entry_at t d pid_name = Some i \<or> clearable lib rq raw \<and> on_record lib rq d i t)"

lemma guarded_not_tmp: "guarded n \<Longrightarrow> \<not> tmp_like n"
  using guarded_names(3) by blast

lemma names_not_tmp [simp]:
  "\<not> tmp_like pid_name" "\<not> tmp_like audit_dir_name" "\<not> tmp_like (intent_name lib rq)"
  "\<not> tmp_like (complete_name lib rq)" "\<not> tmp_like lock_name" "quarantine_like n \<Longrightarrow> \<not> tmp_like n"
  "guarded pid_name" "quarantine_like n \<Longrightarrow> guarded n"
  by (auto simp: tmp_like_def quarantine_like_def pid_name_def audit_dir_name_def intent_name_def
      complete_name_def lock_name_def guarded_def prefix_def)

lemma names_differ [simp]:
  "quarantine_like n \<Longrightarrow> n \<noteq> pid_name" "quarantine_like n \<Longrightarrow> n \<noteq> audit_dir_name"
  "quarantine_like n \<Longrightarrow> n \<noteq> intent_name lib rq"
  "audit_dir_name \<noteq> pid_name" "intent_name lib rq \<noteq> pid_name"
  by (auto simp: quarantine_like_def pid_name_def audit_dir_name_def intent_name_def prefix_def)

lemma housekeeping_synced:
  assumes hk: "housekeeping t t'" and wf: "tree_wf t" and e: "entry_at t d n = Some i"
    and s: "synced_at t d n = Some i"
  shows "synced_at t' d n = Some i"
  using hk
proof (cases rule: housekeeping.cases)
  case (hk_new e k x j)
  with s tree_wf_entry [OF wf e] show ?thesis by (auto simp: synced_at_def elim!: entry_at_new)
next
  case (hk_fsync j u)
  with e s show ?thesis by (auto simp: synced_at_def entry_at_fsync) (simp add: entry_at_def)
qed (use s in \<open>auto simp: synced_at_def entry_at_write entry_at_fchmod elim!: entry_at_link entry_at_unlink\<close>)

lemma robust_evidence: "robust (\<lambda>t. tree_wf t \<and> evidence d i raw t)"
  unfolding robust_def evidence_def
  by (auto simp: tree_wf_housekeeping housekeeping_guarded dest: housekeeping_synced
      housekeeping_bytes [OF _ _ _ guarded_not_tmp] intro!: exI)

lemma robust_quarantines: "robust (\<lambda>t. tree_wf t \<and> quarantines_synced d i t)"
  unfolding robust_def quarantines_synced_def
  by (auto simp: tree_wf_housekeeping housekeeping_guarded dest: housekeeping_synced)

lemma robust_pid: "robust (\<lambda>t. tree_wf t \<and> entry_at t d pid_name = Some i)"
  unfolding robust_def by (auto simp: tree_wf_housekeeping housekeeping_guarded)

lemma intent_in_housekeeping:
  assumes "housekeeping t t'" "tree_wf t" "intent_in lib rq a q t"
  shows "intent_in lib rq a q t'"
proof -
  from assms(3) obtain j where "entry_at t a (intent_name lib rq) = Some j"
      "intent_says lib rq q (in_bytes (inodes t j))"
    by (auto simp: intent_in_def)
  with housekeeping_entry [OF assms(1,2) this(1)] housekeeping_bytes [OF assms(1,2) this(1)]
  show ?thesis by (auto simp: intent_in_def)
qed

lemma robust_intent: "robust (\<lambda>t. tree_wf t \<and> intent_in lib rq a q t)"
  unfolding robust_def by (blast intro: tree_wf_housekeeping intent_in_housekeeping)

lemma robust_on_record: "robust (\<lambda>t. tree_wf t \<and> on_record lib rq d i t)"
  unfolding robust_def
proof (intro conjI allI impI)
  fix t t' assume t: "tree_wf t \<and> on_record lib rq d i t" and hk: "housekeeping t t'"
  then obtain a q where "entry_at t d audit_dir_name = Some a" "intent_in lib rq a q t"
      "quarantine_like q" "entry_at t d q = Some i"
    by (auto simp: on_record_def)
  with t hk show "on_record lib rq d i t'"
    unfolding on_record_def
    by (intro exI [of _ a] exI [of _ q]) (simp add: housekeeping_entry intent_in_housekeeping)
qed (auto simp: tree_wf_housekeeping)

lemma robust_safe: "robust (tombstone_safe lib rq d i raw)"
  unfolding robust_def
proof (intro conjI allI impI)
  fix t t' assume "tombstone_safe lib rq d i raw t" and hk: "housekeeping t t'"
  then show "tombstone_safe lib rq d i raw t'"
    using robust_step [OF robust_evidence [of d i raw] _ hk] robust_step [OF robust_pid [of d i] _ hk]
      robust_step [OF robust_on_record [of lib rq d i] _ hk]
    unfolding tombstone_safe_def by blast
qed (simp add: tombstone_safe_def)


section \<open>Housekeeping keeps them\<close>

lemma keeps_housekeeping:
  assumes "robust G" "robust P" "\<And>t a t'. f t = Inr (a, t') \<Longrightarrow> housekeeping t t'"
  shows "keeps (along G P) (call f)"
  by (rule keeps_call) (use assms robust_step in blast)

lemma keeps_housework [keeps_intros]:
  assumes G: "robust G" and P: "robust P"
  shows "\<not> guarded n \<Longrightarrow> keeps (along G P) (call (t_create e x d n))"
    "\<not> guarded n \<Longrightarrow> keeps (along G P) (call (t_mkdir e x d n))"
    "keeps (along G P) (call (t_fchmod e i k))"
    "keeps (along G P) (call (t_fsync i))"
    "\<not> guarded b \<Longrightarrow> keeps (along G P) (call (t_link d a b))"
    "tmp_like n \<Longrightarrow> keeps (along G P) (call (t_unlink d n))"
  unfolding t_create_def t_mkdir_def
  by (rule keeps_housekeeping [OF G P]; blast intro: housekeeping.intros)+

lemma keeps_open_unit_lock [keeps_intros]:
  "robust G \<Longrightarrow> robust P \<Longrightarrow> keeps (along G P) (open_unit_lock lib d)"
  unfolding open_unit_lock_def by (auto intro!: keeps_intros)

lemma keeps_open_audit_directory [keeps_intros]:
  "robust G \<Longrightarrow> robust P \<Longrightarrow> keeps (along G P) (open_audit_directory lib d)"
  unfolding open_audit_directory_def by (auto intro!: keeps_intros)

text \<open>What \<^verbatim>\<open>_recover_audit_link\<close> removes has a temporary name.\<close>

lemma emap_tmp_names:
  assumes "emap (\<lambda>n. if is_tmp_name n then ebind (f n) (\<lambda>st. eret (if g n st then [n] else []))
      else eret []) ns s = (Inr xss, s')"
  shows "list_all tmp_like (concat xss)"
  using assms
proof (induction ns arbitrary: s xss)
  case (Cons n ns)
  then obtain ys yss s1 where y: "(if is_tmp_name n then ebind (f n) (\<lambda>st. eret (if g n st then [n] else []))
      else eret []) s = (Inr ys, s1)" and rest: "emap (\<lambda>n. if is_tmp_name n then
      ebind (f n) (\<lambda>st. eret (if g n st then [n] else [])) else eret []) ns s1 = (Inr yss, s')"
      and xss: "xss = ys # yss"
    by (auto elim!: ebind_InrE simp: run_Inr)
  from y have "list_all tmp_like ys"
    by (auto elim!: ebind_InrE simp: run_Inr is_tmp_name_like split: if_splits)
  with Cons.IH [OF rest] xss show ?case by simp
qed (simp add: run_Inr)

lemma keeps_ebind_when:
  assumes m: "keeps I m" and C: "\<And>s a s'. m s = (Inr a, s') \<Longrightarrow> C a" and f: "\<And>a. C a \<Longrightarrow> keeps I (f a)"
  shows "keeps I (ebind m f)"
proof (rule keeps_runI)
  fix s r s' assume "ebind m f s = (r, s')" and I: "I s"
  then show "I s'"
    by (cases rule: ebind_cases) (use keeps_run [OF m _ I] keeps_run [OF f [OF C]] in blast)+
qed

lemma keeps_recover [keeps_intros]:
  assumes "robust G" "robust P"
  shows "keeps (along G P) (recover_audit_link fd st d)"
proof -
  have one: "keeps (along G P) (case concat found of
      [n] \<Rightarrow> ebind (call (t_unlink d n)) (\<lambda>_. ebind (call (t_fsync d)) (\<lambda>_. ebind (call (t_fstat fd)) (\<lambda>st.
        if st_nlink st \<noteq> 1 then eraise (tombstone_error ''published audit has unexpected extra links'')
        else eret ())))
    | _ \<Rightarrow> eraise (tombstone_error ''published audit has unexpected extra links''))"
    if "list_all tmp_like (concat found)" for found :: "string list list"
    using that assms by (auto intro!: keeps_intros split: list.splits)
  have many: "keeps (along G P) (emap (\<lambda>n. if is_tmp_name n then
      ebind (call (t_stat d n)) (\<lambda>st'. eret (if same_inode st st' then [n] else [])) else eret []) ns)" for ns
    by (auto intro!: keeps_intros)
  show ?thesis
    unfolding recover_audit_link_def
    by (intro keeps_if keeps_ebind [OF keeps_peeks(9)] keeps_pure
        keeps_ebind_when [where C = "\<lambda>f. list_all tmp_like (concat f)", OF many] one)
      (erule emap_tmp_names)
qed


text \<open>A published record is there with its bytes.\<close>

definition wrote :: "nat \<Rightarrow> string \<Rightarrow> 'b \<Rightarrow> 'b tree \<Rightarrow> bool" where
  "wrote d n b t \<longleftrightarrow> (\<exists>j. entry_at t d n = Some j \<and> in_bytes (inodes t j) = b)"

lemma robust_wrote:
  assumes "\<not> tmp_like n"
  shows "robust (\<lambda>t. tree_wf t \<and> wrote d n b t)"
  unfolding robust_def
proof (intro conjI allI impI)
  fix t t' assume t: "tree_wf t \<and> wrote d n b t" and hk: "housekeeping t t'"
  then obtain j where "entry_at t d n = Some j" "in_bytes (inodes t j) = b" by (auto simp: wrote_def)
  with housekeeping_entry [OF hk _ this(1) assms] housekeeping_bytes [OF hk _ this(1) assms] t
  show "wrote d n b t'" by (auto simp: wrote_def)
qed (auto simp: tree_wf_housekeeping)

definition tmp_file :: "nat \<Rightarrow> string \<Rightarrow> nat \<Rightarrow> 'b tree \<Rightarrow> bool" where
  "tmp_file d n i t \<longleftrightarrow> entry_at t d n = Some i \<and> only_tmp i t"

lemma triple_call_from:
  assumes "\<And>t a t'. G t \<Longrightarrow> P t \<Longrightarrow> X t \<Longrightarrow> f t = Inr (a, t') \<Longrightarrow> (G t' \<and> P t') \<and> Y a t'"
  shows "triple (along G (\<lambda>t. P t \<and> X t)) (call f) (\<lambda>a. along G (\<lambda>t. P t \<and> Y a t)) (\<lambda>_. along G P)"
proof (rule triple_conseq)
  show "triple (along G (\<lambda>t. P t \<and> X t)) (call f) (\<lambda>a. along G (\<lambda>t. P t \<and> Y a t)) (\<lambda>_. along G (\<lambda>t. P t \<and> X t))"
    by (rule triple_call) (blast dest: assms)
qed (simp_all add: along_def)

lemma robust_steps: "robust G \<Longrightarrow> robust P \<Longrightarrow> G t \<Longrightarrow> P t \<Longrightarrow> housekeeping t t' \<Longrightarrow> G t' \<and> P t'"
  using robust_step by blast

lemma tmp_file_new:
  assumes new: "t_new d n y t = Inr (i, t')" and wf: "tree_wf t" and n: "tmp_like n"
  shows "tmp_file d n i t'"
proof -
  have fresh: "entry_at t e k \<noteq> Some (next_inode t)" for e k
    using tree_wf_entry [OF wf, of e k "next_inode t"] by auto
  from new have i: "i = next_inode t" "d \<noteq> i"
    and e: "entry_at t' = (entry_at t)(d := (entry_at t d)(n \<mapsto> i), i := Map.empty)"
    by (auto elim!: entry_at_new)
  have "tmp_like k" if "entry_at t' c k = Some i" for c k
    using that n fresh [of c k] i(1) unfolding e by (cases "c = d"; cases "k = n"; cases "c = i") simp_all
  moreover have "entry_at t' d n = Some i" using i unfolding e by simp
  ultimately show ?thesis by (simp add: tmp_file_def only_tmp_def)
qed

lemma triple_create_tmp:
  assumes G: "robust G" and P: "robust P" and n: "tmp_like n"
  shows "triple (along G P) (sys_open (t_create e x d n))
     (\<lambda>fd. along G (\<lambda>t. P t \<and> tmp_file d n fd t)) (\<lambda>_. along G P)"
proof -
  have "triple (along G P) (call (t_create e x d n)) (\<lambda>fd. along G (\<lambda>t. P t \<and> tmp_file d n fd t)) (\<lambda>_. along G P)"
  proof (rule triple_call)
    fix t i t' assume t: "G t" "P t" and "t_create e x d n t = Inr (i, t')"
    then obtain y where new: "t_new d n y t = Inr (i, t')" by (auto simp: t_create_def)
    with t G P n show "G t' \<and> P t' \<and> tmp_file d n i t'"
      using robust_steps [OF G P t hk_new [OF new]] tmp_file_new [OF new robust_wf [OF G] n] by simp
  qed
  then show ?thesis
    unfolding sys_open_def by (rule triple_ebind) (simp add: triple_def eff_defs)
qed

lemma triple_write_tmp:
  assumes G: "robust G" and P: "robust P"
  shows "triple (along G (\<lambda>t. P t \<and> tmp_file d n i t)) (call (t_write i b))
     (\<lambda>_. along G (\<lambda>t. P t \<and> tmp_file d n i t \<and> in_bytes (inodes t i) = b)) (\<lambda>_. along G P)"
proof (rule triple_call_from, rule conjI)
  fix t u t' assume t: "G t" "P t" and tmp: "tmp_file d n i t" and w: "t_write i b t = Inr (u, t')"
  with robust_steps [OF G P t hk_write [OF w]] show "G t' \<and> P t'" by (simp add: tmp_file_def)
  from tmp w show "tmp_file d n i t' \<and> in_bytes (inodes t' i) = b"
    by (simp add: tmp_file_def only_tmp_def entry_at_write)
qed

lemma triple_settle_tmp:
  assumes G: "robust G" and P: "robust P"
  shows "triple (along G (\<lambda>t. P t \<and> tmp_file d n i t \<and> in_bytes (inodes t i) = b)) (call (t_fsync k))
      (\<lambda>_. along G (\<lambda>t. P t \<and> tmp_file d n i t \<and> in_bytes (inodes t i) = b)) (\<lambda>_. along G P)"
    "triple (along G (\<lambda>t. P t \<and> tmp_file d n i t \<and> in_bytes (inodes t i) = b)) (call (t_fchmod e k md))
      (\<lambda>_. along G (\<lambda>t. P t \<and> tmp_file d n i t \<and> in_bytes (inodes t i) = b)) (\<lambda>_. along G P)"
  by (rule triple_call_from, rule conjI, rule robust_steps [OF G P], assumption+,
      blast intro: housekeeping.intros,
      auto simp: tmp_file_def only_tmp_def entry_at_fsync entry_at_fchmod)+

lemma triple_publish_tmp:
  assumes G: "robust G" and P: "robust P" and final: "\<not> guarded final" "\<not> tmp_like final"
  shows "triple (along G (\<lambda>t. P t \<and> tmp_file d n i t \<and> in_bytes (inodes t i) = b)) (call (t_link d n final))
      (\<lambda>_. along G (\<lambda>t. P t \<and> wrote d final b t)) (\<lambda>_. along G P)"
proof (rule triple_call_from, rule conjI)
  fix t u t' assume t: "G t" "P t" and tmp: "tmp_file d n i t \<and> in_bytes (inodes t i) = b"
    and l: "t_link d n final t = Inr (u, t')"
  from robust_steps [OF G P t hk_link [OF l final(1)]] show "G t' \<and> P t'" .
  from tmp l show "wrote d final b t'" by (auto simp: tmp_file_def wrote_def elim!: entry_at_link)
qed

lemma triple_atomic_private_json:
  assumes G: "robust G" and P: "robust P" and final: "\<not> guarded final" "\<not> tmp_like final"
  shows "triple (along G P) (atomic_private_json lib d final v)
     (\<lambda>_. along G (\<lambda>t. P t \<and> wrote d final (lb_line lib (lb_dumps lib v)) t)) (\<lambda>_. along G P)"
proof -
  let ?b = "lb_line lib (lb_dumps lib v)"
  have W: "robust (\<lambda>t. P t \<and> wrote d final ?b t)"
    using robust_conj [OF P robust_wrote [OF final(2), of d ?b]] robust_wf [OF P]
    unfolding robust_def by blast
  have later: "triple (along G (\<lambda>t. P t \<and> wrote d final ?b t)) m
      (\<lambda>_. along G (\<lambda>t. P t \<and> wrote d final ?b t)) (\<lambda>_. along G P)"
    if "\<And>P. robust P \<Longrightarrow> keeps (along G P) m" for m :: "('a, 'c) sys"
    by (rule keeps_triple_weaken [OF that [OF W]]) (auto simp: along_def)
  have raised: "triple (along G P) m (\<lambda>_. along G P) (\<lambda>_. along G P)"
    if "\<And>P. robust P \<Longrightarrow> keeps (along G P) m" for m :: "('a, 'c) sys"
    by (rule keeps_triple [OF that [OF P]])
  have body: "triple (along G (\<lambda>t. P t \<and> tmp_file d (tmp_of u) fd t))
      (ebind (call (t_write fd (lb_cut lib ?b))) (\<lambda>_. ebind (call (t_write fd ?b)) (\<lambda>_.
       ebind (call (t_fsync fd)) (\<lambda>_. ebind (call (t_fchmod (lb_euid lib) fd 384)) (\<lambda>_.
       ebind (call (t_fsync fd)) (\<lambda>_. ebind (call (t_link d (tmp_of u) final)) (\<lambda>_.
       ebind (call (t_fsync d)) (\<lambda>_. ebind (call (t_stat d final)) (\<lambda>published.
       ebind (call (t_fstat fd)) (\<lambda>opened.
       if same_inode published opened then eret ()
       else eraise (tombstone_error ''published audit pathname identity changed'')))))))))))
      (\<lambda>_. along G (\<lambda>t. P t \<and> wrote d final ?b t)) (\<lambda>_. along G P)" for u fd
    apply (rule triple_ebind [OF triple_write_tmp [OF G P]])
    apply (rule triple_ebind [OF triple_pre [OF triple_write_tmp [OF G P]]])
     apply (auto simp: along_def)[1]
    apply (rule triple_ebind [OF triple_settle_tmp(1) [OF G P]])
    apply (rule triple_ebind [OF triple_settle_tmp(2) [OF G P]])
    apply (rule triple_ebind [OF triple_settle_tmp(1) [OF G P]])
    apply (rule triple_ebind [OF triple_publish_tmp [OF G P final]])
    apply (rule later)
    apply (auto intro!: keeps_intros G)
    done
  show ?thesis
    unfolding atomic_private_json_def Let_def
    apply (cases "audit_limit < lb_size lib ?b")
     apply (simp, rule triple_eraise, simp)
    apply simp
    apply (rule triple_ebind [OF raised])
     apply (auto intro!: keeps_intros)[1]
    apply (rule triple_ebind [OF triple_create_tmp [OF G P]], simp)
    apply (rule triple_efinally [OF body])
     apply (rule later, auto intro!: keeps_intros G)[1]
    apply (rule raised, auto intro!: keeps_intros G)
    done
qed

section \<open>What a successful step has seen\<close>

lemma call_Inr: "call f m = (Inr a, m') \<Longrightarrow> f (tree m) = Inr (a, tree m')"
  by (auto elim!: call_cases)

lemma stat_run:
  assumes "call (t_stat d n) m = (Inr st, m')"
  obtains i where "tree m' = tree m" "entry_at (tree m) d n = Some i" "st = stat_of (tree m) i"
  using call_Inr [OF assms] by (auto simp: t_stat_def split: option.splits)

lemma fstat_run: "call (t_fstat i) m = (Inr st, m') \<Longrightarrow> tree m' = tree m \<and> st = stat_of (tree m) i"
  by (drule call_Inr) (auto simp: t_fstat_def)

lemma with_fd_run:
  assumes "with_fd fd c m = (Inr a, m')"
  obtains m1 where "c m = (Inr a, m1)" "tree m' = tree m1"
  using assms by (auto simp: with_fd_def efinally_def sys_close_def emod_def split: prod.splits sum.splits)

lemma read_run:
  assumes "read_regular_fd lib fd limit m = (Inr raw, m')"
  shows "tree m' = tree m \<and> raw = in_bytes (inodes (tree m) fd) \<and> in_kind (inodes (tree m) fd) = Regular"
  using assms unfolding read_regular_fd_def
  by (elim ebind_InrE, drule_tac call_Inr) (auto simp: t_read_def run_Inr split: if_splits)

lemma bind_named_run:
  assumes "bind_named st (call (t_stat d n)) msg m = (Inr u, m')"
  shows "tree m' = tree m \<and> entry_at (tree m) d n = Some (st_ino st)"
  using assms unfolding bind_named_def
  by (auto simp: etry_def run_Inr eraise_def same_inode_def elim!: ebind_InrE stat_run split: prod.splits sum.splits if_splits)

lemma same_tree:
  assumes "\<And>G P. keeps (along G P) c"
  shows "c m = (r, m') \<Longrightarrow> tree m' = tree m"
  using keeps_run [OF assms [of "\<lambda>_. True" "\<lambda>t. t = tree m"], of m r m'] by (simp add: along_def)

lemmas same_tree_stat_path = same_tree [OF keeps_bind_named [OF keeps_peeks(7)]]
lemmas same_tree_namespace = same_tree [OF keeps_looks(2)]

lemma bind_namespace_run:
  assumes "bind_clearance_namespace ns m = (Inr u, m')"
  shows "tree m' = tree m \<and> entry_at (tree m) (ns_dir ns) audit_dir_name = Some (st_ino (ns_audit_st ns))"
proof -
  from assms obtain m1 m2 m3 u1 u2 where
      1: "bind_named (ns_unit ns) (call (t_stat_path (ns_parts ns))) ''unit directory pathname identity changed'' m = (Inr u1, m1)"
    and 2: "bind_named (ns_lock ns) (call (t_stat (ns_dir ns) lock_name)) ''unit lock pathname identity changed'' m1 = (Inr u2, m2)"
    and 3: "bind_named (ns_audit_st ns) (call (t_stat (ns_dir ns) audit_dir_name)) ''audit directory pathname identity changed'' m2 = (Inr (), m3)"
    unfolding bind_clearance_namespace_def by (auto elim!: ebind_InrE)
  have "tree m' = tree m" using assms by (rule same_tree_namespace)
  moreover have "tree m1 = tree m" using 1 by (rule same_tree_stat_path)
  ultimately show ?thesis using bind_named_run [OF 2] bind_named_run [OF 3] by simp
qed

lemma intent_record_eq: "py_eq (JObj (intent_record lib rq (JStr q))) (JObj (intent_record lib rq (JStr q)))"
  by (simp add: intent_record_def index_fields_def)

lemma safe_basename_quarantine:
  "safe_internal_basename v ''.legacy-pid.'' ''.quarantine'' = Inr q \<Longrightarrow> v = JStr q \<and> quarantine_like q"
  by (cases v) (auto simp: safe_internal_basename_def quarantine_like_def split: if_splits)

lemma existing_intent_run:
  assumes "existing_intent lib a rq fd m = (Inr (d, q), m')"
  shows "quarantine_like q \<and> py_eq (JObj d) (JObj (intent_record lib rq (JStr q))) \<and>
    intent_in lib rq a q (tree m')"
proof -
  from assms obtain intent m1 where "with_fd fd
       (ebind (read_regular_fd lib fd audit_limit) (\<lambda>raw.
        ebind (elift (loads_or lib raw ''clearance intent is malformed'')) (\<lambda>intent.
        ebind (call (t_fstat fd)) (\<lambda>ist.
        ebind (call (t_stat a (intent_name lib rq))) (\<lambda>named.
        if \<not> same_inode ist named then eraise (tombstone_error ''clearance intent pathname identity changed'')
        else eret intent))))) m = (Inr intent, m1)"
      and rest: "intent = JObj d" "py_eq (JObj d) (JObj (intent_record lib rq (dict_get d ''quarantine'' JNull)))"
        "safe_internal_basename (dict_get d ''quarantine'' JNull) ''.legacy-pid.'' ''.quarantine'' = Inr q"
        "tree m' = tree m1"
    unfolding existing_intent_def
    by (elim ebind_InrE) (auto simp: run_Inr elim!: ebind_InrE split: json.splits if_splits)
  then have "entry_at (tree m1) a (intent_name lib rq) = Some fd \<and> lb_loads lib (in_bytes (inodes (tree m1) fd)) = Inr (JObj d)"
    by (auto simp: run_Inr same_inode_def loads_or_def elim!: with_fd_run ebind_InrE stat_run
        dest!: read_run fstat_run split: if_splits sum.splits)
  with rest safe_basename_quarantine [OF rest(3)] show ?thesis
    by (auto simp: intent_in_def intent_says_def)
qed


lemma load_intent_run:
  assumes "load_intent lib a rq fresh m = (Inr (d, q, e), m')" "quarantine_like fresh"
  shows "quarantine_like q \<and> py_eq (JObj d) (JObj (intent_record lib rq (JStr q))) \<and>
    (e \<longrightarrow> intent_in lib rq a q (tree m'))"
proof -
  from assms(1) obtain r m1 where "(case r of
       None \<Rightarrow> eret (intent_record lib rq (JStr fresh), fresh, False)
     | Some fd \<Rightarrow> ebind (existing_intent lib a rq fd) (\<lambda>(d, q). eret (d, q, True))) m1 = (Inr (d, q, e), m')"
    unfolding load_intent_def by (auto elim!: ebind_InrE)
  then show ?thesis
    using assms(2) by (cases r) (auto simp: run_Inr intent_record_eq simp del: py_eq.simps
        elim!: ebind_InrE dest!: existing_intent_run)
qed

lemma keeps_load_intent [keeps_intros]:
  "robust G \<Longrightarrow> robust P \<Longrightarrow> keeps (along G P) (load_intent lib a rq fresh)"
  unfolding load_intent_def by (auto intro!: keeps_intros)

lemma keeps_read_exact_audit [keeps_intros]:
  "robust G \<Longrightarrow> robust P \<Longrightarrow> keeps (along G P) (read_exact_audit lib a n v)"
  unfolding read_exact_audit_def by (auto intro!: keeps_intros)

lemma keeps_atomic_private_json [keeps_intros]:
  assumes "robust G" "robust P" "\<not> guarded n" "\<not> tmp_like n"
  shows "keeps (along G P) (atomic_private_json lib a n v)"
  by (rule triple_keeps, rule triple_conseq [OF triple_atomic_private_json [OF assms]]) (auto simp: along_def)

lemma authorize_run:
  assumes "authorize_tombstone lib d rq q e fd m = (Inr pst, m')"
  shows "st_ino pst = fd \<and> clearable lib rq (in_bytes (inodes (tree m') fd))"
proof -
  have same: "tree m' = tree m" using assms by (rule same_tree [OF keeps_looks2(4)])
  from assms obtain raw v m1 m2 m3 m4 m5 where
      "call (t_fstat fd) m = (Inr pst, m1)" "read_regular_fd lib fd tombstone_limit m1 = (Inr raw, m2)"
      "lb_sha256 lib raw = rq_sha256 rq" "loads_or lib raw ''legacy tombstone is malformed'' = Inr v"
      "legacy_record rq v"
    unfolding authorize_tombstone_def by (auto simp: run_Inr elim!: ebind_InrE split: if_splits)
  then show ?thesis
    using same by (auto simp: clearable_def loads_or_def dest!: fstat_run read_run split: sum.splits)
qed

text \<open>A fact seen at run time, added to what a computation keeps\<close>

lemma triple_run:
  assumes k: "keeps (along G P) c"
    and y: "\<And>m a m'. c m = (Inr a, m') \<Longrightarrow> G (tree m') \<Longrightarrow> P (tree m') \<Longrightarrow> Y a (tree m')"
  shows "triple (along G P) c (\<lambda>a. along G (\<lambda>t. P t \<and> Y a t)) (\<lambda>_. along G P)"
  unfolding triple_def
proof (intro allI impI conjI)
  fix m r m' a assume "along G P m" "c m = (r, m')" "r = Inr a"
  moreover from this keeps_run [OF k] have "along G P m'" by blast
  ultimately show "along G (\<lambda>t. P t \<and> Y a t) m'" using y [of m a m'] by (simp add: along_def)
next
  fix m r m' assume "along G P m" "c m = (r, m')"
  with keeps_run [OF k] show "along G P m'" by blast
qed

text \<open>Linking the tombstone to its quarantine\<close>

lemma link_keeps_entry:
  "t_link e a b t = Inr (u, t') \<Longrightarrow> entry_at t d n = Some i \<Longrightarrow> entry_at t' d n = Some i"
  by (auto elim!: entry_at_link)

lemma link_keeps_inode:
  "t_link e a b t = Inr (u, t') \<Longrightarrow>
     in_bytes (inodes t' i) = in_bytes (inodes t i) \<and> in_kind (inodes t' i) = in_kind (inodes t i)"
  by (auto elim!: entry_at_link)

lemma link_keeps_synced: "t_link e a b t = Inr (u, t') \<Longrightarrow> synced_at t' d n = synced_at t d n"
  by (auto simp: synced_at_def elim!: entry_at_link)

lemma link_keeps_wf: "t_link e a b t = Inr (u, t') \<Longrightarrow> tree_wf t \<Longrightarrow> tree_wf t'"
  by (auto simp: tree_wf_def elim!: entry_at_link split: if_splits)

lemma link_keeps_intent:
  assumes "t_link e a b t = Inr (u, t')" "intent_in lib rq c q t"
  shows "intent_in lib rq c q t'"
  using assms(2) link_keeps_entry [OF assms(1)] link_keeps_inode [OF assms(1)]
  unfolding intent_in_def by metis

lemma safe_link:
  assumes l: "t_link e a b t = Inr (u, t')" and safe: "tombstone_safe lib rq d i raw t"
  shows "tombstone_safe lib rq d i raw t'"
proof -
  have "evidence d i raw t'"
    using safe link_keeps_entry [OF l] link_keeps_inode [OF l] link_keeps_synced [OF l]
    unfolding tombstone_safe_def evidence_def by metis
  moreover have "on_record lib rq d i t \<Longrightarrow> on_record lib rq d i t'"
    using link_keeps_entry [OF l] link_keeps_intent [OF l] unfolding on_record_def by metis
  ultimately show ?thesis
    using safe link_keeps_wf [OF l] link_keeps_entry [OF l] unfolding tombstone_safe_def by blast
qed

definition linked :: "nat \<Rightarrow> nat \<Rightarrow> nat \<Rightarrow> string \<Rightarrow> 'b tree \<Rightarrow> bool" where
  "linked d i e q t \<longleftrightarrow>
     (\<exists>j. entry_at t e q = Some j \<and> (e = d \<longrightarrow> j = i \<longrightarrow> synced_at t e q = Some j))"

lemma linked_fsync: "t_fsync k t = Inr (u, t') \<Longrightarrow> linked d i e q t \<Longrightarrow> linked d i e q t'"
  by (auto simp: linked_def synced_at_def entry_at_fsync) (simp add: entry_at_def)

lemma io_exc_exists: "\<not> instance_of (io_exc c) FileExistsError"
  by (cases c) (simp_all add: subclass_of_def)

lemma stat_entry_run: "call (t_stat d n) m = (Inr st, m') \<Longrightarrow> entry_at (tree m') d n = Some (st_ino st)"
  by (erule stat_run) simp

lemma triple_link_quarantine:
  fixes K :: "'b tree \<Rightarrow> bool"
  assumes q: "quarantine_like q"
    and K: "\<And>e a b t u t'. t_link e a b t = Inr (u, t') \<Longrightarrow> K t \<Longrightarrow> K t'"
      "\<And>k t u t'. t_fsync k t = Inr (u, t') \<Longrightarrow> K t \<Longrightarrow> K t'"
  shows "triple (along (tombstone_safe lib rq d i raw) (\<lambda>t. K t \<and> quarantines_synced d i t)) (link_quarantine e q pst)
     (\<lambda>_. along (tombstone_safe lib rq d i raw) (\<lambda>t. K t \<and> linked d i e q t))
     (\<lambda>_. along (tombstone_safe lib rq d i raw) (\<lambda>_. True))"
proof -
  let ?G = "tombstone_safe lib rq d i raw"
  let ?P = "\<lambda>t. K t \<and> quarantines_synced d i t"
  let ?Q = "\<lambda>_. along ?G (\<lambda>t. K t \<and> linked d i e q t)"
  let ?R = "\<lambda>x m. along ?G (\<lambda>_. True) m \<and> (instance_of x FileExistsError \<longrightarrow> along ?G ?P m)"
  have link: "triple (along ?G ?P) (call (t_link e pid_name q))
      (\<lambda>_. along ?G (\<lambda>t. K t \<and> (\<exists>j. entry_at t e q = Some j))) ?R"
    by (rule triple_conseq [OF triple_call [where P = ?P and Q = "\<lambda>_ t. K t \<and> (\<exists>j. entry_at t e q = Some j)"]])
      (auto intro: safe_link K(1) elim: entry_at_link simp: along_def)
  have sync: "triple (along ?G (\<lambda>t. K t \<and> (\<exists>j. entry_at t e q = Some j))) (call (t_fsync e)) ?Q ?R"
    unfolding triple_def
  proof (intro allI impI)
    fix m r m' assume m: "along ?G (\<lambda>t. K t \<and> (\<exists>j. entry_at t e q = Some j)) m" and run: "call (t_fsync e) m = (r, m')"
    from run show "(\<forall>a. r = Inr a \<longrightarrow> ?Q a m') \<and> (\<forall>x. r = Inl x \<longrightarrow> ?R x m')"
    proof (cases rule: call_cases)
      case (failed x)
      with m show ?thesis by (auto simp: along_def t_fsync_def io_exc_exists)
    next
      case (worked u t)
      with m robust_step [OF robust_safe _ hk_fsync [OF worked(2)]] K(2) [OF worked(2)]
      have "?G t" "K t" by (auto simp: along_def)
      moreover from m worked(2) have "linked d i e q t"
        by (auto simp: along_def linked_def synced_at_def t_fsync_def entry_at_def)
      ultimately show ?thesis using m worked by (auto simp: along_def)
    qed
  qed
  have stat: "triple (along ?G ?P) (call (t_stat e q))
      (\<lambda>st. along ?G (\<lambda>t. ?P t \<and> entry_at t e q = Some (st_ino st))) (\<lambda>_. along ?G ?P)"
    by (rule triple_run) (auto intro: keeps_intros stat_entry_run)
  have handler: "triple (along ?G ?P) (ebind (call (t_stat e q)) (\<lambda>qst.
      if same_inode qst pst then eret () else eraise (tombstone_error ''quarantine collision''))) ?Q
      (\<lambda>_. along ?G (\<lambda>_. True))"
  proof (rule triple_ebind)
    show "triple (along ?G ?P) (call (t_stat e q))
        (\<lambda>st. along ?G (\<lambda>t. ?P t \<and> entry_at t e q = Some (st_ino st))) (\<lambda>_. along ?G (\<lambda>_. True))"
      by (rule triple_conseq [OF stat]) (simp_all add: along_def)
  qed (use q in \<open>auto simp: triple_def eff_defs along_def linked_def quarantines_synced_def\<close>)
  show ?thesis
    unfolding link_quarantine_def
    by (rule triple_etry [OF triple_ebind [OF link sync]])
      (auto intro: triple_pre [OF handler])
qed

text \<open>Removing the name of the tombstone\<close>

lemma unlink_keeps:
  assumes "t_unlink e b t = Inr (u, t')"
  shows "entry_at t d n = Some i \<Longrightarrow> d \<noteq> e \<or> n \<noteq> b \<Longrightarrow> entry_at t' d n = Some i"
    "in_bytes (inodes t' i) = in_bytes (inodes t i)" "in_kind (inodes t' i) = in_kind (inodes t i)"
    "synced_at t' d n = synced_at t d n" "tree_wf t \<Longrightarrow> tree_wf t'"
  using assms by (auto simp: synced_at_def tree_wf_def elim!: entry_at_unlink split: if_splits)

lemma unlink_keeps_intent:
  assumes u: "t_unlink e pid_name t = Inr (u, t')" and "intent_in lib rq a q t"
  shows "intent_in lib rq a q t'"
proof -
  from assms(2) obtain j where j: "entry_at t a (intent_name lib rq) = Some j"
      "intent_says lib rq q (in_bytes (inodes t j))"
    by (auto simp: intent_in_def)
  from unlink_keeps(1) [OF u j(1)] have "entry_at t' a (intent_name lib rq) = Some j" by simp
  with j(2) show ?thesis by (auto simp: intent_in_def unlink_keeps(2) [OF u])
qed

lemma safe_unlink:
  assumes safe: "tombstone_safe lib rq d i raw t" and u: "t_unlink e pid_name t = Inr (u, t')"
    and q: "quarantine_like q" "entry_at t e q = Some j" "e = d \<Longrightarrow> j = i \<Longrightarrow> synced_at t e q = Some j"
    and pid: "entry_at t e pid_name = Some j" and c: "j = i \<Longrightarrow> clearable lib rq raw"
    and a: "entry_at t e audit_dir_name = Some a" "intent_in lib rq a q t"
  shows "tombstone_safe lib rq d i raw t'"
proof -
  note keep = unlink_keeps [OF u] and intent = unlink_keeps_intent [OF u]
  have old: "on_record lib rq d i t'" if r: "on_record lib rq d i t"
  proof -
    from r obtain a' q' where r': "entry_at t d audit_dir_name = Some a'" "intent_in lib rq a' q' t"
        "quarantine_like q'" "entry_at t d q' = Some i"
      by (auto simp: on_record_def)
    have "entry_at t' d audit_dir_name = Some a'" by (rule keep(1) [OF r'(1)]) simp
    moreover have "entry_at t' d q' = Some i" by (rule keep(1) [OF r'(4)]) (simp add: r'(3))
    ultimately show ?thesis using intent [OF r'(2)] r'(3) unfolding on_record_def by blast
  qed
  have qa: "entry_at t' e q = Some j" "entry_at t' e audit_dir_name = Some a"
    by (rule keep(1) [OF q(2)], simp add: q(1), rule keep(1) [OF a(1)], simp)
  have new: "evidence d i raw t' \<and> clearable lib rq raw \<and> on_record lib rq d i t'" if "e = d" "j = i"
    unfolding evidence_def on_record_def
    by (intro conjI exI [of _ q] exI [of _ a])
      (use that safe q(1,3) qa c intent [OF a(2)] in \<open>simp_all add: tombstone_safe_def evidence_def keep\<close>)
  have ev: "evidence d i raw t'" if "\<not> (e = d \<and> j = i)"
  proof -
    from safe obtain n where n: "guarded n" "entry_at t d n = Some i" "synced_at t d n = Some i"
      by (auto simp: tombstone_safe_def evidence_def)
    have "entry_at t' d n = Some i" by (rule keep(1) [OF n(2)]) (use that pid n(2) in auto)
    with n safe show ?thesis by (auto simp: tombstone_safe_def evidence_def keep)
  qed
  have "entry_at t' d pid_name = Some i \<or> clearable lib rq raw \<and> on_record lib rq d i t'"
    if "\<not> (e = d \<and> j = i)"
    using safe old keep(1) [of d pid_name i] that pid by (cases "d = e") (auto simp: tombstone_safe_def)
  with new ev keep(5) safe show ?thesis unfolding tombstone_safe_def by blast
qed

lemma open_read_run:
  "sys_open (t_open_read d n) m = (Inr i, m') \<Longrightarrow> tree m' = tree m \<and> entry_at (tree m) d n = Some i"
  by (auto simp: sys_open_def run_Inr t_open_read_def elim!: ebind_InrE dest!: call_Inr split: option.splits if_splits)

lemma open_private_run:
  assumes "open_private_named lib n e False ks m = (Inr (fd, st), m')"
  shows "tree m' = tree m \<and> entry_at (tree m) e n = Some fd \<and> st = stat_of (tree m) fd \<and>
    private_ok lib False ks st st"
  using assms unfolding open_private_named_def
  by (auto simp: run_Inr same_inode_def private_ok_def elim!: ebind_InrE stat_run
      dest!: fstat_run open_read_run split: if_splits)

end
