(* ===== verification/LegacyFrames.thy ===== *)
theory LegacyFrames
  imports LegacyInvariants
begin

text \<open>
  The other half of the clearance of legacy tombstones: that it gets through. Here are the rules
  for runs that may be cut off, and what each call leaves alone in the tree.
\<close>

section \<open>Runs that may be cut off\<close>

text \<open>
  \<open>goes b G P m\<close>: every tree so far has \<open>G\<close>, the present one and the supply of uuids have \<open>P\<close>,
  and calls may fail only if \<open>b\<close>. With \<open>b\<close> false, \<open>does\<close> says that the run returns; with
  \<open>b\<close> true, that whatever it is cut off by leaves a tree with \<open>G\<close>.
\<close>

definition goes :: "bool \<Rightarrow> ('b tree \<Rightarrow> bool) \<Rightarrow> ('b tree \<Rightarrow> nat \<Rightarrow> bool) \<Rightarrow> 'b machine \<Rightarrow> bool" where
  "goes b G P m \<longleftrightarrow> G (tree m) \<and> (\<forall>t \<in> set (past m). G t) \<and> P (tree m) (uuid_count m) \<and>
     (b \<or> troubles m = [])"

definition loud :: "exc \<Rightarrow> bool" where
  "loud x \<longleftrightarrow> \<not> instance_of x FileNotFoundError \<and> \<not> instance_of x FileExistsError"

definition does :: "bool \<Rightarrow> ('b tree \<Rightarrow> bool) \<Rightarrow> ('b tree \<Rightarrow> nat \<Rightarrow> bool) \<Rightarrow> ('b, 'a) sys \<Rightarrow>
    ('a \<Rightarrow> 'b tree \<Rightarrow> nat \<Rightarrow> bool) \<Rightarrow> ('b tree \<Rightarrow> nat \<Rightarrow> bool) \<Rightarrow> bool" where
  "does b G P c Q X \<longleftrightarrow>
     triple (goes b G P) c (\<lambda>a. goes b G (Q a)) (\<lambda>x m. b \<and> loud x \<and> goes b G X m)"

named_theorems does_intros \<open>rules that show that a run gets through\<close>

lemma goes_fields [simp]:
  "goes b G P (m\<lparr>open_fds := a\<rparr>) = goes b G P m" "goes b G P (m\<lparr>flocked := f\<rparr>) = goes b G P m"
  by (simp_all add: goes_def)

lemma goes_mono: "goes b G P m \<Longrightarrow> (\<And>t n. G t \<Longrightarrow> P t n \<Longrightarrow> Q t n) \<Longrightarrow> goes b G Q m"
  by (simp add: goes_def)

lemma io_exc_loud [simp]: "loud (io_exc c)"
  by (cases c; simp add: loud_def subclass_of_def)

lemma tombstone_error_loud [simp]: "loud (tombstone_error s)"
  by (simp add: loud_def tombstone_error_def subclass_of_def)

lemma does_pre: "does b G P c Q X \<Longrightarrow> (\<And>t n. G t \<Longrightarrow> P' t n \<Longrightarrow> P t n) \<Longrightarrow> does b G P' c Q X"
  unfolding does_def by (erule triple_pre) (erule goes_mono)

lemma does_post: "does b G P c Q X \<Longrightarrow> (\<And>a t n. G t \<Longrightarrow> Q a t n \<Longrightarrow> Q' a t n) \<Longrightarrow> does b G P c Q' X"
  unfolding does_def by (erule triple_conseq) (auto elim: goes_mono)

lemma does_cut: "does b G P c Q X \<Longrightarrow> (\<And>t n. G t \<Longrightarrow> X t n \<Longrightarrow> X' t n) \<Longrightarrow> does b G P c Q X'"
  unfolding does_def by (erule triple_conseq) (auto simp: goes_def)

lemma does_given: "(C \<Longrightarrow> does b G P c Q X) \<Longrightarrow> does b G (\<lambda>t n. P t n \<and> C) c Q X"
  unfolding does_def triple_def goes_def by blast

lemma does_ebind: "does b G P c R X \<Longrightarrow> (\<And>a. does b G (R a) (f a) Q X) \<Longrightarrow> does b G P (ebind c f) Q X"
  unfolding does_def by (rule triple_ebind)

lemma does_eret: "(\<And>t n. G t \<Longrightarrow> P t n \<Longrightarrow> Q a t n) \<Longrightarrow> does b G P (eret a) Q X"
  unfolding does_def by (rule triple_eret) (erule goes_mono)

lemma does_impossible: "(\<And>t n. G t \<Longrightarrow> P t n \<Longrightarrow> False) \<Longrightarrow> does b G P c Q X"
  by (auto simp: does_def triple_def goes_def)

lemma does_if: "(C \<Longrightarrow> does b G P c Q X) \<Longrightarrow> (\<not> C \<Longrightarrow> does b G P e Q X) \<Longrightarrow> does b G P (if C then c else e) Q X"
  by simp

lemma does_elift: "(\<And>t n. G t \<Longrightarrow> P t n \<Longrightarrow> \<exists>a. r = Inr a \<and> Q a t n) \<Longrightarrow> does b G P (elift r) Q X"
  by (force simp: does_def triple_def elift_def goes_def)

lemma does_handles:
  assumes "\<And>t n. G t \<Longrightarrow> P t n \<Longrightarrow> Q () t n"
  shows "does b G P (sys_close i) Q X"
  using assms by (auto simp: does_def triple_def sys_close_def emod_def goes_def)

lemma does_call:
  assumes f: "\<And>t n. G t \<Longrightarrow> P t n \<Longrightarrow> \<exists>a t'. f t = Inr (a, t') \<and> G t' \<and> Q a t' n"
    and X: "\<And>t n. b \<Longrightarrow> G t \<Longrightarrow> P t n \<Longrightarrow> X t n"
  shows "does b G P (call f) Q X"
  unfolding does_def triple_def
proof (intro allI impI)
  fix m r m' assume P: "goes b G P m" and run: "call f m = (r, m')"
  from P have "G (tree m)" "P (tree m) (uuid_count m)" by (auto simp: goes_def)
  from f [OF this] obtain a t' where ok: "f (tree m) = Inr (a, t')" "G t'" "Q a t' (uuid_count m)" by blast
  from run P ok X show "(\<forall>a. r = Inr a \<longrightarrow> goes b G (Q a) m') \<and> (\<forall>x. r = Inl x \<longrightarrow> b \<and> loud x \<and> goes b G X m')"
    by (auto simp: call_def Let_def goes_def split: list.splits option.splits)
qed

text \<open>A call that only looks, and what it sees.\<close>

lemma does_peek:
  assumes "\<And>t n. G t \<Longrightarrow> P t n \<Longrightarrow> \<exists>a. f t = Inr (a, t) \<and> Q a t n" "\<And>t n. b \<Longrightarrow> G t \<Longrightarrow> P t n \<Longrightarrow> X t n"
  shows "does b G P (call f) Q X"
  using assms by (intro does_call) blast+

lemma does_sys_open: "does b G P (call f) Q X \<Longrightarrow> does b G P (sys_open f) Q X"
  unfolding sys_open_def by (erule does_ebind) (simp add: does_def triple_def eff_defs)

lemma does_flock:
  assumes "\<And>t n. b \<Longrightarrow> G t \<Longrightarrow> P t n \<Longrightarrow> X t n"
  shows "does b G P (sys_flock i) (\<lambda>_. P) X" "does b G P (sys_funlock i) (\<lambda>_. P) X"
  unfolding sys_flock_def sys_funlock_def
  by (rule does_ebind, rule does_peek [where Q = "\<lambda>_. P"], simp add: t_nothing_def, rule assms, assumption+,
      simp add: does_def triple_def emod_def)+

lemma does_new_uuid:
  assumes "\<And>t n. G t \<Longrightarrow> P t n \<Longrightarrow> Q (supply n) t (Suc n)"
  shows "does b G P (new_uuid supply) Q X"
  using assms by (auto simp: does_def triple_def new_uuid_def goes_def eff_defs)

lemma does_efinally:
  assumes "does b G P c R F" "\<And>a. does b G (R a) e (\<lambda>_. Q a) X" "does b G F e (\<lambda>_. X) X"
  shows "does b G P (efinally c e) Q X"
  unfolding does_def
proof (rule triple_efinally)
  show "triple (goes b G P) c (\<lambda>a. goes b G (R a)) (\<lambda>x m. b \<and> loud x \<and> goes b G F m)"
    using assms(1) by (simp add: does_def)
  show "triple (goes b G (R a)) e (\<lambda>_. goes b G (Q a)) (\<lambda>x m. b \<and> loud x \<and> goes b G X m)" for a
    using assms(2) by (simp add: does_def)
  show "triple (\<lambda>m. b \<and> loud x \<and> goes b G F m) e (\<lambda>_ m. b \<and> loud x \<and> goes b G X m) (\<lambda>x m. b \<and> loud x \<and> goes b G X m)" for x
    using assms(3) by (auto simp: does_def triple_def)
qed

lemma does_with_fd: "does b G P c Q X \<Longrightarrow> does b G P (with_fd fd c) Q X"
  unfolding with_fd_def by (erule does_efinally) (auto intro: does_handles)

lemma does_etry_past: "does b G P c Q X \<Longrightarrow> (\<And>x. H x \<Longrightarrow> \<not> loud x) \<Longrightarrow> does b G P (etry H c h) Q X"
  unfolding does_def by (erule triple_etry) (auto simp: triple_def)

lemma does_etry:
  assumes "does b G P c Q R" "\<And>x. b \<Longrightarrow> loud x \<Longrightarrow> does b G R (h x) Q X" "\<And>t n. G t \<Longrightarrow> R t n \<Longrightarrow> X t n"
  shows "does b G P (etry H c h) Q X"
  unfolding does_def
proof (rule triple_etry)
  show "triple (goes b G P) c (\<lambda>a. goes b G (Q a)) (\<lambda>x m. b \<and> loud x \<and> goes b G R m)"
    using assms(1) by (simp add: does_def)
  show "triple (\<lambda>m. b \<and> loud x \<and> goes b G R m) (h x) (\<lambda>a. goes b G (Q a)) (\<lambda>x m. b \<and> loud x \<and> goes b G X m)" if "H x" for x
    using assms(2) [of x] by (auto simp: does_def triple_def)
qed (use assms(3) in \<open>auto simp: goes_def\<close>)

text \<open>A cut that goes on upwards under another loud exception.\<close>

lemma does_reraise: "b \<Longrightarrow> loud y \<Longrightarrow> (\<And>t n. G t \<Longrightarrow> P t n \<Longrightarrow> X t n) \<Longrightarrow> does b G P (eraise y) Q X"
  unfolding does_def by (rule triple_eraise) (auto elim: goes_mono)

lemma does_closing: "does b G P c Q X \<Longrightarrow> does b G P (closing_on_error fd c) Q X"
  unfolding closing_on_error_def
  by (erule does_etry) (auto intro!: does_ebind [OF does_handles [where Q = "\<lambda>_. X"]] does_reraise)

text \<open>A computation whose expected exception is caught.\<close>

definition misses :: "bool \<Rightarrow> ('b tree \<Rightarrow> bool) \<Rightarrow> ('b tree \<Rightarrow> nat \<Rightarrow> bool) \<Rightarrow> ('b, 'a) sys \<Rightarrow>
    (exc \<Rightarrow> bool) \<Rightarrow> ('b tree \<Rightarrow> nat \<Rightarrow> bool) \<Rightarrow> bool" where
  "misses b G P c H X \<longleftrightarrow> triple (goes b G P) c (\<lambda>_ _. False)
     (\<lambda>x m. H x \<and> goes b G P m \<or> b \<and> loud x \<and> goes b G X m)"

lemma misses_call:
  assumes "\<And>t n. G t \<Longrightarrow> P t n \<Longrightarrow> \<exists>x. f t = Inl x \<and> H x" "\<And>t n. b \<Longrightarrow> G t \<Longrightarrow> P t n \<Longrightarrow> X t n"
  shows "misses b G P (call f) H X"
  unfolding misses_def triple_def
proof (intro allI impI)
  fix m r m' assume P: "goes b G P m" and run: "call f m = (r, m')"
  then have "G (tree m)" "P (tree m) (uuid_count m)" by (auto simp: goes_def)
  from assms(1) [OF this] obtain x where "f (tree m) = Inl x" "H x" by blast
  with run P assms(2) show "(\<forall>a. r = Inr a \<longrightarrow> False) \<and> (\<forall>x. r = Inl x \<longrightarrow> H x \<and> goes b G P m' \<or> b \<and> loud x \<and> goes b G X m')"
    by (auto simp: call_def Let_def goes_def split: list.splits option.splits)
qed

lemma misses_ebind: "misses b G P c H X \<Longrightarrow> misses b G P (ebind c f) H X"
  unfolding misses_def by (erule triple_ebind) (simp add: triple_def)

lemma misses_sys_open: "misses b G P (call f) H X \<Longrightarrow> misses b G P (sys_open f) H X"
  unfolding sys_open_def by (rule misses_ebind)

lemma does_etry_caught:
  assumes c: "misses b G P c H' X" and h: "\<And>x. H' x \<Longrightarrow> does b G P (h x) Q X" and H: "\<And>x. H' x \<Longrightarrow> H x"
    and l: "\<And>x. b \<Longrightarrow> H x \<Longrightarrow> loud x \<Longrightarrow> does b G X (h x) Q X"
  shows "does b G P (etry H c h) Q X"
  unfolding does_def
proof (rule triple_etry)
  show "triple (goes b G P) c (\<lambda>a. goes b G (Q a)) (\<lambda>x m. H' x \<and> goes b G P m \<or> b \<and> loud x \<and> goes b G X m)"
    using c unfolding misses_def by (rule triple_conseq) auto
  show "triple (\<lambda>m. H' x \<and> goes b G P m \<or> b \<and> loud x \<and> goes b G X m) (h x) (\<lambda>a. goes b G (Q a))
      (\<lambda>x m. b \<and> loud x \<and> goes b G X m)" if "H x" for x
    unfolding triple_def
  proof (intro allI impI)
    fix m r m' assume m: "H' x \<and> goes b G P m \<or> b \<and> loud x \<and> goes b G X m" and run: "h x m = (r, m')"
    have "does b G P (h x) Q X \<and> goes b G P m \<or> does b G X (h x) Q X \<and> goes b G X m"
      using m h l that by blast
    with run show "(\<forall>a. r = Inr a \<longrightarrow> goes b G (Q a) m') \<and> (\<forall>x. r = Inl x \<longrightarrow> b \<and> loud x \<and> goes b G X m')"
      unfolding does_def triple_def by metis
  qed
qed (use H in auto)

lemma does_emap:
  assumes "\<And>x. x \<in> set xs \<Longrightarrow> does b G P (f x) (\<lambda>a t n. P t n \<and> a = g x) X"
  shows "does b G P (emap f xs) (\<lambda>as t n. P t n \<and> as = List.map g xs) X"
  using assms
proof (induction xs)
  case (Cons x xs)
  have rest: "does b G P (emap f xs) (\<lambda>as t n. P t n \<and> as = List.map g xs) X"
    by (rule Cons.IH) (rule Cons.prems, simp)
  show ?case
    unfolding emap.simps
    apply (rule does_ebind [OF Cons.prems], simp)
    apply (rule does_given)
    apply (rule does_ebind [OF rest])
    apply (auto intro: does_eret)
    done
qed (auto intro: does_eret)


section \<open>Links and what a call leaves alone\<close>

text \<open>All names of an inode; the state predicates below speak of these.\<close>

definition links :: "'b tree \<Rightarrow> nat \<Rightarrow> (nat \<times> string) set" where
  "links t i = {(e, n). entry_at t e n = Some i}"

lemma links_iff: "(e, n) \<in> links t i \<longleftrightarrow> entry_at t e n = Some i"
  by (simp add: links_def)

lemma links_inj: "x \<in> links t i \<Longrightarrow> x \<in> links t j \<Longrightarrow> i = j"
  by (cases x) (simp add: links_def)

definition sound :: "'b tree \<Rightarrow> bool" where
  "sound t \<longleftrightarrow> tree_wf t \<and> (\<forall>e. dict_wf (names t e)) \<and> root_dir < next_inode t"

lemma sound_wf: "sound t \<Longrightarrow> tree_wf t"
  by (simp add: sound_def)

lemma sound_links: "sound t \<Longrightarrow> (e, n) \<in> links t i \<Longrightarrow> e < next_inode t \<and> i < next_inode t"
  by (auto simp: sound_def links_iff dest: tree_wf_entry)

text \<open>
  \<open>frame I N t t'\<close>: a call changed no inode but those of \<open>I\<close>, which are no directories, and no
  names but those of \<open>N\<close>.
\<close>

definition frame :: "nat set \<Rightarrow> string set \<Rightarrow> 'b tree \<Rightarrow> 'b tree \<Rightarrow> bool" where
  "frame I N t t' \<longleftrightarrow> sound t' \<and> next_inode t \<le> next_inode t' \<and>
     (\<forall>i \<in> I. in_kind (inodes t i) \<noteq> Directory) \<and>
     (\<forall>k < next_inode t. k \<notin> I \<longrightarrow> inodes t' k = inodes t k \<and> links t' k = links t k) \<and>
     (\<forall>e n. n \<notin> N \<longrightarrow> entry_at t' e n = entry_at t e n)"

lemma frame_sound: "frame I N t t' \<Longrightarrow> sound t'"
  by (simp add: frame_def)

lemma frame_entry: "frame I N t t' \<Longrightarrow> n \<notin> N \<Longrightarrow> entry_at t' e n = entry_at t e n"
  by (simp add: frame_def)

lemma frame_same: "frame I N t t' \<Longrightarrow> sound t \<Longrightarrow> links t k \<noteq> {} \<Longrightarrow> k \<notin> I \<Longrightarrow>
    inodes t' k = inodes t k \<and> links t' k = links t k"
  unfolding frame_def using sound_links by fastforce

lemma wf_links: "tree_wf t \<longleftrightarrow> (\<forall>i e n. (e, n) \<in> links t i \<longrightarrow> e < next_inode t \<and> i < next_inode t)"
  by (simp add: tree_wf_def links_iff) blast

lemma new_names:
  assumes "t_new d n x t = Inr (i, t')" "sound t"
  shows "i = next_inode t" "frame {} {n} t t'" "inodes t' i = x" "links t' i = {(d, n)}" "entry_at t' d n = Some i"
proof -
  from assms(1) obtain e: "i = next_inode t" "next_inode t' = next_inode t + 1" "entry_at t d n = None" "d < next_inode t"
    "entry_at t' = (entry_at t)(d := (entry_at t d)(n \<mapsto> next_inode t), next_inode t := Map.empty)"
    "inodes t' = (inodes t)(next_inode t := x)"
    by (rule entry_at_new)
  have ent: "entry_at t' e m = (if e = d \<and> m = n then Some (next_inode t) else entry_at t e m)" for e m
    using e no_entry_beyond [OF sound_wf [OF assms(2)], of m] by auto
  have beyond: "links t (next_inode t) = {}"
    using sound_links [OF assms(2)] by fastforce
  have l: "links t' k = (if k = next_inode t then {(d, n)} else links t k)" for k
    using e(3) beyond by (auto simp: links_def ent split: if_splits)
  have "dict_wf (names t' k)" for k
    using assms by (auto simp: t_new_def Let_def sound_def dict_wf_def dict_keys_def split: if_splits)
      (simp_all add: distinct_update)
  moreover have "tree_wf t'"
    unfolding wf_links using e sound_links [OF assms(2)] by (auto simp: l split: if_splits) fastforce+
  ultimately have "sound t'" using e assms(2) by (simp add: sound_def)
  then show "frame {} {n} t t'" unfolding frame_def by (auto simp: e(1,2,6) l ent)
  show "i = next_inode t" "inodes t' i = x" "links t' i = {(d, n)}" "entry_at t' d n = Some i"
    using e(1,6) by (simp_all add: l ent)
qed


lemma inode_frame:
  assumes s: "sound t" and k: "in_kind (inodes t i) \<noteq> Directory"
    and t': "inodes t' = (inodes t)(i := x)" "names t' = names t" "next_inode t' = next_inode t"
  shows "frame {i} {} t t'" "links t' = links t"
proof -
  have e: "entry_at t' = entry_at t" using t'(2) by (simp add: entry_at_def fun_eq_iff)
  then show "links t' = links t" by (simp add: links_def fun_eq_iff)
  then show "frame {i} {} t t'"
    using s k t' e by (simp add: frame_def sound_def tree_wf_def)
qed

lemma write_frame:
  assumes "t_write i c t = Inr (u, t')" "sound t" "in_kind (inodes t i) \<noteq> Directory"
  shows "frame {i} {} t t'" "links t' = links t" "inodes t' = (inodes t)(i := (inodes t i)\<lparr>in_bytes := c\<rparr>)"
  using assms by (auto simp: t_write_def put_inode_def intro!: inode_frame)

lemma fchmod_frame:
  assumes "t_fchmod e i c t = Inr (u, t')" "sound t" "in_kind (inodes t i) \<noteq> Directory"
  shows "frame {i} {} t t'" "links t' = links t" "inodes t' = (inodes t)(i := (inodes t i)\<lparr>in_mode := c\<rparr>)"
  using assms by (auto simp: t_fchmod_def put_inode_def intro!: inode_frame split: if_splits)

lemma fsync_frame:
  assumes "t_fsync i t = Inr (u, t')" "sound t"
  shows "frame {} {} t t'" "links t' = links t" "inodes t' = inodes t"
  using assms by (auto simp: t_fsync_def frame_def sound_def tree_wf_def links_def entry_at_def)

lemma link_frame:
  assumes l: "t_link d a c t = Inr (u, t')" and s: "sound t" and a: "entry_at t d a = Some i"
  shows "frame {i} {c} t t'" "links t' i = insert (d, c) (links t i)" "entry_at t' d c = Some i"
    "inodes t' i = (inodes t i)\<lparr>in_nlink := in_nlink (inodes t i) + 1\<rparr>"
proof -
  from l a have e: "entry_at t d c = None" "next_inode t' = next_inode t"
    "entry_at t' = (entry_at t)(d := (entry_at t d)(c \<mapsto> i))"
    "inodes t' = (inodes t)(i := (inodes t i)\<lparr>in_nlink := in_nlink (inodes t i) + 1\<rparr>)"
    by (auto elim!: entry_at_link)
  have k: "in_kind (inodes t i) \<noteq> Directory"
    using l a by (auto simp: t_link_def split: if_splits)
  have ln: "links t' k = (if k = i then insert (d, c) (links t i) else links t k)" for k
    using e(1) by (auto simp: links_def e(3) split: if_splits)
  then show "links t' i = insert (d, c) (links t i)" by simp
  have "dict_wf (names t' k)" for k
    using l s a by (auto simp: t_link_def put_inode_def put_names_def sound_def split: if_splits)
  moreover have "tree_wf t'"
    unfolding wf_links using sound_links [OF s] a by (auto simp: ln e links_iff split: if_splits)
  ultimately have "sound t'" using e s by (simp add: sound_def)
  then show "frame {i} {c} t t'" unfolding frame_def using k by (auto simp: e(2,4) ln) (auto simp: e(3))
qed (use l a in \<open>auto elim!: entry_at_link\<close>)

lemma unlink_frame:
  assumes l: "t_unlink d c t = Inr (u, t')" and s: "sound t" and a: "entry_at t d c = Some i"
  shows "frame {i} {c} t t'" "links t' i = links t i - {(d, c)}" "entry_at t' d c = None"
    "inodes t' i = (inodes t i)\<lparr>in_nlink := in_nlink (inodes t i) - 1\<rparr>"
proof -
  from l a have e: "next_inode t' = next_inode t"
    "entry_at t' = (entry_at t)(d := (entry_at t d)(c := None))"
    "inodes t' = (inodes t)(i := (inodes t i)\<lparr>in_nlink := in_nlink (inodes t i) - 1\<rparr>)"
    by (auto elim!: entry_at_unlink)
  have k: "in_kind (inodes t i) \<noteq> Directory"
    using l a by (auto simp: t_unlink_def split: if_splits)
  have ln: "links t' k = (if k = i then links t i - {(d, c)} else links t k)" for k
    using a by (auto simp: links_def e(2) split: if_splits)
  then show "links t' i = links t i - {(d, c)}" by simp
  have "dict_wf (names t' k)" for k
    using l s a by (auto simp: t_unlink_def put_inode_def put_names_def sound_def dict_wf_def dict_keys_def
        distinct_delete split: if_splits)
  moreover have "tree_wf t'"
    unfolding wf_links using sound_links [OF s] by (auto simp: ln e split: if_splits)
  ultimately have "sound t'" using e s by (simp add: sound_def)
  then show "frame {i} {c} t t'" unfolding frame_def using k by (auto simp: e(1,3) ln) (auto simp: e(2))
qed (use l a in \<open>auto elim!: entry_at_unlink\<close>)


text \<open>Where nothing is to be said of the tree a cut leaves but \<open>G\<close>.\<close>

abbreviation gets :: "bool \<Rightarrow> ('b tree \<Rightarrow> bool) \<Rightarrow> ('b tree \<Rightarrow> nat \<Rightarrow> bool) \<Rightarrow> ('b, 'a) sys \<Rightarrow>
    ('a \<Rightarrow> 'b tree \<Rightarrow> nat \<Rightarrow> bool) \<Rightarrow> bool" where
  "gets b G P c Q \<equiv> does b G P c Q (\<lambda>_ _. True)"

lemma gets_peek: "(\<And>t n. G t \<Longrightarrow> P t n \<Longrightarrow> \<exists>a. f t = Inr (a, t) \<and> Q a t n) \<Longrightarrow> gets b G P (call f) Q"
  by (rule does_peek) blast+

lemma gets_open: "(\<And>t n. G t \<Longrightarrow> P t n \<Longrightarrow> \<exists>i. f t = Inr (i, t) \<and> Q i t n) \<Longrightarrow> gets b G P (sys_open f) Q"
  by (rule does_sys_open) (rule gets_peek)

lemma gets_call:
  "(\<And>t n. G t \<Longrightarrow> P t n \<Longrightarrow> \<exists>a t'. f t = Inr (a, t') \<and> G t' \<and> Q a t' n) \<Longrightarrow> gets b G P (call f) Q"
  by (rule does_call) blast+

lemma gets_close: "gets b G P (sys_close i) (\<lambda>_. P)"
  by (rule does_handles)

lemma gets_if_not: "(\<And>t n. G t \<Longrightarrow> P t n \<Longrightarrow> \<not> C) \<Longrightarrow> does b G P d Q X \<Longrightarrow> does b G P (if C then c else d) Q X"
  by (cases C) (auto intro: does_impossible)

lemma gets_if_yes: "(\<And>t n. G t \<Longrightarrow> P t n \<Longrightarrow> C) \<Longrightarrow> does b G P c Q X \<Longrightarrow> does b G P (if C then c else d) Q X"
  by (cases C) (auto intro: does_impossible)

end
