(* ===== verification/LegacyPublish.thy ===== *)
theory LegacyPublish
  imports LegacyFrames
begin

text \<open>
  The files and directories a clearance of a legacy tombstone works on, what other calls leave of
  them, and the publication of a record: it returns with the record under its only name, and
  wherever it is cut off the record is not there or is complete.
\<close>

unbundle bit_operations_syntax

section \<open>Files and directories of a clearance\<close>

definition private_file :: "'b lib \<Rightarrow> nat \<Rightarrow> 'b tree \<Rightarrow> bool" where
  "private_file lib i t \<longleftrightarrow> in_kind (inodes t i) = Regular \<and> in_uid (inodes t i) = lb_euid lib \<and>
     in_mode (inodes t i) AND 63 = 0"

text \<open>The names of an inode are \<open>S\<close>, and its link count says so.\<close>

definition counted :: "nat \<Rightarrow> (nat \<times> string) set \<Rightarrow> 'b tree \<Rightarrow> bool" where
  "counted i S t \<longleftrightarrow> links t i = S \<and> in_nlink (inodes t i) = card S"

fun leads :: "'b lib \<Rightarrow> 'b tree \<Rightarrow> nat \<Rightarrow> string list \<Rightarrow> nat \<Rightarrow> bool" where
  "leads lib t i [] d \<longleftrightarrow> i = d"
| "leads lib t i (p # ps) d \<longleftrightarrow> in_kind (inodes t i) = Directory \<and> (\<exists>k. entry_at t i p = Some k \<and>
     validate_trusted_directory (lb_euid lib) (stat_of t k) (ps = []) = Inr () \<and> leads lib t k ps d)"

definition trusted :: "'b lib \<Rightarrow> string list \<Rightarrow> nat \<Rightarrow> 'b tree \<Rightarrow> bool" where
  "trusted lib parts d t \<longleftrightarrow>
     validate_trusted_directory (lb_euid lib) (stat_of t root_dir) False = Inr () \<and> leads lib t root_dir parts d"

definition unit_lock_at :: "'b lib \<Rightarrow> nat \<Rightarrow> nat \<Rightarrow> 'b tree \<Rightarrow> bool" where
  "unit_lock_at lib d l t \<longleftrightarrow> private_file lib l t \<and> counted l {(d, lock_name)} t"

definition audit_dir_at :: "'b lib \<Rightarrow> nat \<Rightarrow> nat \<Rightarrow> 'b tree \<Rightarrow> bool" where
  "audit_dir_at lib d a t \<longleftrightarrow> entry_at t d audit_dir_name = Some a \<and> a \<noteq> d \<and>
     in_kind (inodes t a) = Directory \<and> in_uid (inodes t a) = lb_euid lib \<and> in_mode (inodes t a) AND 63 = 0"

text \<open>A record of the audit directory, with or without the temporary name it was written under.\<close>

definition published :: "'b lib \<Rightarrow> nat \<Rightarrow> string \<Rightarrow> ('b \<Rightarrow> bool) \<Rightarrow> 'b tree \<Rightarrow> bool" where
  "published lib a name ok t \<longleftrightarrow> (\<exists>j. private_file lib j t \<and> ok (in_bytes (inodes t j)) \<and>
     (counted j {(a, name)} t \<or> (\<exists>u. is_tmp_name u \<and> counted j {(a, name), (a, u)} t)))"

definition settled_at :: "'b lib \<Rightarrow> nat \<Rightarrow> string \<Rightarrow> ('b \<Rightarrow> bool) \<Rightarrow> nat \<Rightarrow> 'b tree \<Rightarrow> bool" where
  "settled_at lib a name ok j t \<longleftrightarrow> private_file lib j t \<and> ok (in_bytes (inodes t j)) \<and> counted j {(a, name)} t"

definition settled :: "'b lib \<Rightarrow> nat \<Rightarrow> string \<Rightarrow> ('b \<Rightarrow> bool) \<Rightarrow> 'b tree \<Rightarrow> bool" where
  "settled lib a name ok t \<longleftrightarrow> (\<exists>j. settled_at lib a name ok j t)"

definition tombstone_at :: "'b lib \<Rightarrow> 'b \<Rightarrow> nat \<Rightarrow> (nat \<times> string) set \<Rightarrow> 'b tree \<Rightarrow> bool" where
  "tombstone_at lib raw p S t \<longleftrightarrow> in_kind (inodes t p) = Regular \<and> in_uid (inodes t p) = lb_euid lib \<and>
     in_bytes (inodes t p) = raw \<and> counted p S t"

section \<open>What other calls leave of it\<close>

lemma stat_of_same: "inodes t' k = inodes t k \<Longrightarrow> stat_of t' k = stat_of t k"
  by (simp add: stat_of_def)

lemma private_same: "inodes t' k = inodes t k \<Longrightarrow> private_file lib k t' = private_file lib k t"
  by (simp add: private_file_def)

lemma frame_dir:
  assumes "frame I N t t'" "sound t" "in_kind (inodes t k) = Directory" "(e, n) \<in> links t k"
  shows "inodes t' k = inodes t k" "entry_at t' e n = Some k"
proof -
  from assms have "k \<notin> I" by (auto simp: frame_def)
  with frame_same [OF assms(1,2), of k] assms(4) show "inodes t' k = inodes t k" "entry_at t' e n = Some k"
    by (auto simp: links_def)
qed

lemma trusted_kind: "validate_trusted_directory e (stat_of t k) u = Inr () \<Longrightarrow> in_kind (inodes t k) = Directory"
  by (auto simp: validate_trusted_directory_def split: if_splits)

lemma leads_frame:
  assumes f: "frame I N t t'" and s: "sound t" and i: "inodes t' i = inodes t i"
  shows "leads lib t i ps d \<Longrightarrow> leads lib t' i ps d"
  using i
proof (induction ps arbitrary: i)
  case (Cons p ps)
  then obtain k where k: "entry_at t i p = Some k" "leads lib t k ps d"
      "validate_trusted_directory (lb_euid lib) (stat_of t k) (ps = []) = Inr ()" "in_kind (inodes t i) = Directory"
    by auto
  note same = frame_dir [OF f s trusted_kind [OF k(3)], of i p]
  from k(1) have "(i, p) \<in> links t k" by (simp add: links_iff)
  from same(2) [OF this] have e: "entry_at t' i p = Some k" .
  from Cons.IH [OF k(2) same(1) [OF \<open>(i, p) \<in> links t k\<close>]] have "leads lib t' k ps d" .
  with e k(3,4) Cons.prems(2) stat_of_same [OF same(1) [OF \<open>(i, p) \<in> links t k\<close>]] show ?case by simp
qed simp

lemma trusted_frame:
  assumes f: "frame I N t t'" and s: "sound t" and "trusted lib parts d t"
  shows "trusted lib parts d t'"
proof -
  from assms(3) have v: "validate_trusted_directory (lb_euid lib) (stat_of t root_dir) False = Inr ()"
    and l: "leads lib t root_dir parts d" by (auto simp: trusted_def)
  from trusted_kind [OF v] f have "root_dir \<notin> I" by (auto simp: frame_def)
  with f s have "inodes t' root_dir = inodes t root_dir" by (auto simp: frame_def sound_def)
  from leads_frame [OF f s this l] v stat_of_same [OF this] show ?thesis unfolding trusted_def by metis
qed

lemma counted_frame:
  assumes "frame I N t t'" "sound t" "i \<notin> I" "S \<noteq> {}" "counted i S t"
  shows "counted i S t'" "inodes t' i = inodes t i"
  using frame_same [OF assms(1,2), of i] assms(3-5) by (simp_all add: counted_def)

lemma audit_dir_frame:
  "frame I N t t' \<Longrightarrow> sound t \<Longrightarrow> audit_dir_at lib d a t \<Longrightarrow> audit_dir_at lib d a t'"
  using frame_dir [of I N t t' a d audit_dir_name] by (auto simp: audit_dir_at_def links_iff)

lemma unit_lock_frame:
  "frame I N t t' \<Longrightarrow> sound t \<Longrightarrow> l \<notin> I \<Longrightarrow> unit_lock_at lib d l t \<Longrightarrow> unit_lock_at lib d l t'"
  using counted_frame [of I N t t' l "{(d, lock_name)}"] private_same [of t' l t lib]
  by (simp add: unit_lock_at_def)

lemma tombstone_frame:
  "frame I N t t' \<Longrightarrow> sound t \<Longrightarrow> p \<notin> I \<Longrightarrow> S \<noteq> {} \<Longrightarrow> tombstone_at lib raw p S t \<Longrightarrow> tombstone_at lib raw p S t'"
  using counted_frame [of I N t t' p S] by (simp add: tombstone_at_def)

lemma settled_frame:
  assumes "frame I N t t'" "sound t" "settled lib a name ok t" "\<And>i. i \<in> I \<Longrightarrow> (a, name) \<notin> links t i"
  shows "settled lib a name ok t'"
proof -
  from assms(3) obtain j where j: "private_file lib j t" "ok (in_bytes (inodes t j))" "counted j {(a, name)} t"
    by (auto simp: settled_def settled_at_def)
  with assms(4) have "j \<notin> I" by (auto simp: counted_def)
  with counted_frame [OF assms(1,2) this _ j(3)] j private_same [of t' j t lib]
  have "private_file lib j t'" "ok (in_bytes (inodes t' j))" "counted j {(a, name)} t'" by simp_all
  then show ?thesis unfolding settled_def settled_at_def by blast
qed

lemma published_frame:
  assumes "frame I N t t'" "sound t" "published lib a name ok t" "\<And>i. i \<in> I \<Longrightarrow> (a, name) \<notin> links t i"
  shows "published lib a name ok t'"
proof -
  from assms(3) obtain j S where j: "private_file lib j t" "ok (in_bytes (inodes t j))" "counted j S t"
      "S = {(a, name)} \<or> (\<exists>u. is_tmp_name u \<and> S = {(a, name), (a, u)})"
    unfolding published_def by metis
  with assms(4) have "j \<notin> I" by (auto simp: counted_def)
  moreover from j(4) have "S \<noteq> {}" by auto
  ultimately have "counted j S t'" "inodes t' j = inodes t j" by (rule counted_frame [OF assms(1,2) _ _ j(3)])+
  with j private_same [of t' j t lib] have "private_file lib j t'" "ok (in_bytes (inodes t' j))" by simp_all
  with \<open>counted j S t'\<close> j(4) show ?thesis unfolding published_def by metis
qed

lemma settled_published: "settled lib a name ok t \<Longrightarrow> published lib a name ok t"
  by (auto simp: settled_def settled_at_def published_def)


section \<open>Looking at a directory\<close>

lemma leads_resolve: "leads lib t i ps d \<Longrightarrow> resolve t i ps = Inr d"
  by (induction ps arbitrary: i) (auto split: option.splits)

lemma gets_check_directory:
  assumes "\<And>t n. G t \<Longrightarrow> P t n \<Longrightarrow> validate_trusted_directory (lb_euid lib) (stat_of t fd) u = Inr ()"
  shows "gets b G P (check_directory lib fd u) (\<lambda>_. P)"
  unfolding check_directory_def
  by (rule does_ebind, rule gets_peek [where Q = "\<lambda>a t n. P t n \<and> a = stat_of t fd"], simp add: t_fstat_def,
      rule does_elift) (use assms in blast)

lemma gets_trusted_walk:
  "gets b G (\<lambda>t n. P t n \<and> leads lib t fd ps d) (trusted_walk lib fd ps) (\<lambda>r t n. P t n \<and> r = d)"
proof (induction ps arbitrary: fd)
  case Nil
  show ?case by (auto intro: does_eret)
next
  case (Cons p ps)
  let ?R = "\<lambda>k t n. (P t n \<and> leads lib t k ps d) \<and>
    validate_trusted_directory (lb_euid lib) (stat_of t k) (ps = []) = Inr ()"
  have open_it: "gets b G (\<lambda>t n. P t n \<and> leads lib t fd (p # ps) d) (sys_open (t_open_dir fd p)) ?R"
    by (rule gets_open) (auto simp: t_open_dir_def dest: trusted_kind)
  show ?case
    unfolding trusted_walk.simps
    apply (rule does_ebind [OF does_closing [OF open_it]])
    apply (rule does_ebind [OF gets_close])
    apply (rule does_ebind [OF does_closing [OF gets_check_directory]], simp)
    apply (rule does_pre [OF Cons.IH], simp)
    done
qed

lemma gets_open_trusted:
  assumes "\<And>t n. G t \<Longrightarrow> P t n \<Longrightarrow> trusted lib parts d t"
  shows "gets b G P (open_trusted_unit_directory lib parts) (\<lambda>a t n. P t n \<and> (fst a = d \<and> st_ino (snd a) = d))"
proof -
  have root: "gets b G P (sys_open open_root) (\<lambda>i t n. P t n \<and> i = root_dir)"
    by (rule gets_open) (simp add: open_root_def)
  have walk: "gets b G P (trusted_walk lib root_dir parts) (\<lambda>r t n. P t n \<and> r = d)"
    by (rule does_pre [OF gets_trusted_walk]) (use assms in \<open>simp add: trusted_def\<close>)
  have seen: "gets b G P (call (t_fstat d)) (\<lambda>st t n. P t n \<and> st_ino st = d)"
    by (rule gets_peek) (simp add: t_fstat_def)
  have named: "gets b G P (call (t_stat_path parts)) (\<lambda>st t n. P t n \<and> st_ino st = d)"
    by (rule gets_peek) (use assms leads_resolve in \<open>fastforce simp: t_stat_path_def trusted_def split: sum.splits\<close>)
  show ?thesis
    unfolding open_trusted_unit_directory_def
    apply (rule does_ebind [OF root], rule does_given, simp)
    apply (rule does_ebind [OF does_closing [OF gets_check_directory]], use assms in \<open>simp add: trusted_def\<close>)
    apply (rule does_ebind [OF walk], rule does_given, simp)
    apply (rule does_closing)
    apply (rule does_ebind [OF seen], rule does_given)
    apply (rule does_ebind [OF named], rule does_given)
    apply (auto simp: same_inode_def intro: does_eret)
    done
qed

lemma gets_open_private:
  assumes "\<And>t n. G t \<Longrightarrow> P t n \<Longrightarrow> \<exists>i. entry_at t e name = Some i \<and> private_ok lib dir ks (stat_of t i) (stat_of t i)"
  shows "gets b G P (open_private_named lib name e dir ks)
    (\<lambda>a t n. P t n \<and> entry_at t e name = Some (fst a) \<and> snd a = stat_of t (fst a))"
proof -
  let ?R = "\<lambda>i t n. P t n \<and> entry_at t e name = Some i"
  have o: "gets b G P (sys_open (if dir then t_open_dir e name else t_open_read e name)) ?R"
    by (rule gets_open) (use assms in \<open>fastforce simp: t_open_dir_def t_open_read_def private_ok_def\<close>)
  have s: "gets b G (?R i) (call (t_fstat i)) (\<lambda>st t n. ?R i t n \<and> st = stat_of t i)" for i
    by (rule gets_peek) (simp add: t_fstat_def)
  have n: "gets b G (\<lambda>t n. ?R i t n \<and> st = stat_of t i) (call (t_stat e name))
      (\<lambda>nd t n. (?R i t n \<and> st = stat_of t i) \<and> nd = stat_of t i)" for i st
    by (rule gets_peek) (simp add: t_stat_def)
  show ?thesis
    unfolding open_private_named_def
    apply (rule does_ebind [OF o], rule does_ebind [OF s], rule does_ebind [OF n])
    apply (rule gets_if_yes, use assms in fastforce)
    apply (rule does_eret, simp)
    done
qed

lemma gets_read:
  assumes "\<And>t n. G t \<Longrightarrow> P t n \<Longrightarrow> in_kind (inodes t fd) = Regular \<and> lb_size lib (in_bytes (inodes t fd)) \<le> limit"
  shows "gets b G P (read_regular_fd lib fd limit) (\<lambda>raw t n. P t n \<and> raw = in_bytes (inodes t fd))"
proof -
  have r: "gets b G P (call (t_read fd)) (\<lambda>raw t n. P t n \<and> raw = in_bytes (inodes t fd))"
    by (rule gets_peek) (use assms in \<open>simp add: t_read_def\<close>)
  show ?thesis
    unfolding read_regular_fd_def
    by (rule does_ebind [OF r], rule gets_if_not, use assms in fastforce, rule does_eret)
qed

lemma gets_bind_named:
  assumes "gets b G P c (\<lambda>st t n. P t n \<and> st_ino st = st_ino opened)"
  shows "gets b G P (bind_named opened c msg) (\<lambda>_. P)"
  unfolding bind_named_def
  by (rule does_ebind [OF does_etry_past [OF assms]], simp add: loud_def, rule does_given,
      simp add: same_inode_def, rule does_eret)

lemma gets_stat:
  assumes "\<And>t n. G t \<Longrightarrow> P t n \<Longrightarrow> entry_at t e name = Some i"
  shows "gets b G P (call (t_stat e name)) (\<lambda>st t n. P t n \<and> st = stat_of t i)"
  by (rule gets_peek) (use assms in \<open>simp add: t_stat_def\<close>)

lemma gets_stat_ino:
  assumes "\<And>t n. G t \<Longrightarrow> P t n \<Longrightarrow> entry_at t e name = Some i"
  shows "gets b G P (call (t_stat e name)) (\<lambda>st t n. P t n \<and> st_ino st = i)"
  by (rule does_post [OF gets_stat]) (use assms in simp_all)

lemma gets_fstat: "gets b G P (call (t_fstat i)) (\<lambda>st t n. P t n \<and> st = stat_of t i)"
  by (rule gets_peek) (simp add: t_fstat_def)


section \<open>Publishing a record\<close>

text \<open>
  \<open>aside F I N t\<close>: what a call changes has only temporary names, or is the record \<open>F\<close> or a name of
  the set-up. A predicate is \<open>steady F\<close> if such calls keep it.
\<close>

definition aside :: "string \<Rightarrow> nat set \<Rightarrow> string set \<Rightarrow> 'b tree \<Rightarrow> bool" where
  "aside F I N t \<longleftrightarrow> (\<forall>i \<in> I. \<forall>e n. (e, n) \<in> links t i \<longrightarrow> tmp_like n \<or> n = F) \<and>
     (\<forall>n \<in> N. tmp_like n \<or> n \<in> {lock_name, audit_dir_name, F})"

definition steady :: "string \<Rightarrow> ('b tree \<Rightarrow> bool) \<Rightarrow> bool" where
  "steady F K \<longleftrightarrow> (\<forall>I N t t'. K t \<longrightarrow> frame I N t t' \<longrightarrow> aside F I N t \<longrightarrow> K t')"

text \<open>No temporary name still to come is taken in the directory \<open>a\<close>, but for \<open>tmp\<close> perhaps.\<close>

definition fresh_but :: "'b lib \<Rightarrow> string set \<Rightarrow> nat \<Rightarrow> nat \<Rightarrow> 'b tree \<Rightarrow> bool" where
  "fresh_but lib T a n t \<longleftrightarrow>
     (\<forall>k \<ge> n. tmp_of (lb_uuid lib k) \<notin> T \<longrightarrow> entry_at t a (tmp_of (lb_uuid lib k)) = None)"

definition fresh_tmp :: "'b lib \<Rightarrow> nat \<Rightarrow> nat \<Rightarrow> 'b tree \<Rightarrow> bool" where
  "fresh_tmp lib a n t \<longleftrightarrow> fresh_but lib {} a n t"

text \<open>\<^verbatim>\<open>uuid.uuid4().hex\<close> is 32 hexadecimal digits.\<close>

definition proper_uuids :: "'b lib \<Rightarrow> bool" where
  "proper_uuids lib \<longleftrightarrow> (\<forall>k. length (lb_uuid lib k) = 32 \<and> list_all is_hex (lb_uuid lib k))"

lemma proper_tmp: "proper_uuids lib \<Longrightarrow> is_tmp_name (tmp_of (lb_uuid lib k))"
  by (simp add: proper_uuids_def is_tmp_name_def tmp_of_def)

lemma fresh_but_frame:
  "fresh_but lib T a n t \<Longrightarrow> frame I N t t' \<Longrightarrow> (\<And>k. n \<le> k \<Longrightarrow> tmp_of (lb_uuid lib k) \<in> N \<Longrightarrow> tmp_of (lb_uuid lib k) \<in> T) \<Longrightarrow>
   fresh_but lib T a n t'"
  unfolding fresh_but_def by (metis frame_entry)

lemma fresh_frame: "fresh_tmp lib a n t \<Longrightarrow> frame I N t t' \<Longrightarrow> (\<And>k. n \<le> k \<Longrightarrow> tmp_of (lb_uuid lib k) \<notin> N) \<Longrightarrow> fresh_tmp lib a n t'"
  unfolding fresh_tmp_def by (rule fresh_but_frame) auto

lemma fresh_taken: "fresh_tmp lib a n t \<Longrightarrow> entry_at t a u = Some i \<Longrightarrow> n \<le> k \<Longrightarrow> tmp_of (lb_uuid lib k) \<noteq> u"
  by (auto simp: fresh_tmp_def fresh_but_def)

lemma fresh_but_free: "fresh_but lib {tmp} a n t \<Longrightarrow> entry_at t a tmp = None \<Longrightarrow> fresh_tmp lib a n t"
  by (auto simp: fresh_tmp_def fresh_but_def)

lemma fresh_tmp_but: "fresh_tmp lib a n t \<Longrightarrow> fresh_but lib T a n t"
  by (simp add: fresh_tmp_def fresh_but_def)

lemma steadyD: "steady F K \<Longrightarrow> K t \<Longrightarrow> frame I N t t' \<Longrightarrow> aside F I N t \<Longrightarrow> K t'"
  unfolding steady_def by blast

lemma counted_aside: "counted i S t \<Longrightarrow> \<forall>(e, n) \<in> S. tmp_like n \<or> n = F \<Longrightarrow> \<forall>n \<in> N. tmp_like n \<or> n = F \<Longrightarrow> aside F {i} N t"
  by (auto simp: aside_def counted_def)

lemma aside_none: "\<forall>n \<in> N. tmp_like n \<or> n \<in> {lock_name, audit_dir_name, F} \<Longrightarrow> aside F {} N t"
  by (simp add: aside_def)

definition draft :: "'b lib \<Rightarrow> nat \<Rightarrow> string \<Rightarrow> nat \<Rightarrow> 'b tree \<Rightarrow> bool" where
  "draft lib a tmp i t \<longleftrightarrow> private_file lib i t \<and> counted i {(a, tmp)} t"

definition twin :: "'b lib \<Rightarrow> nat \<Rightarrow> string \<Rightarrow> string \<Rightarrow> ('b \<Rightarrow> bool) \<Rightarrow> nat \<Rightarrow> 'b tree \<Rightarrow> bool" where
  "twin lib a tmp final ok i t \<longleftrightarrow> private_file lib i t \<and> ok (in_bytes (inodes t i)) \<and>
     counted i {(a, tmp), (a, final)} t"

lemma draft_kind: "draft lib a tmp i t \<Longrightarrow> in_kind (inodes t i) \<noteq> Directory"
  by (simp add: draft_def private_file_def)

lemma draft_entry: "draft lib a tmp i t \<Longrightarrow> entry_at t a tmp = Some i"
  by (auto simp: draft_def counted_def links_iff [symmetric])

lemma twin_entry: "twin lib a tmp final ok i t \<Longrightarrow> entry_at t a tmp = Some i \<and> entry_at t a final = Some i"
  by (auto simp: twin_def counted_def links_iff [symmetric])

lemma draft_write:
  assumes "t_write i c t = Inr (u, t')" "sound t" "draft lib a tmp i t"
  shows "draft lib a tmp i t'" "in_bytes (inodes t' i) = c"
  using write_frame [OF assms(1,2) draft_kind [OF assms(3)]] assms(3)
  by (simp_all add: draft_def private_file_def counted_def)

lemma draft_chmod:
  assumes "t_fchmod e i 384 t = Inr (u, t')" "sound t" "draft lib a tmp i t"
  shows "draft lib a tmp i t'" "in_bytes (inodes t' i) = in_bytes (inodes t i)"
  using fchmod_frame [OF assms(1,2) draft_kind [OF assms(3)]] assms(3)
  by (simp_all add: draft_def private_file_def counted_def)

lemma draft_link:
  assumes "t_link a tmp final t = Inr (u, t')" "sound t" "draft lib a tmp i t" "ok (in_bytes (inodes t i))" "tmp \<noteq> final"
  shows "twin lib a tmp final ok i t'"
  using link_frame [OF assms(1,2) draft_entry [OF assms(3)]] assms(3-5)
  by (simp add: twin_def draft_def private_file_def counted_def insert_commute)

lemma twin_unlink:
  assumes "t_unlink a tmp t = Inr (u, t')" "sound t" "twin lib a tmp final ok i t" "tmp \<noteq> final"
  shows "settled_at lib a final ok i t'"
proof -
  have "entry_at t a tmp = Some i" using twin_entry [OF assms(3)] by simp
  from unlink_frame [OF assms(1,2) this] assms(3,4) show ?thesis
    by (auto simp: twin_def private_file_def counted_def settled_at_def)
qed

lemma frame_fsync: "t_fsync i t = Inr (u, t') \<Longrightarrow> sound t \<Longrightarrow> inodes t' = inodes t \<and> links t' = links t"
  by (simp add: fsync_frame)


definition drafting :: "'b lib \<Rightarrow> ('b tree \<Rightarrow> bool) \<Rightarrow> nat \<Rightarrow> string \<Rightarrow> string \<Rightarrow> nat \<Rightarrow> 'b tree \<Rightarrow> nat \<Rightarrow> bool" where
  "drafting lib K a tmp final i t n \<longleftrightarrow> sound t \<and> K t \<and> entry_at t a final = None \<and> draft lib a tmp i t \<and>
     fresh_but lib {tmp} a n t"

definition twinned ::
  "'b lib \<Rightarrow> ('b tree \<Rightarrow> bool) \<Rightarrow> nat \<Rightarrow> string \<Rightarrow> string \<Rightarrow> ('b \<Rightarrow> bool) \<Rightarrow> nat \<Rightarrow> 'b tree \<Rightarrow> nat \<Rightarrow> bool" where
  "twinned lib K a tmp final ok i t n \<longleftrightarrow> sound t \<and> K t \<and> twin lib a tmp final ok i t \<and>
     fresh_but lib {tmp} a n t"

lemma drafting_frame:
  assumes "drafting lib K a tmp final i t n" "steady final K" "tmp_like tmp" "\<not> tmp_like final"
    and f: "frame {i} {} t t' \<or> frame {} {} t t'" and "draft lib a tmp i t'"
  shows "drafting lib K a tmp final i t' n"
proof -
  from assms have d: "sound t" "K t" "entry_at t a final = None" "draft lib a tmp i t" "fresh_but lib {tmp} a n t"
    by (auto simp: drafting_def)
  from d(4) \<open>tmp_like tmp\<close> have "aside final {i} {} t"
    by (auto simp: draft_def intro: counted_aside)
  then obtain I where I: "frame I {} t t'" "aside final I {} t"
    using f aside_none [of "{}" final t] by auto
  from steadyD [OF assms(2) d(2) I] fresh_but_frame [OF d(5) I(1)] frame_entry [OF I(1), of final a]
    frame_sound [OF I(1)] d assms(6)
  show ?thesis by (simp add: drafting_def)
qed

lemma drafting_calls:
  assumes "drafting lib K a tmp final i t n" "steady final K" "tmp_like tmp" "\<not> tmp_like final"
  shows "t_write i c t = Inr (u, t') \<Longrightarrow> drafting lib K a tmp final i t' n"
    "t_fchmod e i 384 t = Inr (u, t') \<Longrightarrow> drafting lib K a tmp final i t' n"
    "t_fsync j t = Inr (u, t') \<Longrightarrow> drafting lib K a tmp final i t' n"
proof -
  from assms(1) have d: "sound t" "draft lib a tmp i t" by (simp_all add: drafting_def)
  note step = drafting_frame [OF assms]
  show "drafting lib K a tmp final i t' n" if "t_write i c t = Inr (u, t')"
    using step write_frame(1) [OF that d(1) draft_kind [OF d(2)]] draft_write(1) [OF that d] by blast
  show "drafting lib K a tmp final i t' n" if "t_fchmod e i 384 t = Inr (u, t')"
    using step fchmod_frame(1) [OF that d(1) draft_kind [OF d(2)]] draft_chmod(1) [OF that d] by blast
  show "drafting lib K a tmp final i t' n" if "t_fsync j t = Inr (u, t')"
    using step fsync_frame [OF that d(1)] d(2) by (simp add: draft_def private_file_def counted_def)
qed

lemma drafting_link:
  assumes "drafting lib K a tmp final i t n" "steady final K" "tmp_like tmp" "\<not> tmp_like final"
    and "t_link a tmp final t = Inr (u, t')" "ok (in_bytes (inodes t i))"
  shows "twinned lib K a tmp final ok i t' n"
proof -
  from assms(1) have d: "sound t" "K t" "draft lib a tmp i t" "fresh_but lib {tmp} a n t"
    by (simp_all add: drafting_def)
  from assms(3,4) have "tmp \<noteq> final" by auto
  note f = link_frame(1) [OF assms(5) d(1) draft_entry [OF d(3)]]
  have "aside final {i} {final} t"
    by (rule counted_aside) (use d(3) assms(3) in \<open>auto simp: draft_def\<close>)
  moreover have "tmp_of (lb_uuid lib k) \<noteq> final" for k using assms(4) by auto
  ultimately show ?thesis
    using steadyD [OF assms(2) d(2) f] fresh_but_frame [OF d(4) f] frame_sound [OF f] assms(4)
    draft_link [where ok = ok, OF assms(5) d(1,3) assms(6) \<open>tmp \<noteq> final\<close>]
    by (auto simp: twinned_def)
qed

lemma twinned_fsync:
  assumes "twinned lib K a tmp final ok i t n" "steady final K" "t_fsync j t = Inr (u, t')"
  shows "twinned lib K a tmp final ok i t' n"
proof -
  from assms(1) have d: "sound t" "K t" "fresh_but lib {tmp} a n t" by (simp_all add: twinned_def)
  note f = fsync_frame [OF assms(3) d(1)]
  have "aside final {} {} t" by (rule aside_none) simp
  from steadyD [OF assms(2) d(2) f(1) this] fresh_but_frame [OF d(3) f(1)] frame_sound [OF f(1)] assms(1) f(2,3)
  show ?thesis by (simp add: twinned_def twin_def private_file_def counted_def)
qed

lemma twinned_unlink:
  assumes "twinned lib K a tmp final ok i t n" "steady final K" "tmp_like tmp" "\<not> tmp_like final"
    and "t_unlink a tmp t = Inr (u, t')"
  shows "sound t' \<and> K t' \<and> settled lib a final ok t' \<and> fresh_tmp lib a n t'"
proof -
  from assms(1) have d: "sound t" "K t" "twin lib a tmp final ok i t" "fresh_but lib {tmp} a n t"
    by (simp_all add: twinned_def)
  from assms(3,4) have ne: "tmp \<noteq> final" by auto
  have e: "entry_at t a tmp = Some i" using twin_entry [OF d(3)] by simp
  note f = unlink_frame(1) [OF assms(5) d(1) e]
  have "aside final {i} {tmp} t"
    by (rule counted_aside) (use d(3) assms(3) in \<open>auto simp: twin_def\<close>)
  moreover have "fresh_tmp lib a n t'"
    by (rule fresh_but_free [OF fresh_but_frame [OF d(4) f] unlink_frame(3) [OF assms(5) d(1) e]]) simp
  ultimately show ?thesis
    using steadyD [OF assms(2) d(2) f] frame_sound [OF f] twin_unlink [OF assms(5) d(1,3) ne]
    unfolding settled_def by auto
qed

lemma drafting_unlink:
  assumes "drafting lib K a tmp final i t n" "steady final K" "tmp_like tmp" "\<not> tmp_like final"
    and "t_unlink a tmp t = Inr (u, t')"
  shows "sound t' \<and> K t' \<and> entry_at t' a final = None"
proof -
  from assms(1) have d: "sound t" "K t" "entry_at t a final = None" "draft lib a tmp i t"
    by (simp_all add: drafting_def)
  from assms(3,4) have ne: "final \<noteq> tmp" by auto
  note f = unlink_frame(1) [OF assms(5) d(1) draft_entry [OF d(4)]]
  have "aside final {i} {tmp} t"
    by (rule counted_aside) (use d(4) assms(3) in \<open>auto simp: draft_def\<close>)
  from steadyD [OF assms(2) d(2) f this] frame_sound [OF f] frame_entry [OF f, of final a] d(3) ne
  show ?thesis by auto
qed

lemma drafting_create:
  assumes K: "sound t" "K t" "steady final K" "entry_at t a final = None" "fresh_tmp lib a n t" "\<not> tmp_like final"
    and tmp: "tmp_like tmp"
    and c: "t_create (lb_euid lib) (lb_nothing lib) a tmp t = Inr (i, t')"
  shows "drafting lib K a tmp final i t' n"
proof -
  from K(6) tmp have ne: "final \<noteq> tmp" by auto
  note f = new_names [OF c [unfolded t_create_def] K(1)]
  have "aside final {} {tmp} t" using tmp by (intro aside_none) simp
  from steadyD [OF K(3,2) f(2) this] frame_sound [OF f(2)] frame_entry [OF f(2), of final a] K(4) ne
    fresh_but_frame [OF fresh_tmp_but [OF K(5), where T = "{tmp}"] f(2)] f(3,4)
  show ?thesis by (auto simp: drafting_def draft_def private_file_def counted_def)
qed


lemma create_new:
  assumes "sound t" "in_kind (inodes t d) = Directory" "d < next_inode t" "entry_at t d n = None"
  shows "\<exists>i t'. t_create uid b d n t = Inr (i, t')" "\<exists>i t'. t_mkdir uid b d n t = Inr (i, t')"
  using assms by (simp_all add: t_create_def t_mkdir_def t_new_def Let_def)

lemma audit_dir_below: "sound t \<Longrightarrow> audit_dir_at lib d a t \<Longrightarrow> a < next_inode t"
  using sound_links [of t d audit_dir_name a] by (simp add: audit_dir_at_def links_iff)

lemma draft_calls:
  assumes "drafting lib K a tmp final i t n"
  shows "\<exists>t'. t_write i c t = Inr ((), t')" "\<exists>t'. t_fchmod (lb_euid lib) i 384 t = Inr ((), t')"
    "\<exists>t'. t_link a tmp final t = Inr ((), t')" "\<exists>t'. t_unlink a tmp t = Inr ((), t')"
  using assms draft_entry [of lib a tmp i t] draft_kind [of lib a tmp i t]
  by (auto simp: drafting_def t_write_def t_fchmod_def t_link_def t_unlink_def draft_def private_file_def)

lemma twin_unlinks: "twinned lib K a tmp final ok i t n \<Longrightarrow> \<exists>t'. t_unlink a tmp t = Inr ((), t')"
  using twin_entry [of lib a tmp final ok i t]
  by (auto simp: twinned_def t_unlink_def twin_def private_file_def)

lemma twinned_published: "twinned lib K a tmp final ok i t n \<Longrightarrow> is_tmp_name tmp \<Longrightarrow> published lib a final ok t"
  unfolding twinned_def twin_def published_def by (metis insert_commute)

text \<open>What a publication rests on, as one hypothesis.\<close>

definition publication ::
  "'b lib \<Rightarrow> ('b tree \<Rightarrow> bool) \<Rightarrow> ('b tree \<Rightarrow> bool) \<Rightarrow> nat \<Rightarrow> string \<Rightarrow> ('b \<Rightarrow> bool) \<Rightarrow> json \<Rightarrow> bool" where
  "publication lib G K a final ok v \<longleftrightarrow> steady final K \<and>
     (\<forall>t. K t \<longrightarrow> sound t \<and> a < next_inode t \<and> in_kind (inodes t a) = Directory) \<and>
     proper_uuids lib \<and> \<not> tmp_like final \<and>
     lb_size lib (lb_line lib (lb_dumps lib v)) \<le> audit_limit \<and> ok (lb_line lib (lb_dumps lib v)) \<and>
     (\<forall>t. K t \<longrightarrow> entry_at t a final = None \<longrightarrow> G t) \<and> (\<forall>t. K t \<longrightarrow> published lib a final ok t \<longrightarrow> G t)"

definition midway ::
  "'b lib \<Rightarrow> ('b tree \<Rightarrow> bool) \<Rightarrow> nat \<Rightarrow> string \<Rightarrow> string \<Rightarrow> ('b \<Rightarrow> bool) \<Rightarrow> nat \<Rightarrow> 'b tree \<Rightarrow> nat \<Rightarrow> bool" where
  "midway lib K a tmp final ok i t n \<longleftrightarrow> drafting lib K a tmp final i t n \<or> twinned lib K a tmp final ok i t n"

lemma midwayI [intro]:
  "drafting lib K a tmp final i t n \<Longrightarrow> midway lib K a tmp final ok i t n"
  "twinned lib K a tmp final ok i t n \<Longrightarrow> midway lib K a tmp final ok i t n"
  by (simp_all add: midway_def)

lemma publicationD:
  assumes "publication lib G K a final ok v"
  shows "steady final K" "proper_uuids lib" "\<not> tmp_like final" "ok (lb_line lib (lb_dumps lib v))"
    "lb_size lib (lb_line lib (lb_dumps lib v)) \<le> audit_limit"
    "K t \<Longrightarrow> sound t \<and> a < next_inode t \<and> in_kind (inodes t a) = Directory"
    "K t \<Longrightarrow> entry_at t a final = None \<Longrightarrow> G t" "K t \<Longrightarrow> published lib a final ok t \<Longrightarrow> G t"
    "drafting lib K a u final i t n \<Longrightarrow> G t" "is_tmp_name u \<Longrightarrow> twinned lib K a u final ok i t n \<Longrightarrow> G t"
proof -
  show "G t" if "is_tmp_name u" "twinned lib K a u final ok i t n"
    using assms twinned_published [OF that(2,1)] that(2) by (auto simp: publication_def twinned_def)
qed (use assms in \<open>auto simp: publication_def drafting_def\<close>)

lemma does_draft_step:
  assumes p: "publication lib G K a final ok v"
    and step: "\<And>t n. drafting lib K a u final i t n \<Longrightarrow> R t \<Longrightarrow>
      \<exists>t'. f t = Inr ((), t') \<and> drafting lib K a u final i t' n \<and> S t'"
  shows "does b G (\<lambda>t n. drafting lib K a u final i t n \<and> R t) (call f)
    (\<lambda>_ t n. drafting lib K a u final i t n \<and> S t) (midway lib K a u final ok i)"
  by (rule does_call) (use step publicationD(9) [OF p] in blast)+

lemma does_draft_writes:
  fixes i :: nat
  assumes p: "publication lib G K a final ok v" and u: "is_tmp_name u"
  defines "D \<equiv> drafting lib K a u final i" and "M \<equiv> midway lib K a u final ok i"
  shows "does b G (\<lambda>t n. D t n \<and> R t) (call (t_write i c)) (\<lambda>_ t n. D t n \<and> in_bytes (inodes t i) = c) M"
    "does b G (\<lambda>t n. D t n \<and> in_bytes (inodes t i) = c) (call (t_fsync j)) (\<lambda>_ t n. D t n \<and> in_bytes (inodes t i) = c) M"
    "does b G (\<lambda>t n. D t n \<and> in_bytes (inodes t i) = c) (call (t_fchmod (lb_euid lib) i 384))
      (\<lambda>_ t n. D t n \<and> in_bytes (inodes t i) = c) M"
proof -
  note calls = drafting_calls [OF _ publicationD(1) [OF p] is_tmp_name_like [OF u] publicationD(3) [OF p]]
  note parts = drafting_def [of lib K a u final i]
  show "does b G (\<lambda>t n. D t n \<and> R t) (call (t_write i c)) (\<lambda>_ t n. D t n \<and> in_bytes (inodes t i) = c) M"
    unfolding D_def M_def
  proof (rule does_draft_step [OF p])
    fix t n assume d: "drafting lib K a u final i t n"
    from draft_calls(1) [OF d, where c = c] obtain t' where w: "t_write i c t = Inr ((), t')" by blast
    from d have "in_bytes (inodes t' i) = c" by (intro draft_write(2) [OF w]) (auto simp: parts)
    with calls(1) [OF d w] w show "\<exists>t'. t_write i c t = Inr ((), t') \<and> drafting lib K a u final i t' n \<and> in_bytes (inodes t' i) = c"
      by blast
  qed
  show "does b G (\<lambda>t n. D t n \<and> in_bytes (inodes t i) = c) (call (t_fsync j)) (\<lambda>_ t n. D t n \<and> in_bytes (inodes t i) = c) M"
    unfolding D_def M_def
  proof (rule does_draft_step [OF p])
    fix t n assume d: "drafting lib K a u final i t n" and c: "in_bytes (inodes t i) = c"
    obtain t' where w: "t_fsync j t = Inr ((), t')" by (simp add: t_fsync_def)
    from d c have "in_bytes (inodes t' i) = c" using frame_fsync [OF w] by (auto simp: parts)
    with calls(3) [OF d w] w show "\<exists>t'. t_fsync j t = Inr ((), t') \<and> drafting lib K a u final i t' n \<and> in_bytes (inodes t' i) = c"
      by blast
  qed
  show "does b G (\<lambda>t n. D t n \<and> in_bytes (inodes t i) = c) (call (t_fchmod (lb_euid lib) i 384))
      (\<lambda>_ t n. D t n \<and> in_bytes (inodes t i) = c) M"
    unfolding D_def M_def
  proof (rule does_draft_step [OF p])
    fix t n assume d: "drafting lib K a u final i t n" and c: "in_bytes (inodes t i) = c"
    from draft_calls(2) [OF d] obtain t' where w: "t_fchmod (lb_euid lib) i 384 t = Inr ((), t')" by blast
    from d c have "in_bytes (inodes t' i) = c" using draft_chmod(2) [OF w] by (auto simp: parts)
    with calls(2) [OF d w] w show "\<exists>t'. t_fchmod (lb_euid lib) i 384 t = Inr ((), t') \<and>
        drafting lib K a u final i t' n \<and> in_bytes (inodes t' i) = c" by blast
  qed
qed

lemma does_draft_link:
  assumes p: "publication lib G K a final ok v" and u: "is_tmp_name u"
  shows "does b G (\<lambda>t n. drafting lib K a u final i t n \<and> in_bytes (inodes t i) = lb_line lib (lb_dumps lib v))
    (call (t_link a u final)) (\<lambda>_. twinned lib K a u final ok i) (midway lib K a u final ok i)"
proof (rule does_call)
  fix t n assume d: "drafting lib K a u final i t n \<and> in_bytes (inodes t i) = lb_line lib (lb_dumps lib v)"
  with draft_calls(3) obtain t' where w: "t_link a u final t = Inr ((), t')" by blast
  from d publicationD(4) [OF p] have "twinned lib K a u final ok i t' n"
    by (intro drafting_link [OF _ publicationD(1) [OF p] is_tmp_name_like [OF u] publicationD(3) [OF p] w]) auto
  with w publicationD(10) [OF p u]
  show "\<exists>x t'. t_link a u final t = Inr (x, t') \<and> G t' \<and> twinned lib K a u final ok i t' n" by blast
qed blast

lemma does_twin_looks:
  fixes i :: nat
  assumes p: "publication lib G K a final ok v" and u: "is_tmp_name u"
  defines "D \<equiv> twinned lib K a u final ok i" and "M \<equiv> midway lib K a u final ok i"
  shows "does b G D (call (t_fsync j)) (\<lambda>_. D) M"
    "does b G D (call (t_stat a final)) (\<lambda>st t n. D t n \<and> st_ino st = i) M"
    "does b G D (call (t_fstat i)) (\<lambda>st t n. D t n \<and> st_ino st = i) M"
proof -
  show "does b G D (call (t_fsync j)) (\<lambda>_. D) M"
    unfolding D_def M_def
  proof (rule does_call)
    fix t n assume d: "twinned lib K a u final ok i t n"
    obtain t' where w: "t_fsync j t = Inr ((), t')" by (simp add: t_fsync_def)
    with twinned_fsync [OF d publicationD(1) [OF p] w] publicationD(10) [OF p u]
    show "\<exists>x t'. t_fsync j t = Inr (x, t') \<and> G t' \<and> twinned lib K a u final ok i t' n" by blast
  qed blast
  show "does b G D (call (t_stat a final)) (\<lambda>st t n. D t n \<and> st_ino st = i) M"
    "does b G D (call (t_fstat i)) (\<lambda>st t n. D t n \<and> st_ino st = i) M"
    unfolding D_def M_def
    by (rule does_peek, use twin_entry midwayI(2) in \<open>fastforce simp: t_stat_def t_fstat_def twinned_def\<close>, blast)+
qed

lemma gets_published_unlink:
  assumes p: "publication lib G K a final ok v" and u: "is_tmp_name u"
  shows "gets b G (twinned lib K a u final ok i) (call (t_unlink a u))
      (\<lambda>_ t n. K t \<and> settled lib a final ok t \<and> fresh_tmp lib a n t)"
    "gets b G (midway lib K a u final ok i) (call (t_unlink a u))
      (\<lambda>_ t n. K t \<and> (entry_at t a final = None \<or> settled lib a final ok t))"
proof -
  note last = publicationD(1) [OF p] is_tmp_name_like [OF u] publicationD(3) [OF p]
  have twin: "\<exists>x t'. t_unlink a u t = Inr (x, t') \<and> G t' \<and> K t' \<and> settled lib a final ok t' \<and> fresh_tmp lib a n t'"
    if d: "twinned lib K a u final ok i t n" for t n
  proof -
    from twin_unlinks [OF d] obtain t' where w: "t_unlink a u t = Inr ((), t')" by blast
    with twinned_unlink [OF d last w] publicationD(8) [OF p] settled_published show ?thesis by blast
  qed
  have draft: "\<exists>x t'. t_unlink a u t = Inr (x, t') \<and> G t' \<and> K t' \<and> entry_at t' a final = None"
    if d: "drafting lib K a u final i t n" for t n
  proof -
    from draft_calls(4) [OF d] obtain t' where w: "t_unlink a u t = Inr ((), t')" by blast
    with drafting_unlink [OF d last w] publicationD(7) [OF p] show ?thesis by blast
  qed
  show "gets b G (twinned lib K a u final ok i) (call (t_unlink a u))
      (\<lambda>_ t n. K t \<and> settled lib a final ok t \<and> fresh_tmp lib a n t)"
    by (rule gets_call) (erule twin)
  show "gets b G (midway lib K a u final ok i) (call (t_unlink a u))
      (\<lambda>_ t n. K t \<and> (entry_at t a final = None \<or> settled lib a final ok t))"
    unfolding midway_def by (rule gets_call) (use twin draft in fast)
qed

lemma gets_fsync:
  assumes "\<And>t t' n. P t n \<Longrightarrow> sound t \<and> (frame {} {} t t' \<longrightarrow> inodes t' = inodes t \<longrightarrow> links t' = links t \<longrightarrow> G t' \<and> P t' n)"
  shows "gets b G P (call (t_fsync j)) (\<lambda>_. P)"
proof (rule gets_call)
  fix t n assume P: "P t n"
  obtain t' where w: "t_fsync j t = Inr ((), t')" by (simp add: t_fsync_def)
  from fsync_frame [OF w] assms [OF P] w show "\<exists>x t'. t_fsync j t = Inr (x, t') \<and> G t' \<and> P t' n" by blast
qed

lemma settled_same:
  "inodes t' = inodes t \<Longrightarrow> links t' = links t \<Longrightarrow> settled lib a final ok t \<Longrightarrow> settled lib a final ok t'"
  by (auto simp: settled_def settled_at_def private_file_def counted_def)

lemma gets_publication_end:
  assumes p: "publication lib G K a final ok v" and u: "is_tmp_name u"
  defines "tidy \<equiv> \<lambda>i. ebind (sys_close i) (\<lambda>_. etry (\<lambda>x. instance_of x FileNotFoundError)
             (ebind (call (t_unlink a u)) (\<lambda>_. call (t_fsync a))) (\<lambda>_. eret ()))"
  shows "gets b G (twinned lib K a u final ok i) (tidy i) (\<lambda>_ t n. K t \<and> settled lib a final ok t \<and> fresh_tmp lib a n t)"
    "gets b G (midway lib K a u final ok i) (tidy i) (\<lambda>_ _ _. True)"
proof -
  have kept: "aside final {} {} t" for t by (rule aside_none) simp
  note K = publicationD(6) [OF p] steadyD [OF publicationD(1) [OF p] _ _ kept] publicationD(8) [OF p]
  have sync: "gets b G (\<lambda>t n. K t \<and> settled lib a final ok t \<and> fresh_tmp lib a n t) (call (t_fsync a))
      (\<lambda>_ t n. K t \<and> settled lib a final ok t \<and> fresh_tmp lib a n t)"
  proof (rule gets_fsync, intro conjI impI)
    fix t t' :: "'a tree" and n assume P: "K t \<and> settled lib a final ok t \<and> fresh_tmp lib a n t"
    then show "sound t" using K(1) by blast
    assume f: "frame {} {} t t'" "inodes t' = inodes t" "links t' = links t"
    from P f show "K t'" "settled lib a final ok t'" "fresh_tmp lib a n t'"
      using K(2) settled_same fresh_frame [OF _ f(1)] by blast+
    then show "G t'" using K(3) settled_published by blast
  qed
  have sync': "gets b G (\<lambda>t n. K t \<and> (entry_at t a final = None \<or> settled lib a final ok t)) (call (t_fsync a)) (\<lambda>_ _ _. True)"
  proof (rule does_post [OF gets_fsync], intro conjI impI)
    fix t t' :: "'a tree" and n :: nat assume P: "K t \<and> (entry_at t a final = None \<or> settled lib a final ok t)"
    then show "sound t" using K(1) by blast
    assume f: "frame {} {} t t'" "inodes t' = inodes t" "links t' = links t"
    from P f show "K t'" "entry_at t' a final = None \<or> settled lib a final ok t'"
      using K(2) settled_same [OF f(2,3)] frame_entry [OF f(1), of final a] by (blast, auto)
    then show "G t'" using K(3) publicationD(7) [OF p] settled_published by blast
  qed simp
  have loud: "\<not> loud x" if "instance_of x FileNotFoundError" for x using that by (simp add: loud_def)
  show "gets b G (twinned lib K a u final ok i) (tidy i) (\<lambda>_ t n. K t \<and> settled lib a final ok t \<and> fresh_tmp lib a n t)"
    unfolding tidy_def
    by (rule does_ebind [OF gets_close], rule does_etry_past [OF does_ebind [OF gets_published_unlink(1) [OF p u] sync] loud])
  show "gets b G (midway lib K a u final ok i) (tidy i) (\<lambda>_ _ _. True)"
    unfolding tidy_def
    by (rule does_ebind [OF gets_close], rule does_etry_past [OF does_ebind [OF gets_published_unlink(2) [OF p u] sync'] loud])
qed


lemma gets_atomic_private_json:
  assumes p: "publication lib G K a final ok v"
  shows "gets b G (\<lambda>t n. K t \<and> entry_at t a final = None \<and> fresh_tmp lib a n t)
    (atomic_private_json lib a final v) (\<lambda>_ t n. K t \<and> settled lib a final ok t \<and> fresh_tmp lib a n t)"
proof -
  let ?A = "\<lambda>u t n. K t \<and> entry_at t a final = None \<and> fresh_tmp lib a n t \<and> entry_at t a u = None \<and> is_tmp_name u"
  note lib = publicationD(2) [OF p]
  have named: "gets b G (\<lambda>t n. K t \<and> entry_at t a final = None \<and> fresh_tmp lib a n t) (new_uuid (lb_uuid lib)) (\<lambda>u. ?A (tmp_of u))"
    by (rule does_new_uuid) (auto simp: fresh_tmp_def fresh_but_def proper_tmp [OF lib])
  have create: "gets b G (?A u) (sys_open (t_create (lb_euid lib) (lb_nothing lib) a u))
      (\<lambda>i t n. (drafting lib K a u final i t n \<and> True) \<and> is_tmp_name u)" for u
  proof (rule does_sys_open, rule gets_call)
    fix t n assume A: "?A u t n"
    with publicationD(6) [OF p, of t] create_new(1) [of t a u]
    obtain i t' where c: "t_create (lb_euid lib) (lb_nothing lib) a u t = Inr (i, t')" by blast
    with A publicationD(1,3,6) [OF p] is_tmp_name_like have "drafting lib K a u final i t' n"
      by (intro drafting_create [OF _ _ _ _ _ _ _ c]) auto
    with publicationD(9) [OF p this] A c
    show "\<exists>i t'. t_create (lb_euid lib) (lb_nothing lib) a u t = Inr (i, t') \<and> G t' \<and>
        (drafting lib K a u final i t' n \<and> True) \<and> is_tmp_name u" by blast
  qed
  have body: "does b G (\<lambda>t n. drafting lib K a u final i t n \<and> True)
      (ebind (call (t_write i c)) (\<lambda>_. ebind (call (t_write i (lb_line lib (lb_dumps lib v)))) (\<lambda>_.
       ebind (call (t_fsync i)) (\<lambda>_. ebind (call (t_fchmod (lb_euid lib) i 384)) (\<lambda>_.
       ebind (call (t_fsync i)) (\<lambda>_. ebind (call (t_link a u final)) (\<lambda>_.
       ebind (call (t_fsync a)) (\<lambda>_. ebind (call (t_stat a final)) (\<lambda>published.
       ebind (call (t_fstat i)) (\<lambda>opened.
       if same_inode published opened then eret ()
       else eraise (tombstone_error ''published audit pathname identity changed'')))))))))))
      (\<lambda>_. twinned lib K a u final ok i) (midway lib K a u final ok i)" if u: "is_tmp_name u" for u i c
    apply (rule does_ebind [OF does_draft_writes(1) [OF p u]], rule does_ebind [OF does_draft_writes(1) [OF p u]])
    apply (rule does_ebind [OF does_draft_writes(2) [OF p u]], rule does_ebind [OF does_draft_writes(3) [OF p u]])
    apply (rule does_ebind [OF does_draft_writes(2) [OF p u]], rule does_ebind [OF does_draft_link [OF p u]])
    apply (rule does_ebind [OF does_twin_looks(1) [OF p u]])
    apply (rule does_ebind [OF does_twin_looks(2) [OF p u]], rule does_given)
    apply (rule does_ebind [OF does_twin_looks(3) [OF p u]], rule does_given)
    apply (simp add: same_inode_def, rule does_eret, simp)
    done
  show ?thesis
    unfolding atomic_private_json_def Let_def
    by (rule gets_if_not, use publicationD(5) [OF p] in simp, rule does_ebind [OF named],
        rule does_ebind [OF create], rule does_given,
        rule does_efinally [OF body gets_publication_end(1) [OF p] gets_publication_end(2) [OF p]])
qed


section \<open>Reading a record back\<close>

text \<open>A record that is there, and what else is kept while it is read.\<close>

definition kept_record ::
  "'b lib \<Rightarrow> ('b tree \<Rightarrow> bool) \<Rightarrow> ('b tree \<Rightarrow> bool) \<Rightarrow> nat \<Rightarrow> string \<Rightarrow> ('b \<Rightarrow> bool) \<Rightarrow> bool" where
  "kept_record lib G K a name ok \<longleftrightarrow> steady name K \<and> (\<forall>t. K t \<longrightarrow> sound t) \<and> \<not> tmp_like name \<and>
     (\<forall>t. K t \<longrightarrow> published lib a name ok t \<longrightarrow> G t)"

lemma kept_recordD:
  assumes "kept_record lib G K a name ok"
  shows "steady name K" "K t \<Longrightarrow> sound t" "\<not> tmp_like name" "K t \<Longrightarrow> published lib a name ok t \<Longrightarrow> G t"
  using assms by (simp_all add: kept_record_def)

lemma does_ex: "(\<And>u. does b G (P u) c Q X) \<Longrightarrow> does b G (\<lambda>t n. \<exists>u. P u t n) c Q X"
  unfolding does_def triple_def goes_def by blast

lemma does_disj: "does b G P c Q X \<Longrightarrow> does b G P' c Q X \<Longrightarrow> does b G (\<lambda>t n. P t n \<or> P' t n) c Q X"
  unfolding does_def triple_def goes_def by blast

lemma private_named: "private_file lib i t \<Longrightarrow> in_nlink (inodes t i) \<in> set ks \<Longrightarrow>
    private_ok lib False ks (stat_of t i) (stat_of t i)"
  by (simp add: private_ok_def private_file_def same_inode_def)

lemma settled_entry: "settled_at lib a name ok j t \<Longrightarrow> entry_at t a name = Some j"
  by (auto simp: settled_at_def counted_def links_iff [symmetric])

lemma published_cases:
  assumes "published lib a name ok t" "\<not> tmp_like name"
  obtains (one) j where "settled_at lib a name ok j t" "in_nlink (inodes t j) = 1"
  | (two) j u where "is_tmp_name u" "twin lib a u name ok j t" "in_nlink (inodes t j) = 2"
proof -
  from assms(1) obtain j where j: "private_file lib j t" "ok (in_bytes (inodes t j))"
    and "counted j {(a, name)} t \<or> (\<exists>u. is_tmp_name u \<and> counted j {(a, name), (a, u)} t)"
    unfolding published_def by blast
  from this(3) consider "counted j {(a, name)} t" | u where "is_tmp_name u" "counted j {(a, name), (a, u)} t" by blast
  then show thesis
  proof cases
    case 1
    then have "in_nlink (inodes t j) = 1" by (simp add: counted_def)
    with 1 j show thesis by (intro one) (simp_all add: settled_at_def)
  next
    case 2
    then have "u \<noteq> name" using assms(2) is_tmp_name_like by auto
    with 2 have "in_nlink (inodes t j) = 2" by (simp add: counted_def)
    with 2 j show thesis by (intro two) (simp_all add: twin_def insert_commute)
  qed
qed

lemma published_open:
  assumes "published lib a name ok t" "\<not> tmp_like name"
  shows "\<exists>i. entry_at t a name = Some i \<and> private_ok lib False [1, 2] (stat_of t i) (stat_of t i)"
  using assms
proof (cases rule: published_cases)
  case (one j)
  then show ?thesis using private_named [of lib j t "[1, 2]"] settled_entry [OF one(1)] by (simp add: settled_at_def)
next
  case (two j u)
  then show ?thesis using private_named [of lib j t "[1, 2]"] twin_entry [OF two(2)] by (simp add: twin_def)
qed

lemma concat_single:
  "distinct xs \<Longrightarrow> u \<in> set xs \<Longrightarrow> concat (List.map (\<lambda>x. if x = u then [x] else []) xs) = [u]"
  by (induction xs) (auto simp: concat_eq_Nil_conv)

lemma gets_recover_listing:
  assumes K: "kept_record lib G K a name ok" and u: "is_tmp_name u" and st: "st_ino opened = i"
  defines "D \<equiv> \<lambda>t (n::nat). K t \<and> twin lib a u name ok i t \<and> fresh_tmp lib a n t"
  shows "gets b G (\<lambda>t n. D t n \<and> xs = dict_keys (names t a))
    (emap (\<lambda>n. if is_tmp_name n then ebind (call (t_stat a n)) (\<lambda>st. eret (if same_inode opened st then [n] else []))
       else eret []) xs)
    (\<lambda>found t n. D t n \<and> concat found = [u])"
proof -
  let ?P = "\<lambda>t n. D t n \<and> xs = dict_keys (names t a)"
  let ?g = "\<lambda>x. if x = u then [x] else []"
  have same: "same_inode opened (stat_of t k) \<longleftrightarrow> x = u" if "D t n" "entry_at t a x = Some k" "is_tmp_name x" for t n x k
  proof -
    from that(3) kept_recordD(3) [OF K] have "x \<noteq> name" using is_tmp_name_like by auto
    from that(1) have "links t i = {(a, u), (a, name)}" by (simp add: D_def twin_def counted_def)
    with \<open>x \<noteq> name\<close> have "(a, x) \<in> links t i \<longleftrightarrow> x = u" by simp
    with that(2) st show ?thesis by (auto simp: links_iff same_inode_def)
  qed
  have one: "gets b G ?P (if is_tmp_name x then ebind (call (t_stat a x)) (\<lambda>st. eret (if same_inode opened st then [x] else []))
       else eret []) (\<lambda>r t n. ?P t n \<and> r = ?g x)" if x: "x \<in> set xs" for x
  proof (rule does_if)
    assume tmp: "is_tmp_name x"
    have "gets b G ?P (call (t_stat a x)) (\<lambda>st t n. ?P t n \<and> same_inode opened st = (x = u))"
    proof (rule gets_peek)
      fix t n assume P: "?P t n"
      with x obtain k where k: "entry_at t a x = Some k" by (cases "entry_at t a x") (auto simp: entry_at_def)
      with same [OF _ k tmp, of n] P
      show "\<exists>st. t_stat a x t = Inr (st, t) \<and> ?P t n \<and> same_inode opened st = (x = u)" by (simp add: t_stat_def)
    qed
    then show "gets b G ?P (ebind (call (t_stat a x)) (\<lambda>st. eret (if same_inode opened st then [x] else [])))
        (\<lambda>r t n. ?P t n \<and> r = ?g x)"
      by (rule does_ebind) (rule does_given, rule does_eret, simp)
  next
    assume "\<not> is_tmp_name x"
    with u have "x \<noteq> u" by blast
    then show "gets b G ?P (eret []) (\<lambda>r t n. ?P t n \<and> r = ?g x)" by (intro does_eret) simp
  qed
  show ?thesis
  proof (rule does_post [OF does_emap [OF one]], assumption, elim conjE, rule conjI)
    fix found t n assume d: "D t n" and f: "found = List.map ?g xs" and xs: "xs = dict_keys (names t a)"
    from d have "sound t" "entry_at t a u = Some i" using kept_recordD(2) [OF K] unfolding D_def by (blast, blast dest: twin_entry)
    then have "distinct xs" "u \<in> set xs"
      using xs by (auto simp: sound_def dict_wf_def entry_at_def dict_keys_def dest!: map_of_SomeD intro: rev_image_eqI)
    with f show "concat found = [u]" by (simp only: concat_single)
  qed simp
qed


lemma gets_drop_twin:
  assumes K: "kept_record lib G K a name ok" and u: "is_tmp_name u"
  shows "gets b G (\<lambda>t n. K t \<and> twin lib a u name ok i t \<and> fresh_tmp lib a n t) (call (t_unlink a u))
    (\<lambda>_ t n. K t \<and> settled_at lib a name ok i t \<and> fresh_tmp lib a n t)"
proof (rule gets_call)
  fix t n assume P: "K t \<and> twin lib a u name ok i t \<and> fresh_tmp lib a n t"
  then have t: "K t" "twin lib a u name ok i t" "fresh_tmp lib a n t" "sound t" using kept_recordD(2) [OF K] by auto
  note e = conjunct1 [OF twin_entry [OF t(2)]]
  have ne: "u \<noteq> name" using is_tmp_name_like [OF u] kept_recordD(3) [OF K] by blast
  from e t(2) obtain t' where w: "t_unlink a u t = Inr ((), t')"
    by (auto simp: t_unlink_def twin_def private_file_def)
  note f = unlink_frame(1) [OF w t(4) e]
  have "aside name {i} {u} t"
    by (rule counted_aside) (use t(2) is_tmp_name_like [OF u] in \<open>auto simp: twin_def\<close>)
  from steadyD [OF kept_recordD(1) [OF K] t(1) f this] have "K t'" .
  moreover have s: "settled_at lib a name ok i t'" by (rule twin_unlink [OF w t(4,2) ne])
  moreover have "fresh_tmp lib a n t'" by (rule fresh_frame [OF t(3) f]) (use fresh_taken [OF t(3) e] in auto)
  moreover from s have "published lib a name ok t'" by (intro settled_published) (auto simp: settled_def)
  ultimately show "\<exists>x t'. t_unlink a u t = Inr (x, t') \<and> G t' \<and> K t' \<and> settled_at lib a name ok i t' \<and> fresh_tmp lib a n t'"
    using w kept_recordD(4) [OF K] by blast
qed

lemma gets_settled_fsync:
  fixes i :: nat
  assumes K: "kept_record lib G K a name ok"
  defines "D \<equiv> \<lambda>t (n::nat). K t \<and> settled_at lib a name ok i t \<and> fresh_tmp lib a n t"
  shows "gets b G D (call (t_fsync j)) (\<lambda>_. D)"
proof (rule gets_fsync, intro conjI impI)
  fix t t' :: "'a tree" and n assume P: "D t n"
  then have t: "K t" "settled_at lib a name ok i t" "fresh_tmp lib a n t" by (simp_all add: D_def)
  then show "sound t" using kept_recordD(2) [OF K] by blast
  assume f: "frame {} {} t t'" "inodes t' = inodes t" "links t' = links t"
  have "aside name {} {} t" by (rule aside_none) simp
  from steadyD [OF kept_recordD(1) [OF K] t(1) f(1) this] have k: "K t'" .
  from t(2) f have s: "settled_at lib a name ok i t'" by (simp add: settled_at_def private_file_def counted_def)
  then have "published lib a name ok t'" by (intro settled_published) (auto simp: settled_def)
  with kept_recordD(4) [OF K k] show "G t'" .
  show "D t' n" unfolding D_def using k s fresh_frame [OF t(3) f(1)] by simp
qed

lemma gets_recover:
  assumes K: "kept_record lib G K a name ok" and st: "st_ino opened = i"
  shows "gets b G (\<lambda>t n. (K t \<and> published lib a name ok t \<and> fresh_tmp lib a n t) \<and> entry_at t a name = Some i \<and> opened = stat_of t i)
    (recover_audit_link i opened a) (\<lambda>_ t n. K t \<and> settled_at lib a name ok i t \<and> fresh_tmp lib a n t)"
proof -
  let ?S = "\<lambda>t n. K t \<and> settled_at lib a name ok i t \<and> fresh_tmp lib a n t"
  let ?T = "\<lambda>u t n. K t \<and> twin lib a u name ok i t \<and> fresh_tmp lib a n t"
  have split: "(?S t n \<and> st_nlink opened = 1) \<or> (\<exists>u. (?T u t n \<and> is_tmp_name u) \<and> st_nlink opened = 2)"
    if P: "(K t \<and> published lib a name ok t \<and> fresh_tmp lib a n t) \<and> entry_at t a name = Some i \<and> opened = stat_of t i" for t n
  proof -
    from P have p: "published lib a name ok t" by blast
    then show ?thesis using kept_recordD(3) [OF K]
    proof (cases rule: published_cases)
      case (one j)
      from settled_entry [OF one(1)] P have "j = i" by simp
      with one P show ?thesis by simp
    next
      case (two j u)
      from twin_entry [OF two(2)] P have "j = i" by simp
      with two P show ?thesis by auto
    qed
  qed
  have listing: "gets b G (?T u) (call (t_listdir a)) (\<lambda>xs t n. ?T u t n \<and> xs = dict_keys (names t a))" for u
    by (rule gets_peek) (simp add: t_listdir_def)
  have seen: "gets b G ?S (call (t_fstat i)) (\<lambda>st t n. ?S t n \<and> st_nlink st = 1)"
    by (rule gets_peek) (simp add: t_fstat_def settled_at_def counted_def)
  have quiet: "gets b G (\<lambda>t n. ?S t n \<and> st_nlink opened = 1) (recover_audit_link i opened a) (\<lambda>_. ?S)"
    by (rule does_given) (simp add: recover_audit_link_def does_eret)
  have twinned: "gets b G (\<lambda>t n. (?T u t n \<and> is_tmp_name u) \<and> st_nlink opened = 2) (recover_audit_link i opened a) (\<lambda>_. ?S)" for u
    apply (rule does_given, rule does_given)
    apply (simp add: recover_audit_link_def)
    apply (rule does_ebind [OF listing])
    apply (rule does_ebind [OF gets_recover_listing [OF K _ st]], assumption)
    apply (rule does_given, simp)
    apply (rule does_ebind [OF gets_drop_twin [OF K]], assumption)
    apply (rule does_ebind [OF gets_settled_fsync [OF K]])
    apply (rule does_ebind [OF seen], rule does_given)
    apply (simp add: does_eret)
    done
  show ?thesis
    by (rule does_pre [OF does_disj [OF quiet does_ex [OF twinned]]]) (rule split)
qed

text \<open>Reading an exact record: it is there as expected, or it is not there.\<close>

lemma gets_read_exact:
  assumes K: "kept_record lib G K a name ok"
    and ok: "\<And>c. ok c \<Longrightarrow> lb_size lib c \<le> audit_limit \<and> (\<exists>v. lb_loads lib c = Inr v \<and> py_eq v expected)"
  shows "gets b G (\<lambda>t n. K t \<and> published lib a name ok t \<and> fresh_tmp lib a n t) (read_exact_audit lib a name expected)
    (\<lambda>r t n. (K t \<and> settled lib a name ok t \<and> fresh_tmp lib a n t) \<and> r)"
proof -
  let ?P = "\<lambda>t n. K t \<and> published lib a name ok t \<and> fresh_tmp lib a n t"
  let ?S = "\<lambda>i t n. K t \<and> settled_at lib a name ok i t \<and> fresh_tmp lib a n t"
  have opened: "gets b G ?P (open_private_named lib name a False [1, 2])
      (\<lambda>x t n. ?P t n \<and> entry_at t a name = Some (fst x) \<and> snd x = stat_of t (fst x))"
    by (rule gets_open_private) (use published_open [OF _ kept_recordD(3) [OF K]] in blast)
  have recover: "gets b G (\<lambda>t n. ?P t n \<and> entry_at t a name = Some i \<and> st = stat_of t i) (recover_audit_link i st a) (\<lambda>_. ?S i)" for i st
  proof (cases "st_ino st = i")
    case False
    then show ?thesis by (intro does_impossible) auto
  qed (rule gets_recover [OF K])
  have read: "gets b G (?S i) (read_regular_fd lib i audit_limit) (\<lambda>raw t n. ?S i t n \<and> ok raw)" for i
    by (rule does_post [OF gets_read]) (use ok in \<open>auto simp: settled_at_def private_file_def\<close>)
  have named: "gets b G (?S i) (call (t_stat a name)) (\<lambda>st t n. ?S i t n \<and> st_ino st = i)"
     "gets b G (?S i) (call (t_fstat i)) (\<lambda>st t n. ?S i t n \<and> st_ino st = i)" for i
    by (rule gets_stat_ino, auto dest: settled_entry, rule does_post [OF gets_fstat], auto)
  have parse: "gets b G (?S i) (elift (loads_or lib raw msg)) (\<lambda>v t n. ?S i t n \<and> py_eq v expected)" if "ok raw" for i raw msg
    by (rule does_elift) (use ok [OF that] in \<open>auto simp: loads_or_def\<close>)
  have opened': "gets b G ?P (etry (\<lambda>x. instance_of x FileNotFoundError)
         (ebind (open_private_named lib name a False [1, 2]) (\<lambda>x. eret (Some x))) (\<lambda>_. eret None))
      (\<lambda>r t n. \<exists>x. (?P t n \<and> entry_at t a name = Some (fst x) \<and> snd x = stat_of t (fst x)) \<and> r = Some x)"
    by (rule does_etry_past [OF does_ebind [OF opened]], rule does_eret, auto simp: loud_def)
  show ?thesis
    unfolding read_exact_audit_def
    apply (rule does_ebind [OF opened'], rule does_ex, rule does_given, clarsimp split del: if_split)
    apply (rule does_with_fd)
    apply (rule does_ebind [OF does_pre [OF recover]], blast)
    apply (rule does_ebind [OF read], rule does_given)
    apply (rule does_ebind [OF parse], assumption, rule does_given, simp split del: if_split)
    apply (rule does_ebind [OF named(1)], rule does_given)
    apply (rule does_ebind [OF named(2)], rule does_given)
    apply (simp add: same_inode_def)
    apply (rule does_eret, auto simp: settled_def)
    done
qed

lemma gets_read_absent:
  assumes "\<And>t n. G t \<Longrightarrow> P t n \<Longrightarrow> entry_at t a name = None"
  shows "gets b G P (read_exact_audit lib a name expected) (\<lambda>r t n. P t n \<and> \<not> r)"
proof -
  have miss: "misses b G P (ebind (open_private_named lib name a False [1, 2]) (\<lambda>x. eret (Some x)))
      (\<lambda>x. instance_of x FileNotFoundError) (\<lambda>_ _. True)"
    unfolding open_private_named_def
    by (rule misses_ebind, rule misses_ebind, rule misses_sys_open, rule misses_call)
      (use assms in \<open>auto simp: t_open_read_def not_found_def subclass_of_def\<close>)
  have "gets b G P (etry (\<lambda>x. instance_of x FileNotFoundError)
         (ebind (open_private_named lib name a False [1, 2]) (\<lambda>x. eret (Some x))) (\<lambda>_. eret None))
      (\<lambda>r t n. P t n \<and> r = None)"
    by (rule does_etry_caught [OF miss]) (auto intro: does_eret simp: loud_def)
  then show ?thesis
    unfolding read_exact_audit_def by (rule does_ebind) (rule does_given, simp add: does_eret)
qed

end
