(* ===== verification/LegacyStages.thy ===== *)
theory LegacyStages
  imports LegacyPublish
begin

text \<open>
  The stages of a clearance, from the untouched tombstone to the published completion, as states of
  the tree, and each step of the clearance as a move between them.
\<close>

section \<open>One clearance\<close>

record 'b job =
  job_lib :: "'b lib"
  job_rq :: request
  job_parts :: "string list"
  job_dir :: nat
  job_ino :: nat
  job_raw :: 'b

definition quarantine_ok :: "string \<Rightarrow> bool" where
  "quarantine_ok q \<longleftrightarrow> safe_internal_basename (JStr q) ''.legacy-pid.'' ''.quarantine'' = Inr q"

definition complete_dict :: "'b lib \<Rightarrow> request \<Rightarrow> string \<Rightarrow> (string, json) dict" where
  "complete_dict lib rq q =
     AList.update ''event'' (JStr ''legacy_tombstone_clearance_complete'') (intent_record lib rq (JStr q))"

text \<open>The bytes of a record: what \<^verbatim>\<open>json.loads\<close> makes of them is the dictionary \<open>r\<close>, in any order.\<close>

definition holds :: "'b lib \<Rightarrow> (string, json) dict \<Rightarrow> 'b \<Rightarrow> bool" where
  "holds lib r c \<longleftrightarrow> lb_size lib c \<le> audit_limit \<and>
     (\<exists>e. lb_loads lib c = Inr (JObj e) \<and> dict_wf e \<and> map_of e = map_of r)"

datatype stage = Untouched | Recorded string | Linked string | Retired string | Completed string

fun stage_quarantine :: "stage \<Rightarrow> string option" where
  "stage_quarantine Untouched = None"
| "stage_quarantine (Recorded q) = Some q"
| "stage_quarantine (Linked q) = Some q"
| "stage_quarantine (Retired q) = Some q"
| "stage_quarantine (Completed q) = Some q"

definition intent_at :: "'b job \<Rightarrow> nat \<Rightarrow> string \<Rightarrow> 'b tree \<Rightarrow> bool" where
  "intent_at j a q t \<longleftrightarrow> published (job_lib j) a (intent_name (job_lib j) (job_rq j))
     (holds (job_lib j) (intent_record (job_lib j) (job_rq j) (JStr q))) t"

definition completion_at :: "'b job \<Rightarrow> nat \<Rightarrow> string \<Rightarrow> 'b tree \<Rightarrow> bool" where
  "completion_at j a q t \<longleftrightarrow> published (job_lib j) a (complete_name (job_lib j) (job_rq j))
     (holds (job_lib j) (complete_dict (job_lib j) (job_rq j) q)) t"

definition no_intent :: "'b job \<Rightarrow> nat \<Rightarrow> 'b tree \<Rightarrow> bool" where
  "no_intent j a t \<longleftrightarrow> entry_at t a (intent_name (job_lib j) (job_rq j)) = None"

definition no_completion :: "'b job \<Rightarrow> nat \<Rightarrow> 'b tree \<Rightarrow> bool" where
  "no_completion j a t \<longleftrightarrow> entry_at t a (complete_name (job_lib j) (job_rq j)) = None"

definition tomb_named :: "'b job \<Rightarrow> string set \<Rightarrow> 'b tree \<Rightarrow> bool" where
  "tomb_named j S t \<longleftrightarrow> tombstone_at (job_lib j) (job_raw j) (job_ino j) (Pair (job_dir j) ` S) t"

text \<open>What is there besides the intent.\<close>

fun beyond :: "'b job \<Rightarrow> nat \<Rightarrow> stage \<Rightarrow> 'b tree \<Rightarrow> bool" where
  "beyond j a Untouched t \<longleftrightarrow> no_completion j a t \<and> tomb_named j {pid_name} t"
| "beyond j a (Recorded q) t \<longleftrightarrow> no_completion j a t \<and> tomb_named j {pid_name} t \<and> entry_at t (job_dir j) q = None"
| "beyond j a (Linked q) t \<longleftrightarrow> no_completion j a t \<and> tomb_named j {pid_name, q} t"
| "beyond j a (Retired q) t \<longleftrightarrow> no_completion j a t \<and> tomb_named j {q} t \<and>
     private_file (job_lib j) (job_ino j) t \<and> entry_at t (job_dir j) pid_name = None"
| "beyond j a (Completed q) t \<longleftrightarrow> completion_at j a q t \<and> tomb_named j {q} t \<and>
     private_file (job_lib j) (job_ino j) t \<and> entry_at t (job_dir j) pid_name = None"

definition at_stage :: "'b job \<Rightarrow> nat \<Rightarrow> stage \<Rightarrow> 'b tree \<Rightarrow> bool" where
  "at_stage j a s t \<longleftrightarrow> beyond j a s t \<and>
     (case stage_quarantine s of None \<Rightarrow> no_intent j a t | Some q \<Rightarrow> quarantine_ok q \<and> intent_at j a q t)"

definition place :: "'b job \<Rightarrow> nat \<Rightarrow> nat \<Rightarrow> 'b tree \<Rightarrow> bool" where
  "place j l a t \<longleftrightarrow> sound t \<and> trusted (job_lib j) (job_parts j) (job_dir j) t \<and>
     unit_lock_at (job_lib j) (job_dir j) l t \<and> audit_dir_at (job_lib j) (job_dir j) a t"

text \<open>
  Every tree a clearance can be taken up from: the lock and the audit directory may not be there
  yet, and nothing is done before they are.
\<close>

definition lockable :: "'b job \<Rightarrow> 'b tree \<Rightarrow> bool" where
  "lockable j t \<longleftrightarrow> entry_at t (job_dir j) lock_name = None \<or> (\<exists>l. unit_lock_at (job_lib j) (job_dir j) l t)"

definition resumable :: "'b job \<Rightarrow> 'b tree \<Rightarrow> bool" where
  "resumable j t \<longleftrightarrow> sound t \<and> trusted (job_lib j) (job_parts j) (job_dir j) t \<and> lockable j t \<and>
     (entry_at t (job_dir j) audit_dir_name = None \<and> tomb_named j {pid_name} t \<or>
      (\<exists>a s. audit_dir_at (job_lib j) (job_dir j) a t \<and> at_stage j a s t))"

section \<open>What the standard library must do\<close>

definition plain_value :: "json \<Rightarrow> bool" where
  "plain_value v \<longleftrightarrow> (case v of JInt i \<Rightarrow> True | JStr s \<Rightarrow> True | JBool c \<Rightarrow> True | _ \<Rightarrow> False)"

text \<open>\<^verbatim>\<open>json.loads\<close> reads a dictionary of plain values back as it was dumped, in any order.\<close>

definition reads_back :: "'b lib \<Rightarrow> bool" where
  "reads_back lib \<longleftrightarrow> (\<forall>d. dict_wf d \<longrightarrow> list_all plain_value (List.map snd d) \<longrightarrow>
     (\<exists>e. lb_loads lib (lb_line lib (lb_dumps lib (JObj d))) = Inr (JObj e) \<and> dict_wf e \<and> map_of e = map_of d))"

text \<open>The two records of the request fit into the audit's limit, whatever quarantine they name.\<close>

definition records_fit :: "'b lib \<Rightarrow> request \<Rightarrow> bool" where
  "records_fit lib rq \<longleftrightarrow> (\<forall>d q. dict_wf d \<longrightarrow> quarantine_ok q \<longrightarrow>
     map_of d = map_of (intent_record lib rq (JStr q)) \<or> map_of d = map_of (complete_dict lib rq q) \<longrightarrow>
     lb_size lib (lb_line lib (lb_dumps lib (JObj d))) \<le> audit_limit)"

definition job_ok :: "'b job \<Rightarrow> bool" where
  "job_ok j \<longleftrightarrow> proper_uuids (job_lib j) \<and> reads_back (job_lib j) \<and> records_fit (job_lib j) (job_rq j) \<and>
     length (rq_sha256 (job_rq j)) = 64 \<and> list_all is_hex (rq_sha256 (job_rq j)) \<and>
     clearable (job_lib j) (job_rq j) (job_raw j) \<and> lb_size (job_lib j) (job_raw j) \<le> tombstone_limit"

text \<open>No file has a name that a uuid still to come will give.\<close>

definition fresh_names :: "'b job \<Rightarrow> nat \<Rightarrow> 'b tree \<Rightarrow> bool" where
  "fresh_names j n t \<longleftrightarrow> (\<forall>a. fresh_tmp (job_lib j) a n t) \<and>
     (\<forall>k \<ge> n. entry_at t (job_dir j) (quarantine_name (job_rq j) (lb_uuid (job_lib j) k)) = None)"

section \<open>Names and frames\<close>

lemma quarantine_ok_like: "quarantine_ok q \<Longrightarrow> quarantine_like q"
  by (auto simp: quarantine_ok_def quarantine_like_def safe_internal_basename_def split: if_splits)

lemma names_apart [simp]:
  "quarantine_like q \<Longrightarrow> q \<noteq> lock_name" "quarantine_like q \<Longrightarrow> q \<noteq> complete_name lib rq"
  "pid_name \<noteq> lock_name" "lock_name \<noteq> pid_name" "pid_name \<noteq> audit_dir_name"
  "intent_name lib rq \<noteq> complete_name lib rq" "complete_name lib rq \<noteq> intent_name lib rq"
  "intent_name lib rq \<noteq> lock_name" "complete_name lib rq \<noteq> lock_name" "lock_name \<noteq> intent_name lib rq"
  "lock_name \<noteq> complete_name lib rq" "pid_name \<noteq> intent_name lib rq" "pid_name \<noteq> complete_name lib rq"
  "intent_name lib rq \<noteq> audit_dir_name" "complete_name lib rq \<noteq> audit_dir_name"
  "audit_dir_name \<noteq> intent_name lib rq" "audit_dir_name \<noteq> complete_name lib rq" "complete_name lib rq \<noteq> pid_name" "audit_dir_name \<noteq> lock_name" "lock_name \<noteq> audit_dir_name"
  by (auto simp: quarantine_like_def pid_name_def lock_name_def audit_dir_name_def intent_name_def
      complete_name_def prefix_def)

lemma not_quarantine [simp]:
  "\<not> quarantine_like lock_name" "\<not> quarantine_like audit_dir_name" "\<not> quarantine_like pid_name"
  "\<not> quarantine_like (intent_name lib rq)" "\<not> quarantine_like (complete_name lib rq)"
  using names_apart(1,2) names_differ(1-3) by blast+

lemma aside_not: "aside F I N t \<Longrightarrow> i \<in> I \<Longrightarrow> \<not> tmp_like n \<Longrightarrow> n \<noteq> F \<Longrightarrow> (e, n) \<notin> links t i"
  by (auto simp: aside_def)

lemma tomb_frame:
  assumes "frame I N t t'" "sound t" "tomb_named j S t" "aside F I N t" "n \<in> S" "\<not> tmp_like n" "n \<noteq> F"
  shows "tomb_named j S t'" "inodes t' (job_ino j) = inodes t (job_ino j)"
proof -
  from assms(3,5) have "(job_dir j, n) \<in> links t (job_ino j)" by (auto simp: tomb_named_def tombstone_at_def counted_def)
  with aside_not [OF assms(4) _ assms(6,7)] have out: "job_ino j \<notin> I" by blast
  with tombstone_frame [OF assms(1,2) out _ assms(3) [unfolded tomb_named_def]] assms(5) show "tomb_named j S t'"
    by (auto simp: tomb_named_def)
  from assms(3) out show "inodes t' (job_ino j) = inodes t (job_ino j)"
    using counted_frame(2) [OF assms(1,2) out _, of "Pair (job_dir j) ` S"] assms(5)
    by (auto simp: tomb_named_def tombstone_at_def)
qed

lemma place_frame:
  assumes "frame I N t t'" "place j l a t" "aside F I N t" "F \<noteq> lock_name"
  shows "place j l a t'"
proof -
  from assms(2) have s: "sound t" and p: "unit_lock_at (job_lib j) (job_dir j) l t" by (simp_all add: place_def)
  from p have "(job_dir j, lock_name) \<in> links t l" by (simp add: unit_lock_at_def counted_def)
  with aside_not [OF assms(3), of l lock_name] assms(4) have "l \<notin> I" by auto
  with unit_lock_frame [OF assms(1) s this p] trusted_frame [OF assms(1) s] audit_dir_frame [OF assms(1) s]
    frame_sound [OF assms(1)] assms(2)
  show ?thesis by (simp add: place_def)
qed

lemma aside_entry:
  assumes "frame I N t t'" "aside F I N t" "\<not> tmp_like n" "n \<notin> {lock_name, audit_dir_name, F}"
  shows "entry_at t' e n = entry_at t e n"
  by (rule frame_entry [OF assms(1)]) (use assms(2-4) in \<open>auto simp: aside_def\<close>)

lemma records_frame:
  assumes f: "frame I N t t'" and s: "sound t" and a: "aside F I N t"
  shows "F \<noteq> intent_name (job_lib j) (job_rq j) \<Longrightarrow> no_intent j d t \<Longrightarrow> no_intent j d t'"
    "F \<noteq> intent_name (job_lib j) (job_rq j) \<Longrightarrow> intent_at j d q t \<Longrightarrow> intent_at j d q t'"
    "F \<noteq> complete_name (job_lib j) (job_rq j) \<Longrightarrow> no_completion j d t \<Longrightarrow> no_completion j d t'"
    "F \<noteq> complete_name (job_lib j) (job_rq j) \<Longrightarrow> completion_at j d q t \<Longrightarrow> completion_at j d q t'"
  unfolding no_intent_def no_completion_def intent_at_def completion_at_def
  by (auto simp: aside_entry [OF f a] intro!: published_frame [OF f s] dest!: aside_not [OF a] )

definition free_name :: "'b job \<Rightarrow> string \<Rightarrow> bool" where
  "free_name j F \<longleftrightarrow> F \<noteq> pid_name \<and> \<not> quarantine_like F"

lemma beyond_frame:
  assumes f: "frame I N t t'" and s: "sound t" and a: "aside F I N t"
    and F: "F \<noteq> complete_name (job_lib j) (job_rq j)" "free_name j F"
    and q: "\<And>q. stage_quarantine st = Some q \<Longrightarrow> quarantine_like q" and b: "beyond j d st t"
  shows "beyond j d st t'"
proof -
  note rec = records_frame(3,4) [OF f s a F(1)]
  have pid: "tomb_named j (insert pid_name S) t \<Longrightarrow> tomb_named j (insert pid_name S) t'" for S
    by (rule tomb_frame(1) [OF f s _ a, of _ _ pid_name]) (use F in \<open>auto simp: free_name_def\<close>)
  have quar: "tomb_named j {q} t' \<and> inodes t' (job_ino j) = inodes t (job_ino j)"
    if "quarantine_like q" and t: "tomb_named j {q} t" for q
  proof -
    from that(1) F have "\<not> tmp_like q" "q \<noteq> F" by (auto simp: free_name_def)
    with tomb_frame [OF f s t a, of q] show ?thesis by simp
  qed
  have none: "entry_at t' (job_dir j) n = entry_at t (job_dir j) n" if "n = pid_name \<or> quarantine_like n" for n
    using that F by (intro aside_entry [OF f a]) (auto simp: free_name_def)
  show ?thesis
    using b q rec pid quar none private_same [of t' "job_ino j" t "job_lib j"] by (cases st) auto
qed

lemma stage_frame:
  assumes f: "frame I N t t'" and s: "sound t" and a: "aside F I N t"
    and F: "F \<notin> {complete_name (job_lib j) (job_rq j), intent_name (job_lib j) (job_rq j)}" "free_name j F"
    and b: "at_stage j d st t"
  shows "at_stage j d st t'"
proof -
  have "beyond j d st t'"
    by (rule beyond_frame [OF f s a]) (use F b quarantine_ok_like in \<open>auto simp: at_stage_def\<close>)
  with b records_frame(1,2) [OF f s a] F show ?thesis by (auto simp: at_stage_def split: option.splits)
qed

lemma place_resumable: "place j l a t \<Longrightarrow> at_stage j a s t \<Longrightarrow> resumable j t"
  by (auto simp: place_def resumable_def lockable_def)

lemma resumable_sound: "resumable j t \<Longrightarrow> sound t"
  by (simp add: resumable_def)


section \<open>Setting up\<close>

lemma leads_directory:
  "leads lib t i ps d \<Longrightarrow> sound t \<Longrightarrow> in_kind (inodes t i) = Directory \<Longrightarrow> i < next_inode t \<Longrightarrow>
   in_kind (inodes t d) = Directory \<and> d < next_inode t"
proof (induction ps arbitrary: i)
  case (Cons p ps)
  from Cons.prems(1) obtain k where k: "entry_at t i p = Some k" "leads lib t k ps d"
    "validate_trusted_directory (lb_euid lib) (stat_of t k) (ps = []) = Inr ()" by auto
  from k(1) sound_links [OF Cons.prems(2), of i p k] have "k < next_inode t" by (simp add: links_iff)
  with Cons.IH [OF k(2) Cons.prems(2) trusted_kind [OF k(3)]] show ?case by simp
qed simp

lemma trusted_directory:
  assumes "trusted lib parts d t" "sound t"
  shows "in_kind (inodes t d) = Directory" "d < next_inode t"
proof -
  from assms(1) have "in_kind (inodes t root_dir) = Directory" unfolding trusted_def by (blast intro: trusted_kind)
  with leads_directory [of lib t root_dir parts d] assms
  show "in_kind (inodes t d) = Directory" "d < next_inode t" by (auto simp: trusted_def sound_def)
qed

lemma fresh_names_frame:
  assumes "fresh_names j n t" "frame I N t t'" "\<And>m. m \<in> N \<Longrightarrow> m = lock_name \<or> m = audit_dir_name"
  shows "fresh_names j n t'"
proof -
  have q: "quarantine_name (job_rq j) u \<notin> N" for u
    using assms(3) quarantine_name_like [of "job_rq j" u] not_quarantine(1,2) by metis
  have "tmp_of u \<notin> N" for u
    using assms(3) names_not_tmp(2,5) guarded_names(4) by metis
  with fresh_frame [OF _ assms(2)] q frame_entry [OF assms(2)] assms(1) show ?thesis
    by (auto simp: fresh_names_def)
qed

lemma resumable_aside:
  assumes f: "frame I N t t'" and a: "aside lock_name I N t" and r: "resumable j t" and l: "lockable j t'"
    and N: "audit_dir_name \<notin> N"
  shows "resumable j t'"
proof -
  from r have s: "sound t" and tr: "trusted (job_lib j) (job_parts j) (job_dir j) t"
    and c: "entry_at t (job_dir j) audit_dir_name = None \<and> tomb_named j {pid_name} t \<or>
      (\<exists>a s. audit_dir_at (job_lib j) (job_dir j) a t \<and> at_stage j a s t)"
    by (simp_all add: resumable_def)
  have "free_name j lock_name" by (simp add: free_name_def)
  with stage_frame [OF f s a] audit_dir_frame [OF f s]
  have "audit_dir_at (job_lib j) (job_dir j) k t' \<and> at_stage j k st t'"
    if "audit_dir_at (job_lib j) (job_dir j) k t" "at_stage j k st t" for k st using that by auto
  moreover have "entry_at t' (job_dir j) audit_dir_name = None \<and> tomb_named j {pid_name} t'"
    if "entry_at t (job_dir j) audit_dir_name = None" "tomb_named j {pid_name} t"
    using that frame_entry [OF f N] tomb_frame(1) [OF f s that(2) a, of pid_name] by simp
  ultimately have "entry_at t' (job_dir j) audit_dir_name = None \<and> tomb_named j {pid_name} t' \<or>
      (\<exists>a s. audit_dir_at (job_lib j) (job_dir j) a t' \<and> at_stage j a s t')"
    using c by metis
  with frame_sound [OF f] trusted_frame [OF f s tr] l show ?thesis by (simp add: resumable_def)
qed

lemma lock_entry: "unit_lock_at lib d l t \<Longrightarrow> entry_at t d lock_name = Some l"
  by (auto simp: unit_lock_at_def counted_def links_iff [symmetric])

definition locked :: "'b job \<Rightarrow> nat \<Rightarrow> 'b tree \<Rightarrow> nat \<Rightarrow> bool" where
  "locked j l t n \<longleftrightarrow> resumable j t \<and> fresh_names j n t \<and> unit_lock_at (job_lib j) (job_dir j) l t"

lemma locked_lock: "locked j l t n \<Longrightarrow> unit_lock_at (job_lib j) (job_dir j) l t"
  and locked_resumable: "locked j l t n \<Longrightarrow> resumable j t"
  by (simp_all add: locked_def)

lemma locked_aside:
  assumes "locked j l t n" "frame I {} t t'" "I \<subseteq> {l}" "unit_lock_at (job_lib j) (job_dir j) l t'"
  shows "locked j l t' n"
proof -
  have "aside lock_name I {} t" using assms(1,3) by (auto simp: aside_def locked_def unit_lock_at_def counted_def)
  moreover have "lockable j t'" using assms(4) by (auto simp: lockable_def)
  ultimately show ?thesis
    using resumable_aside [OF assms(2)] assms fresh_names_frame [OF _ assms(2)] by (auto simp: locked_def)
qed

lemma gets_lock_create:
  "gets b (resumable j) (\<lambda>t n. resumable j t \<and> fresh_names j n t \<and> entry_at t (job_dir j) lock_name = None)
     (sys_open (t_create (lb_euid (job_lib j)) (lb_nothing (job_lib j)) (job_dir j) lock_name)) (locked j)"
proof (rule does_sys_open, rule gets_call)
  let ?create = "t_create (lb_euid (job_lib j)) (lb_nothing (job_lib j)) (job_dir j) lock_name"
  fix t n assume P: "resumable j t \<and> fresh_names j n t \<and> entry_at t (job_dir j) lock_name = None"
  then have s: "sound t" and tr: "trusted (job_lib j) (job_parts j) (job_dir j) t" by (simp_all add: resumable_def)
  from create_new(1) [OF s trusted_directory [OF tr s]] P obtain i t' where c: "?create t = Inr (i, t')" by blast
  note f = new_names [OF c [unfolded t_create_def] s]
  from f(3,4) have l: "unit_lock_at (job_lib j) (job_dir j) i t'"
    by (simp add: unit_lock_at_def private_file_def counted_def)
  have "aside lock_name {} {lock_name} t" by (rule aside_none) simp
  moreover from l have "lockable j t'" by (auto simp: lockable_def)
  ultimately have "resumable j t'" using resumable_aside [OF f(2)] P by simp
  with l fresh_names_frame [OF _ f(2)] P have "locked j i t' n" by (simp add: locked_def)
  with c \<open>resumable j t'\<close> show "\<exists>i t'. ?create t = Inr (i, t') \<and> resumable j t' \<and> locked j i t' n" by blast
qed

lemma gets_lock_chmod: "gets b (resumable j) (locked j l) (call (t_fchmod (lb_euid (job_lib j)) l 384)) (\<lambda>_. locked j l)"
proof (rule gets_call)
  fix t n assume P: "locked j l t n"
  then have s: "sound t" and l: "private_file (job_lib j) l t" "counted l {(job_dir j, lock_name)} t"
    by (auto simp: locked_def unit_lock_at_def resumable_def)
  then have k: "in_kind (inodes t l) \<noteq> Directory" "in_uid (inodes t l) = lb_euid (job_lib j)"
    by (simp_all add: private_file_def)
  then obtain t' where w: "t_fchmod (lb_euid (job_lib j)) l 384 t = Inr ((), t')" by (auto simp: t_fchmod_def)
  note f = fchmod_frame [OF w s k(1)]
  from l f(2,3) have "unit_lock_at (job_lib j) (job_dir j) l t'"
    by (simp add: unit_lock_at_def private_file_def counted_def)
  from locked_aside [OF P f(1) _ this] w locked_resumable
  show "\<exists>x t'. t_fchmod (lb_euid (job_lib j)) l 384 t = Inr (x, t') \<and> resumable j t' \<and> locked j l t' n" by blast
qed

lemma gets_lock_fsync: "gets b (resumable j) (locked j l) (call (t_fsync i)) (\<lambda>_. locked j l)"
proof (rule gets_fsync, intro conjI impI)
  fix t t' :: "'a tree" and n assume P: "locked j l t n"
  then show "sound t" using locked_resumable resumable_sound by blast
  assume f: "frame {} {} t t'" "inodes t' = inodes t" "links t' = links t"
  from f(2,3) locked_lock [OF P] have "unit_lock_at (job_lib j) (job_dir j) l t'"
    by (simp add: unit_lock_at_def private_file_def counted_def)
  with locked_aside [OF P f(1)] show "locked j l t' n" by simp
  then show "resumable j t'" by (rule locked_resumable)
qed


lemma file_exists_loud: "instance_of x FileExistsError \<Longrightarrow> \<not> loud x"
  and not_found_loud: "instance_of x FileNotFoundError \<Longrightarrow> \<not> loud x"
  by (simp_all add: loud_def)

lemma file_exists_os: "instance_of x FileExistsError \<Longrightarrow> instance_of x OSError"
proof -
  have "FileExistsError \<in> set (supers c) \<Longrightarrow> OSError \<in> set (supers c)" for c
    by (induction c rule: supers.induct) auto
  then show "instance_of x FileExistsError \<Longrightarrow> instance_of x OSError"
    by (cases x) (simp add: subclass_of_def)
qed

lemma gets_open_unit_lock:
  "gets b (resumable j) (\<lambda>t n. resumable j t \<and> fresh_names j n t) (open_unit_lock (job_lib j) (job_dir j)) (locked j)"
proof -
  let ?create = "t_create (lb_euid (job_lib j)) (lb_nothing (job_lib j)) (job_dir j) lock_name"
  let ?h = "\<lambda>x. if instance_of x FileExistsError
           then etry (\<lambda>x. instance_of x OSError)
             (ebind (sys_open (t_open_rw (job_dir j) lock_name)) (\<lambda>fd. eret (fd, False)))
             (\<lambda>_. eraise (tombstone_error ''unit lock is absent or unreadable''))
           else eraise (tombstone_error ''unit lock could not be created'')"
  let ?open = "etry (\<lambda>x. instance_of x OSError) (ebind (sys_open ?create) (\<lambda>fd. eret (fd, True))) ?h"
  let ?None = "\<lambda>t n. resumable j t \<and> fresh_names j n t \<and> entry_at t (job_dir j) lock_name = None"
  let ?Some = "\<lambda>l t n. resumable j t \<and> fresh_names j n t \<and> unit_lock_at (job_lib j) (job_dir j) l t"
  have new: "gets b (resumable j) ?None ?open (\<lambda>r. locked j (fst r))"
    by (rule does_etry [OF does_ebind [OF gets_lock_create]]) (auto intro!: does_eret does_reraise dest: file_exists_loud split: if_splits)
  have miss: "misses b (resumable j) (?Some l) (ebind (sys_open ?create) (\<lambda>fd. eret (fd, True)))
      (\<lambda>x. instance_of x FileExistsError) (\<lambda>_ _. True)" for l
  proof (rule misses_ebind, rule misses_sys_open, rule misses_call)
    fix t n assume P: "?Some l t n"
    then have "sound t" "trusted (job_lib j) (job_parts j) (job_dir j) t" "entry_at t (job_dir j) lock_name = Some l"
      using lock_entry [of "job_lib j" "job_dir j" l t] by (auto simp: resumable_def)
    with trusted_directory [of "job_lib j" "job_parts j" "job_dir j" t]
    show "\<exists>x. ?create t = Inl x \<and> instance_of x FileExistsError"
      by (auto simp: t_create_def t_new_def subclass_of_def)
  qed simp
  have rw: "gets b (resumable j) (?Some l) (sys_open (t_open_rw (job_dir j) lock_name)) (\<lambda>i. locked j i)" for l
  proof (rule gets_open)
    fix t n assume P: "?Some l t n"
    then have "entry_at t (job_dir j) lock_name = Some l" "in_kind (inodes t l) = Regular"
      using lock_entry [of "job_lib j" "job_dir j" l t] by (auto simp: unit_lock_at_def private_file_def)
    with P show "\<exists>i. t_open_rw (job_dir j) lock_name t = Inr (i, t) \<and> locked j i t n"
      by (simp add: t_open_rw_def locked_def)
  qed
  have old: "gets b (resumable j) (?Some l) ?open (\<lambda>r. locked j (fst r))" for l
    by (rule does_etry_caught [OF miss])
      (auto simp: file_exists_loud file_exists_os intro!: does_reraise does_eret does_etry [OF does_ebind [OF rw]])
  have either: "gets b (resumable j) (\<lambda>t n. resumable j t \<and> fresh_names j n t) ?open (\<lambda>r. locked j (fst r))"
    by (rule does_pre [OF does_disj [OF new does_ex [OF old]]]) (auto simp: resumable_def lockable_def)
  have publish: "gets b (resumable j) (locked j l)
      (ewhen c (etry (\<lambda>x. instance_of x OSError)
         (ebind (call (t_fchmod (lb_euid (job_lib j)) l 384)) (\<lambda>_.
          ebind (call (t_fsync l)) (\<lambda>_. call (t_fsync (job_dir j)))))
         (\<lambda>_. ebind (sys_close l) (\<lambda>_. eraise (tombstone_error m))))) (\<lambda>_. locked j l)" for l c m
    unfolding ewhen_def
    by (rule does_if, rule does_etry [OF does_ebind [OF gets_lock_chmod does_ebind [OF gets_lock_fsync gets_lock_fsync]]])
      (auto intro!: does_ebind [OF gets_close] does_reraise does_eret)
  show ?thesis
    unfolding open_unit_lock_def
    by (rule does_ebind [OF either], auto split: prod.splits intro!: does_ebind [OF publish] does_eret)
qed

lemma gets_check_unit_lock:
  "gets b (resumable j) (locked j l) (check_unit_lock (job_lib j) (job_dir j) l) (\<lambda>st t n. locked j l t n \<and> st_ino st = l)"
proof -
  have named: "gets b (resumable j) (\<lambda>t n. locked j l t n \<and> st = stat_of t l) (call (t_stat (job_dir j) lock_name))
      (\<lambda>nd t n. (locked j l t n \<and> st = stat_of t l) \<and> nd = stat_of t l)" for st
    by (rule gets_stat) (auto dest: locked_lock lock_entry)
  show ?thesis
    unfolding check_unit_lock_def
    apply (rule does_ebind [OF gets_fstat], rule does_ebind [OF named], rule gets_if_yes)
     apply (auto simp: locked_def unit_lock_at_def counted_def intro!: private_named) [1]
    apply (rule does_eret, simp)
    done
qed

definition standing :: "'b job \<Rightarrow> nat \<Rightarrow> nat \<Rightarrow> 'b tree \<Rightarrow> nat \<Rightarrow> bool" where
  "standing j l a t n \<longleftrightarrow> place j l a t \<and> (\<exists>s. at_stage j a s t) \<and> fresh_names j n t"

lemma standing_locked: "standing j l a t n \<Longrightarrow> locked j l t n"
  unfolding standing_def locked_def by (blast intro: place_resumable dest: place_def [THEN iffD1])

lemma locked_standing:
  assumes "locked j l t n"
  shows "entry_at t (job_dir j) audit_dir_name = None \<and> tomb_named j {pid_name} t \<or> (\<exists>a. standing j l a t n)"
  using assms by (auto simp: locked_def resumable_def standing_def place_def)

lemma mkdir_standing:
  assumes l: "locked j l t n" and none: "tomb_named j {pid_name} t"
    and m: "t_mkdir (lb_euid (job_lib j)) c (job_dir j) audit_dir_name t = Inr (i, t')"
  shows "standing j l i t' n"
proof -
  from l have s: "sound t" and tr: "trusted (job_lib j) (job_parts j) (job_dir j) t"
    by (simp_all add: locked_def resumable_def)
  note f = new_names [OF m [unfolded t_mkdir_def] s]
  have below: "job_dir j < next_inode t" by (rule trusted_directory(2) [OF tr s])
  have empty: "entry_at t' i x = None" if "x \<noteq> audit_dir_name" for x
    using frame_entry [OF f(2), of x i] no_entry_beyond [OF sound_wf [OF s], of x] that f(1) by simp
  have "audit_dir_at (job_lib j) (job_dir j) i t'"
    using f(1,3,5) below by (auto simp: audit_dir_at_def)
  moreover have "unit_lock_at (job_lib j) (job_dir j) l t'"
    by (rule unit_lock_frame [OF f(2) s _ locked_lock [OF l]]) simp
  moreover have "aside lock_name {} {audit_dir_name} t" by (rule aside_none) simp
  with tomb_frame(1) [OF f(2) s none] have "tomb_named j {pid_name} t'" by simp
  ultimately show ?thesis
    using frame_sound [OF f(2)] trusted_frame [OF f(2) s tr] empty fresh_names_frame [OF _ f(2)] l
    by (auto simp: standing_def place_def locked_def at_stage_def no_intent_def no_completion_def intro!: exI [of _ Untouched])
qed

lemma standing_fsync: "gets b (resumable j) (\<lambda>t n. \<exists>a. standing j l a t n) (call (t_fsync i)) (\<lambda>_ t n. \<exists>a. standing j l a t n)"
proof (rule gets_fsync, intro conjI impI)
  fix t t' :: "'a tree" and n assume P: "\<exists>a. standing j l a t n"
  then obtain a s where a: "place j l a t" "at_stage j a s t" "fresh_names j n t" by (auto simp: standing_def)
  then show s: "sound t" by (simp add: place_def)
  assume f: "frame {} {} t t'" "inodes t' = inodes t" "links t' = links t"
  have as: "aside audit_dir_name {} {} t" by (rule aside_none) simp
  have p: "place j l a t'" by (rule place_frame [OF f(1) a(1) as]) simp
  have st: "at_stage j a s t'" by (rule stage_frame [OF f(1) s as _ _ a(2)]) (auto simp: free_name_def)
  from place_resumable [OF p st] show "resumable j t'" .
  from p st fresh_names_frame [OF a(3) f(1)] show "\<exists>a. standing j l a t' n" by (auto simp: standing_def)
qed

lemma gets_open_audit_directory:
  "gets b (resumable j) (locked j l) (open_audit_directory (job_lib j) (job_dir j))
     (\<lambda>x t n. standing j l (fst x) t n \<and> st_ino (snd x) = fst x)"
proof -
  let ?mkdir = "t_mkdir (lb_euid (job_lib j)) (lb_nothing (job_lib j)) (job_dir j) audit_dir_name"
  let ?None = "\<lambda>t n. locked j l t n \<and> entry_at t (job_dir j) audit_dir_name = None \<and> tomb_named j {pid_name} t"
  let ?S = "\<lambda>t n. \<exists>a. standing j l a t n"
  let ?make = "etry (\<lambda>x. instance_of x FileExistsError)
         (ebind (call ?mkdir) (\<lambda>_. call (t_fsync (job_dir j)))) (\<lambda>_. eret ())"
  have made: "gets b (resumable j) ?None (call ?mkdir) (\<lambda>_. ?S)"
  proof (rule gets_call)
    fix t n assume P: "?None t n"
    then have s: "sound t" and tr: "trusted (job_lib j) (job_parts j) (job_dir j) t"
      by (simp_all add: locked_def resumable_def)
    from create_new(2) [OF s trusted_directory [OF tr s]] P obtain i t' where m: "?mkdir t = Inr (i, t')" by blast
    from mkdir_standing [OF _ _ m] P have "standing j l i t' n" by blast
    with m standing_locked [OF this] locked_resumable
    show "\<exists>i t'. ?mkdir t = Inr (i, t') \<and> resumable j t' \<and> ?S t' n" by blast
  qed
  have new: "gets b (resumable j) ?None ?make (\<lambda>_. ?S)"
    by (rule does_etry_past [OF does_ebind [OF made standing_fsync] file_exists_loud])
  have miss: "misses b (resumable j) ?S (ebind (call ?mkdir) (\<lambda>_. call (t_fsync (job_dir j))))
      (\<lambda>x. instance_of x FileExistsError) (\<lambda>_ _. True)"
  proof (rule misses_ebind, rule misses_call)
    fix t n assume P: "?S t n"
    then have "sound t" "trusted (job_lib j) (job_parts j) (job_dir j) t"
      "entry_at t (job_dir j) audit_dir_name \<noteq> None" by (auto simp: standing_def place_def audit_dir_at_def)
    with trusted_directory [of "job_lib j" "job_parts j" "job_dir j" t]
    show "\<exists>x. ?mkdir t = Inl x \<and> instance_of x FileExistsError"
      by (auto simp: t_mkdir_def t_new_def subclass_of_def)
  qed simp
  have old: "gets b (resumable j) ?S ?make (\<lambda>_. ?S)"
    by (rule does_etry_caught [OF miss]) (auto intro!: does_eret simp: file_exists_loud)
  have make: "gets b (resumable j) (locked j l) ?make (\<lambda>_. ?S)"
    by (rule does_pre [OF does_disj [OF new old]]) (use locked_standing in blast)
  have opened: "gets b (resumable j) ?S (open_private_named (job_lib j) audit_dir_name (job_dir j) True [1])
      (\<lambda>x t n. standing j l (fst x) t n \<and> st_ino (snd x) = fst x)"
    by (rule does_post [OF gets_open_private])
      (auto simp: standing_def place_def audit_dir_at_def private_ok_def same_inode_def)
  show ?thesis
    unfolding open_audit_directory_def by (rule does_ebind [OF make opened])
qed

end
