(* ===== verification/LegacyResume.thy ===== *)
theory LegacyResume
  imports LegacyStages
begin

text \<open>
  From every stage the clearance gets through to the completion, and wherever it is cut off it
  leaves a tree it can be taken up from.
\<close>

section \<open>The records' dictionaries\<close>

definition same_dict :: "(string, json) dict \<Rightarrow> (string, json) dict \<Rightarrow> bool" where
  "same_dict d r \<longleftrightarrow> dict_wf d \<and> map_of d = map_of r"

lemma same_dict_values:
  assumes "same_dict d r" "(k, v) \<in> set d"
  shows "map_of r k = Some v"
proof -
  from assms have "map_of d k = Some v" by (intro map_of_is_SomeI) (simp_all add: same_dict_def dict_wf_def dict_keys_def)
  with assms(1) show ?thesis by (simp add: same_dict_def)
qed

lemma same_dict_plain:
  assumes "same_dict d r" "list_all plain_value (List.map snd r)"
  shows "list_all plain_value (List.map snd d)"
proof -
  have "plain_value v" if "(k, v) \<in> set d" for k v
    using map_of_SomeD [OF same_dict_values [OF assms(1) that]] assms(2) by (force simp: list_all_iff)
  then show ?thesis by (auto simp: list_all_iff)
qed

lemma py_eq_plain: "plain_value v \<Longrightarrow> py_eq v v"
  by (cases v) (simp_all add: plain_value_def)

lemma dict_length: "dict_wf d \<Longrightarrow> length d = card (dom (map_of d))"
  by (simp add: dict_wf_def dict_keys_def dom_map_of_conv_image_fst flip: distinct_card [of "List.map fst d", simplified])

lemma same_dict_py_eq:
  assumes d: "same_dict d r" and e: "same_dict e r" and r: "list_all plain_value (List.map snd r)"
  shows "py_eq (JObj d) (JObj e)"
proof -
  have "length d = length e" using d e by (simp add: same_dict_def dict_length)
  moreover have "case map_of e k of None \<Rightarrow> False | Some w \<Rightarrow> py_eq v w" if "(k, v) \<in> set d" for k v
  proof -
    from same_dict_values [OF d that] e have "map_of e k = Some v" by (simp add: same_dict_def)
    moreover from same_dict_plain [OF d r] that have "plain_value v" by (auto simp: list_all_iff)
    ultimately show ?thesis by (simp add: py_eq_plain)
  qed
  ultimately show ?thesis by (auto simp: list_all_iff)
qed

lemma intent_dict:
  "same_dict (intent_record lib rq (JStr q)) (intent_record lib rq (JStr q))"
  "list_all plain_value (List.map snd (intent_record lib rq (JStr q)))"
  "same_dict d (intent_record lib rq (JStr q)) \<Longrightarrow> dict_get d ''quarantine'' JNull = JStr q"
  by (simp_all add: same_dict_def dict_wf_def dict_keys_def intent_record_def index_fields_def plain_value_def dict_get_def)

lemma complete_plain: "list_all plain_value (List.map snd (complete_dict lib rq q))"
  by (simp add: complete_dict_def intent_record_def index_fields_def plain_value_def)

lemma completion_dict:
  assumes "same_dict d (intent_record lib rq (JStr q))"
  obtains e where "completion_record d = JObj e" "same_dict e (complete_dict lib rq q)"
  using assms that [of "AList.update ''event'' (JStr ''legacy_tombstone_clearance_complete'') d"]
  by (simp add: completion_record_def same_dict_def complete_dict_def)

lemma holds_dumped:
  assumes j: "job_ok j" and q: "quarantine_ok q"
    and d: "same_dict d (intent_record (job_lib j) (job_rq j) (JStr q)) \<and> r = intent_record (job_lib j) (job_rq j) (JStr q) \<or>
      same_dict d (complete_dict (job_lib j) (job_rq j) q) \<and> r = complete_dict (job_lib j) (job_rq j) q"
  shows "holds (job_lib j) r (lb_line (job_lib j) (lb_dumps (job_lib j) (JObj d)))"
proof -
  from d have "same_dict d r" by blast
  from d same_dict_plain [OF this] intent_dict(2) complete_plain have p: "list_all plain_value (List.map snd d)" by blast
  from j obtain e where "lb_loads (job_lib j) (lb_line (job_lib j) (lb_dumps (job_lib j) (JObj d))) = Inr (JObj e)"
      "dict_wf e" "map_of e = map_of d"
    using p d unfolding job_ok_def reads_back_def same_dict_def by metis
  moreover have "lb_size (job_lib j) (lb_line (job_lib j) (lb_dumps (job_lib j) (JObj d))) \<le> audit_limit"
    using j d q unfolding job_ok_def records_fit_def same_dict_def by blast
  ultimately show ?thesis using \<open>same_dict d r\<close> by (auto simp: holds_def same_dict_def)
qed

lemma holdsD:
  assumes "holds lib r c"
  obtains e where "lb_size lib c \<le> audit_limit" "lb_loads lib c = Inr (JObj e)" "same_dict e r"
  using assms by (auto simp: holds_def same_dict_def)

section \<open>Binding the namespace\<close>

definition ns_for :: "'b job \<Rightarrow> nat \<Rightarrow> nat \<Rightarrow> namespace \<Rightarrow> bool" where
  "ns_for j l a ns \<longleftrightarrow> ns_parts ns = job_parts j \<and> ns_dir ns = job_dir j \<and> st_ino (ns_unit ns) = job_dir j \<and>
     st_ino (ns_lock ns) = l \<and> ns_audit ns = a \<and> st_ino (ns_audit_st ns) = a"

lemma gets_stat_path:
  assumes "\<And>t n. G t \<Longrightarrow> P t n \<Longrightarrow> resolve t root_dir ps = Inr i"
  shows "gets b G P (call (t_stat_path ps)) (\<lambda>st t n. P t n \<and> st_ino st = i)"
  by (rule gets_peek) (use assms in \<open>simp add: t_stat_path_def\<close>)

lemma gets_bind_namespace:
  assumes ns: "ns_for j l a ns" and P: "\<And>t n. G t \<Longrightarrow> P t n \<Longrightarrow> place j l a t"
  shows "gets b G P (bind_clearance_namespace ns) (\<lambda>_. P)"
proof -
  have parts: "resolve t root_dir (job_parts j) = Inr (job_dir j)" if "G t" "P t n" for t n
    using P [OF that] leads_resolve by (auto simp: place_def trusted_def)
  have lock: "entry_at t (job_dir j) lock_name = Some l" if "G t" "P t n" for t n
    using P [OF that] lock_entry by (auto simp: place_def)
  have audit: "entry_at t (job_dir j) audit_dir_name = Some a" if "G t" "P t n" for t n
    using P [OF that] by (auto simp: place_def audit_dir_at_def)
  from ns show ?thesis
    unfolding bind_clearance_namespace_def ns_for_def
    apply (elim conjE, simp only:)
    apply (rule does_ebind [OF gets_bind_named], simp only:, rule gets_stat_path, rule parts, assumption, assumption)
    apply (rule does_ebind [OF gets_bind_named], simp only:, rule gets_stat_ino, rule lock, assumption, assumption)
    apply (rule does_ebind [OF gets_bind_named], simp only:, rule gets_stat_ino, rule audit, assumption, assumption)
    apply (rule does_ebind [OF gets_fstat])
    apply (rule gets_if_yes, simp add: same_inode_def, rule does_eret, simp)
    done
qed

section \<open>Loading the intent\<close>

definition carrying :: "'b job \<Rightarrow> nat \<Rightarrow> nat \<Rightarrow> stage \<Rightarrow> 'b tree \<Rightarrow> nat \<Rightarrow> bool" where
  "carrying j l a s t n \<longleftrightarrow> place j l a t \<and> at_stage j a s t \<and> fresh_tmp (job_lib j) a n t"

lemma carrying_resumable: "carrying j l a s t n \<Longrightarrow> resumable j t"
  by (auto simp: carrying_def intro: place_resumable)

lemma carryingD:
  assumes "carrying j l a s t n"
  shows "place j l a t" "beyond j a s t" "fresh_tmp (job_lib j) a n t" "sound t"
    "stage_quarantine s = Some q \<Longrightarrow> quarantine_ok q" "stage_quarantine s = Some q \<Longrightarrow> intent_at j a q t"
    "stage_quarantine s = None \<Longrightarrow> no_intent j a t"
  using assms by (auto simp: carrying_def at_stage_def place_def)

lemma carryingI:
  assumes "place j l a t" "beyond j a s t" "fresh_tmp (job_lib j) a n t" "stage_quarantine s = Some q"
    "quarantine_ok q" "intent_at j a q t"
  shows "carrying j l a s t n"
  using assms by (simp add: carrying_def at_stage_def)

lemma place_steady: "F \<noteq> lock_name \<Longrightarrow> steady F (place j l a)"
  unfolding steady_def by (blast intro: place_frame)

lemma steady_conj: "steady F K \<Longrightarrow> steady F H \<Longrightarrow> steady F (\<lambda>t. K t \<and> H t)"
  unfolding steady_def by blast

lemma free_intent [simp]: "free_name j (intent_name lib rq)" "free_name j (complete_name lib rq)"
  by (simp_all add: free_name_def)

lemma kept_intent:
  fixes j :: "'b job" and l a :: nat
  assumes "stage_quarantine s = Some q" "quarantine_ok q"
  defines "K \<equiv> \<lambda>t. place j l a t \<and> beyond j a s t"
  shows "kept_record (job_lib j) (resumable j) K a (intent_name (job_lib j) (job_rq j))
    (holds (job_lib j) (intent_record (job_lib j) (job_rq j) (JStr q)))"
proof -
  let ?F = "intent_name (job_lib j) (job_rq j)"
  have "steady ?F K"
    unfolding steady_def
  proof (intro allI impI)
    fix I N and t t' :: "'b tree" assume K: "K t" and f: "frame I N t t'" and a: "aside ?F I N t"
    from K have s: "sound t" by (simp add: K_def place_def)
    have "beyond j a s t'"
      by (rule beyond_frame [OF f s a]) (use assms K quarantine_ok_like in \<open>auto simp: K_def\<close>)
    with K place_frame [OF f _ a] show "K t'" by (simp add: K_def)
  qed
  moreover have "resumable j t" if "K t" "intent_at j a q t" for t
    using that assms by (intro place_resumable [of j l a t s]) (auto simp: K_def at_stage_def)
  ultimately show ?thesis by (auto simp: kept_record_def K_def place_def intent_at_def)
qed

text \<open>What loading returns: the intent, its quarantine, and whether it was there.\<close>

definition loaded :: "'b job \<Rightarrow> stage \<Rightarrow> (string, json) dict \<times> string \<times> bool \<Rightarrow> bool" where
  "loaded j s r \<longleftrightarrow> (case r of (intent, q, existing) \<Rightarrow>
     same_dict intent (intent_record (job_lib j) (job_rq j) (JStr q)) \<and> quarantine_ok q \<and>
     existing = (s \<noteq> Untouched) \<and> (s \<noteq> Untouched \<longrightarrow> stage_quarantine s = Some q))"

lemma gets_existing_intent:
  fixes j :: "'b job" and l a :: nat
  assumes s: "stage_quarantine s = Some q" "quarantine_ok q"
  defines "D \<equiv> \<lambda>i t (n::nat). (place j l a t \<and> beyond j a s t) \<and> settled_at (job_lib j) a (intent_name (job_lib j) (job_rq j))
      (holds (job_lib j) (intent_record (job_lib j) (job_rq j) (JStr q))) i t \<and> fresh_tmp (job_lib j) a n t"
  shows "gets b (resumable j) (D i) (existing_intent (job_lib j) a (job_rq j) i)
    (\<lambda>r t n. D i t n \<and> same_dict (fst r) (intent_record (job_lib j) (job_rq j) (JStr q)) \<and> snd r = q)"
proof -
  let ?rec = "intent_record (job_lib j) (job_rq j) (JStr q)"
  have read: "gets b (resumable j) (D i) (read_regular_fd (job_lib j) i audit_limit) (\<lambda>raw t n. D i t n \<and> holds (job_lib j) ?rec raw)"
    by (rule does_post [OF gets_read]) (auto simp: D_def settled_at_def private_file_def holds_def)
  have parse: "gets b (resumable j) (D i) (elift (loads_or (job_lib j) raw msg))
      (\<lambda>v t n. \<exists>d. D i t n \<and> v = JObj d \<and> same_dict d ?rec)" if "holds (job_lib j) ?rec raw" for raw msg
    by (rule does_elift, rule holdsD [OF that]) (auto simp: loads_or_def)
  have named: "gets b (resumable j) (D i) (call (t_stat a (intent_name (job_lib j) (job_rq j)))) (\<lambda>st t n. D i t n \<and> st_ino st = i)"
    by (rule gets_stat_ino) (auto simp: D_def dest: settled_entry)
  have fstat: "gets b (resumable j) (D i) (call (t_fstat i)) (\<lambda>st t n. D i t n \<and> st_ino st = i)"
    by (rule does_post [OF gets_fstat]) simp
  have first: "gets b (resumable j) (D i) (with_fd i
       (ebind (read_regular_fd (job_lib j) i audit_limit) (\<lambda>raw.
        ebind (elift (loads_or (job_lib j) raw ''clearance intent is malformed'')) (\<lambda>intent.
        ebind (call (t_fstat i)) (\<lambda>ist.
        ebind (call (t_stat a (intent_name (job_lib j) (job_rq j)))) (\<lambda>named.
        if \<not> same_inode ist named then eraise (tombstone_error ''clearance intent pathname identity changed'')
        else eret intent))))))
      (\<lambda>v t n. \<exists>d. D i t n \<and> v = JObj d \<and> same_dict d ?rec)"
    apply (rule does_with_fd, rule does_ebind [OF read], rule does_given)
    apply (rule does_ebind [OF parse], assumption, rule does_ex, rule does_given)
    apply (rule does_ebind [OF fstat], rule does_given, rule does_ebind [OF named], rule does_given)
    apply (simp add: same_inode_def, rule does_eret, blast)
    done
  have eq: "py_eq (JObj d) (JObj (intent_record (job_lib j) (job_rq j) (dict_get d ''quarantine'' JNull)))" if "same_dict d ?rec" for d
    unfolding intent_dict(3) [OF that] by (rule same_dict_py_eq [OF that intent_dict(1,2)])
  from s(2) have base: "gets b (resumable j) (D i) (elift (safe_internal_basename (JStr q) ''.legacy-pid.'' ''.quarantine'')) (\<lambda>x t n. D i t n \<and> x = q)"
    by (intro does_elift) (simp add: quarantine_ok_def)
  show ?thesis
    unfolding existing_intent_def
    apply (rule does_ebind [OF first], rule does_ex, rule does_given, elim conjE, simp only: json.case)
    apply (rule gets_if_not, use eq in blast)
    apply (simp only: intent_dict(3))
    apply (rule does_ebind [OF base], rule does_given, rule does_eret, simp)
    done
qed

lemma gets_load_existing:
  assumes s: "stage_quarantine s = Some q"
  shows "gets b (resumable j) (carrying j l a s) (load_intent (job_lib j) a (job_rq j) fresh)
    (\<lambda>r t n. carrying j l a s t n \<and> loaded j s r)"
proof -
  let ?F = "intent_name (job_lib j) (job_rq j)"
  let ?ok = "holds (job_lib j) (intent_record (job_lib j) (job_rq j) (JStr q))"
  let ?K = "\<lambda>t. place j l a t \<and> beyond j a s t"
  let ?P = "\<lambda>t n. ?K t \<and> published (job_lib j) a ?F ?ok t \<and> fresh_tmp (job_lib j) a n t"
  let ?D = "\<lambda>i t n. ?K t \<and> settled_at (job_lib j) a ?F ?ok i t \<and> fresh_tmp (job_lib j) a n t"
  have again: "carrying j l a s t n" if "?D i t n" "quarantine_ok q" for i t n
    using that s settled_published [of "job_lib j" a ?F ?ok t]
    by (intro carryingI [OF _ _ _ s]) (auto simp: settled_def intent_at_def)
  have main: "gets b (resumable j) ?P (load_intent (job_lib j) a (job_rq j) fresh)
      (\<lambda>r t n. carrying j l a s t n \<and> loaded j s r)" if q: "quarantine_ok q"
  proof -
    note K = kept_intent [OF s q, of j l a]
    have opened: "gets b (resumable j) ?P (open_private_named (job_lib j) ?F a False [1, 2])
        (\<lambda>x t n. ?P t n \<and> entry_at t a ?F = Some (fst x) \<and> snd x = stat_of t (fst x))"
      by (rule gets_open_private) (use published_open [OF _ kept_recordD(3) [OF K]] in blast)
    have recover: "gets b (resumable j) (\<lambda>t n. ?P t n \<and> entry_at t a ?F = Some i \<and> st = stat_of t i)
        (recover_audit_link i st a) (\<lambda>_. ?D i)" for i st
    proof (cases "st_ino st = i")
      case False
      then show ?thesis by (intro does_impossible) auto
    qed (rule gets_recover [OF K])
    have there: "gets b (resumable j) ?P (etry (\<lambda>x. instance_of x FileNotFoundError)
         (ebind (open_private_named (job_lib j) ?F a False [1, 2]) (\<lambda>(fd, st).
          ebind (recover_audit_link fd st a) (\<lambda>_. eret (Some fd)))) (\<lambda>_. eret None))
        (\<lambda>r t n. \<exists>i. ?D i t n \<and> r = Some i)"
      apply (rule does_etry_past [OF does_ebind [OF opened] not_found_loud])
       apply (simp only: split_beta, rule does_ebind [OF recover], rule does_eret, blast)
      apply assumption
      done
    have ne: "s \<noteq> Untouched" using s by auto
    show ?thesis
      unfolding load_intent_def
      apply (rule does_ebind [OF there], rule does_ex, rule does_given, simp only: option.case)
      apply (rule does_ebind [OF gets_existing_intent [OF s q]])
      apply (simp only: split_beta, rule does_eret)
      apply (use again q s ne in \<open>auto simp: loaded_def\<close>)
      done
  qed
  show ?thesis
  proof (cases "quarantine_ok q")
    case True
    from main [OF this] show ?thesis
      by (rule does_pre) (use carryingD(1,2,3,6) s in \<open>fastforce simp: intent_at_def\<close>)
  next
    case False
    with s show ?thesis by (intro does_impossible) (auto dest: carryingD(5))
  qed
qed

lemma gets_load_fresh:
  assumes q: "quarantine_ok fresh" and none: "\<And>t n. P t n \<Longrightarrow> no_intent j a t"
  shows "gets b G P (load_intent (job_lib j) a (job_rq j) fresh)
    (\<lambda>r t n. P t n \<and> loaded j Untouched r \<and> fst (snd r) = fresh)"
proof -
  let ?F = "intent_name (job_lib j) (job_rq j)"
  have miss: "misses b G P (ebind (open_private_named (job_lib j) ?F a False [1, 2]) f)
      (\<lambda>x. instance_of x FileNotFoundError) (\<lambda>_ _. True)" for f :: "nat \<times> stat_result \<Rightarrow> ('a, nat option) sys"
    unfolding open_private_named_def
    by (rule misses_ebind, rule misses_ebind, rule misses_sys_open, rule misses_call)
      (use none in \<open>auto simp: t_open_read_def not_found_def subclass_of_def no_intent_def\<close>)
  have "gets b G P (etry (\<lambda>x. instance_of x FileNotFoundError)
         (ebind (open_private_named (job_lib j) ?F a False [1, 2]) (\<lambda>(fd, st).
          ebind (recover_audit_link fd st a) (\<lambda>_. eret (Some fd)))) (\<lambda>_. eret None))
        (\<lambda>r t n. P t n \<and> r = None)"
    by (rule does_etry_caught [OF miss]) (auto intro: does_eret simp: not_found_loud)
  then show ?thesis
    unfolding load_intent_def
    by (rule does_ebind) (rule does_given, simp, rule does_eret, use q intent_dict(1) in \<open>simp add: loaded_def\<close>)
qed

section \<open>A completion that is there\<close>

text \<open>What a completion is published over.\<close>

definition gone :: "'b job \<Rightarrow> nat \<Rightarrow> nat \<Rightarrow> string \<Rightarrow> 'b tree \<Rightarrow> bool" where
  "gone j l a q t \<longleftrightarrow> place j l a t \<and> intent_at j a q t \<and> tomb_named j {q} t \<and>
     private_file (job_lib j) (job_ino j) t \<and> entry_at t (job_dir j) pid_name = None"

lemma carrying_retired: "carrying j l a (Retired q) t n \<longleftrightarrow>
    quarantine_ok q \<and> gone j l a q t \<and> no_completion j a t \<and> fresh_tmp (job_lib j) a n t"
  by (auto simp: carrying_def at_stage_def gone_def)

lemma carrying_completed: "carrying j l a (Completed q) t n \<longleftrightarrow>
    quarantine_ok q \<and> gone j l a q t \<and> completion_at j a q t \<and> fresh_tmp (job_lib j) a n t"
  by (auto simp: carrying_def at_stage_def gone_def)

lemma steady_gone: "quarantine_ok q \<Longrightarrow> steady (complete_name (job_lib j) (job_rq j)) (gone j l a q)"
  unfolding steady_def
proof (intro allI impI)
  let ?F = "complete_name (job_lib j) (job_rq j)"
  fix I N and t t' :: "'a tree" assume q: "quarantine_ok q" and g: "gone j l a q t" and f: "frame I N t t'" and as: "aside ?F I N t"
  from g have s: "sound t" by (simp add: gone_def place_def)
  from quarantine_ok_like [OF q] have "\<not> tmp_like q" "q \<noteq> ?F" by auto
  with tomb_frame [OF f s _ as, of j "{q}" q] g have "tomb_named j {q} t'" "inodes t' (job_ino j) = inodes t (job_ino j)"
    by (simp_all add: gone_def)
  moreover have "entry_at t' (job_dir j) pid_name = entry_at t (job_dir j) pid_name"
    by (rule aside_entry [OF f as]) simp_all
  ultimately show "gone j l a q t'"
    using g place_frame [OF f _ as] records_frame(2) [OF f s as] private_same [of t' "job_ino j" t "job_lib j"]
    by (simp add: gone_def)
qed

lemma kept_completion:
  assumes "quarantine_ok q"
  shows "kept_record (job_lib j) (resumable j) (gone j l a q) a (complete_name (job_lib j) (job_rq j))
    (holds (job_lib j) (complete_dict (job_lib j) (job_rq j) q))"
proof -
  have "resumable j t" if "gone j l a q t" "completion_at j a q t" for t
    using that assms by (intro place_resumable [of j l a t "Completed q"]) (auto simp: gone_def at_stage_def)
  with steady_gone [OF assms] show ?thesis
    by (auto simp: kept_record_def completion_at_def gone_def place_def)
qed

lemma gets_read_completion:
  assumes intent: "same_dict intent (intent_record (job_lib j) (job_rq j) (JStr q))" and q: "quarantine_ok q"
  shows "gets b (resumable j) (carrying j l a (Completed q))
    (read_exact_audit (job_lib j) a (complete_name (job_lib j) (job_rq j)) (completion_record intent))
    (\<lambda>r t n. carrying j l a (Completed q) t n \<and> r)"
proof -
  obtain e where e: "completion_record intent = JObj e" "same_dict e (complete_dict (job_lib j) (job_rq j) q)"
    by (rule completion_dict [OF intent])
  have ok: "lb_size (job_lib j) c \<le> audit_limit \<and> (\<exists>v. lb_loads (job_lib j) c = Inr v \<and> py_eq v (completion_record intent))"
    if "holds (job_lib j) (complete_dict (job_lib j) (job_rq j) q) c" for c
    using that by (rule holdsD) (use e(1) same_dict_py_eq [OF _ e(2) complete_plain] in auto)
  show ?thesis
    by (rule does_post [OF does_pre [OF gets_read_exact [OF kept_completion [OF q] ok]]])
      (use q settled_published in \<open>auto simp: carrying_completed completion_at_def\<close>)
qed

lemma gets_read_no_completion:
  assumes "\<And>q. s \<noteq> Completed q"
  shows "gets b (resumable j) (carrying j l a s)
    (read_exact_audit (job_lib j) a (complete_name (job_lib j) (job_rq j)) v) (\<lambda>r t n. carrying j l a s t n \<and> \<not> r)"
proof (rule gets_read_absent)
  fix t n assume "carrying j l a s t n"
  then have "no_completion j a t" using carryingD(2) assms by (cases s) force+
  then show "entry_at t a (complete_name (job_lib j) (job_rq j)) = None" by (simp add: no_completion_def)
qed

lemma gets_no_pid:
  assumes "\<And>t n. P t n \<Longrightarrow> entry_at t d pid_name = None"
  shows "gets b G P (require_no_pid d msg) (\<lambda>_. P)"
proof -
  have miss: "misses b G P (ebind (call (t_stat d pid_name)) (\<lambda>_. eret True)) (\<lambda>x. instance_of x FileNotFoundError) (\<lambda>_ _. True)"
    by (rule misses_ebind, rule misses_call) (use assms in \<open>auto simp: t_stat_def not_found_def subclass_of_def\<close>)
  have "gets b G P (etry (\<lambda>x. instance_of x FileNotFoundError)
         (ebind (call (t_stat d pid_name)) (\<lambda>_. eret True)) (\<lambda>_. eret False)) (\<lambda>r t n. P t n \<and> \<not> r)"
    by (rule does_etry_caught [OF miss]) (auto intro: does_eret simp: not_found_loud)
  then show ?thesis
    unfolding require_no_pid_def by (rule does_ebind) (rule does_given, simp add: does_eret)
qed

lemma gone_quarantine:
  assumes "gone j l a q t"
  shows "entry_at t (job_dir j) q = Some (job_ino j)" "in_nlink (inodes t (job_ino j)) = 1"
    "private_file (job_lib j) (job_ino j) t" "in_bytes (inodes t (job_ino j)) = job_raw j"
  using assms by (auto simp: gone_def tomb_named_def tombstone_at_def counted_def links_iff [symmetric])

lemma gets_open_quarantine:
  assumes "\<And>t n. P t n \<Longrightarrow> gone j l a q t"
  shows "gets b G P (open_private_named (job_lib j) q (job_dir j) False [1])
    (\<lambda>x t n. P t n \<and> fst x = job_ino j \<and> st_nlink (snd x) = 1)"
proof -
  have "private_ok (job_lib j) False [1] (stat_of t (job_ino j)) (stat_of t (job_ino j)) \<and>
      entry_at t (job_dir j) q = Some (job_ino j)" if "P t n" for t n
    using gone_quarantine [OF assms [OF that]] private_named [of "job_lib j" "job_ino j" t "[1]"] by simp
  then show ?thesis
    by (intro does_post [OF gets_open_private]) (use gone_quarantine(1,2) assms in fastforce)+
qed

lemma gets_check_quarantine:
  assumes "job_ok j" "\<And>t n. P t n \<Longrightarrow> gone j l a q t"
  shows "gets b G P (check_quarantine (job_lib j) (job_rq j) (job_ino j) msg) (\<lambda>_. P)"
proof -
  have raw: "in_kind (inodes t (job_ino j)) = Regular \<and> in_bytes (inodes t (job_ino j)) = job_raw j" if "P t n" for t n
    using gone_quarantine(3,4) [OF assms(2) [OF that]] by (simp add: private_file_def)
  have read: "gets b G P (read_regular_fd (job_lib j) (job_ino j) tombstone_limit) (\<lambda>c t n. P t n \<and> c = job_raw j)"
    by (rule does_post [OF gets_read]) (use raw assms(1) in \<open>auto simp: job_ok_def\<close>)
  show ?thesis
    unfolding check_quarantine_def
    by (rule does_ebind [OF read], rule does_given, rule gets_if_not)
      (use assms(1) in \<open>auto simp: job_ok_def clearable_def intro: does_eret\<close>)
qed

lemma resolve_append: "resolve t i ps = Inr d \<Longrightarrow> resolve t i (ps @ qs) = resolve t d qs"
  by (induction t i ps rule: resolve.induct) (auto split: if_splits option.splits)

lemma resolve_completion:
  assumes "place j l a t" "entry_at t a (complete_name (job_lib j) (job_rq j)) = Some i" "ns_parts ns = job_parts j"
  shows "resolve t root_dir (audit_path (job_lib j) ns (job_rq j)) = Inr i"
proof -
  from assms(1) have "resolve t root_dir (job_parts j) = Inr (job_dir j)" "in_kind (inodes t (job_dir j)) = Directory"
    using trusted_directory(1) [of "job_lib j" "job_parts j" "job_dir j" t]
    by (auto simp: place_def trusted_def dest: leads_resolve)
  with assms show ?thesis
    by (simp add: audit_path_def resolve_append place_def audit_dir_at_def)
qed

lemma published_entry: "published lib a name ok t \<Longrightarrow> \<exists>i. entry_at t a name = Some i"
  by (auto simp: published_def counted_def links_iff [symmetric])

lemma gets_already_completed:
  assumes j: "job_ok j" and ns: "ns_for j l a ns"
  shows "gets b (resumable j) (carrying j l a (Completed q)) (already_completed (job_lib j) ns (job_rq j) q)
    (\<lambda>r t n. carrying j l a (Completed q) t n \<and> r = audit_path (job_lib j) ns (job_rq j))"
proof -
  let ?C = "carrying j l a (Completed q)" and ?F = "complete_name (job_lib j) (job_rq j)"
  have gone: "?C t n \<Longrightarrow> gone j l a q t" for t n by (simp add: carrying_completed)
  have place: "?C t n \<Longrightarrow> place j l a t" for t n by (rule carryingD(1))
  have dir: "ns_dir ns = job_dir j" "ns_audit ns = a" "ns_parts ns = job_parts j" using ns by (simp_all add: ns_for_def)
  have no_pid: "?C t n \<Longrightarrow> entry_at t (job_dir j) pid_name = None" for t n using gone by (auto simp: gone_def)
  have some: "?C t n \<Longrightarrow> \<exists>i. entry_at t a ?F = Some i" for t n
    using published_entry by (auto simp: carrying_completed completion_at_def)
  have seen: "gets b (resumable j) ?C (call (t_stat a ?F)) (\<lambda>st t n. ?C t n \<and> entry_at t a ?F = Some (st_ino st))"
    by (rule gets_peek) (use some in \<open>fastforce simp: t_stat_def\<close>)
  have again: "gets b (resumable j) (\<lambda>t n. ?C t n \<and> entry_at t a ?F = Some i) (bind_named st (call (t_stat a ?F)) m)
      (\<lambda>_ t n. ?C t n \<and> entry_at t a ?F = Some i)" if "st_ino st = i" for st i m
    by (rule gets_bind_named, simp only: that, rule gets_stat_ino, simp)
  have named: "gets b (resumable j) (\<lambda>t n. ?C t n \<and> entry_at t a ?F = Some i) (call (t_stat_path (audit_path (job_lib j) ns (job_rq j))))
      (\<lambda>st t n. (?C t n \<and> entry_at t a ?F = Some i) \<and> st_ino st = i)" for i
    by (rule gets_stat_path) (use resolve_completion [OF place _ dir(3)] in blast)
  show ?thesis
    unfolding already_completed_def dir(1,2)
    apply (rule does_ebind [OF gets_no_pid], rule no_pid, assumption)
    apply (rule does_ebind [OF gets_open_quarantine], rule gone, assumption)
    apply (rule does_given, clarsimp)
    apply (rule does_ebind [OF does_with_fd [OF gets_check_quarantine [OF j]]], rule gone, assumption)
    apply (rule does_ebind [OF gets_bind_namespace [OF ns]], rule place, assumption)
    apply (rule does_ebind [OF seen], rule does_ebind [OF again], rule refl)
    apply (rule does_ebind [OF named], rule does_given)
    apply (simp add: same_inode_def, rule does_eret, simp)
    done
qed


section \<open>Moving the tombstone\<close>

lemma tomb_links: "tomb_named j S t \<Longrightarrow> links t (job_ino j) = Pair (job_dir j) ` S"
  by (simp add: tomb_named_def tombstone_at_def counted_def)

lemma tomb_entry: "tomb_named j S t \<Longrightarrow> n \<in> S \<Longrightarrow> entry_at t (job_dir j) n = Some (job_ino j)"
  using tomb_links [of j S t] by (auto simp: links_iff [symmetric])

text \<open>A change of the tombstone's inode or guarded names leaves the rest of the clearance alone.\<close>

lemma guarded_apart: "guarded n \<Longrightarrow> n \<noteq> lock_name \<and> n \<noteq> intent_name lib rq \<and> n \<noteq> complete_name lib rq \<and> \<not> tmp_like n"
  using guarded_names guarded_not_tmp by metis

lemma tomb_move:
  assumes f: "frame {job_ino j} N t t'" and p: "place j l a t" and n: "fresh_tmp (job_lib j) a n t"
    and S: "tomb_named j S t" "\<forall>m \<in> S \<union> N. guarded m"
  shows "place j l a t'" "fresh_tmp (job_lib j) a n t'"
    "intent_at j a q t \<Longrightarrow> intent_at j a q t'" "no_intent j a t \<Longrightarrow> no_intent j a t'"
    "no_completion j a t \<Longrightarrow> no_completion j a t'" "m \<notin> N \<Longrightarrow> entry_at t' e m = entry_at t e m"
proof -
  from p have s: "sound t" by (simp add: place_def)
  have off: "(e, m) \<notin> links t (job_ino j)" if "\<not> guarded m" for e m
    using tomb_links [OF S(1)] S(2) that by auto
  have "l \<noteq> job_ino j"
    using p off [of lock_name "job_dir j"] by (auto simp: place_def unit_lock_at_def counted_def)
  then show "place j l a t'"
    using p unit_lock_frame [OF f s] trusted_frame [OF f s] audit_dir_frame [OF f s] frame_sound [OF f]
    by (simp add: place_def)
  show "fresh_tmp (job_lib j) a n t'"
    by (rule fresh_frame [OF n f]) (use S(2) guarded_names in blast)
  show "intent_at j a q t \<Longrightarrow> intent_at j a q t'"
    unfolding intent_at_def by (rule published_frame [OF f s]) (use off in auto)
  show "no_intent j a t \<Longrightarrow> no_intent j a t'" "no_completion j a t \<Longrightarrow> no_completion j a t'"
    unfolding no_intent_def no_completion_def using frame_entry [OF f] S(2) by (metis UnCI guarded_names(5,6))+
  show "m \<notin> N \<Longrightarrow> entry_at t' e m = entry_at t e m" by (rule frame_entry [OF f])
qed

text \<open>Every stage before the retirement, with the quarantine it will use, and the tombstone's mode set.\<close>

definition ready :: "'b job \<Rightarrow> nat \<Rightarrow> nat \<Rightarrow> string \<Rightarrow> stage \<Rightarrow> 'b tree \<Rightarrow> nat \<Rightarrow> bool" where
  "ready j l a q s t n \<longleftrightarrow> carrying j l a s t n \<and> quarantine_ok q \<and> s \<in> {Untouched, Recorded q, Linked q} \<and>
     (s = Untouched \<longrightarrow> entry_at t (job_dir j) q = None)"

definition mode_set :: "'b job \<Rightarrow> 'b tree \<Rightarrow> bool" where
  "mode_set j t \<longleftrightarrow> private_file (job_lib j) (job_ino j) t"

lemma ready_tomb:
  assumes "ready j l a q s t n"
  obtains S where "tomb_named j S t" "S = (if s = Linked q then {pid_name, q} else {pid_name})" "\<forall>m \<in> S. guarded m"
proof (rule that [OF _ refl])
  show "tomb_named j (if s = Linked q then {pid_name, q} else {pid_name}) t"
    using assms carryingD(2) [of j l a s t n] by (auto simp: ready_def)
  show "\<forall>m \<in> (if s = Linked q then {pid_name, q} else {pid_name}). guarded m"
    using assms quarantine_ok_like [of q] by (simp add: ready_def guarded_def)
qed

lemma ready_pid: "ready j l a q s t n \<Longrightarrow> entry_at t (job_dir j) pid_name = Some (job_ino j)"
  by (erule ready_tomb) (auto dest: tomb_entry split: if_splits)

lemma ready_resumable: "ready j l a q s t n \<Longrightarrow> resumable j t"
  by (auto simp: ready_def dest: carrying_resumable)

lemma ready_sound: "ready j l a q s t n \<Longrightarrow> sound t"
  by (auto simp: ready_def dest: carryingD(4))

lemma tomb_same_links:
  assumes "tomb_named j S t" "links t' = links t" "inodes t' (job_ino j) = (inodes t (job_ino j))\<lparr>in_mode := k\<rparr>"
  shows "tomb_named j S t'"
  using assms by (simp add: tomb_named_def tombstone_at_def counted_def)

text \<open>Changing the mode of the tombstone, and syncing anything, change no stage.\<close>

lemma ready_kept:
  assumes r: "ready j l a q s t n" and f: "frame {job_ino j} {} t t'" and l: "links t' = links t"
    and i: "inodes t' (job_ino j) = (inodes t (job_ino j))\<lparr>in_mode := k\<rparr>"
  shows "ready j l a q s t' n"
proof -
  obtain S where S: "tomb_named j S t" "S = (if s = Linked q then {pid_name, q} else {pid_name})" "\<forall>m \<in> S. guarded m"
    by (rule ready_tomb [OF r])
  from r have c: "place j l a t" "fresh_tmp (job_lib j) a n t" "at_stage j a s t"
    and q: "quarantine_ok q" "s \<in> {Untouched, Recorded q, Linked q}" "s = Untouched \<longrightarrow> entry_at t (job_dir j) q = None"
    by (simp_all add: ready_def carrying_def)
  note m = tomb_move [OF f c(1,2) S(1)]
  have g: "\<forall>m \<in> S \<union> {}. guarded m" using S(3) by simp
  from tomb_same_links [OF S(1) l i] have "tomb_named j S t'" .
  with q c(3) m(1-5) [OF g] m(6) [OF g, of q "job_dir j"] S(2) show ?thesis
    by (auto simp: ready_def carrying_def at_stage_def)
qed

lemma frame_wider: "frame {} N t t' \<Longrightarrow> in_kind (inodes t i) \<noteq> Directory \<Longrightarrow> frame {i} N t t'"
  by (simp add: frame_def)

lemma ready_kind: "ready j l a q s t n \<Longrightarrow> in_kind (inodes t (job_ino j)) = Regular \<and>
    in_uid (inodes t (job_ino j)) = lb_euid (job_lib j) \<and> in_bytes (inodes t (job_ino j)) = job_raw j"
  by (erule ready_tomb) (simp add: tomb_named_def tombstone_at_def)

lemma gets_ready_fsync: "gets b (resumable j) (\<lambda>t n. ready j l a q s t n \<and> mode_set j t) (call (t_fsync i))
    (\<lambda>_ t n. ready j l a q s t n \<and> mode_set j t)"
proof (rule gets_fsync, intro conjI impI)
  fix t t' :: "'a tree" and n assume P: "ready j l a q s t n \<and> mode_set j t"
  then show "sound t" by (blast dest: ready_sound)
  assume f: "frame {} {} t t'" "inodes t' = inodes t" "links t' = links t"
  from P have r: "ready j l a q s t n" by blast
  have "frame {job_ino j} {} t t'" by (rule frame_wider [OF f(1)]) (simp add: ready_kind [OF r])
  from ready_kept [OF r this f(3), where k = "in_mode (inodes t (job_ino j))"] f(2)
  show "ready j l a q s t' n" by simp
  then show "resumable j t'" by (rule ready_resumable)
  from P f(2) show "mode_set j t'" by (simp add: mode_set_def private_file_def)
qed

lemma gets_ready_chmod: "gets b (resumable j) (ready j l a q s) (call (t_fchmod (lb_euid (job_lib j)) (job_ino j) 384))
    (\<lambda>_ t n. ready j l a q s t n \<and> mode_set j t)"
proof (rule gets_call)
  fix t n assume r: "ready j l a q s t n"
  note k = ready_kind [OF r]
  then obtain t' where w: "t_fchmod (lb_euid (job_lib j)) (job_ino j) 384 t = Inr ((), t')" by (auto simp: t_fchmod_def)
  note f = fchmod_frame [OF w ready_sound [OF r]]
  from f k have "ready j l a q s t' n" by (intro ready_kept [OF r]) simp_all
  moreover from f(3) k have "mode_set j t'" by (simp add: mode_set_def private_file_def)
  ultimately show "\<exists>x t'. t_fchmod (lb_euid (job_lib j)) (job_ino j) 384 t = Inr (x, t') \<and> resumable j t' \<and>
      ready j l a q s t' n \<and> mode_set j t'" using w ready_resumable by blast
qed


section \<open>Retiring the tombstone, step by step\<close>

lemma ready_nlink:
  assumes r: "ready j l a q s t n"
  shows "in_nlink (inodes t (job_ino j)) = (if s = Linked q then 2 else 1)"
proof -
  obtain S where "tomb_named j S t" "S = (if s = Linked q then {pid_name, q} else {pid_name})"
    by (rule ready_tomb [OF r])
  moreover from r have "q \<noteq> pid_name" using quarantine_ok_like by (auto simp: ready_def)
  moreover have "card (Pair (job_dir j) ` S) = card S" by (simp add: card_image inj_on_def)
  ultimately show ?thesis by (auto simp: tomb_named_def tombstone_at_def counted_def)
qed

lemma ready_linked: "ready j l a q (Linked q) t n \<Longrightarrow> entry_at t (job_dir j) q = Some (job_ino j)"
  by (erule ready_tomb) (auto dest: tomb_entry)

lemma gets_authorize:
  assumes j: "job_ok j"
  shows "gets b (resumable j) (ready j l a q s)
    (authorize_tombstone (job_lib j) (job_dir j) (job_rq j) q (s \<noteq> Untouched) (job_ino j))
    (\<lambda>pst t n. ready j l a q s t n \<and> st_ino pst = job_ino j)"
proof -
  let ?R = "ready j l a q s"
  from j obtain v where v: "lb_loads (job_lib j) (job_raw j) = Inr v" "legacy_record (job_rq j) v"
      "lb_sha256 (job_lib j) (job_raw j) = rq_sha256 (job_rq j)" "lb_size (job_lib j) (job_raw j) \<le> tombstone_limit"
    by (auto simp: job_ok_def clearable_def split: sum.splits)
  have seen: "gets b (resumable j) ?R (call (t_fstat (job_ino j)))
      (\<lambda>st t n. ?R t n \<and> st_kind st = Regular \<and> st_ino st = job_ino j \<and> st_nlink st = (if s = Linked q then 2 else 1))"
    by (rule does_post [OF gets_fstat]) (simp add: ready_nlink ready_kind)
  have read: "gets b (resumable j) ?R (read_regular_fd (job_lib j) (job_ino j) tombstone_limit) (\<lambda>c t n. ?R t n \<and> c = job_raw j)"
    by (rule does_post [OF gets_read]) (use v(4) in \<open>simp_all add: ready_kind\<close>)
  have shared: "gets b (resumable j) ?R (ewhen (k = 2) (bind_named pst (call (t_stat (job_dir j) q)) m)) (\<lambda>_. ?R)"
    if "st_ino pst = job_ino j" "k = (if s = Linked q then 2 else 1)" for pst m and k :: nat
    unfolding ewhen_def
    by (rule does_if, rule gets_bind_named, simp only: that(1), rule gets_stat_ino)
      (use that(2) ready_linked in \<open>auto intro: does_eret split: if_splits\<close>)
  have parse: "gets b (resumable j) ?R (elift (loads_or (job_lib j) (job_raw j) m)) (\<lambda>w t n. ?R t n \<and> w = v)" for m
    by (rule does_elift) (use v(1) in \<open>auto simp: loads_or_def\<close>)
  have named: "gets b (resumable j) ?R (call (t_stat (job_dir j) pid_name)) (\<lambda>st t n. ?R t n \<and> st_ino st = job_ino j)"
    by (rule gets_stat_ino) (rule ready_pid)
  have kind: "s = Linked q \<Longrightarrow> s \<noteq> Untouched" by auto
  show ?thesis
    unfolding authorize_tombstone_def
    apply (rule does_ebind [OF seen], rule does_given, elim conjE)
    apply (rule does_ebind [OF read], rule does_given)
    apply (rule gets_if_not)
     apply (use v kind in \<open>auto split: if_splits\<close>)[1]
    apply (rule does_ebind [OF shared], assumption, assumption)
    apply (simp only:)
    apply (rule does_ebind [OF parse])
    apply (rule does_given, simp only: v(2) not_True_eq_False if_False)
    apply (rule does_ebind [OF named], rule does_given)
    apply (simp add: same_inode_def, rule does_eret, simp)
    done
qed

definition set_ready :: "'b job \<Rightarrow> nat \<Rightarrow> nat \<Rightarrow> string \<Rightarrow> stage \<Rightarrow> 'b tree \<Rightarrow> nat \<Rightarrow> bool" where
  "set_ready j l a q s t n \<longleftrightarrow> ready j l a q s t n \<and> mode_set j t"

text \<open>What the intent is published over.\<close>

definition unrecorded :: "'b job \<Rightarrow> nat \<Rightarrow> nat \<Rightarrow> string \<Rightarrow> 'b tree \<Rightarrow> bool" where
  "unrecorded j l a q t \<longleftrightarrow> place j l a t \<and> no_completion j a t \<and> tomb_named j {pid_name} t \<and>
     entry_at t (job_dir j) q = None \<and> mode_set j t"

lemma steady_unrecorded:
  assumes "quarantine_ok q"
  shows "steady (intent_name (job_lib j) (job_rq j)) (unrecorded j l a q)"
  unfolding steady_def
proof (intro allI impI)
  let ?F = "intent_name (job_lib j) (job_rq j)"
  fix I N and t t' :: "'a tree" assume u: "unrecorded j l a q t" and f: "frame I N t t'" and as: "aside ?F I N t"
  from u have s: "sound t" by (simp add: unrecorded_def place_def)
  have q: "\<not> tmp_like q" "q \<notin> {lock_name, audit_dir_name, ?F}" using quarantine_ok_like [OF assms] by auto
  have "tomb_named j {pid_name} t'" "inodes t' (job_ino j) = inodes t (job_ino j)"
    using tomb_frame [OF f s _ as, of j "{pid_name}" pid_name] u by (simp_all add: unrecorded_def)
  with u place_frame [OF f _ as] records_frame(3) [OF f s as] aside_entry [OF f as q] private_same [of t' "job_ino j" t "job_lib j"]
  show "unrecorded j l a q t'" by (simp add: unrecorded_def mode_set_def)
qed

lemma unrecorded_ready:
  assumes "unrecorded j l a q t" "quarantine_ok q" "fresh_tmp (job_lib j) a n t"
  shows "no_intent j a t \<Longrightarrow> set_ready j l a q Untouched t n" "intent_at j a q t \<Longrightarrow> set_ready j l a q (Recorded q) t n"
  using assms by (auto simp: unrecorded_def set_ready_def ready_def carrying_def at_stage_def)

lemma unrecorded_resumable:
  assumes "unrecorded j l a q t" "quarantine_ok q"
  shows "no_intent j a t \<Longrightarrow> resumable j t" "intent_at j a q t \<Longrightarrow> resumable j t"
proof -
  from assms have p: "place j l a t" and b: "no_completion j a t" "tomb_named j {pid_name} t" "entry_at t (job_dir j) q = None"
    by (simp_all add: unrecorded_def)
  show "no_intent j a t \<Longrightarrow> resumable j t"
    using b by (intro place_resumable [OF p, of Untouched]) (simp add: at_stage_def)
  show "intent_at j a q t \<Longrightarrow> resumable j t"
    using b assms(2) by (intro place_resumable [OF p, of "Recorded q"]) (simp add: at_stage_def)
qed

lemma gets_record_intent:
  assumes j: "job_ok j" and q: "quarantine_ok q" and d: "same_dict d (intent_record (job_lib j) (job_rq j) (JStr q))"
  shows "gets b (resumable j) (set_ready j l a q s)
    (ewhen (s = Untouched) (atomic_private_json (job_lib j) a (intent_name (job_lib j) (job_rq j)) (JObj d)))
    (\<lambda>_. set_ready j l a q (if s = Untouched then Recorded q else s))"
proof (cases "s = Untouched")
  case False
  then show ?thesis by (simp add: ewhen_def does_eret)
next
  case True
  let ?F = "intent_name (job_lib j) (job_rq j)"
  let ?rec = "intent_record (job_lib j) (job_rq j) (JStr q)"
  have "holds (job_lib j) ?rec (lb_line (job_lib j) (lb_dumps (job_lib j) (JObj d)))"
    by (rule holds_dumped [OF j q]) (use d in simp)
  moreover from this have "lb_size (job_lib j) (lb_line (job_lib j) (lb_dumps (job_lib j) (JObj d))) \<le> audit_limit"
    by (simp add: holds_def)
  moreover have "sound t \<and> a < next_inode t \<and> in_kind (inodes t a) = Directory" if "unrecorded j l a q t" for t
    using that audit_dir_below [of t "job_lib j" "job_dir j" a] by (simp add: unrecorded_def place_def audit_dir_at_def)
  moreover note steady_unrecorded [OF q] unrecorded_resumable [OF _ q, unfolded no_intent_def intent_at_def]
  moreover have "proper_uuids (job_lib j)" using j by (simp add: job_ok_def)
  ultimately have "publication (job_lib j) (resumable j) (unrecorded j l a q) a ?F (holds (job_lib j) ?rec) (JObj d)"
    unfolding publication_def by (intro conjI allI impI) (blast | simp)+
  note pub = gets_atomic_private_json [OF this]
  have "gets b (resumable j) (set_ready j l a q Untouched)
      (atomic_private_json (job_lib j) a ?F (JObj d)) (\<lambda>_. set_ready j l a q (Recorded q))"
  proof (rule does_post [OF does_pre [OF pub]])
    fix t n assume "set_ready j l a q Untouched t n"
    then show "unrecorded j l a q t \<and> entry_at t a ?F = None \<and> fresh_tmp (job_lib j) a n t"
      using carryingD(2) [of j l a Untouched t n]
      by (auto simp: set_ready_def ready_def carrying_def at_stage_def unrecorded_def no_intent_def)
  next
    fix t n assume u: "unrecorded j l a q t \<and> settled (job_lib j) a ?F (holds (job_lib j) ?rec) t \<and> fresh_tmp (job_lib j) a n t"
    then have "intent_at j a q t" unfolding intent_at_def by (blast intro: settled_published)
    with unrecorded_ready(2) [OF _ q] u show "set_ready j l a q (Recorded q) t n" by blast
  qed
  with True show ?thesis by (simp add: ewhen_def)
qed


text \<open>The quarantine's link and the removal of \<^verbatim>\<open>pid.json\<close>.\<close>

lemma gets_link_quarantine:
  assumes s: "s \<in> {Recorded q, Linked q}" and pst: "st_ino pst = job_ino j"
  shows "gets b (resumable j) (set_ready j l a q s) (link_quarantine (job_dir j) q pst) (\<lambda>_. set_ready j l a q (Linked q))"
proof -
  let ?link = "t_link (job_dir j) pid_name q"
  have linked: "gets b (resumable j) (set_ready j l a q (Recorded q)) (call ?link) (\<lambda>_. set_ready j l a q (Linked q))"
  proof (rule gets_call)
    fix t n assume P: "set_ready j l a q (Recorded q) t n"
    then have r: "ready j l a q (Recorded q) t n" and m: "mode_set j t" by (simp_all add: set_ready_def)
    from r have c: "place j l a t" "fresh_tmp (job_lib j) a n t" "at_stage j a (Recorded q) t" and q: "quarantine_ok q"
      by (simp_all add: ready_def carrying_def)
    then have b: "tomb_named j {pid_name} t" "entry_at t (job_dir j) q = None" "no_completion j a t" "intent_at j a q t"
      by (simp_all add: at_stage_def)
    note e = tomb_entry [OF b(1), of pid_name, simplified]
    have k: "in_kind (inodes t (job_ino j)) \<noteq> Directory" using ready_kind [OF r] by simp
    from e k b(2) obtain t' where w: "?link t = Inr ((), t')" by (simp add: t_link_def)
    note f = link_frame [OF w ready_sound [OF r] e]
    have "\<forall>x \<in> {pid_name} \<union> {q}. guarded x" using quarantine_ok_like [OF q] by (simp add: guarded_def)
    note mv = tomb_move [OF f(1) c(1,2) b(1) this]
    have ne: "q \<noteq> pid_name" using quarantine_ok_like [OF q] by auto
    from b(1) f(2,4) ne have "tomb_named j {pid_name, q} t'"
      by (auto simp: tomb_named_def tombstone_at_def counted_def)
    moreover from m f(4) have "mode_set j t'" by (simp add: mode_set_def private_file_def)
    ultimately have "set_ready j l a q (Linked q) t' n"
      using mv(1-3,5) b(3,4) q by (simp add: set_ready_def ready_def carrying_def at_stage_def)
    moreover from this have "resumable j t'" by (auto simp: set_ready_def dest: ready_resumable)
    ultimately show "\<exists>x t'. ?link t = Inr (x, t') \<and> resumable j t' \<and> set_ready j l a q (Linked q) t' n" using w by blast
  qed
  have sync: "gets b (resumable j) (set_ready j l a q s) (call (t_fsync i)) (\<lambda>_. set_ready j l a q s)" for s i
    using gets_ready_fsync unfolding set_ready_def .
  have miss: "misses b (resumable j) (set_ready j l a q (Linked q)) (ebind (call ?link) f)
      (\<lambda>x. instance_of x FileExistsError) (\<lambda>_ _. True)" for f :: "unit \<Rightarrow> ('a, unit) sys"
  proof (rule misses_ebind, rule misses_call)
    fix t n assume "set_ready j l a q (Linked q) t n"
    then have "ready j l a q (Linked q) t n" by (simp add: set_ready_def)
    with ready_pid [OF this] ready_linked [OF this]
    show "\<exists>x. ?link t = Inl x \<and> instance_of x FileExistsError" by (simp add: t_link_def subclass_of_def)
  qed simp
  have seen: "gets b (resumable j) (set_ready j l a q (Linked q)) (call (t_stat (job_dir j) q))
      (\<lambda>st t n. set_ready j l a q (Linked q) t n \<and> st_ino st = job_ino j)"
    by (rule gets_stat_ino) (auto simp: set_ready_def dest: ready_linked)
  have old: "gets b (resumable j) (set_ready j l a q (Linked q)) (link_quarantine (job_dir j) q pst) (\<lambda>_. set_ready j l a q (Linked q))"
    unfolding link_quarantine_def
    apply (rule does_etry_caught [OF miss])
      apply (rule does_ebind [OF seen], rule does_given, use pst in \<open>simp add: same_inode_def\<close>, rule does_eret, simp)
     apply (auto simp: file_exists_loud)
    done
  have new: "gets b (resumable j) (set_ready j l a q (Recorded q)) (link_quarantine (job_dir j) q pst) (\<lambda>_. set_ready j l a q (Linked q))"
    unfolding link_quarantine_def by (rule does_etry_past [OF does_ebind [OF linked sync] file_exists_loud])
  from s old new show ?thesis by auto
qed

lemma gets_unlink_pid:
  "gets b (resumable j) (set_ready j l a q (Linked q)) (call (t_unlink (job_dir j) pid_name)) (\<lambda>_. carrying j l a (Retired q))"
proof (rule gets_call)
  let ?unlink = "t_unlink (job_dir j) pid_name"
  fix t n assume P: "set_ready j l a q (Linked q) t n"
  then have r: "ready j l a q (Linked q) t n" and m: "mode_set j t" by (simp_all add: set_ready_def)
  from r have c: "place j l a t" "fresh_tmp (job_lib j) a n t" "at_stage j a (Linked q) t" and q: "quarantine_ok q"
    by (simp_all add: ready_def carrying_def)
  then have b: "tomb_named j {pid_name, q} t" "no_completion j a t" "intent_at j a q t" by (simp_all add: at_stage_def)
  note e = ready_pid [OF r]
  from e ready_kind [OF r] obtain t' where w: "?unlink t = Inr ((), t')" by (simp add: t_unlink_def)
  note f = unlink_frame [OF w ready_sound [OF r] e]
  have "\<forall>x \<in> {pid_name, q} \<union> {pid_name}. guarded x" using quarantine_ok_like [OF q] by (simp add: guarded_def)
  note mv = tomb_move [OF f(1) c(1,2) b(1) this]
  have ne: "q \<noteq> pid_name" using quarantine_ok_like [OF q] by auto
  from b(1) f(2,4) ne have "tomb_named j {q} t'"
    by (auto simp: tomb_named_def tombstone_at_def counted_def)
  moreover from m f(4) have "private_file (job_lib j) (job_ino j) t'" by (simp add: mode_set_def private_file_def)
  ultimately have "carrying j l a (Retired q) t' n"
    using mv(1-3,5) b(2,3) q f(3) by (simp add: carrying_def at_stage_def)
  with w carrying_resumable [OF this]
  show "\<exists>x t'. ?unlink t = Inr (x, t') \<and> resumable j t' \<and> carrying j l a (Retired q) t' n" by blast
qed

lemma gets_carrying_fsync: "gets b (resumable j) (carrying j l a (Retired q)) (call (t_fsync i)) (\<lambda>_. carrying j l a (Retired q))"
proof (rule gets_fsync, intro conjI impI)
  fix t t' :: "'a tree" and n assume c: "carrying j l a (Retired q) t n"
  then show s: "sound t" by (rule carryingD(4))
  assume f: "frame {} {} t t'" "inodes t' = inodes t" "links t' = links t"
  have as: "aside lock_name {} {} t" by (rule aside_none) simp
  have as': "aside audit_dir_name {} {} t" by (rule aside_none) simp
  from c have "place j l a t" "at_stage j a (Retired q) t" "fresh_tmp (job_lib j) a n t" by (simp_all add: carrying_def)
  with place_frame [OF f(1) _ as'] stage_frame [OF f(1) s as] fresh_frame [OF _ f(1)]
  show "carrying j l a (Retired q) t' n" by (simp add: carrying_def free_name_def)
  then show "resumable j t'" by (rule carrying_resumable)
qed


section \<open>The clearance as a whole\<close>

lemma ready_place: "ready j l a q s t n \<Longrightarrow> place j l a t"
  by (simp add: ready_def carrying_def)

lemma gets_retire:
  assumes j: "job_ok j" and ns: "ns_for j l a ns" and q: "quarantine_ok q"
    and d: "same_dict d (intent_record (job_lib j) (job_rq j) (JStr q))"
    and s: "s \<in> {Untouched, Recorded q, Linked q}"
  shows "gets b (resumable j) (ready j l a q s)
    (retire_tombstone (job_lib j) ns (job_rq j) d q (s \<noteq> Untouched) (job_ino j)) (\<lambda>_. carrying j l a (Retired q))"
proof -
  let ?L = "set_ready j l a q (Linked q)"
  have dir: "ns_dir ns = job_dir j" "ns_audit ns = a" using ns by (simp_all add: ns_for_def)
  note chmod = gets_ready_chmod [of b j l a q s, folded set_ready_def]
  note sync = gets_ready_fsync [folded set_ready_def]
  have next_s: "(if s = Untouched then Recorded q else s) \<in> {Recorded q, Linked q}" using s by auto
  have open_private: "\<exists>i. entry_at t (job_dir j) q = Some i \<and> private_ok (job_lib j) False [1, 2] (stat_of t i) (stat_of t i)"
    if "?L t n" for t n
  proof -
    from that have r: "ready j l a q (Linked q) t n" and m: "mode_set j t" by (simp_all add: set_ready_def)
    from private_named [OF m [unfolded mode_set_def], of "[1, 2]"] ready_linked [OF r] ready_nlink [OF r] show ?thesis by simp
  qed
  have opened: "gets b (resumable j) ?L (open_private_named (job_lib j) q (job_dir j) False [1, 2])
      (\<lambda>x t n. ?L t n \<and> st_ino (snd x) = job_ino j)"
    by (rule does_post [OF gets_open_private], rule open_private, assumption)
      (auto simp: set_ready_def dest: ready_linked)
  have place: "?L t n \<Longrightarrow> place j l a t" for t n by (auto simp: set_ready_def dest: ready_place)
  have seen: "gets b (resumable j) ?L (call (t_stat (job_dir j) pid_name)) (\<lambda>st t n. ?L t n \<and> st_ino st = job_ino j)"
    by (rule gets_stat_ino) (auto simp: set_ready_def dest: ready_pid)
  show ?thesis
    unfolding retire_tombstone_def dir not_not
    apply (rule does_ebind [OF gets_authorize [OF j]], rule does_given)
    apply (rule does_ebind [OF chmod], rule does_ebind [OF sync])
    apply (rule does_ebind [OF gets_record_intent [OF j q d]])
    apply (rule does_ebind [OF gets_link_quarantine [OF next_s]], assumption)
    apply (rule does_ebind [OF opened], rule does_given, clarsimp simp: same_inode_def)
    apply (rule does_ebind [OF does_with_fd [OF sync]])
    apply (rule does_ebind [OF gets_bind_namespace [OF ns]], rule place, assumption)
    apply (rule does_ebind [OF seen], rule does_given, simp)
    apply (rule does_ebind [OF gets_unlink_pid], rule gets_carrying_fsync)
    done
qed

lemma gets_remove:
  assumes j: "job_ok j" and ns: "ns_for j l a ns" and q: "quarantine_ok q"
    and d: "same_dict d (intent_record (job_lib j) (job_rq j) (JStr q))"
  shows "s \<in> {Untouched, Recorded q, Linked q} \<Longrightarrow> gets b (resumable j) (ready j l a q s)
      (remove_tombstone (job_lib j) ns (job_rq j) d q (s \<noteq> Untouched)) (\<lambda>_. carrying j l a (Retired q))"
    "gets b (resumable j) (carrying j l a (Retired q)) (remove_tombstone (job_lib j) ns (job_rq j) d q True)
      (\<lambda>_. carrying j l a (Retired q))"
proof -
  have dir: "ns_dir ns = job_dir j" using ns by (simp add: ns_for_def)
  have opened: "gets b (resumable j) (ready j l a q s) (sys_open (t_open_read (job_dir j) pid_name))
      (\<lambda>i t n. ready j l a q s t n \<and> i = job_ino j)" for s
    by (rule gets_open) (use ready_pid ready_kind in \<open>fastforce simp: t_open_read_def\<close>)
  have there: "gets b (resumable j) (ready j l a q s) (etry (\<lambda>x. instance_of x FileNotFoundError)
      (ebind (sys_open (t_open_read (job_dir j) pid_name)) (\<lambda>fd. eret (Some fd))) (\<lambda>_. eret None))
      (\<lambda>r t n. ready j l a q s t n \<and> r = Some (job_ino j))" for s
    by (rule does_etry_past [OF does_ebind [OF opened] not_found_loud], rule does_given, simp, rule does_eret, simp_all)
  show "gets b (resumable j) (ready j l a q s)
      (remove_tombstone (job_lib j) ns (job_rq j) d q (s \<noteq> Untouched)) (\<lambda>_. carrying j l a (Retired q))"
    if s: "s \<in> {Untouched, Recorded q, Linked q}"
    unfolding remove_tombstone_def dir
    apply (rule does_ebind [OF there], rule does_given, simp only: option.case)
    apply (rule does_with_fd, rule gets_retire [OF j ns q d s])
    done
  let ?R = "carrying j l a (Retired q)"
  have gone: "?R t n \<Longrightarrow> gone j l a q t" for t n by (simp add: carrying_retired)
  have miss: "misses b (resumable j) ?R (ebind (sys_open (t_open_read (job_dir j) pid_name)) (\<lambda>fd. eret (Some fd)))
      (\<lambda>x. instance_of x FileNotFoundError) (\<lambda>_ _. True)"
    by (rule misses_ebind, rule misses_sys_open, rule misses_call)
      (use gone in \<open>fastforce simp: t_open_read_def not_found_def subclass_of_def gone_def\<close>)+
  have absent: "gets b (resumable j) ?R (etry (\<lambda>x. instance_of x FileNotFoundError)
      (ebind (sys_open (t_open_read (job_dir j) pid_name)) (\<lambda>fd. eret (Some fd))) (\<lambda>_. eret None))
      (\<lambda>r t n. ?R t n \<and> r = None)"
    by (rule does_etry_caught [OF miss]) (auto intro: does_eret simp: not_found_loud)
  show "gets b (resumable j) ?R (remove_tombstone (job_lib j) ns (job_rq j) d q True) (\<lambda>_. ?R)"
    unfolding remove_tombstone_def retired_before_def dir
    apply (rule does_ebind [OF absent], rule does_given, simp only: option.case not_True_eq_False if_False)
    apply (rule does_ebind [OF gets_open_quarantine], rule gone, assumption)
    apply (rule does_given, clarsimp simp del: One_nat_def)
    apply (rule does_with_fd [OF gets_check_quarantine [OF j]], rule gone, assumption)
    done
qed

lemma completion_publication:
  assumes j: "job_ok j" and q: "quarantine_ok q" and e: "same_dict e (complete_dict (job_lib j) (job_rq j) q)"
  shows "publication (job_lib j) (resumable j) (gone j l a q) a (complete_name (job_lib j) (job_rq j))
    (holds (job_lib j) (complete_dict (job_lib j) (job_rq j) q)) (JObj e)"
proof -
  have "holds (job_lib j) (complete_dict (job_lib j) (job_rq j) q) (lb_line (job_lib j) (lb_dumps (job_lib j) (JObj e)))"
    by (rule holds_dumped [OF j q]) (use e in simp)
  moreover from this have "lb_size (job_lib j) (lb_line (job_lib j) (lb_dumps (job_lib j) (JObj e))) \<le> audit_limit"
    by (simp add: holds_def)
  moreover have "sound t \<and> a < next_inode t \<and> in_kind (inodes t a) = Directory" if "gone j l a q t" for t
    using that audit_dir_below [of t "job_lib j" "job_dir j" a] by (simp add: gone_def place_def audit_dir_at_def)
  moreover have "resumable j t" if "gone j l a q t" "entry_at t a (complete_name (job_lib j) (job_rq j)) = None" for t
    using that q by (intro place_resumable [of j l a t "Retired q"]) (auto simp: gone_def at_stage_def no_completion_def)
  moreover have "proper_uuids (job_lib j)" using j by (simp add: job_ok_def)
  moreover note kept_completion [OF q, of j l a]
  ultimately show ?thesis
    unfolding publication_def kept_record_def by (intro conjI allI impI) (blast | simp)+
qed

lemma gets_publish_completion:
  assumes j: "job_ok j" and ns: "ns_for j l a ns" and q: "quarantine_ok q"
    and d: "same_dict d (intent_record (job_lib j) (job_rq j) (JStr q))"
  shows "gets b (resumable j) (carrying j l a (Retired q)) (publish_completion (job_lib j) ns (job_rq j) d q)
    (\<lambda>r t n. carrying j l a (Completed q) t n \<and> r = audit_path (job_lib j) ns (job_rq j))"
proof -
  let ?F = "complete_name (job_lib j) (job_rq j)" and ?ok = "holds (job_lib j) (complete_dict (job_lib j) (job_rq j) q)"
  let ?R = "carrying j l a (Retired q)"
  let ?S = "\<lambda>t n. gone j l a q t \<and> settled (job_lib j) a ?F ?ok t \<and> fresh_tmp (job_lib j) a n t"
  have dir: "ns_dir ns = job_dir j" "ns_audit ns = a" "ns_parts ns = job_parts j" using ns by (simp_all add: ns_for_def)
  have gone: "?R t n \<Longrightarrow> gone j l a q t" for t n by (simp add: carrying_retired)
  have place: "?S t n \<Longrightarrow> place j l a t" for t n by (simp add: gone_def)
  obtain e where e: "completion_record d = JObj e" "same_dict e (complete_dict (job_lib j) (job_rq j) q)"
    by (rule completion_dict [OF d])
  have publish: "gets b (resumable j) ?R (atomic_private_json (job_lib j) a ?F (completion_record d)) (\<lambda>_. ?S)"
    unfolding e(1) by (rule does_pre [OF gets_atomic_private_json [OF completion_publication [OF j q e(2)]]])
      (auto simp: carrying_retired no_completion_def)
  have opened: "gets b (resumable j) ?S (open_private_named (job_lib j) ?F a False [1])
      (\<lambda>x t n. ?S t n \<and> entry_at t a ?F = Some (st_ino (snd x)))"
  proof (rule does_post [OF gets_open_private])
    fix t n assume "?S t n"
    then obtain i where "settled_at (job_lib j) a ?F ?ok i t" by (auto simp: settled_def)
    with settled_entry [OF this] private_named [of "job_lib j" i t "[1]"]
    show "\<exists>i. entry_at t a ?F = Some i \<and> private_ok (job_lib j) False [1] (stat_of t i) (stat_of t i)"
      by (auto simp: settled_at_def counted_def)
  qed auto
  have named: "gets b (resumable j) (\<lambda>t n. ?S t n \<and> entry_at t a ?F = Some i) (call (t_stat_path (audit_path (job_lib j) ns (job_rq j))))
      (\<lambda>st t n. (?S t n \<and> entry_at t a ?F = Some i) \<and> st_ino st = i)" for i
    by (rule gets_stat_path) (use resolve_completion [OF place _ dir(3)] in blast)
  have last: "?S t n \<Longrightarrow> carrying j l a (Completed q) t n" for t n
    using q settled_published by (auto simp: carrying_completed completion_at_def)
  show ?thesis
    unfolding publish_completion_def dir(1,2)
    apply (rule does_ebind [OF gets_open_quarantine], rule gone, assumption)
    apply (rule does_given, clarsimp simp del: One_nat_def)
    apply (rule does_ebind [OF does_with_fd [OF does_ebind [OF gets_check_quarantine [OF j] gets_carrying_fsync]]], rule gone, assumption)
    apply (rule does_ebind [OF publish])
    apply (rule does_ebind [OF gets_no_pid], simp add: gone_def)
    apply (rule does_ebind [OF gets_bind_namespace [OF ns]], rule place, assumption)
    apply (rule does_ebind [OF opened], simp only: split_beta, rule does_with_fd)
    apply (rule does_ebind [OF named], rule does_given)
    apply (simp add: same_inode_def, rule does_eret, use last in blast)
    done
qed


lemma hex_no_slash: "list_all is_hex s \<Longrightarrow> CHR ''/'' \<notin> set s"
  by (auto simp: list_all_iff is_hex_def)

lemma quarantine_name_ok:
  assumes "job_ok j"
  shows "quarantine_ok (quarantine_name (job_rq j) (lb_uuid (job_lib j) k))"
proof -
  let ?q = "quarantine_name (job_rq j) (lb_uuid (job_lib j) k)"
  from assms have len: "length (rq_sha256 (job_rq j)) = 64" "length (lb_uuid (job_lib j) k) = 32"
    and hex: "list_all is_hex (rq_sha256 (job_rq j))" "list_all is_hex (lb_uuid (job_lib j) k)"
    by (simp_all add: job_ok_def proper_uuids_def)
  from quarantine_name_like have "prefix ''.legacy-pid.'' ?q" "suffix ''.quarantine'' ?q" by (simp_all add: quarantine_like_def)
  moreover from len have "length ?q = 120" by (simp add: quarantine_name_def)
  moreover from this have "?q \<noteq> ''.''" "?q \<noteq> ''..''" by auto
  moreover from hex_no_slash [OF hex(1)] hex_no_slash [OF hex(2)] have "CHR ''/'' \<notin> set ?q" by (simp add: quarantine_name_def)
  ultimately show ?thesis by (simp add: quarantine_ok_def safe_internal_basename_def)
qed

definition finished :: "'b job \<Rightarrow> nat \<Rightarrow> nat \<Rightarrow> 'b tree \<Rightarrow> nat \<Rightarrow> bool" where
  "finished j l a t n \<longleftrightarrow> (\<exists>q. carrying j l a (Completed q) t n)"

text \<open>What comes after the intent, from each stage.\<close>

lemma gets_clear_on:
  assumes j: "job_ok j" and ns: "ns_for j l a ns" and r: "loaded j s (d, q, existing)"
  defines "P \<equiv> \<lambda>t n. carrying j l a s t n \<and> (s = Untouched \<longrightarrow> entry_at t (job_dir j) q = None)"
  shows "gets b (resumable j) P
    (ebind (read_exact_audit (job_lib j) a (complete_name (job_lib j) (job_rq j)) (completion_record d)) (\<lambda>completed.
     if completed then already_completed (job_lib j) ns (job_rq j) q
     else ebind (remove_tombstone (job_lib j) ns (job_rq j) d q existing) (\<lambda>_.
       publish_completion (job_lib j) ns (job_rq j) d q)))
    (\<lambda>r t n. finished j l a t n \<and> r = audit_path (job_lib j) ns (job_rq j))"
proof -
  let ?Q = "\<lambda>r t n. finished j l a t n \<and> r = audit_path (job_lib j) ns (job_rq j)"
  from r have d: "same_dict d (intent_record (job_lib j) (job_rq j) (JStr q))" and q: "quarantine_ok q"
    and ex: "existing = (s \<noteq> Untouched)" and sq: "s \<noteq> Untouched \<Longrightarrow> stage_quarantine s = Some q"
    by (simp_all add: loaded_def)
  note publish = does_post [OF gets_publish_completion [OF j ns q d], where Q' = ?Q]
  have late: "gets b (resumable j) (carrying j l a (Retired q))
      (ebind (remove_tombstone (job_lib j) ns (job_rq j) d q True) (\<lambda>_. publish_completion (job_lib j) ns (job_rq j) d q)) ?Q"
    by (rule does_ebind [OF gets_remove(2) [OF j ns q d] publish]) (auto simp: finished_def)
  have early: "gets b (resumable j) P
      (ebind (remove_tombstone (job_lib j) ns (job_rq j) d q existing) (\<lambda>_. publish_completion (job_lib j) ns (job_rq j) d q)) ?Q"
    if "s \<in> {Untouched, Recorded q, Linked q}"
    unfolding ex
    by (rule does_ebind [OF does_pre [OF gets_remove(1) [OF j ns q d that]] publish])
      (use that q in \<open>auto simp: P_def ready_def finished_def\<close>)
  show ?thesis
  proof (cases "s = Completed q")
    case True
    then show ?thesis
      apply (simp only: P_def stage.distinct simp_thms)
      apply (rule does_ebind [OF gets_read_completion [OF d q]], rule does_given, simp only: if_True)
      apply (rule does_post [OF gets_already_completed [OF j ns]], auto simp: finished_def)
      done
  next
    case False
    with sq have ne: "s \<noteq> Completed x" for x by (cases s) auto
    have read: "gets b (resumable j) P (read_exact_audit (job_lib j) a (complete_name (job_lib j) (job_rq j)) v) (\<lambda>r t n. P t n \<and> \<not> r)" for v
    proof (rule gets_read_absent)
      fix t n assume "P t n"
      then have "no_completion j a t" using carryingD(2) [of j l a s t n] ne by (cases s) (auto simp: P_def)
      then show "entry_at t a (complete_name (job_lib j) (job_rq j)) = None" by (simp add: no_completion_def)
    qed
    show ?thesis
      apply (rule does_ebind [OF read], rule does_given, simp only: if_False simp_thms)
      using early late sq ex ne by (cases s) (auto simp: P_def)
  qed
qed

lemma gets_clear_in_audit:
  assumes j: "job_ok j" and ns: "ns_for j l a ns"
  shows "gets b (resumable j) (standing j l a) (clear_in_audit (job_lib j) ns (job_rq j))
    (\<lambda>r t n. finished j l a t n \<and> r = audit_path (job_lib j) ns (job_rq j))"
proof -
  let ?P = "\<lambda>s t n. place j l a t \<and> at_stage j a s t \<and> fresh_names j n t"
  let ?U = "\<lambda>s f t n. carrying j l a s t n \<and> (s = Untouched \<longrightarrow> entry_at t (job_dir j) f = None)"
  let ?name = "quarantine_name (job_rq j)"
  have audit: "ns_audit ns = a" using ns by (simp add: ns_for_def)
  have uuid: "gets b (resumable j) (?P s) (new_uuid (lb_uuid (job_lib j))) (\<lambda>u t n. ?U s (?name u) t n \<and> quarantine_ok (?name u))" for s
    by (rule does_new_uuid) (use quarantine_name_ok [OF j] in \<open>auto simp: carrying_def fresh_names_def fresh_tmp_def fresh_but_def\<close>)
  have safe: "gets b (resumable j) (?U s f) (elift (safe_internal_basename (JStr f) ''.legacy-pid.'' ''.quarantine'')) (\<lambda>_. ?U s f)"
    if "quarantine_ok f" for s f
    by (rule does_elift) (use that in \<open>simp add: quarantine_ok_def\<close>)
  have load: "gets b (resumable j) (?U s f) (load_intent (job_lib j) a (job_rq j) f)
      (\<lambda>r t n. ?U s (fst (snd r)) t n \<and> loaded j s r)" if f: "quarantine_ok f" for s f
  proof (cases "stage_quarantine s")
    case None
    then have s: "s = Untouched" by (cases s) auto
    show ?thesis
      unfolding s by (rule does_post [OF gets_load_fresh [OF f]]) (auto dest: carryingD(7))
  next
    case (Some q)
    then have "s \<noteq> Untouched" by auto
    with gets_load_existing [OF Some, of b j l a f] show ?thesis by simp
  qed
  have main: "gets b (resumable j) (?P s) (clear_in_audit (job_lib j) ns (job_rq j))
    (\<lambda>r t n. finished j l a t n \<and> r = audit_path (job_lib j) ns (job_rq j))" for s
    unfolding clear_in_audit_def audit Let_def
    apply (rule does_ebind [OF gets_bind_namespace [OF ns]], simp)
    apply (rule does_ebind [OF uuid], rule does_given)
    apply (rule does_ebind [OF safe], assumption)
    apply (rule does_ebind [OF load], assumption, rule does_given, simp only: split_beta)
    apply (rule gets_clear_on [OF j ns], simp)
    done
  show ?thesis
    by (rule does_pre [OF does_ex [OF main]]) (auto simp: standing_def)
qed

end
