(* ===== verification/LegacyProps.thy ===== *)
theory LegacyProps
  imports LegacyInvariants
begin

text \<open>
  The clearance as a whole keeps the tombstone safe: its file has a name on every disk that may be
  left, and its own name goes only once the clearance of exactly this file is on record.
\<close>

section \<open>Retiring the tombstone\<close>

lemma triple_loose:
  "triple (along G P) c Q (\<lambda>_. along G P') \<Longrightarrow> triple (along G P) c Q (\<lambda>_. along G (\<lambda>_. True))"
  by (erule triple_conseq) (auto simp: along_def)

lemma triple_given: "(C \<Longrightarrow> triple (along G P) c Q E) \<Longrightarrow> triple (along G (\<lambda>t. P t \<and> C)) c Q E"
  by (auto simp: triple_def along_def)

lemma triple_run_loose:
  assumes "keeps (along G P) c" "\<And>m a m'. c m = (Inr a, m') \<Longrightarrow> G (tree m') \<Longrightarrow> P (tree m') \<Longrightarrow> Y a (tree m')"
  shows "triple (along G P) c (\<lambda>a. along G (\<lambda>t. P t \<and> Y a t)) (\<lambda>_. along G (\<lambda>_. True))"
  by (rule triple_loose, rule triple_run, rule assms(1), rule assms(2))

text \<open>From the quarantine's link on: the last checks and the removal.\<close>

lemma triple_retire_name:
  assumes q: "quarantine_like q" and audit: "st_ino (ns_audit_st ns) = ns_audit ns"
    and c: "st_ino pst = i \<Longrightarrow> clearable lib rq raw"
  shows "triple
     (along (tombstone_safe lib rq d i raw)
       (\<lambda>t. tree_wf t \<and> intent_in lib rq (ns_audit ns) q t \<and> linked d i (ns_dir ns) q t))
     (ebind (open_private_named lib q (ns_dir ns) False [1, 2]) (\<lambda>(qfd, qst).
     ebind (with_fd qfd
         (if \<not> same_inode qst pst then eraise (tombstone_error ''quarantine inode mismatch'')
          else call (t_fsync qfd))) (\<lambda>_.
     ebind (bind_clearance_namespace ns) (\<lambda>_.
     ebind (call (t_stat (ns_dir ns) pid_name)) (\<lambda>current.
     if \<not> same_inode pst current then eraise (tombstone_error ''tombstone pathname identity changed'')
     else ebind (call (t_unlink (ns_dir ns) pid_name)) (\<lambda>_. call (t_fsync (ns_dir ns))))))))
     (\<lambda>_. along (tombstone_safe lib rq d i raw) (\<lambda>_. True)) (\<lambda>_. along (tombstone_safe lib rq d i raw) (\<lambda>_. True))"
proof -
  let ?G = "tombstone_safe lib rq d i raw"
  let ?e = "ns_dir ns"
  let ?X = "\<lambda>t. tree_wf t \<and> intent_in lib rq (ns_audit ns) q t \<and> linked d i ?e q t"
  let ?Z = "\<lambda>j t. ?X t \<and> entry_at t ?e q = Some j"
  have opened: "triple (along ?G ?X) (open_private_named lib q ?e False [1, 2])
      (\<lambda>a. along ?G (\<lambda>t. ?X t \<and> (st_ino (snd a) = fst a \<and> entry_at t ?e q = Some (fst a)))) (\<lambda>_. along ?G (\<lambda>_. True))"
    by (rule triple_run_loose) (auto intro!: keeps_intros dest!: open_private_run)
  have fsync: "keeps (along ?G (?Z j)) (call (t_fsync k))" for j k
    by (rule keeps_call)
      (auto intro: robust_step [OF robust_safe] tree_wf_housekeeping intent_in_housekeeping hk_fsync
        linked_fsync simp: entry_at_fsync)
  have synced: "triple (along ?G (?Z (st_ino qst))) (with_fd qfd
      (if \<not> same_inode qst pst then eraise (tombstone_error ''quarantine inode mismatch'') else call (t_fsync qfd)))
      (\<lambda>_. along ?G (\<lambda>t. ?Z (st_ino qst) t \<and> st_ino qst = st_ino pst)) (\<lambda>_. along ?G (\<lambda>_. True))" for qfd qst
    by (rule triple_run_loose, intro keeps_closing(2) keeps_if keeps_pure fsync)
      (auto elim!: with_fd_run simp: run_Inr same_inode_def split: if_splits)
  have bound: "triple (along ?G (?Z j)) (bind_clearance_namespace ns)
      (\<lambda>_. along ?G (\<lambda>t. ?Z j t \<and> entry_at t ?e audit_dir_name = Some (ns_audit ns))) (\<lambda>_. along ?G (\<lambda>_. True))" for j
    by (rule triple_run_loose) (auto intro!: keeps_intros dest!: bind_namespace_run simp: audit)
  have seen: "triple (along ?G (\<lambda>t. ?Z j t \<and> entry_at t ?e audit_dir_name = Some (ns_audit ns))) (call (t_stat ?e pid_name))
      (\<lambda>st. along ?G (\<lambda>t. (?Z j t \<and> entry_at t ?e audit_dir_name = Some (ns_audit ns)) \<and> entry_at t ?e pid_name = Some (st_ino st)))
      (\<lambda>_. along ?G (\<lambda>_. True))" for j
    by (rule triple_run_loose) (auto intro!: keeps_intros dest: stat_entry_run)
  have gone: "triple (along ?G (\<lambda>t. (?Z (st_ino pst) t \<and> entry_at t ?e audit_dir_name = Some (ns_audit ns)) \<and> entry_at t ?e pid_name = Some (st_ino pst)))
      (call (t_unlink ?e pid_name)) (\<lambda>_. along ?G (\<lambda>_. True)) (\<lambda>_. along ?G (\<lambda>_. True))"
  proof (rule triple_loose, rule triple_call, rule conjI)
    fix t u t' assume G: "?G t" and u: "t_unlink ?e pid_name t = Inr (u, t')"
      and Z: "(?Z (st_ino pst) t \<and> entry_at t ?e audit_dir_name = Some (ns_audit ns)) \<and> entry_at t ?e pid_name = Some (st_ino pst)"
    then have "synced_at t ?e q = Some (st_ino pst)" if "?e = d" "st_ino pst = i"
      using that by (auto simp: linked_def)
    with Z show "?G t'" by (intro safe_unlink [OF G u q]) (auto intro: c)
  qed simp
  have last: "triple (along ?G (\<lambda>_. True)) (call (t_fsync ?e)) (\<lambda>_. along ?G (\<lambda>_. True)) (\<lambda>_. along ?G (\<lambda>_. True))"
    by (rule keeps_triple, rule keeps_call) (auto intro: robust_step [OF robust_safe] hk_fsync)
  show ?thesis
    apply (rule triple_ebind [OF opened])
    apply (clarsimp split del: if_split)
    apply (rule triple_ebind)
     apply (rule triple_pre [OF synced])
     apply (simp add: along_def)
    apply (rule triple_given)
    apply (rule triple_ebind [OF bound])
    apply (rule triple_ebind [OF seen])
    apply (auto simp: same_inode_def intro!: triple_ebind [OF triple_pre [OF gone]] last triple_eraise)
    apply (auto simp: along_def)
    done
qed


lemma robust_resting: "robust (\<lambda>t. tree_wf t \<and> (quarantines_synced d i t \<and> (e \<longrightarrow> intent_in lib rq a q t)))"
proof (cases e)
  case True
  then have "(\<lambda>t. tree_wf t \<and> (quarantines_synced d i t \<and> (e \<longrightarrow> intent_in lib rq a q t))) =
      (\<lambda>t. (tree_wf t \<and> quarantines_synced d i t) \<and> (tree_wf t \<and> intent_in lib rq a q t))"
    by auto
  with robust_conj [OF robust_quarantines robust_intent] show ?thesis by metis
next
  case False
  with robust_quarantines [of d i] show ?thesis by simp
qed

lemma triple_record_intent:
  assumes eq: "py_eq (JObj intent) (JObj (intent_record lib rq (JStr q)))"
  shows "triple (along (tombstone_safe lib rq d i raw)
       (\<lambda>t. tree_wf t \<and> (quarantines_synced d i t \<and> (existing \<longrightarrow> intent_in lib rq a q t))))
     (ewhen (\<not> existing) (atomic_private_json lib a (intent_name lib rq) (JObj intent)))
     (\<lambda>_. along (tombstone_safe lib rq d i raw)
       (\<lambda>t. (tree_wf t \<and> intent_in lib rq a q t) \<and> quarantines_synced d i t))
     (\<lambda>_. along (tombstone_safe lib rq d i raw) (\<lambda>_. True))"
proof (cases existing)
  case True
  then show ?thesis by (auto simp: ewhen_def along_def intro!: triple_eret)
next
  case False
  have intent: "wrote a (intent_name lib rq) (lb_line lib (lb_dumps lib (JObj intent))) t \<Longrightarrow> intent_in lib rq a q t" for t
    using eq by (auto simp: wrote_def intent_in_def intent_says_def)
  have "triple (along (tombstone_safe lib rq d i raw) (\<lambda>t. tree_wf t \<and> quarantines_synced d i t))
     (atomic_private_json lib a (intent_name lib rq) (JObj intent))
     (\<lambda>_. along (tombstone_safe lib rq d i raw)
       (\<lambda>t. (tree_wf t \<and> quarantines_synced d i t) \<and> wrote a (intent_name lib rq) (lb_line lib (lb_dumps lib (JObj intent))) t))
     (\<lambda>_. along (tombstone_safe lib rq d i raw) (\<lambda>t. tree_wf t \<and> quarantines_synced d i t))"
    by (rule triple_atomic_private_json [OF robust_safe robust_quarantines]) simp_all
  with False show ?thesis
    by (auto simp: ewhen_def along_def intent elim!: triple_conseq)
qed

lemma triple_retire:
  assumes q: "quarantine_like q" and eq: "py_eq (JObj intent) (JObj (intent_record lib rq (JStr q)))"
    and audit: "st_ino (ns_audit_st ns) = ns_audit ns"
  shows "triple (along (tombstone_safe lib rq d i raw)
       (\<lambda>t. tree_wf t \<and> (quarantines_synced d i t \<and> (existing \<longrightarrow> intent_in lib rq (ns_audit ns) q t))))
     (retire_tombstone lib ns rq intent q existing fd)
     (\<lambda>_. along (tombstone_safe lib rq d i raw) (\<lambda>_. True)) (\<lambda>_. along (tombstone_safe lib rq d i raw) (\<lambda>_. True))"
proof -
  let ?G = "tombstone_safe lib rq d i raw"
  let ?P = "\<lambda>t. tree_wf t \<and> (quarantines_synced d i t \<and> (existing \<longrightarrow> intent_in lib rq (ns_audit ns) q t))"
  have auth: "triple (along ?G ?P) (authorize_tombstone lib (ns_dir ns) rq q existing fd)
      (\<lambda>pst. along ?G (\<lambda>t. ?P t \<and> (st_ino pst = i \<longrightarrow> clearable lib rq raw))) (\<lambda>_. along ?G (\<lambda>_. True))"
    by (rule triple_run_loose)
      (auto intro!: keeps_intros dest!: authorize_run simp: tombstone_safe_def evidence_def)
  have quiet: "triple (along ?G ?P) m (\<lambda>_. along ?G ?P) (\<lambda>_. along ?G (\<lambda>_. True))"
    if "keeps (along ?G ?P) m" for m :: "('a, unit) sys"
    by (rule triple_loose [OF keeps_triple [OF that]])
  note K = link_keeps_wf link_keeps_intent
  have link: "triple (along ?G (\<lambda>t. (tree_wf t \<and> intent_in lib rq (ns_audit ns) q t) \<and> quarantines_synced d i t))
      (link_quarantine (ns_dir ns) q pst)
      (\<lambda>_. along ?G (\<lambda>t. (tree_wf t \<and> intent_in lib rq (ns_audit ns) q t) \<and> linked d i (ns_dir ns) q t))
      (\<lambda>_. along ?G (\<lambda>_. True))" for pst
    by (rule triple_link_quarantine [OF q])
      (auto intro: K tree_wf_housekeeping intent_in_housekeeping hk_fsync)
  show ?thesis
    unfolding retire_tombstone_def
    apply (rule triple_ebind [OF auth])
    apply (rule triple_given)
    apply (rule triple_ebind [OF quiet], rule keeps_housework(3) [OF robust_safe robust_resting])
    apply (rule triple_ebind [OF quiet], rule keeps_housework(4) [OF robust_safe robust_resting])
    apply (rule triple_ebind [OF triple_record_intent [OF eq]])
    apply (rule triple_ebind [OF link])
    apply (rule triple_pre [OF triple_retire_name [OF q audit]])
     apply (auto simp: along_def)
    done
qed


section \<open>The whole clearance\<close>

lemma keeps_publish_completion [keeps_intros]:
  "robust G \<Longrightarrow> robust P \<Longrightarrow> keeps (along G P) (publish_completion lib ns rq intent q)"
  unfolding publish_completion_def by (auto intro!: keeps_intros)

lemma triple_remove:
  assumes q: "quarantine_like q" and eq: "py_eq (JObj intent) (JObj (intent_record lib rq (JStr q)))"
    and audit: "st_ino (ns_audit_st ns) = ns_audit ns"
  shows "triple (along (tombstone_safe lib rq d i raw)
       (\<lambda>t. tree_wf t \<and> (quarantines_synced d i t \<and> (existing \<longrightarrow> intent_in lib rq (ns_audit ns) q t))))
     (remove_tombstone lib ns rq intent q existing)
     (\<lambda>_. along (tombstone_safe lib rq d i raw) (\<lambda>_. True)) (\<lambda>_. along (tombstone_safe lib rq d i raw) (\<lambda>_. True))"
proof -
  let ?G = "tombstone_safe lib rq d i raw"
  let ?P = "\<lambda>t. tree_wf t \<and> (quarantines_synced d i t \<and> (existing \<longrightarrow> intent_in lib rq (ns_audit ns) q t))"
  have quiet: "triple (along ?G P) m (\<lambda>_. along ?G P) (\<lambda>_. along ?G (\<lambda>_. True))"
    if "keeps (along ?G P) m" for P and m :: "('a, 'c) sys"
    by (rule triple_loose [OF keeps_triple [OF that]])
  have closed: "triple (along ?G (\<lambda>_. True)) (sys_close fd) (\<lambda>_. along ?G (\<lambda>_. True)) (\<lambda>_. along ?G (\<lambda>_. True))" for fd
    by (rule keeps_triple) (rule keeps_handles)
  show ?thesis
    unfolding remove_tombstone_def with_fd_def
    apply (rule triple_ebind [OF quiet], intro keeps_intros)
    subgoal for r
      apply (cases r; simp)
       apply (rule triple_conseq [OF quiet [of ?P]], intro keeps_intros)
         apply (auto simp: along_def)[3]
      apply (rule triple_efinally [OF triple_retire [OF q eq audit] closed closed])
      done
    done
qed

lemma open_private_ino: "open_private_named lib n e dir ks m = (Inr (fd, st), m') \<Longrightarrow> st_ino st = fd"
  unfolding open_private_named_def by (auto simp: run_Inr elim!: ebind_InrE dest!: fstat_run split: if_splits)

lemma triple_clear_in_audit:
  assumes audit: "st_ino (ns_audit_st ns) = ns_audit ns"
  shows "triple (along (tombstone_safe lib rq d i raw) (\<lambda>t. tree_wf t \<and> quarantines_synced d i t))
     (clear_in_audit lib ns rq)
     (\<lambda>_. along (tombstone_safe lib rq d i raw) (\<lambda>_. True)) (\<lambda>_. along (tombstone_safe lib rq d i raw) (\<lambda>_. True))"
proof -
  let ?G = "tombstone_safe lib rq d i raw"
  have quiet: "triple (along ?G P) m (\<lambda>_. along ?G P) (\<lambda>_. along ?G (\<lambda>_. True))"
    if "keeps (along ?G P) m" for P and m :: "('a, 'c) sys"
    by (rule triple_loose [OF keeps_triple [OF that]])
  have loaded: "triple (along ?G (\<lambda>t. tree_wf t \<and> quarantines_synced d i t)) (load_intent lib (ns_audit ns) rq (quarantine_name rq u))
      (\<lambda>a. along ?G (\<lambda>t. (tree_wf t \<and> quarantines_synced d i t) \<and> (case a of (intent, q, e) \<Rightarrow>
         (e \<longrightarrow> intent_in lib rq (ns_audit ns) q t) \<and>
         (quarantine_like q \<and> py_eq (JObj intent) (JObj (intent_record lib rq (JStr q)))))))
      (\<lambda>_. along ?G (\<lambda>_. True))" for u
    by (rule triple_run_loose [OF keeps_load_intent [OF robust_safe robust_quarantines]])
      (auto dest!: load_intent_run [OF _ quarantine_name_like] simp del: py_eq.simps)
  have remove: "triple (along ?G (\<lambda>t. tree_wf t \<and> (quarantines_synced d i t \<and> (e \<longrightarrow> intent_in lib rq (ns_audit ns) q t))))
      (ebind (remove_tombstone lib ns rq intent q e) (\<lambda>_. publish_completion lib ns rq intent q))
      (\<lambda>_. along ?G (\<lambda>_. True)) (\<lambda>_. along ?G (\<lambda>_. True))"
    if "quarantine_like q \<and> py_eq (JObj intent) (JObj (intent_record lib rq (JStr q)))" for intent q e
    apply (rule triple_ebind [OF triple_remove [OF _ _ audit]])
      apply (use that in simp)
     apply (use that in blast)
    apply (rule triple_conseq [OF quiet [of ?G], OF keeps_publish_completion [OF robust_safe robust_safe]])
      apply (auto simp: along_def)
    done
  have after: "triple (along ?G (\<lambda>t. tree_wf t \<and> (quarantines_synced d i t \<and> (e \<longrightarrow> intent_in lib rq (ns_audit ns) q t))))
      (ebind (read_exact_audit lib (ns_audit ns) (complete_name lib rq) (completion_record intent)) (\<lambda>completed.
       if completed then already_completed lib ns rq q
       else ebind (remove_tombstone lib ns rq intent q e) (\<lambda>_. publish_completion lib ns rq intent q)))
      (\<lambda>_. along ?G (\<lambda>_. True)) (\<lambda>_. along ?G (\<lambda>_. True))"
    if "quarantine_like q \<and> py_eq (JObj intent) (JObj (intent_record lib rq (JStr q)))" for intent q e
    apply (rule triple_ebind [OF quiet [OF keeps_read_exact_audit [OF robust_safe robust_resting]]])
    subgoal for finished
      apply (cases finished; simp)
       apply (rule triple_conseq [OF quiet [OF keeps_looks2(2)]])
         apply (auto simp: along_def)[3]
      apply (rule remove [OF that])
      done
    done
  show ?thesis
    unfolding clear_in_audit_def Let_def
    apply (rule triple_ebind [OF quiet [OF keeps_looks(2)]])
    apply (rule triple_ebind [OF quiet [OF keeps_handles(4)]])
    apply (rule triple_ebind [OF quiet [OF keeps_pure(4)]])
    apply (rule triple_ebind [OF loaded])
    subgoal for x y z a
      apply (cases a)
      apply (simp del: py_eq.simps)
      apply (rule triple_pre, rule triple_given, erule after)
       apply (auto simp: along_def simp del: py_eq.simps)
      done
    done
qed

lemma triple_under_lock:
  "triple (along (tombstone_safe lib rq d i raw) (\<lambda>t. tree_wf t \<and> quarantines_synced d i t))
     (clear_under_lock lib parts dir st rq fd)
     (\<lambda>_. along (tombstone_safe lib rq d i raw) (\<lambda>_. True)) (\<lambda>_. along (tombstone_safe lib rq d i raw) (\<lambda>_. True))"
proof -
  let ?G = "tombstone_safe lib rq d i raw"
  have quiet: "triple (along ?G P) m (\<lambda>_. along ?G P) (\<lambda>_. along ?G (\<lambda>_. True))"
    if "keeps (along ?G P) m" for P and m :: "('a, 'c) sys"
    by (rule triple_loose [OF keeps_triple [OF that]])
  have audit: "triple (along ?G (\<lambda>t. tree_wf t \<and> quarantines_synced d i t)) (open_audit_directory lib dir)
      (\<lambda>a. along ?G (\<lambda>t. (tree_wf t \<and> quarantines_synced d i t) \<and> st_ino (snd a) = fst a))
      (\<lambda>_. along ?G (\<lambda>_. True))"
    by (rule triple_run_loose [OF keeps_open_audit_directory [OF robust_safe robust_quarantines]])
      (auto simp: open_audit_directory_def elim!: ebind_InrE dest!: open_private_ino)
  have closed: "keeps (along ?G (\<lambda>_. True)) (sys_close k)" "keeps (along ?G (\<lambda>_. True)) (efinally (sys_funlock k) (sys_close k))" for k
    by (intro keeps_intros)+
  note close = closed [THEN keeps_triple]
  have work: "triple (along ?G (\<lambda>t. (tree_wf t \<and> quarantines_synced d i t) \<and> st_ino (snd a) = fst a))
      (case a of (audit_fd, audit_st) \<Rightarrow> with_fd audit_fd (clear_in_audit lib
          \<lparr>ns_parts = parts, ns_dir = dir, ns_unit = st, ns_lock = lst, ns_audit = audit_fd, ns_audit_st = audit_st\<rparr> rq))
      (\<lambda>_. along ?G (\<lambda>_. True)) (\<lambda>_. along ?G (\<lambda>_. True))" for a lst
    unfolding with_fd_def
    by (cases a, simp only: prod.case fst_conv snd_conv, rule triple_given,
        rule triple_efinally [OF triple_clear_in_audit close(1) close(1)]) simp
  show ?thesis
    unfolding clear_under_lock_def
    by (rule triple_efinally [OF triple_ebind [OF quiet [OF keeps_looks(5)]
        triple_ebind [OF quiet [OF keeps_handles(2)] triple_ebind [OF audit work]]] close(2) close(2)])
qed

lemma triple_clear_legacy:
  assumes rq: "check_request u g sha asserted operator ticket = Inr rq"
  shows "triple (along (tombstone_safe lib rq d i raw) (\<lambda>t. tree_wf t \<and> quarantines_synced d i t))
     (clear_legacy_process_tombstone lib parts u g sha asserted operator ticket)
     (\<lambda>_. along (tombstone_safe lib rq d i raw) (\<lambda>_. True)) (\<lambda>_. along (tombstone_safe lib rq d i raw) (\<lambda>_. True))"
proof -
  let ?G = "tombstone_safe lib rq d i raw"
  have quiet: "triple (along ?G P) m (\<lambda>_. along ?G P) (\<lambda>_. along ?G (\<lambda>_. True))"
    if "keeps (along ?G P) m" for P and m :: "('a, 'c) sys"
    by (rule triple_loose [OF keeps_triple [OF that]])
  have close: "triple (along ?G (\<lambda>_. True)) (sys_close k) (\<lambda>_. along ?G (\<lambda>_. True)) (\<lambda>_. along ?G (\<lambda>_. True))" for k
    by (rule keeps_triple) (rule keeps_handles)
  have handler: "triple (along ?G (\<lambda>_. True)) (eraise x) (\<lambda>_. along ?G (\<lambda>_. True)) (\<lambda>_. along ?G (\<lambda>_. True))" for x
    by (rule triple_eraise)
  have opened: "triple (along ?G (\<lambda>t. tree_wf t \<and> quarantines_synced d i t))
      (case a of (dir, st) \<Rightarrow> with_fd dir (ebind (open_unit_lock lib dir) (\<lambda>fd. clear_under_lock lib parts dir st rq fd)))
      (\<lambda>_. along ?G (\<lambda>_. True)) (\<lambda>_. along ?G (\<lambda>_. True))" for a
    unfolding with_fd_def
    by (cases a, simp only: prod.case, rule triple_efinally [OF triple_ebind [OF
        quiet [OF keeps_open_unit_lock [OF robust_safe robust_quarantines]] triple_under_lock] close close])
  have "ebind (elift (check_request u g sha asserted operator ticket)) f = f rq" for f :: "request \<Rightarrow> ('a, string list) sys"
    by (simp add: rq fun_eq_iff ebind_def elift_def)
  then show ?thesis
    unfolding clear_legacy_process_tombstone_def domain_failures_def clear_legacy_locked_def
    by (simp, intro triple_etry [OF triple_ebind [OF quiet [OF keeps_looks(1)] opened] handler]) auto
qed

lemma refused_request:
  assumes "check_request u g sha asserted operator ticket = Inl x"
  shows "tree (snd (clear_legacy_process_tombstone lib parts u g sha asserted operator ticket m)) = tree m"
    "past (snd (clear_legacy_process_tombstone lib parts u g sha asserted operator ticket m)) = past m"
  by (simp_all add: clear_legacy_process_tombstone_def domain_failures_def clear_legacy_locked_def eff_defs assms)

lemma as_true_int_Some: "as_true_int v = Some i \<longleftrightarrow> v = JInt i"
  by (cases v) (auto simp: as_true_int_def)

lemma check_request_asserted:
  "check_request u g sha asserted operator ticket = Inr rq \<Longrightarrow> asserted = JBool True \<and>
     rq_unit rq = u \<and> g = JInt (rq_generation rq) \<and> sha = JStr (rq_sha256 rq)"
  by (auto simp: check_request_def sbind_Inr as_true_int_Some as_str_Some split: option.splits if_splits)


text \<open>
  A quarantine that is there already is accepted as it is: its directory is not synced, so the link
  may still be missing on the disk when \<^verbatim>\<open>pid.json\<close> is removed.
\<close>

theorem legacy_collision_not_synced:
  assumes "troubles m = []" "entry_at (tree m) d pid_name = Some i" "entry_at (tree m) d q = Some i" "st_ino pst = i"
  shows "\<exists>m'. link_quarantine d q pst m = (Inr (), m') \<and> names_synced (tree m') = names_synced (tree m)"
  using assms
  by (simp add: link_quarantine_def eff_defs call_def Let_def t_link_def t_stat_def same_inode_def subclass_of_def)

section \<open>A small fleet directory\<close>

definition demo_tombstone :: json where
  "demo_tombstone = JObj [(''pid'', JInt 7), (''unit'', JStr ''a''), (''generation'', JInt 3)]"

text \<open>Files hold JSON values here; what cannot be parsed is \<open>JNull\<close>.\<close>

definition demo_lib :: "json lib" where
  "demo_lib = \<lparr>lb_dumps = (\<lambda>v. v), lb_line = (\<lambda>v. v),
     lb_loads = (\<lambda>v. if v = JNull then Inl (Exc JSONDecodeError '''') else Inr v),
     lb_sha256 = (\<lambda>v. replicate 64 (if v = demo_tombstone then CHR ''a'' else CHR ''b'')),
     lb_size = (\<lambda>_. 100), lb_cut = (\<lambda>_. JNull), lb_nothing = JNull,
     lb_uuid = (\<lambda>n. replicate (32 - n) (CHR ''0'') @ replicate (min n 32) (CHR ''1'')), lb_euid = 7\<rparr>"

definition demo_names :: "nat \<Rightarrow> (string, nat) dict" where
  "demo_names d = (if d = 0 then [(''fleet'', 1)] else if d = 1 then [(''a'', 2)]
     else if d = 2 then [(''pid.json'', 3)] else [])"

definition demo_tree :: "json tree" where
  "demo_tree = \<lparr>inodes = (\<lambda>i. if i = 3
       then \<lparr>in_kind = Regular, in_uid = 7, in_mode = 420, in_nlink = 1, in_bytes = demo_tombstone\<rparr>
       else \<lparr>in_kind = Directory, in_uid = (if i = 0 then 0 else 7), in_mode = 493, in_nlink = 2, in_bytes = JNull\<rparr>),
     names = demo_names, names_synced = demo_names, data_on_disk = (\<lambda>_. True), next_inode = 4\<rparr>"

definition demo_machine :: "io_class option list \<Rightarrow> json machine" where
  "demo_machine ts = \<lparr>tree = demo_tree, troubles = ts, past = [], open_fds = [], flocked = [], uuid_count = 0\<rparr>"

definition demo_clear :: "(json, string list) sys" where
  "demo_clear = clear_legacy_process_tombstone demo_lib [''fleet'', ''a''] ''a'' (JInt 3)
     (JStr (replicate 64 (CHR ''a''))) (JBool True) (JStr ''op'') (JStr ''T-1'')"

section \<open>Properties\<close>

text \<open>A power loss leaves each entry as it is now or as it was last synced.\<close>

definition may_be_left :: "'b tree \<Rightarrow> nat \<Rightarrow> (string \<Rightarrow> nat option) \<Rightarrow> bool" where
  "may_be_left t d left \<longleftrightarrow> (\<forall>n. left n = entry_at t d n \<or> left n = synced_at t d n)"

definition on_disk :: "'b tree \<Rightarrow> nat \<Rightarrow> bool" where
  "on_disk t d \<longleftrightarrow> (\<forall>n. synced_at t d n = entry_at t d n)"

lemma triple_both: "triple P m (\<lambda>_. I) (\<lambda>_. I) \<Longrightarrow> P s \<Longrightarrow> m s = (r, s') \<Longrightarrow> I s'"
  unfolding triple_def by (cases r) blast+

lemma legacy_run_safe:
  assumes run: "clear_legacy_process_tombstone lib parts u g sha asserted operator ticket m = (r, m')"
    and start: "tree_wf (tree m)" "on_disk (tree m) d" "past m = []"
      "entry_at (tree m) d pid_name = Some i" "in_kind (inodes (tree m) i) = Regular"
    and t: "t \<in> set (tree m' # past m')"
  shows "(\<exists>n. guarded n \<and> entry_at t d n = Some i \<and> synced_at t d n = Some i) \<and>
    in_bytes (inodes t i) = in_bytes (inodes (tree m) i) \<and>
    (entry_at t d pid_name = Some i \<or>
     (\<exists>rq. check_request u g sha asserted operator ticket = Inr rq \<and>
        clearable lib rq (in_bytes (inodes (tree m) i)) \<and> on_record lib rq d i t))"
proof (cases "check_request u g sha asserted operator ticket")
  case (Inl x)
  from refused_request [OF this, of lib parts m] run t start show ?thesis
    by (auto simp: on_disk_def intro!: exI [of _ pid_name])
next
  case (Inr rq)
  let ?G = "tombstone_safe lib rq d i (in_bytes (inodes (tree m) i))"
  from start have "evidence d i (in_bytes (inodes (tree m) i)) (tree m)"
    unfolding evidence_def on_disk_def by (intro conjI exI [of _ pid_name]) simp_all
  with start have "along ?G (\<lambda>t. tree_wf t \<and> quarantines_synced d i t) m"
    by (simp add: along_def tombstone_safe_def quarantines_synced_def on_disk_def)
  from triple_both [OF triple_clear_legacy [OF Inr] this run] have "along ?G (\<lambda>_. True) m'" .
  with t have "?G t" by (auto simp: along_def)
  with Inr show ?thesis by (auto simp: tombstone_safe_def evidence_def)
qed

text \<open>
  C4. The tombstone is never lost. Whatever call of a clearance fails, and wherever the power is lost on the
  way, what is left of the unit directory still leads from \<^verbatim>\<open>pid.json\<close> or from a quarantine name to
  the file that was the tombstone, with its bytes. Needed: the directory was on disk when the
  clearance began.
\<close>

theorem legacy_tombstone_never_lost:
  assumes "clear_legacy_process_tombstone lib parts u g sha asserted operator ticket m = (r, m')"
    and "tree_wf (tree m)" "on_disk (tree m) d" "past m = []"
    and "entry_at (tree m) d pid_name = Some i" "in_kind (inodes (tree m) i) = Regular"
  shows "\<forall>t \<in> set (tree m' # past m'). \<forall>left. may_be_left t d left \<longrightarrow>
    (\<exists>n. (n = pid_name \<or> quarantine_like n) \<and> left n = Some i) \<and>
    in_bytes (inodes t i) = in_bytes (inodes (tree m) i)"
proof (intro ballI allI impI)
  fix t left assume t: "t \<in> set (tree m' # past m')" and l: "may_be_left t d left"
  from legacy_run_safe [OF assms t] obtain n where n: "guarded n" "entry_at t d n = Some i" "synced_at t d n = Some i"
      and b: "in_bytes (inodes t i) = in_bytes (inodes (tree m) i)"
    by blast
  from l n have "left n = Some i" unfolding may_be_left_def by metis
  with n(1) b show "(\<exists>n. (n = pid_name \<or> quarantine_like n) \<and> left n = Some i) \<and>
      in_bytes (inodes t i) = in_bytes (inodes (tree m) i)"
    unfolding guarded_def by blast
qed

lemma demo_tree_ready: "tree_wf (tree (demo_machine ts))" "on_disk (tree (demo_machine ts)) d"
  "past (demo_machine ts) = []" "entry_at (tree (demo_machine ts)) 2 pid_name = Some 3"
  "in_kind (inodes (tree (demo_machine ts)) 3) = Regular"
  by (simp_all add: tree_wf_def on_disk_def synced_at_def entry_at_def demo_machine_def demo_tree_def demo_names_def pid_name_def)

lemma legacy_tombstone_never_lost_witness:
  "(\<exists>n. (n = pid_name \<or> quarantine_like n) \<and> synced_at (tree (snd (demo_clear (demo_machine [None, Some IOFailure])))) 2 n = Some 3) \<and>
     in_bytes (inodes (tree (snd (demo_clear (demo_machine [None, Some IOFailure])))) 3) = demo_tombstone"
proof -
  let ?m = "snd (demo_clear (demo_machine [None, Some IOFailure]))"
  have "may_be_left (tree ?m) 2 (synced_at (tree ?m) 2)" by (simp add: may_be_left_def)
  with legacy_tombstone_never_lost [OF prod.collapse [symmetric] demo_tree_ready, of demo_lib "[''fleet'', ''a'']" "''a''"
      "JInt 3" "JStr (replicate 64 (CHR ''a''))" "JBool True" "JStr ''op''" "JStr ''T-1''" "[None, Some IOFailure]"]
  show ?thesis unfolding demo_clear_def by (simp add: demo_machine_def demo_tree_def)
qed

text \<open>
  C5. A tombstone leaves its name only on record. On every tree of a clearance, \<^verbatim>\<open>pid.json\<close> still is the tombstone,
  or the request was valid and asserted that the workload is gone, the tombstone has exactly the
  requested hash and is a tokenless record of exactly this unit and generation, and the audit
  directory holds the intent of this request, naming a quarantine that is the tombstone's file.
\<close>

theorem legacy_removal_recorded:
  assumes "clear_legacy_process_tombstone lib parts u g sha asserted operator ticket m = (r, m')"
    and "tree_wf (tree m)" "on_disk (tree m) d" "past m = []"
    and "entry_at (tree m) d pid_name = Some i" "in_kind (inodes (tree m) i) = Regular"
  shows "\<forall>t \<in> set (tree m' # past m'). entry_at t d pid_name = Some i \<or>
    (\<exists>rq a q j e v. check_request u g sha asserted operator ticket = Inr rq \<and> asserted = JBool True \<and>
       lb_sha256 lib (in_bytes (inodes (tree m) i)) = rq_sha256 rq \<and>
       lb_loads lib (in_bytes (inodes (tree m) i)) = Inr v \<and> legacy_record rq v \<and>
       entry_at t d audit_dir_name = Some a \<and> entry_at t a (intent_name lib rq) = Some j \<and>
       (in_bytes (inodes t j) = lb_line lib (lb_dumps lib (JObj e)) \<or> lb_loads lib (in_bytes (inodes t j)) = Inr (JObj e)) \<and>
       py_eq (JObj e) (JObj (intent_record lib rq (JStr q))) \<and> entry_at t d q = Some i)"
proof
  fix t assume t: "t \<in> set (tree m' # past m')"
  from legacy_run_safe [OF assms t] consider "entry_at t d pid_name = Some i"
    | rq where "check_request u g sha asserted operator ticket = Inr rq"
        "clearable lib rq (in_bytes (inodes (tree m) i))" "on_record lib rq d i t"
    by blast
  then show "entry_at t d pid_name = Some i \<or>
    (\<exists>rq a q j e v. check_request u g sha asserted operator ticket = Inr rq \<and> asserted = JBool True \<and>
       lb_sha256 lib (in_bytes (inodes (tree m) i)) = rq_sha256 rq \<and>
       lb_loads lib (in_bytes (inodes (tree m) i)) = Inr v \<and> legacy_record rq v \<and>
       entry_at t d audit_dir_name = Some a \<and> entry_at t a (intent_name lib rq) = Some j \<and>
       (in_bytes (inodes t j) = lb_line lib (lb_dumps lib (JObj e)) \<or> lb_loads lib (in_bytes (inodes t j)) = Inr (JObj e)) \<and>
       py_eq (JObj e) (JObj (intent_record lib rq (JStr q))) \<and> entry_at t d q = Some i)"
  proof cases
    case 2
    from 2(2) obtain v where v: "lb_loads lib (in_bytes (inodes (tree m) i)) = Inr v" "legacy_record rq v"
        "lb_sha256 lib (in_bytes (inodes (tree m) i)) = rq_sha256 rq"
      by (auto simp: clearable_def split: sum.splits)
    from 2(3) obtain a q j e where "entry_at t d audit_dir_name = Some a" "entry_at t d q = Some i"
        "entry_at t a (intent_name lib rq) = Some j" "py_eq (JObj e) (JObj (intent_record lib rq (JStr q)))"
        "in_bytes (inodes t j) = lb_line lib (lb_dumps lib (JObj e)) \<or> lb_loads lib (in_bytes (inodes t j)) = Inr (JObj e)"
      unfolding on_record_def intent_in_def intent_says_def by blast
    with v 2(1) check_request_asserted [OF 2(1)] show ?thesis by blast
  qed simp
qed

lemma legacy_removal_recorded_witness:
  "entry_at (tree (snd (demo_clear (demo_machine [])))) 2 pid_name = Some 3 \<or>
   (\<exists>a q. entry_at (tree (snd (demo_clear (demo_machine [])))) 2 audit_dir_name = Some a \<and>
      entry_at (tree (snd (demo_clear (demo_machine [])))) 2 q = Some 3)"
  using legacy_removal_recorded [OF prod.collapse [symmetric] demo_tree_ready, of demo_lib "[''fleet'', ''a'']" "''a''"
      "JInt 3" "JStr (replicate 64 (CHR ''a''))" "JBool True" "JStr ''op''" "JStr ''T-1''" "[]"]
  unfolding demo_clear_def by (simp, blast)

end
