(* ===== verification/LegacyLiveness.thy ===== *)
theory LegacyLiveness
  imports LegacyResume LegacyProps
begin

text \<open>
  A clearance that nothing interrupts completes, and one that was cut off anywhere can be taken up
  again with the same request, by a new process, until it completes.
\<close>

section \<open>The public function\<close>

definition cleared :: "'b job \<Rightarrow> 'b tree \<Rightarrow> bool" where
  "cleared j t \<longleftrightarrow> (\<exists>l a q. place j l a t \<and> at_stage j a (Completed q) t)"

lemma gets_clear_under_lock:
  assumes j: "job_ok j" and st: "st_ino unit_st = job_dir j"
  shows "gets b (resumable j) (locked j l)
    (clear_under_lock (job_lib j) (job_parts j) (job_dir j) unit_st (job_rq j) l)
    (\<lambda>r t n. cleared j t \<and> r = job_parts j @ [audit_dir_name, complete_name (job_lib j) (job_rq j)])"
proof -
  let ?Q = "\<lambda>r t (n::nat). cleared j t \<and> r = job_parts j @ [audit_dir_name, complete_name (job_lib j) (job_rq j)]"
  let ?ns = "\<lambda>lst a ast. \<lparr>ns_parts = job_parts j, ns_dir = job_dir j, ns_unit = unit_st, ns_lock = lst,
      ns_audit = a, ns_audit_st = ast\<rparr>"
  have work: "gets b (resumable j) (standing j l a) (clear_in_audit (job_lib j) (?ns lst a ast) (job_rq j)) ?Q"
    if "st_ino lst = l" "st_ino ast = a" for lst ast a
  proof -
    have "ns_for j l a (?ns lst a ast)" using st that by (simp add: ns_for_def)
    from gets_clear_in_audit [OF j this] show ?thesis
      by (rule does_post) (auto simp: finished_def cleared_def carrying_def audit_path_def)
  qed
  show ?thesis
    unfolding clear_under_lock_def
    apply (rule does_efinally [where F = "\<lambda>_ _. True" and R = ?Q])
      apply (rule does_ebind [OF gets_check_unit_lock], rule does_given)
      apply (rule does_ebind [OF does_flock(1)], simp)
      apply (rule does_ebind [OF gets_open_audit_directory], rule does_given, simp only: split_beta)
      apply (rule does_with_fd, rule work, assumption, assumption)
     apply (rule does_efinally [OF does_flock(2)], simp, rule gets_close, rule gets_close)
    apply (rule does_efinally [OF does_flock(2)], simp, rule gets_close, rule gets_close)
    done
qed

lemma gets_clear_legacy:
  assumes j: "job_ok j" and rq: "check_request u g sha asserted operator ticket = Inr (job_rq j)"
  shows "gets b (resumable j) (\<lambda>t n. resumable j t \<and> fresh_names j n t)
    (clear_legacy_process_tombstone (job_lib j) (job_parts j) u g sha asserted operator ticket)
    (\<lambda>r t n. cleared j t \<and> r = job_parts j @ [audit_dir_name, complete_name (job_lib j) (job_rq j)])"
proof -
  have opened: "gets b (resumable j) (\<lambda>t n. resumable j t \<and> fresh_names j n t)
      (open_trusted_unit_directory (job_lib j) (job_parts j))
      (\<lambda>x t n. (resumable j t \<and> fresh_names j n t) \<and> (fst x = job_dir j \<and> st_ino (snd x) = job_dir j))"
    by (rule gets_open_trusted) (simp add: resumable_def)
  have request: "gets b (resumable j) P (elift (check_request u g sha asserted operator ticket)) (\<lambda>r t n. P t n \<and> r = job_rq j)" for P
    by (rule does_elift) (simp add: rq)
  show ?thesis
    unfolding clear_legacy_process_tombstone_def domain_failures_def clear_legacy_locked_def
    apply (rule does_etry [where R = "\<lambda>_ _. True"])
      apply (rule does_ebind [OF request], rule does_given)
      apply (rule does_ebind [OF opened], rule does_given, clarsimp)
      apply (rule does_with_fd, rule does_ebind [OF gets_open_unit_lock])
      apply (rule gets_clear_under_lock [OF j], assumption)
     apply (auto intro: does_reraise)
    done
qed

text \<open>What \<open>gets\<close> says of a machine.\<close>

lemma gets_run:
  assumes c: "\<And>b. gets b G P c Q" and G: "G (tree m)" "past m = []" and P: "P (tree m) (uuid_count m)"
  shows "\<forall>t \<in> set (tree (snd (c m)) # past (snd (c m))). G t"
    "troubles m = [] \<Longrightarrow> \<exists>a m'. c m = (Inr a, m') \<and> Q a (tree m') (uuid_count m')"
proof -
  obtain r m' where run: "c m = (r, m')" by (cases "c m")
  from G P have start: "goes True G P m" "troubles m = [] \<Longrightarrow> goes False G P m" by (simp_all add: goes_def)
  have all: "triple (goes b G P) c (\<lambda>a. goes b G (Q a)) (\<lambda>x m. b \<and> loud x \<and> goes b G (\<lambda>_ _. True) m)" for b
    using c [of b] by (simp only: does_def)
  show "\<forall>t \<in> set (tree (snd (c m)) # past (snd (c m))). G t"
  proof (cases r)
    case (Inl x)
    with triple_Inl [OF all start(1)] run show ?thesis by (simp add: goes_def)
  next
    case (Inr a)
    with triple_Inr [OF all start(1)] run show ?thesis by (simp add: goes_def)
  qed
  show "\<exists>a m'. c m = (Inr a, m') \<and> Q a (tree m') (uuid_count m')" if "troubles m = []"
  proof (cases r)
    case (Inl x)
    with triple_Inl [OF all start(2) [OF that]] run show ?thesis by simp
  next
    case (Inr a)
    with triple_Inr [OF all start(2) [OF that]] run show ?thesis by (simp add: goes_def)
  qed
qed

lemma cleared_tombstone:
  assumes "cleared j t"
  shows "entry_at t (job_dir j) pid_name = None"
    "\<exists>q. quarantine_like q \<and> entry_at t (job_dir j) q = Some (job_ino j)"
    "in_bytes (inodes t (job_ino j)) = job_raw j"
proof -
  from assms obtain q where q: "quarantine_ok q" "tomb_named j {q} t" "entry_at t (job_dir j) pid_name = None"
    by (auto simp: cleared_def at_stage_def)
  from tomb_entry [OF q(2), of q] quarantine_ok_like [OF q(1)]
  show "entry_at t (job_dir j) pid_name = None" "\<exists>q. quarantine_like q \<and> entry_at t (job_dir j) q = Some (job_ino j)"
    using q(3) by auto
  from q(2) show "in_bytes (inodes t (job_ino j)) = job_raw j" by (simp add: tomb_named_def tombstone_at_def)
qed

text \<open>A process that comes after: the disk as it was left, and nothing fails.\<close>

definition new_process :: "'b tree \<Rightarrow> nat \<Rightarrow> 'b machine" where
  "new_process t n = \<lparr>tree = t, troubles = [], past = [], open_fds = [], flocked = [], uuid_count = n\<rparr>"


section \<open>A clearance cut off half-way\<close>

definition demo_request :: request where
  "demo_request = \<lparr>rq_unit = ''a'', rq_generation = 3, rq_sha256 = replicate 64 (CHR ''a''),
     rq_operator = ''op'', rq_ticket = ''T-1''\<rparr>"

definition demo_job :: "json job" where
  "demo_job = \<lparr>job_lib = demo_lib, job_rq = demo_request, job_parts = [''fleet'', ''a''], job_dir = 2,
     job_ino = 3, job_raw = demo_tombstone\<rparr>"

lemma demo_request_checks:
  "check_request ''a'' (JInt 3) (JStr (replicate 64 (CHR ''a''))) (JBool True) (JStr ''op'') (JStr ''T-1'') = Inr demo_request"
  by code_simp

lemma demo_job_ok: "job_ok demo_job"
proof -
  have "proper_uuids demo_lib"
    by (auto simp: proper_uuids_def demo_lib_def list_all_iff is_hex_def)
  moreover have "reads_back demo_lib" by (auto simp: reads_back_def demo_lib_def)
  moreover have "records_fit demo_lib rq" for rq by (simp add: records_fit_def demo_lib_def audit_limit_def)
  ultimately show ?thesis
    by (simp add: job_ok_def demo_job_def demo_request_def clearable_def demo_lib_def legacy_record_def demo_tombstone_def
        dict_keys_def dict_get_def tombstone_limit_def list_all_iff is_hex_def)
qed

lemma demo_resumable: "resumable demo_job demo_tree"
proof -
  have "sound demo_tree"
    by (auto simp: sound_def tree_wf_def entry_at_def demo_tree_def demo_names_def dict_wf_def dict_keys_def root_dir_def)
  moreover have "trusted demo_lib [''fleet'', ''a''] 2 demo_tree"
    by (simp add: trusted_def validate_trusted_directory_def stat_of_def Let_def demo_tree_def demo_names_def entry_at_def
        root_dir_def writable_by_others_def demo_lib_def)
  moreover have "links demo_tree 3 = {(2, pid_name)}"
    by (auto simp: links_def entry_at_def demo_tree_def demo_names_def pid_name_def split: if_splits)
  ultimately show ?thesis
    by (simp add: resumable_def lockable_def demo_job_def tomb_named_def tombstone_at_def counted_def)
      (simp add: entry_at_def demo_tree_def demo_names_def lock_name_def audit_dir_name_def demo_lib_def)
qed

text \<open>The machine fails once the lock and the audit directory are there.\<close>

definition demo_cut :: "json tree" where
  "demo_cut = tree (snd (demo_clear (demo_machine (replicate 16 None @ [Some IOFailure]))))"

lemma demo_cut_listing:
  "(List.map (names demo_cut) [0, 1, 2, 3, 4, 5], next_inode demo_cut) = ([[(''fleet'', 1)], [(''a'', 2)],
     [(''pid.json'', 3), (''.process.lock'', 4), (''legacy-process-clearance.audit.d'', 5)], [], [], []], 6)"
  by code_simp

definition no_dot :: "string \<Rightarrow> bool" where
  "no_dot k \<longleftrightarrow> take 3 k \<notin> {''.tm'', ''.le''}"

lemma fresh_without_dots:
  assumes s: "sound t" and k: "\<And>e. e < next_inode t \<Longrightarrow> list_all no_dot (dict_keys (names t e))"
  shows "fresh_names j n t"
proof -
  have none: "entry_at t e x = None" if "\<not> no_dot x" for e x
  proof (rule ccontr)
    assume "entry_at t e x \<noteq> None"
    then obtain i where i: "entry_at t e x = Some i" by blast
    with tree_wf_entry [OF sound_wf [OF s] i] k [of e] have "list_all no_dot (dict_keys (names t e))" by blast
    moreover from i have "x \<in> set (dict_keys (names t e))"
      by (auto simp: entry_at_def dict_keys_def dest!: map_of_SomeD intro: rev_image_eqI)
    ultimately show False using that by (auto simp: list_all_iff)
  qed
  have "\<not> no_dot (tmp_of v)" "\<not> no_dot (quarantine_name rq v)" for v rq
    by (simp_all add: no_dot_def tmp_of_def quarantine_name_def)
  with none show ?thesis by (simp add: fresh_names_def fresh_tmp_def fresh_but_def)
qed

lemma demo_fresh: "fresh_names demo_job n demo_tree" "sound demo_cut \<Longrightarrow> fresh_names demo_job n demo_cut"
proof -
  show "fresh_names demo_job n demo_tree"
    by (rule fresh_without_dots [OF resumable_sound [OF demo_resumable]])
      (simp add: demo_tree_def demo_names_def dict_keys_def no_dot_def)
  assume "sound demo_cut"
  then show "fresh_names demo_job n demo_cut"
  proof (rule fresh_without_dots)
    fix e assume "e < next_inode demo_cut"
    with demo_cut_listing have "e \<in> {0, 1, 2, 3, 4, 5}" by auto
    with demo_cut_listing show "list_all no_dot (dict_keys (names demo_cut e))"
      by (auto simp: dict_keys_def no_dot_def)
  qed
qed

section \<open>The property\<close>

text \<open>
  C6. A clearance can be taken up again wherever it was cut off. A clearance with a valid request
  begins at any stage of it, of which the untouched tombstone is the first, and any of its system
  calls may fail. From every tree on its way, and from the one it leaves, a later process with the
  same request, whose calls do not fail, returns the path of the completion; \<^verbatim>\<open>pid.json\<close> is gone and
  its file is in quarantine with its bytes, and the tree can be taken up again. Needed: the records
  fit their limit, \<^verbatim>\<open>json.loads\<close> reads back what \<^verbatim>\<open>json.dumps\<close> wrote, and the uuids to come are not
  taken.
\<close>

theorem legacy_clearance_resumes:
  assumes job: "job_ok j" "check_request u g sha asserted operator ticket = Inr (job_rq j)"
    and first: "clear_legacy_process_tombstone (job_lib j) (job_parts j) u g sha asserted operator ticket m = (r, m')"
    and start: "resumable j (tree m)" "fresh_names j (uuid_count m) (tree m)" "past m = []"
    and cut: "t \<in> set (tree m' # past m')" "fresh_names j n t"
  shows "\<exists>m2. clear_legacy_process_tombstone (job_lib j) (job_parts j) u g sha asserted operator ticket (new_process t n) =
      (Inr (job_parts j @ [audit_dir_name, complete_name (job_lib j) (job_rq j)]), m2) \<and>
    entry_at (tree m2) (job_dir j) pid_name = None \<and>
    (\<exists>q. quarantine_like q \<and> entry_at (tree m2) (job_dir j) q = Some (job_ino j)) \<and>
    in_bytes (inodes (tree m2) (job_ino j)) = job_raw j \<and> resumable j (tree m2)"
proof -
  note clear = gets_clear_legacy [OF job]
  from gets_run(1) [OF clear, of m] start first cut(1) have "resumable j t" by auto
  with gets_run(2) [OF clear, of "new_process t n"] cut(2) obtain m2 where
    m2: "clear_legacy_process_tombstone (job_lib j) (job_parts j) u g sha asserted operator ticket (new_process t n) =
      (Inr (job_parts j @ [audit_dir_name, complete_name (job_lib j) (job_rq j)]), m2)" "cleared j (tree m2)"
    by (auto simp: new_process_def)
  from m2(2) have "resumable j (tree m2)" by (auto simp: cleared_def intro: place_resumable)
  with m2(1) cleared_tombstone [OF m2(2)] show ?thesis by blast
qed


lemma demo_clear_job: "clear_legacy_process_tombstone (job_lib demo_job) (job_parts demo_job) ''a'' (JInt 3)
    (JStr (replicate 64 (CHR ''a''))) (JBool True) (JStr ''op'') (JStr ''T-1'') = demo_clear"
  by (simp add: demo_clear_def demo_job_def fun_eq_iff)

lemma demo_cut_sound: "sound demo_cut"
proof -
  let ?m = "demo_machine (replicate 16 None @ [Some IOFailure])"
  have rq: "check_request ''a'' (JInt 3) (JStr (replicate 64 (CHR ''a''))) (JBool True) (JStr ''op'') (JStr ''T-1'') = Inr (job_rq demo_job)"
    using demo_request_checks by (simp add: demo_job_def)
  have "\<forall>t \<in> set (tree (snd (demo_clear ?m)) # past (snd (demo_clear ?m))). resumable demo_job t"
    unfolding demo_clear_job [symmetric]
    by (rule gets_run(1) [OF gets_clear_legacy [OF demo_job_ok rq]])
      (simp_all add: demo_machine_def demo_resumable demo_fresh)
  then show ?thesis by (auto simp: demo_cut_def intro: resumable_sound)
qed

lemma legacy_clearance_resumes_witness:
  "\<exists>m2. demo_clear (new_process demo_cut 40) =
      (Inr [''fleet'', ''a'', audit_dir_name, complete_name demo_lib demo_request], m2) \<and>
    entry_at (tree m2) 2 pid_name = None \<and> (\<exists>q. quarantine_like q \<and> entry_at (tree m2) 2 q = Some 3) \<and>
    in_bytes (inodes (tree m2) 3) = demo_tombstone"
proof -
  let ?m = "demo_machine (replicate 16 None @ [Some IOFailure])"
  have rq: "check_request ''a'' (JInt 3) (JStr (replicate 64 (CHR ''a''))) (JBool True) (JStr ''op'') (JStr ''T-1'') = Inr (job_rq demo_job)"
    using demo_request_checks by (simp add: demo_job_def)
  have m: "tree ?m = demo_tree" "past ?m = []" by (simp_all add: demo_machine_def)
  note resumes = legacy_clearance_resumes [OF demo_job_ok rq, unfolded demo_clear_job, OF prod.collapse [symmetric],
      of ?m demo_cut 40, unfolded m, OF demo_resumable demo_fresh(1) refl _ demo_fresh(2) [OF demo_cut_sound]]
  have "demo_cut \<in> set (tree (snd (demo_clear ?m)) # past (snd (demo_clear ?m)))" by (simp add: demo_cut_def)
  from resumes [OF this] show ?thesis by (auto simp: demo_job_def)
qed

end
