(* ===== verification/Spec2Isabelle.thy ===== *)
theory Spec2Isabelle
  imports Checkpoints ContinuousProps ControlPlane ExecGate FetchProps Window Registries Ledger
    Commands Manifests Adapters Journal LegacyLiveness
begin

text \<open>
  A verification of \<^verbatim>\<open>datasource-kit\<close>, the Python package under \<^verbatim>\<open>src/src/datasource_kit\<close>.

  \<^bold>\<open>The program.\<close> The package runs autonomous data sources. In one process, \<^verbatim>\<open>WorkerHost\<close>
  (\<^verbatim>\<open>worker.py\<close>) repeats plan, fetch, persist and checkpoint for an intent of the consumer, with
  backoff, heartbeats and a cooperative stop; \<^verbatim>\<open>fetch.py\<close> builds such an intent from a planner
  over a list of units; \<^verbatim>\<open>ContinuousWorkerHost\<close> (\<^verbatim>\<open>continuous.py\<close>) repeats an opaque step.
  Over many processes, \<^verbatim>\<open>fleet/\<close> keeps one directory per unit with its desired state and the
  tombstone \<^verbatim>\<open>pid.json\<close> of the last launch: \<^verbatim>\<open>process.py\<close> launches, stops and clears,
  \<^verbatim>\<open>_exec_gate.py\<close> is the wrapper that execs the worker once its provenance is durable,
  \<^verbatim>\<open>state.py\<close> holds the supervisor lock and the reconciler, \<^verbatim>\<open>control.py\<close> and \<^verbatim>\<open>host.py\<close> the
  passes over a fleet. Beside them stand the one-shot ingest run (\<^verbatim>\<open>runtime.py\<close>) with its profile,
  providers, token bucket, retries, windows and reports, the command line over it (\<^verbatim>\<open>cli.py\<close>), the
  discovery ledger, the update journal, manifests and their inventory, and two registries.

  \<^bold>\<open>Conventions.\<close> A routine that reads and writes a state and may raise is a computation
  \<open>('s, 'a) eff\<close> of \<open>Prelude\<close>: a function from a state to an exception or a value, with the state
  it leaves, also when it raises. \<open>ebind\<close>, \<open>etry\<close>, \<open>efinally\<close> are sequencing,
  \<^verbatim>\<open>try ... except\<close> and \<^verbatim>\<open>try ... finally\<close>; an \<^verbatim>\<open>except\<close> clause tests the subclass relation
  \<open>instance_of\<close>. A routine without state has type \<open>exc + 'a\<close>. Consumer callbacks, the clock, the
  operating system and other threads are parameters: computations or functions on the state.
  JSON documents are values of \<open>PyValues\<close>, dictionaries association lists in insertion order,
  floats exact rationals with the overflow of \<^verbatim>\<open>float\<close> written out where a result depends on it.
  The text Python prints for a float is a parameter.

  \<^bold>\<open>Loops.\<close> The loops of the hosts are \<open>partial_function (option)\<close> definitions: \<open>None\<close> is a
  run that never returns. Theorems that say a run returns say that its value is \<open>Some\<close>:
  \<open>worker_run_bounded\<close>, \<open>cont_run_terminates\<close>, \<open>acquire_returns\<close>, \<open>fetch_walk_finishes\<close>,
  \<open>ingest_survives_windows\<close>, \<open>ingest_chain_complete\<close>. The calls of \<open>PosixTree\<close> are total functions: there
  \<open>legacy_clearance_resumes\<close> says that a value is returned and no exception. All other recursions are structural or have a proved measure; no
  definition takes fuel.

  \<^bold>\<open>Theories, bottom up.\<close>
  \<^item> \<open>Prelude\<close>, \<open>PyValues\<close>: exceptions, effects, loops, dictionaries; JSON values and the
    built-ins applied to them. The collections \<open>eff_defs\<close>, \<open>keeps_intros\<close> and \<open>triple_intros\<close>
    carry the proofs on computations.
  \<^item> \<open>HostBase\<close>, \<open>Worker\<close>: the run lock, the stop event, the waits, and every branch of
    \<^verbatim>\<open>WorkerHost.run\<close>. \<open>WorkerProps\<close>: the delays, and what one iteration does to the history of
    calls. \<open>WorkerRuns\<close>: the same for whole runs, the failure limit, termination and the lock.
    \<open>WorkerKeeps\<close>: the invariant rule for a host composed with a concrete intent and store.
  \<^item> \<open>AtomicFile\<close>: a directory whose data and entries reach the disk only with \<^verbatim>\<open>fsync\<close>, the
    three writers of the package on it, and the locale \<open>atomic_writer\<close> they all interpret. The
    lemmas quantify over every disk of a run, so over every power loss.
  \<^item> \<open>Checkpoints\<close>: the locale \<open>checkpoint_store\<close>, interpreted by the in-memory store and by
    the file store, and the at-least-once guarantee of the host over it.
  \<^item> \<open>Results\<close>, \<open>Fetch\<close>, \<open>FetchProps\<close>: cursors and outcomes (\<^verbatim>\<open>results.py\<close>), the planners and
    \<^verbatim>\<open>FetchIntent\<close> (\<^verbatim>\<open>fetch.py\<close>); the locale \<open>unit_walk\<close> is what the host needs of a planner,
    interpreted by \<^verbatim>\<open>SequencePlanner\<close>.
  \<^item> \<open>Continuous\<close>, \<open>ContinuousProps\<close>: \<^verbatim>\<open>continuous.py\<close>; numbering, limits, termination, errors.
  \<^item> \<open>FleetWorld\<close>, \<open>SupervisorLock\<close>, \<open>Process\<close>, \<open>Reconciler\<close>, \<open>ReconcilerProps\<close>,
    \<open>ControlPlane\<close>: the fleet as one supervisor runs it. \<open>exclusive_lock\<close> is the contract of the
    lock, \<open>process_actions\<close> that of the injected spawn and stop, interpreted by the default
    actions. \<open>SupervisorLock\<close> also has the lock between several processes as a step relation.
  \<^item> \<open>ExecGate\<close>: the wrapper on the bytes it reads, and the launch protocol as an inductive step
    relation of supervisor, wrappers and operator with a crash possible at every point.
  \<^item> \<open>PosixTree\<close>, \<open>LegacyClearance\<close>, \<open>LegacyInvariants\<close>, \<open>LegacyProps\<close>: tombstones written before
    tokens existed (\<^verbatim>\<open>inspect_legacy_process_tombstone\<close>, \<^verbatim>\<open>clear_legacy_process_tombstone\<close>), call by
    call on a file system of inodes in which every call may fail. The lemmas say of every tree a
    clearance goes through that the tombstone survives a power loss there and has not lost its
    name without a record.
  \<^item> \<open>LegacyFrames\<close>, \<open>LegacyPublish\<close>, \<open>LegacyStages\<close>, \<open>LegacyResume\<close>, \<open>LegacyLiveness\<close>: the same
    clearance gets through. \<open>does\<close> is one judgement for two readings, a run in which nothing fails
    returns and a run that is cut off leaves a tree with an invariant; \<open>frame\<close> says what a call
    leaves alone; \<open>stage\<close> lists how far a clearance can be. A clearance cut off at any call
    leaves a tree at one of the stages, and from each of them the same request completes.
  \<^item> \<open>RateLimit\<close>, \<open>Retry\<close>, \<open>Reports\<close>, \<open>Ingest\<close>, \<open>IngestProps\<close>: the token bucket, retries,
    coverage and ingest reports, and \<^verbatim>\<open>run_ingest\<close> from the resolved providers on.
  \<^item> \<open>Profiles\<close>, \<open>Builtins\<close>, \<open>Runtime\<close>, \<open>Commands\<close>: loading and validating a profile, the
    built-in providers with their two stores (locale \<open>record_store\<close>, interpreted by both), the
    whole of \<^verbatim>\<open>run_ingest\<close>, and the commands with the report files they write. \<open>Runtime\<close> carries a
    run of the built-in chain from its profile to its report and its store.
  \<^item> \<open>Window\<close>, \<open>Ledger\<close>, \<open>Registries\<close>: day windows, the discovery ledger on the directory of
    \<open>AtomicFile\<close>, the two registries with their contract \<open>keyed_registry\<close>.
  \<^item> \<open>Manifests\<close>, \<open>Journal\<close>, \<open>Adapters\<close>: \<^verbatim>\<open>manifest.py\<close> and \<^verbatim>\<open>inventory.py\<close>; the statements of
    \<^verbatim>\<open>journal.py\<close> on the table they create; \<^verbatim>\<open>execution.py\<close> and the HTTP routes and the engine
    backend of \<^verbatim>\<open>adapters/\<close>.

  \<^bold>\<open>Not modelled.\<close> JSON text (documents are the values it stands for, or not JSON), float
  rounding, infinities and NaN, and characters above code point 255. Threads, except in
  \<open>SupervisorLock\<close> (processes), \<open>ExecGate\<close> and \<open>RateLimit\<close>: elsewhere other threads act only
  where a host looks at shared objects. Providers of an ingest run that answer with values of
  other types than \<^verbatim>\<open>protocols.py\<close> declares are cut off with \<^verbatim>\<open>TypeError\<close>. What has no code to
  model: \<^verbatim>\<open>protocols.py\<close> and the package \<^verbatim>\<open>__init__\<close> files (declarations and re-exports). Packages
  the repository calls are parameters: argparse (commands start from the parsed arguments),
  FastAPI (a route raises the framework's exception), the workflow engine, and a YAML parser. SQLite is
  modelled as far as the statements of the package use it.
\<close>

end
